(* ===== verification/Prelude.thy ===== *)
theory Prelude
  imports Main
begin

text \<open>
  What every component of the development shares: the representation of time, of
  interpolated texts and of HTTP errors; the relational-table operations that the
  SQL statements of the orchestrator are translated to (\<open>SELECT .. WHERE\<close>,
  \<open>UPDATE .. WHERE\<close>, \<open>DELETE .. WHERE\<close> on lists of rows); SQL's treatment of
  \<open>NULL\<close> in comparisons; and a generic notion of reachability with the locale
  \<open>invariant_system\<close>, whose lemmas turn per-step facts into facts about every
  reachable state.
\<close>

section \<open>Collections of hints\<close>

named_theorems table_simps \<open>rewriting of table operations\<close>
named_theorems step_intros \<open>preservation facts, one per operation\<close>

section \<open>Values\<close>

text \<open>
  A \<^verbatim>\<open>datetime\<close> is its number of microseconds since the epoch (Python's resolution),
  a \<^verbatim>\<open>timedelta\<close> a number of microseconds. Identifiers and texts are strings.
\<close>

type_synonym time = int
type_synonym ident = string

definition seconds :: "int \<Rightarrow> int" where
  "seconds n = n * 1000000"

definition milliseconds :: "int \<Rightarrow> int" where
  "milliseconds n = n * 1000"

definition minutes :: "int \<Rightarrow> int" where
  "minutes n = seconds (60 * n)"

definition days :: "int \<Rightarrow> int" where
  "days n = seconds (86400 * n)"

lemmas time_units = seconds_def milliseconds_def minutes_def days_def

text \<open>An f-string is its template, with a hole for each interpolated value, and the values.\<close>

datatype arg = AInt int | AStr string | AOpt "string option" | AFloat "int \<times> int"

type_synonym fmt = "string \<times> arg list"

datatype http_error = HTTPException nat fmt

primrec status_code :: "http_error \<Rightarrow> nat" where
  "status_code (HTTPException c d) = c"

section \<open>Computations that may raise\<close>

text \<open>
  A raising computation is a sum with the exception on the left; \<open>and_then\<close> runs the rest when
  nothing was raised, \<open>guard_err\<close> is \<^verbatim>\<open>if not c: raise e\<close>, and \<open>traverse\<close> runs a raising
  computation along a list.
\<close>

definition and_then :: "'e + 'a \<Rightarrow> ('a \<Rightarrow> 'e + 'b) \<Rightarrow> 'e + 'b" where
  "and_then m f = (case m of Inl e \<Rightarrow> Inl e | Inr x \<Rightarrow> f x)"

definition guard_err :: "bool \<Rightarrow> 'e \<Rightarrow> 'e + 'a \<Rightarrow> 'e + 'a" where
  "guard_err c e k = (if c then k else Inl e)"

primrec traverse :: "('a \<Rightarrow> 'e + 'b) \<Rightarrow> 'a list \<Rightarrow> 'e + 'b list" where
  "traverse f [] = Inr []"
| "traverse f (x # xs) = and_then (f x) (\<lambda>y. and_then (traverse f xs) (\<lambda>ys. Inr (y # ys)))"

lemma and_then_Inr [simp]: "and_then m f = Inr y \<longleftrightarrow> (\<exists>x. m = Inr x \<and> f x = Inr y)"
  by (cases m) (auto simp: and_then_def)

lemma and_then_run [simp]: "and_then (Inr x) f = f x" "and_then (Inl e) f = Inl e"
  by (simp_all add: and_then_def)

lemma guard_err_Inr [simp]: "guard_err c e k = Inr y \<longleftrightarrow> c \<and> k = Inr y"
  by (simp add: guard_err_def)

lemma traverse_Inr: "traverse f xs = Inr ys \<longleftrightarrow> list_all2 (\<lambda>x y. f x = Inr y) xs ys"
  by (induction xs arbitrary: ys) (auto simp: list_all2_Cons1)

section \<open>Tables\<close>

text \<open>
  A table is the list of its rows, in the order of insertion. \<open>upd_where p f\<close> is
  \<^verbatim>\<open>UPDATE .. SET f WHERE p\<close>, \<open>del_where p\<close> is \<^verbatim>\<open>DELETE .. WHERE p\<close>,
  \<open>row_count p\<close> the row count that either statement reports (and \<^verbatim>\<open>SELECT count(..)\<close>);
  \<open>get_row key k\<close> is \<^verbatim>\<open>session.get(Model, k)\<close>.
\<close>

definition upd_where :: "('r \<Rightarrow> bool) \<Rightarrow> ('r \<Rightarrow> 'r) \<Rightarrow> 'r list \<Rightarrow> 'r list" where
  "upd_where p f rs = map (\<lambda>r. if p r then f r else r) rs"

definition del_where :: "('r \<Rightarrow> bool) \<Rightarrow> 'r list \<Rightarrow> 'r list" where
  "del_where p rs = filter (\<lambda>r. \<not> p r) rs"

definition row_count :: "('r \<Rightarrow> bool) \<Rightarrow> 'r list \<Rightarrow> nat" where
  "row_count p rs = length (filter p rs)"

definition get_row :: "('r \<Rightarrow> 'k) \<Rightarrow> 'k \<Rightarrow> 'r list \<Rightarrow> 'r option" where
  "get_row key k rs = List.find (\<lambda>r. key r = k) rs"

text \<open>SQL comparisons: a comparison with \<open>NULL\<close> is not true.\<close>

fun null_lt :: "int option \<Rightarrow> int \<Rightarrow> bool" where
  "null_lt None b = False"
| "null_lt (Some a) b = (a < b)"

fun coalesce :: "'a option \<Rightarrow> 'a \<Rightarrow> 'a" where
  "coalesce None d = d"
| "coalesce (Some a) d = a"

lemma null_lt_iff [simp]: "null_lt x b \<longleftrightarrow> (\<exists>a. x = Some a \<and> a < b)"
  by (cases x) auto

lemma upd_where_Nil [simp, table_simps]: "upd_where p f [] = []"
  by (simp add: upd_where_def)

lemma upd_where_Cons [simp, table_simps]:
  "upd_where p f (r # rs) = (if p r then f r else r) # upd_where p f rs"
  by (simp add: upd_where_def)

lemma length_upd_where [simp]: "length (upd_where p f rs) = length rs"
  by (simp add: upd_where_def)

lemma set_upd_where: "set (upd_where p f rs) = (\<lambda>r. if p r then f r else r) ` set rs"
  by (simp add: upd_where_def)

lemma in_upd_whereE:
  assumes "x \<in> set (upd_where p f rs)"
  obtains r where "r \<in> set rs" and "p r" and "x = f r"
        | r where "r \<in> set rs" and "\<not> p r" and "x = r"
  using assms by (auto simp: set_upd_where split: if_splits)

lemma in_upd_where_unchanged: "r \<in> set rs \<Longrightarrow> \<not> p r \<Longrightarrow> r \<in> set (upd_where p f rs)"
  unfolding set_upd_where by (rule image_eqI [of _ _ r]) simp_all

lemma in_upd_where_changed: "r \<in> set rs \<Longrightarrow> p r \<Longrightarrow> f r \<in> set (upd_where p f rs)"
  unfolding set_upd_where by (rule image_eqI [of _ _ r]) simp_all

lemma map_upd_where:
  assumes "\<And>r. r \<in> set rs \<Longrightarrow> p r \<Longrightarrow> key (f r) = key r"
  shows "map key (upd_where p f rs) = map key rs"
  using assms by (auto simp: upd_where_def)

lemma upd_where_none: "(\<And>r. r \<in> set rs \<Longrightarrow> \<not> p r) \<Longrightarrow> upd_where p f rs = rs"
  by (induction rs) auto

lemma upd_where_cong:
  "(\<And>r. r \<in> set rs \<Longrightarrow> p r = q r) \<Longrightarrow> (\<And>r. r \<in> set rs \<Longrightarrow> q r \<Longrightarrow> f r = g r) \<Longrightarrow>
     upd_where p f rs = upd_where q g rs"
  by (simp add: upd_where_def)

lemma upd_where_compose:
  "(\<And>r. p r \<Longrightarrow> \<not> q (f r)) \<Longrightarrow> upd_where q f (upd_where p f rs) = upd_where (\<lambda>r. p r \<or> q r) f rs"
  by (induction rs) auto

lemma upd_where_by_key:
  assumes "distinct (map key rs)"
  shows "upd_where (\<lambda>r. key r \<in> set (map key (filter p rs))) f rs = upd_where p f rs"
proof (rule upd_where_cong)
  fix r assume "r \<in> set rs"
  then show "(key r \<in> set (map key (filter p rs))) = p r"
    using assms by (auto dest: inj_onD simp: distinct_map)
qed simp

lemma set_del_where [simp, table_simps]: "set (del_where p rs) = {r \<in> set rs. \<not> p r}"
  by (auto simp: del_where_def)

lemma del_where_Nil [simp, table_simps]: "del_where p [] = []"
  by (simp add: del_where_def)

lemma distinct_del_where: "distinct (map key rs) \<Longrightarrow> distinct (map key (del_where p rs))"
  by (auto simp: del_where_def distinct_map inj_on_def)

lemma length_del_where: "length (del_where p rs) + row_count p rs = length rs"
  by (induction rs) (auto simp: del_where_def row_count_def)

lemma row_count_0 [simp]: "row_count p rs = 0 \<longleftrightarrow> (\<forall>r \<in> set rs. \<not> p r)"
  by (simp add: row_count_def filter_empty_conv)

lemma row_count_Cons: "row_count p (r # rs) = (if p r then Suc (row_count p rs) else row_count p rs)"
  by (simp add: row_count_def)

lemma row_count_Nil [simp]: "row_count p [] = 0"
  by (simp add: row_count_def)

lemma row_count_append [simp]: "row_count p (xs @ ys) = row_count p xs + row_count p ys"
  by (simp add: row_count_def)

lemma row_count_mono: "(\<And>r. r \<in> set rs \<Longrightarrow> p r \<Longrightarrow> q r) \<Longrightarrow> row_count p rs \<le> row_count q rs"
  by (induction rs) (auto simp: row_count_Cons le_SucI)

lemma row_count_upd_where_same:
  assumes "\<And>r. r \<in> set rs \<Longrightarrow> p r \<Longrightarrow> q (f r) \<longleftrightarrow> q r"
  shows "row_count q (upd_where p f rs) = row_count q rs"
  using assms by (induction rs) (auto simp: row_count_Cons)

lemma row_count_upd_where:
  "row_count q (upd_where p f rs) = row_count (\<lambda>r. if p r then q (f r) else q r) rs"
  by (induction rs) (auto simp: row_count_Cons)

lemma row_count_disjoint:
  "(\<And>r. r \<in> set rs \<Longrightarrow> \<not> (p r \<and> q r)) \<Longrightarrow> row_count (\<lambda>r. p r \<or> q r) rs = row_count p rs + row_count q rs"
  by (induction rs) (auto simp: row_count_Cons)

lemma row_count_cong:
  "(\<And>r. r \<in> set rs \<Longrightarrow> p r = q r) \<Longrightarrow> row_count p rs = row_count q rs"
  by (simp add: row_count_def cong: filter_cong)

lemma row_count_del_where_le: "row_count q (del_where p rs) \<le> row_count q rs"
  by (induction rs) (auto simp: row_count_Cons del_where_def)

lemma get_row_Some: "get_row key k rs = Some r \<Longrightarrow> r \<in> set rs \<and> key r = k"
  by (auto simp: get_row_def find_Some_iff)

lemma get_row_SomeD1 [dest]: "get_row key k rs = Some r \<Longrightarrow> r \<in> set rs"
  by (drule get_row_Some) simp

lemma get_row_key: "get_row key k rs = Some r \<Longrightarrow> key r = k"
  by (drule get_row_Some) simp

lemma get_row_None [simp]: "get_row key k rs = None \<longleftrightarrow> k \<notin> key ` set rs"
  by (auto simp: get_row_def find_None_iff)

lemma get_row_unique:
  assumes "distinct (map key rs)" and "r \<in> set rs"
  shows "get_row key (key r) rs = Some r"
proof -
  obtain r' where r': "get_row key (key r) rs = Some r'"
    using assms(2) by (cases "get_row key (key r) rs") auto
  then have "r' \<in> set rs" and "key r' = key r" by (auto dest: get_row_Some)
  with assms have "r' = r" by (auto simp: distinct_map inj_on_def)
  with r' show ?thesis by simp
qed

lemma distinct_key_eq:
  "distinct (map key rs) \<Longrightarrow> r \<in> set rs \<Longrightarrow> r' \<in> set rs \<Longrightarrow> key r = key r' \<Longrightarrow> r = r'"
  by (auto simp: distinct_map inj_on_def)

lemma get_row_del_where:
  "(\<And>r. key r = k \<Longrightarrow> \<not> p r) \<Longrightarrow> get_row key k (del_where p rs) = get_row key k rs"
  by (induction rs) (auto simp: get_row_def del_where_def)

lemma get_row_upd_where:
  "(\<And>r. p r \<Longrightarrow> key (f r) = key r) \<Longrightarrow>
     get_row key k (upd_where p f rs) = map_option (\<lambda>r. if p r then f r else r) (get_row key k rs)"
  by (induction rs) (auto simp: get_row_def)

lemma row_count_key:
  assumes "distinct (map key rs)" and "r \<in> set rs"
  shows "row_count (\<lambda>x. key x = key r \<and> q x) rs = (if q r then 1 else 0)"
  using assms
proof (induction rs)
  case Nil
  then show ?case by simp
next
  case (Cons x xs)
  show ?case
  proof (cases "x = r")
    case True
    with Cons.prems(1) have "row_count (\<lambda>x. key x = key r \<and> q x) xs = 0" by (auto simp: image_iff)
    with True show ?thesis by (simp only: row_count_Cons) simp
  next
    case False
    with Cons.prems have "r \<in> set xs" by simp
    moreover from this Cons.prems(1) have "key x \<noteq> key r" by force
    ultimately show ?thesis using Cons by (simp add: row_count_Cons)
  qed
qed

lemma row_count_flip_le:
  assumes "distinct (map key rs)" and "r \<in> set rs"
  shows "row_count q (upd_where (\<lambda>x. key x = key r \<and> p x) f rs) \<le> Suc (row_count q rs)"
  using assms
proof (induction rs)
  case Nil
  then show ?case by simp
next
  case (Cons x xs)
  show ?case
  proof (cases "x = r")
    case True
    have "upd_where (\<lambda>x. key x = key r \<and> p x) f xs = xs"
      using Cons.prems(1) True by (intro upd_where_none) (auto simp: image_iff)
    then show ?thesis using True by (simp add: row_count_Cons)
  next
    case False
    with Cons.prems have "r \<in> set xs" by simp
    moreover from this Cons.prems(1) have "key x \<noteq> key r" by force
    ultimately show ?thesis using Cons by (simp add: row_count_Cons)
  qed
qed

text \<open>
  Flipping one predicate on the rows with a given (unique) key: the count of rows with
  \<open>q\<close> grows by one exactly when the row with that key did not have \<open>q\<close>.
\<close>

lemma row_count_flip:
  assumes "distinct (map key rs)" and "r \<in> set rs" and "\<not> q r"
    and "\<And>r'. key (f r') = key r'" and "q (f r)"
  shows "row_count q (upd_where (\<lambda>x. key x = key r) f rs) = Suc (row_count q rs)"
  using assms(1,2)
proof (induction rs)
  case Nil
  then show ?case by simp
next
  case (Cons x xs)
  show ?case
  proof (cases "key x = key r")
    case True
    have "r = x"
    proof (rule ccontr)
      assume "r \<noteq> x"
      with Cons.prems(2) have "r \<in> set xs" by simp
      with True Cons.prems(1) show False by force
    qed
    have rest: "upd_where (\<lambda>y. key y = key r) f xs = xs"
      using Cons.prems(1) True by (intro upd_where_none) (auto simp: image_iff)
    show ?thesis using \<open>r = x\<close> rest assms(3,5) by (simp add: row_count_Cons)
  next
    case False
    then have "r \<noteq> x" by auto
    with Cons.prems have "r \<in> set xs" and "distinct (map key xs)" by auto
    with Cons.IH False show ?thesis by (simp add: row_count_Cons)
  qed
qed

section \<open>The identifier of the next row\<close>

text \<open>
  SQLite gives an \<^verbatim>\<open>INTEGER PRIMARY KEY\<close> the successor of the largest identifier in the
  table, so an identifier can come back after the row that had it was deleted.
\<close>

definition next_id :: "('r \<Rightarrow> int) \<Rightarrow> 'r list \<Rightarrow> int" where
  "next_id key rs = 1 + fold max (map key rs) 0"

lemma fold_max_ge: "(x::int) \<in> set xs \<Longrightarrow> x \<le> fold max xs a" and fold_max_init: "a \<le> fold max xs (a::int)"
proof -
  show init: "a \<le> fold max xs (a::int)" for a xs
  proof (induction xs arbitrary: a)
    case (Cons y ys)
    from Cons.IH [of "max y a"] show ?case by simp
  qed simp
  show "x \<in> set xs \<Longrightarrow> x \<le> fold max xs a"
  proof (induction xs arbitrary: a)
    case (Cons y ys)
    then show ?case using init [where a = "max y a" and xs = ys] by auto
  qed simp
qed

lemma next_id_fresh: "next_id key rs \<notin> key ` set rs"
proof
  assume "next_id key rs \<in> key ` set rs"
  then have "next_id key rs \<le> fold max (map key rs) 0"
    using fold_max_ge [of "next_id key rs" "map key rs" 0] by simp
  then show False by (simp add: next_id_def)
qed

lemma next_id_pos: "0 < next_id key rs"
  using fold_max_init [of 0 "map key rs"] by (simp add: next_id_def)

section \<open>Folding an operation over a list of arguments\<close>

lemma fold_invariant_P:
  assumes "P s" and "\<And>x s. x \<in> set xs \<Longrightarrow> P s \<Longrightarrow> P (f x s)"
  shows "P (fold f xs s)"
  using assms by (induction xs arbitrary: s) auto

lemma fold_keeps:
  assumes "\<And>x s. x \<in> set xs \<Longrightarrow> g (f x s) = g s"
  shows "g (fold f xs s) = g s"
  using assms by (induction xs arbitrary: s) auto

text \<open>The first occurrences of a list, in order: Python's \<^verbatim>\<open>list(dict.fromkeys(xs))\<close>.\<close>

fun dedup :: "'a list \<Rightarrow> 'a list" where
  "dedup [] = []"
| "dedup (x # xs) = x # filter (\<lambda>y. y \<noteq> x) (dedup xs)"

lemma set_dedup [simp]: "set (dedup xs) = set xs"
  by (induction xs) auto

lemma distinct_dedup [simp]: "distinct (dedup xs)"
  by (induction xs) auto

lemma dedup_distinct: "distinct xs \<Longrightarrow> dedup xs = xs"
  by (induction xs) (auto simp: filter_id_conv)

section \<open>Reachability and invariants\<close>

inductive reach :: "('s \<Rightarrow> bool) \<Rightarrow> ('s \<Rightarrow> 's \<Rightarrow> bool) \<Rightarrow> 's \<Rightarrow> bool"
  for init :: "'s \<Rightarrow> bool" and step :: "'s \<Rightarrow> 's \<Rightarrow> bool" where
  reach_init: "init s \<Longrightarrow> reach init step s"
| reach_step: "reach init step s \<Longrightarrow> step s t \<Longrightarrow> reach init step t"

text \<open>
  A transition system with an inductive invariant. The two laws are what a component
  has to provide; that the invariant holds in every reachable state, and along every
  further run, is proved once for all of them.
\<close>

locale invariant_system =
  fixes init :: "'s \<Rightarrow> bool"
    and step :: "'s \<Rightarrow> 's \<Rightarrow> bool"
    and inv :: "'s \<Rightarrow> bool"
  assumes inv_init: "init s \<Longrightarrow> inv s"
    and inv_step: "inv s \<Longrightarrow> step s t \<Longrightarrow> inv t"
begin

lemma reachable_inv: "reach init step s \<Longrightarrow> inv s"
  by (induction rule: reach.induct) (auto intro: inv_init inv_step)

lemma run_inv: "step\<^sup>*\<^sup>* s t \<Longrightarrow> inv s \<Longrightarrow> inv t"
  by (induction rule: rtranclp_induct) (auto intro: inv_step)

end

text \<open>
  A system with an invariant in which some condition, once it holds, is never lost.
\<close>

locale stable_system = invariant_system init step inv
  for init :: "'s \<Rightarrow> bool" and step :: "'s \<Rightarrow> 's \<Rightarrow> bool" and inv :: "'s \<Rightarrow> bool" +
  fixes stable :: "'k \<Rightarrow> 's \<Rightarrow> bool"
  assumes stable_step: "inv s \<Longrightarrow> stable k s \<Longrightarrow> step s t \<Longrightarrow> stable k t"
begin

lemma stable_run:
  assumes "step\<^sup>*\<^sup>* s t" and "inv s" and "stable k s"
  shows "stable k t"
  using assms
proof (induction rule: rtranclp_induct)
  case base
  then show ?case by blast
next
  case (step t u)
  then show ?case by (blast intro: stable_step run_inv)
qed

end

end
