(* ===== verification/StateMachine.thy ===== *)
theory StateMachine
  imports Prelude
begin

text \<open>
  The granule state machine, \<^verbatim>\<open>src/sathop/shared/state_machine.py\<close>: the twelve states
  and their table of flags, the wire events of a worker and the events only the
  orchestrator raises, the description of a transition (\<open>transition_result\<close>) and the
  pure function \<open>apply_event\<close> (\<^verbatim>\<open>apply\<close>). A \<open>StateConflict\<close> is the left branch of the result.
  The lemmas give the exact graph of transitions, what each transition does to the lease
  columns, and the paths of the pipeline.
\<close>

section \<open>States\<close>

datatype granule_state =
    PENDING | QUEUED | DOWNLOADING | DOWNLOADED | PROCESSING | PROCESSED
  | UPLOADING | UPLOADED | ACKED | DELETED | FAILED | BLACKLISTED

primrec state_value :: "granule_state \<Rightarrow> string" where
  "state_value PENDING = ''pending''"
| "state_value QUEUED = ''queued''"
| "state_value DOWNLOADING = ''downloading''"
| "state_value DOWNLOADED = ''downloaded''"
| "state_value PROCESSING = ''processing''"
| "state_value PROCESSED = ''processed''"
| "state_value UPLOADING = ''uploading''"
| "state_value UPLOADED = ''uploaded''"
| "state_value ACKED = ''acked''"
| "state_value DELETED = ''deleted''"
| "state_value FAILED = ''failed''"
| "state_value BLACKLISTED = ''blacklisted''"

definition all_states :: "granule_state list" where
  "all_states = [PENDING, QUEUED, DOWNLOADING, DOWNLOADED, PROCESSING, PROCESSED,
     UPLOADING, UPLOADED, ACKED, DELETED, FAILED, BLACKLISTED]"

text \<open>\<^verbatim>\<open>GranuleState(value)\<close>: the state of a column value, if there is one.\<close>

definition granule_state_of :: "string \<Rightarrow> granule_state option" where
  "granule_state_of v = List.find (\<lambda>st. state_value st = v) all_states"

lemma in_all_states [simp]: "st \<in> set all_states"
  by (cases st) (simp_all add: all_states_def)

lemma state_value_inject [simp]: "state_value a = state_value b \<longleftrightarrow> a = b"
  by (cases a; cases b) simp_all

lemma granule_state_roundtrip: "granule_state_of (state_value st) = Some st"
  by (cases st) (simp_all add: granule_state_of_def all_states_def)

instantiation granule_state :: linorder
begin

definition less_eq_granule_state :: "granule_state \<Rightarrow> granule_state \<Rightarrow> bool" where
  "less_eq_granule_state a b \<longleftrightarrow>
     length (takeWhile (\<lambda>x. x \<noteq> a) all_states) \<le> length (takeWhile (\<lambda>x. x \<noteq> b) all_states)"

definition less_granule_state :: "granule_state \<Rightarrow> granule_state \<Rightarrow> bool" where
  "less_granule_state a b \<longleftrightarrow> a \<le> b \<and> \<not> b \<le> (a :: granule_state)"

instance
proof
  fix x y z :: granule_state
  show "x < y \<longleftrightarrow> x \<le> y \<and> \<not> y \<le> x" by (rule less_granule_state_def)
  show "x \<le> x" by (simp add: less_eq_granule_state_def)
  show "x \<le> y \<Longrightarrow> y \<le> z \<Longrightarrow> x \<le> z" by (simp add: less_eq_granule_state_def)
  show "x \<le> y \<Longrightarrow> y \<le> x \<Longrightarrow> x = y"
    by (cases x; cases y) (simp_all add: less_eq_granule_state_def all_states_def)
  show "x \<le> y \<or> y \<le> x" by (auto simp: less_eq_granule_state_def)
qed

end

record state_spec =
  leased :: bool
  in_flight :: bool
  non_terminal :: bool
  active :: bool
  cancellable :: bool
  retryable :: bool
  predecessor :: "granule_state option"
  closes_stage :: "string option"

definition StateSpec :: state_spec where
  "StateSpec = \<lparr>leased = False, in_flight = False, non_terminal = False, active = False,
     cancellable = False, retryable = False, predecessor = None, closes_stage = None\<rparr>"

primrec STATE_TABLE :: "granule_state \<Rightarrow> state_spec" where
  "STATE_TABLE PENDING = StateSpec\<lparr>in_flight := True, non_terminal := True, cancellable := True\<rparr>"
| "STATE_TABLE QUEUED = StateSpec\<lparr>leased := True, in_flight := True, non_terminal := True,
     cancellable := True, predecessor := Some PENDING\<rparr>"
| "STATE_TABLE DOWNLOADING = StateSpec\<lparr>leased := True, in_flight := True, non_terminal := True,
     active := True, cancellable := True, predecessor := Some QUEUED,
     closes_stage := Some ''download_wait''\<rparr>"
| "STATE_TABLE DOWNLOADED = StateSpec\<lparr>leased := True, in_flight := True, non_terminal := True,
     active := True, cancellable := True, predecessor := Some DOWNLOADING,
     closes_stage := Some ''download''\<rparr>"
| "STATE_TABLE PROCESSING = StateSpec\<lparr>leased := True, in_flight := True, non_terminal := True,
     active := True, cancellable := True, predecessor := Some DOWNLOADED,
     closes_stage := Some ''process_wait''\<rparr>"
| "STATE_TABLE PROCESSED = StateSpec\<lparr>leased := True, in_flight := True, non_terminal := True,
     active := True, cancellable := True, predecessor := Some PROCESSING,
     closes_stage := Some ''process''\<rparr>"
| "STATE_TABLE UPLOADING = StateSpec\<lparr>leased := True, in_flight := True, non_terminal := True,
     active := True, cancellable := True, predecessor := Some PROCESSED,
     closes_stage := Some ''upload_wait''\<rparr>"
| "STATE_TABLE UPLOADED = StateSpec\<lparr>non_terminal := True, active := True,
     predecessor := Some UPLOADING, closes_stage := Some ''upload''\<rparr>"
| "STATE_TABLE ACKED = StateSpec\<lparr>non_terminal := True, closes_stage := Some ''deliver''\<rparr>"
| "STATE_TABLE DELETED = StateSpec"
| "STATE_TABLE FAILED = StateSpec\<lparr>retryable := True\<rparr>"
| "STATE_TABLE BLACKLISTED = StateSpec\<lparr>retryable := True\<rparr>"

definition values_where :: "(state_spec \<Rightarrow> bool) \<Rightarrow> granule_state list" where
  "values_where p = filter (\<lambda>st. p (STATE_TABLE st)) all_states"

definition LEASED_STATES :: "granule_state list" where
  "LEASED_STATES = values_where leased"

definition IN_FLIGHT_STATES :: "granule_state list" where
  "IN_FLIGHT_STATES = values_where in_flight"

definition NON_TERMINAL_STATES :: "granule_state list" where
  "NON_TERMINAL_STATES = values_where non_terminal"

definition ACTIVE_STATES :: "granule_state list" where
  "ACTIVE_STATES = values_where active"

definition CANCELLABLE_STATES :: "granule_state list" where
  "CANCELLABLE_STATES = values_where cancellable"

definition RETRYABLE_STATES :: "granule_state list" where
  "RETRYABLE_STATES = values_where retryable"

definition STATE_ORDER :: "granule_state list" where
  "STATE_ORDER = [PENDING, QUEUED, DOWNLOADING, DOWNLOADED, PROCESSING, PROCESSED,
     UPLOADING, UPLOADED, ACKED, DELETED]"

lemma values_where_iff: "st \<in> set (values_where p) \<longleftrightarrow> p (STATE_TABLE st)"
  by (simp add: values_where_def)

lemma leased_states_set:
  "st \<in> set LEASED_STATES \<longleftrightarrow>
     st = QUEUED \<or> st = DOWNLOADING \<or> st = DOWNLOADED \<or> st = PROCESSING \<or> st = PROCESSED \<or> st = UPLOADING"
  by (cases st) (simp_all add: LEASED_STATES_def values_where_iff StateSpec_def)

lemma leased_members [simp]:
  "QUEUED \<in> set LEASED_STATES" "DOWNLOADING \<in> set LEASED_STATES" "DOWNLOADED \<in> set LEASED_STATES"
  "PROCESSING \<in> set LEASED_STATES" "PROCESSED \<in> set LEASED_STATES" "UPLOADING \<in> set LEASED_STATES"
  "PENDING \<notin> set LEASED_STATES" "UPLOADED \<notin> set LEASED_STATES" "ACKED \<notin> set LEASED_STATES"
  "DELETED \<notin> set LEASED_STATES" "FAILED \<notin> set LEASED_STATES" "BLACKLISTED \<notin> set LEASED_STATES"
  by (simp_all add: leased_states_set)

lemma cancellable_states_set:
  "st \<in> set CANCELLABLE_STATES \<longleftrightarrow> st = PENDING \<or> st \<in> set LEASED_STATES"
  by (cases st) (simp_all add: CANCELLABLE_STATES_def LEASED_STATES_def values_where_iff StateSpec_def)

lemma in_flight_states_set:
  "st \<in> set IN_FLIGHT_STATES \<longleftrightarrow> st = PENDING \<or> st \<in> set LEASED_STATES"
  by (cases st) (simp_all add: IN_FLIGHT_STATES_def LEASED_STATES_def values_where_iff StateSpec_def)

lemma non_terminal_states_set:
  "st \<in> set NON_TERMINAL_STATES \<longleftrightarrow> st \<in> set IN_FLIGHT_STATES \<or> st = UPLOADED \<or> st = ACKED"
  by (cases st) (simp_all add: NON_TERMINAL_STATES_def IN_FLIGHT_STATES_def values_where_iff StateSpec_def)

lemma retryable_states_set:
  "st \<in> set RETRYABLE_STATES \<longleftrightarrow> st = FAILED \<or> st = BLACKLISTED"
  by (cases st) (simp_all add: RETRYABLE_STATES_def values_where_iff StateSpec_def)

lemmas state_sets = leased_states_set cancellable_states_set retryable_states_set

section \<open>Events\<close>

record uploaded_object =
  uo_key :: string
  uo_url :: string
  uo_sha256 :: string
  uo_size :: int

text \<open>
  \<open>granule_event\<close> is the discriminated union that rides \<^verbatim>\<open>POST /workers/events\<close>
  (the granule and the worker first, then the fields of the event). \<open>any_event\<close> adds the
  triggers that only the orchestrator raises: no value of the wire type is one of them.
\<close>

datatype granule_event =
    DownloadStarted ident ident
  | DownloadFinished ident ident
  | ProcessStarted ident ident "int option"
  | ProcessFinished ident ident
  | UploadStarted ident ident
  | UploadCompleted ident ident "uploaded_object list" (process_ms: "int option") (download_ms: "int option")
  | ProcessingFailed ident ident string (stdout: "string option") (stderr: "string option") "int option"
  | DeleteConfirmed ident ident "string list"

primrec event_granule :: "granule_event \<Rightarrow> ident" where
  "event_granule (DownloadStarted g w) = g"
| "event_granule (DownloadFinished g w) = g"
| "event_granule (ProcessStarted g w d) = g"
| "event_granule (ProcessFinished g w) = g"
| "event_granule (UploadStarted g w) = g"
| "event_granule (UploadCompleted g w os p d) = g"
| "event_granule (ProcessingFailed g w e so se x) = g"
| "event_granule (DeleteConfirmed g w ks) = g"

primrec event_worker :: "granule_event \<Rightarrow> ident" where
  "event_worker (DownloadStarted g w) = w"
| "event_worker (DownloadFinished g w) = w"
| "event_worker (ProcessStarted g w d) = w"
| "event_worker (ProcessFinished g w) = w"
| "event_worker (UploadStarted g w) = w"
| "event_worker (UploadCompleted g w os p d) = w"
| "event_worker (ProcessingFailed g w e so se x) = w"
| "event_worker (DeleteConfirmed g w ks) = w"

fun is_DeleteConfirmed :: "granule_event \<Rightarrow> bool" where
  "is_DeleteConfirmed (DeleteConfirmed g w ks) = True"
| "is_DeleteConfirmed _ = False"

datatype any_event =
    Wire granule_event
  | ClaimByLease ident ident time
  | RevokedByOperator ident
  | CancelGranule ident
  | RetryGranule ident
  | RequeueGranule ident
  | ObjectAcked ident
  | ReconcileOrphanDeleted ident

definition ERROR_CAP :: nat where
  "ERROR_CAP = 2000"

definition TAIL_CAP :: nat where
  "TAIL_CAP = 16000"

section \<open>Transitions\<close>

record stage_row =
  sr_stage :: string
  sr_started :: time
  sr_finished :: time

record object_row =
  or_worker :: ident
  or_key :: string
  or_url :: string
  or_sha256 :: string
  or_size :: int

record granule_snapshot =
  sn_state :: granule_state
  sn_updated_at :: time
  sn_retry_count :: int

datatype scope = BATCHES | WORKERS | RECEIVERS | BUNDLES | SHARED | EVENTS | ROLLOUT

text \<open>
  \<^verbatim>\<open>fields\<close> is a dictionary from column names to values; its entries are the constructors
  of \<open>field_update\<close>, in the order in which the code inserts them.
\<close>

datatype field_update =
    SetUpdatedAt time
  | SetLeasedBy "ident option"
  | SetLeaseExpiresAt "time option"
  | SetError "string option"
  | SetStdoutTail "string option"
  | SetStderrTail "string option"
  | SetRetryCount int

record transition_result =
  new_state :: granule_state
  tr_fields :: "field_update list"
  stage_rows :: "stage_row list"
  new_objects :: "object_row list"
  objects_deleted_at :: "time option"
  publish_scope :: "scope option"

definition TransitionResult :: "granule_state \<Rightarrow> field_update list \<Rightarrow> transition_result" where
  "TransitionResult st fs = \<lparr>new_state = st, tr_fields = fs, stage_rows = [], new_objects = [],
     objects_deleted_at = None, publish_scope = Some BATCHES\<rparr>"

datatype state_conflict =
    CannotTransition granule_state granule_state
  | NotAccepted string granule_state

definition stage_row_closing :: "granule_snapshot \<Rightarrow> granule_state \<Rightarrow> time \<Rightarrow> stage_row option" where
  "stage_row_closing snap target now =
     (case closes_stage (STATE_TABLE target) of
        None \<Rightarrow> None
      | Some closer \<Rightarrow> Some \<lparr>sr_stage = closer, sr_started = sn_updated_at snap, sr_finished = now\<rparr>)"

definition require_predecessor :: "granule_snapshot \<Rightarrow> granule_state \<Rightarrow> state_conflict + unit" where
  "require_predecessor snap target =
     (let expected = predecessor (STATE_TABLE target)
      in if expected = None \<or> Some (sn_state snap) \<noteq> expected
         then Inl (CannotTransition (sn_state snap) target) else Inr ())"

definition rows_of_option :: "'a option \<Rightarrow> 'a list" where
  "rows_of_option x = (case x of None \<Rightarrow> [] | Some r \<Rightarrow> [r])"

definition forward_stage_transition ::
  "granule_snapshot \<Rightarrow> granule_state \<Rightarrow> time \<Rightarrow> state_conflict + transition_result" where
  "forward_stage_transition snap target now =
     (case require_predecessor snap target of
        Inl e \<Rightarrow> Inl e
      | Inr _ \<Rightarrow> Inr ((TransitionResult target [SetUpdatedAt now])
                  \<lparr>stage_rows := rows_of_option (stage_row_closing snap target now)\<rparr>))"

definition measured_stage :: "string \<Rightarrow> int \<Rightarrow> time \<Rightarrow> stage_row" where
  "measured_stage stage duration_ms now =
     \<lparr>sr_stage = stage, sr_started = now - milliseconds (max 0 duration_ms), sr_finished = now\<rparr>"

definition resident_stage :: "granule_snapshot \<Rightarrow> string \<Rightarrow> time \<Rightarrow> stage_row" where
  "resident_stage snap stage now =
     \<lparr>sr_stage = stage, sr_started = sn_updated_at snap, sr_finished = now\<rparr>"

definition enter_processing ::
  "granule_snapshot \<Rightarrow> int option \<Rightarrow> time \<Rightarrow> state_conflict + transition_result" where
  "enter_processing snap dl_ms now =
     (if sn_state snap = DOWNLOADING then
        Inr ((TransitionResult PROCESSING [SetUpdatedAt now])
          \<lparr>stage_rows := [case dl_ms of Some ms \<Rightarrow> measured_stage ''download'' ms now
                                    | None \<Rightarrow> resident_stage snap ''download'' now]\<rparr>)
      else if sn_state snap = DOWNLOADED then
        Inr ((TransitionResult PROCESSING [SetUpdatedAt now])
          \<lparr>stage_rows := [resident_stage snap ''process_wait'' now]\<rparr>)
      else Inl (CannotTransition (sn_state snap) PROCESSING))"

definition uploaded_row :: "ident \<Rightarrow> uploaded_object \<Rightarrow> object_row" where
  "uploaded_row wid u = \<lparr>or_worker = wid, or_key = uo_key u, or_url = uo_url u,
     or_sha256 = uo_sha256 u, or_size = uo_size u\<rparr>"

definition fast_upload_rows ::
  "granule_snapshot \<Rightarrow> int option \<Rightarrow> int option \<Rightarrow> time \<Rightarrow> stage_row list" where
  "fast_upload_rows snap pr_ms dl_ms now =
     (let rows = (case dl_ms of Some ms \<Rightarrow> [measured_stage ''download'' ms now] | None \<Rightarrow> [])
               @ (case pr_ms of Some ms \<Rightarrow> [measured_stage ''process'' ms now] | None \<Rightarrow> [])
      in if rows = [] then [resident_stage snap ''process'' now] else rows)"

definition complete_upload ::
  "granule_snapshot \<Rightarrow> ident \<Rightarrow> uploaded_object list \<Rightarrow> int option \<Rightarrow> int option \<Rightarrow> time
     \<Rightarrow> state_conflict + transition_result" where
  "complete_upload snap wid objs pr_ms dl_ms now =
     (let finish = (\<lambda>rows. Inr ((TransitionResult UPLOADED
          [SetLeasedBy None, SetLeaseExpiresAt None, SetError None, SetStdoutTail None,
           SetStderrTail None, SetUpdatedAt now])
          \<lparr>stage_rows := rows, new_objects := map (uploaded_row wid) objs\<rparr>))
      in if sn_state snap = QUEUED then finish (fast_upload_rows snap pr_ms dl_ms now)
         else if sn_state snap = PROCESSING then
           finish [case pr_ms of Some ms \<Rightarrow> measured_stage ''process'' ms now
                               | None \<Rightarrow> resident_stage snap ''process'' now]
         else if sn_state snap = UPLOADING then finish [resident_stage snap ''upload'' now]
         else Inl (CannotTransition (sn_state snap) UPLOADED))"

definition processing_failed ::
  "granule_snapshot \<Rightarrow> string \<Rightarrow> string option \<Rightarrow> string option \<Rightarrow> time \<Rightarrow> int
     \<Rightarrow> state_conflict + transition_result" where
  "processing_failed snap err so se now max_retries =
     (if sn_state snap \<notin> set LEASED_STATES then Inl (NotAccepted ''failure'' (sn_state snap))
      else let new_retry = sn_retry_count snap + 1
        in Inr (TransitionResult (if new_retry \<ge> max_retries then BLACKLISTED else PENDING)
             ([SetRetryCount new_retry, SetError (Some (take ERROR_CAP err)), SetLeasedBy None,
               SetLeaseExpiresAt None, SetUpdatedAt now]
              @ (case so of Some t \<Rightarrow> [SetStdoutTail (Some (take TAIL_CAP t))] | None \<Rightarrow> [])
              @ (case se of Some t \<Rightarrow> [SetStderrTail (Some (take TAIL_CAP t))] | None \<Rightarrow> []))))"

definition delete_confirmed :: "time \<Rightarrow> transition_result" where
  "delete_confirmed now = (TransitionResult DELETED [SetUpdatedAt now])\<lparr>objects_deleted_at := Some now\<rparr>"

primrec apply_wire ::
  "granule_snapshot \<Rightarrow> granule_event \<Rightarrow> time \<Rightarrow> int \<Rightarrow> state_conflict + transition_result" where
  "apply_wire snap (DownloadStarted g w) now mr = forward_stage_transition snap DOWNLOADING now"
| "apply_wire snap (DownloadFinished g w) now mr = forward_stage_transition snap DOWNLOADED now"
| "apply_wire snap (ProcessStarted g w dl) now mr = enter_processing snap dl now"
| "apply_wire snap (ProcessFinished g w) now mr = forward_stage_transition snap PROCESSED now"
| "apply_wire snap (UploadStarted g w) now mr = forward_stage_transition snap UPLOADING now"
| "apply_wire snap (UploadCompleted g w os pr dl) now mr = complete_upload snap w os pr dl now"
| "apply_wire snap (ProcessingFailed g w e so se x) now mr = processing_failed snap e so se now mr"
| "apply_wire snap (DeleteConfirmed g w ks) now mr = Inr (delete_confirmed now)"

primrec apply_event ::
  "granule_snapshot \<Rightarrow> any_event \<Rightarrow> time \<Rightarrow> int \<Rightarrow> state_conflict + transition_result" where
  "apply_event snap (Wire e) now mr = apply_wire snap e now mr"
| "apply_event snap (ClaimByLease g w expires) now mr =
     (case require_predecessor snap QUEUED of
        Inl c \<Rightarrow> Inl c
      | Inr _ \<Rightarrow> Inr ((TransitionResult QUEUED
           [SetLeasedBy (Some w), SetLeaseExpiresAt (Some expires), SetUpdatedAt now])
           \<lparr>publish_scope := None\<rparr>))"
| "apply_event snap (RevokedByOperator g) now mr =
     (if sn_state snap \<notin> set LEASED_STATES then Inl (NotAccepted ''revoke'' (sn_state snap))
      else Inr ((TransitionResult PENDING
           [SetLeasedBy None, SetLeaseExpiresAt None, SetRetryCount (sn_retry_count snap + 1),
            SetUpdatedAt now])\<lparr>publish_scope := None\<rparr>))"
| "apply_event snap (CancelGranule g) now mr =
     (if sn_state snap \<notin> set CANCELLABLE_STATES then Inl (NotAccepted ''cancel'' (sn_state snap))
      else Inr (TransitionResult BLACKLISTED
           [SetLeasedBy None, SetLeaseExpiresAt None, SetUpdatedAt now]))"
| "apply_event snap (RetryGranule g) now mr =
     (if sn_state snap \<notin> set RETRYABLE_STATES then Inl (NotAccepted ''retry'' (sn_state snap))
      else Inr (TransitionResult PENDING
           [SetRetryCount 0, SetError None, SetLeasedBy None, SetLeaseExpiresAt None, SetUpdatedAt now]))"
| "apply_event snap (RequeueGranule g) now mr =
     (if sn_state snap \<noteq> UPLOADED then Inl (NotAccepted ''requeue'' (sn_state snap))
      else Inr (TransitionResult PENDING
           [SetRetryCount 0, SetError None, SetLeasedBy None, SetLeaseExpiresAt None, SetUpdatedAt now]))"
| "apply_event snap (ObjectAcked g) now mr =
     (if sn_state snap \<noteq> UPLOADED then Inl (NotAccepted ''object-ack'' (sn_state snap))
      else Inr ((TransitionResult ACKED [SetUpdatedAt now])
           \<lparr>stage_rows := rows_of_option (stage_row_closing snap ACKED now)\<rparr>))"
| "apply_event snap (ReconcileOrphanDeleted g) now mr =
     (if sn_state snap \<noteq> ACKED then Inl (NotAccepted ''orphan-reconcile'' (sn_state snap))
      else Inr (delete_confirmed now))"

end
