(* ===== verification/Float64.thy ===== *)
theory Float64
  imports Complex_Main "HOL-Library.Log_Nat"
begin

text \<open>
  Python's \<^verbatim>\<open>float\<close>: the orchestrator computes stage durations, delivery rates and wave sizes
  in binary64. \<open>f64 x\<close> is the double nearest to a positive rational \<open>x\<close> (53-bit significand,
  ties to even); the magnitudes here are far from the exponent bounds, so neither overflow
  nor subnormals are represented. The lemmas bound the relative error of one rounding.
\<close>

section \<open>Rounding to an integer\<close>

definition round_half_even :: "rat \<Rightarrow> int" where
  "round_half_even y =
     (let f = \<lfloor>y\<rfloor>; r = y - of_int f
      in if r < 1/2 then f else if r > 1/2 then f + 1 else if even f then f else f + 1)"

lemma round_half_even_error: "\<bar>of_int (round_half_even y) - y\<bar> \<le> 1/2"
proof -
  have "of_int \<lfloor>y\<rfloor> \<le> y" and "y < of_int \<lfloor>y\<rfloor> + 1" by linarith+
  then show ?thesis by (auto simp: round_half_even_def Let_def abs_le_iff)
qed

section \<open>The binary exponent of a rational\<close>

definition exponent2 :: "rat \<Rightarrow> int" where
  "exponent2 x =
     (let (p, q) = quotient_of x; k = bitlen p - bitlen q
      in if 2 powi k \<le> x then k else k - 1)"

lemma bitlen_lower: "0 < p \<Longrightarrow> (2::rat) powi (bitlen p - 1) \<le> of_int p"
proof -
  assume p: "0 < p"
  then have b: "2 ^ nat (bitlen p - 1) \<le> p" and "0 \<le> bitlen p - 1"
    using bitlen_bounds [OF p] bitlen_def by (auto simp: bitlen_def floorlog_def)
  from b have "(2::rat) ^ nat (bitlen p - 1) \<le> of_int p"
    by (metis of_int_le_iff of_int_numeral of_int_power)
  with \<open>0 \<le> bitlen p - 1\<close> show ?thesis by (simp add: power_int_def)
qed

lemma bitlen_upper: "0 < q \<Longrightarrow> of_int q \<le> (2::rat) powi (bitlen q)"
proof -
  assume q: "0 < q"
  then have b: "q < 2 ^ nat (bitlen q)" and "0 \<le> bitlen q"
    using bitlen_bounds [OF q] by (auto simp: bitlen_def)
  from b have "of_int q \<le> (2::rat) ^ nat (bitlen q)"
    by (metis less_imp_le of_int_le_iff of_int_numeral of_int_power)
  with \<open>0 \<le> bitlen q\<close> show ?thesis by (simp add: power_int_def)
qed

lemma exponent2_le:
  assumes "0 < x"
  shows "2 powi (exponent2 x) \<le> x"
proof -
  obtain p q where pq: "quotient_of x = (p, q)" by fastforce
  then have q: "0 < q" and x: "x = of_int p / of_int q"
    by (auto dest: quotient_of_denom_pos quotient_of_div)
  with assms have p: "0 < p" by (simp add: zero_less_divide_iff)
  have "(2::rat) powi (bitlen p - bitlen q - 1) = 2 powi (bitlen p - 1) / 2 powi (bitlen q)"
    by (simp add: power_int_diff [symmetric] algebra_simps)
  also have "\<dots> \<le> of_int p / of_int q"
    using bitlen_lower [OF p] bitlen_upper [OF q] p q by (intro frac_le) auto
  finally have "(2::rat) powi (bitlen p - bitlen q - 1) \<le> x" by (simp only: x)
  then show ?thesis by (simp add: exponent2_def pq Let_def)
qed

section \<open>The nearest double\<close>

definition f64 :: "rat \<Rightarrow> rat" where
  "f64 x = (let u = 2 powi (exponent2 x - 52) in of_int (round_half_even (x / u)) * u)"

lemma f64_error:
  assumes "0 < x"
  shows "\<bar>f64 x - x\<bar> \<le> x / 2 ^ 53"
proof -
  let ?u = "(2::rat) powi (exponent2 x - 52)"
  have u: "0 < ?u" by (simp add: zero_less_power_int)
  have "?u = 2 powi (exponent2 x) / 2 ^ 52" by (simp add: power_int_diff)
  with exponent2_le [OF assms] have ux: "?u \<le> x / 2 ^ 52" by (simp add: divide_right_mono)
  have "f64 x - x = (of_int (round_half_even (x / ?u)) - x / ?u) * ?u"
    using u by (simp add: f64_def Let_def left_diff_distrib)
  then have "\<bar>f64 x - x\<bar> = \<bar>of_int (round_half_even (x / ?u)) - x / ?u\<bar> * ?u"
    using u by (simp add: abs_mult)
  also have "\<dots> \<le> 1/2 * ?u" using round_half_even_error u by (intro mult_right_mono) auto
  also have "\<dots> \<le> x / 2 ^ 53" using ux by simp
  finally show ?thesis .
qed

lemma f64_bounds:
  assumes "0 < x"
  shows "x - x / 2 ^ 53 \<le> f64 x" and "f64 x \<le> x + x / 2 ^ 53"
  using f64_error [OF assms] unfolding abs_le_iff by linarith+

lemma f64_pos: "0 < x \<Longrightarrow> 0 < f64 x"
  using f64_bounds(1) [of x] by simp

text \<open>The truncation of a product of two roundings, at a distance below one unit.\<close>

lemma two_roundings:
  fixes a y z :: rat
  assumes "0 < a"
  shows "a - a / 2 ^ 53 \<le> y \<Longrightarrow> y - y / 2 ^ 53 \<le> z \<Longrightarrow> a - a / 2 ^ 51 \<le> z"
    and "y \<le> a + a / 2 ^ 53 \<Longrightarrow> z \<le> y + y / 2 ^ 53 \<Longrightarrow> z \<le> a + a / 2 ^ 51"
  using assms by (simp_all add: field_simps)

lemma f64_mult_bounds:
  assumes "0 < x" and "0 < c"
  shows "x * c - x * c / 2 ^ 51 \<le> f64 (f64 x * c)"
    and "f64 (f64 x * c) \<le> x * c + x * c / 2 ^ 51"
proof -
  let ?y = "f64 x * c"
  have y: "0 < ?y" using assms by (simp add: f64_pos)
  have lo: "x * c - x * c / 2 ^ 53 \<le> ?y" and hi: "?y \<le> x * c + x * c / 2 ^ 53"
    using f64_bounds [OF assms(1)] mult_right_mono [of _ _ c] assms(2)
    by (auto simp: algebra_simps)
  have pos: "0 < x * c" using assms by simp
  show "x * c - x * c / 2 ^ 51 \<le> f64 ?y" by (rule two_roundings(1) [OF pos lo f64_bounds(1) [OF y]])
  show "f64 ?y \<le> x * c + x * c / 2 ^ 51" by (rule two_roundings(2) [OF pos hi f64_bounds(2) [OF y]])
qed

end
