(* ===== verification/Database.thy ===== *)
theory Database
  imports StateMachine Float64 PyValue "HOL-Library.AList"
begin

text \<open>
  The orchestrator's state: the tables of \<^verbatim>\<open>src/sathop/orchestrator/db.py\<close> as lists of
  records, and what a process keeps in memory beside them (the events logged by the open
  transaction, the committed event feed of \<^verbatim>\<open>pubsub.py\<close>, the progress store of
  \<^verbatim>\<open>api/progress.py\<close>, the heartbeat telemetry of \<^verbatim>\<open>telemetry.py\<close>, the nudges published).
  A handler maps the state to an error, which discards its transaction, or to a response
  and the next state. All readings of the clock in one handler are the same instant.
\<close>

section \<open>Rows\<close>

record credential =
  cr_name :: string
  cr_scheme :: string
  cr_username :: "string option"
  cr_password :: "string option"
  cr_token :: "string option"

record input_spec =
  in_url :: string
  in_filename :: string
  in_product :: string
  in_size :: "int option"
  in_checksum :: "string option"
  in_credential :: "string option"

text \<open>
  The columns of a worker or receiver row that a heartbeat reports
  (\<^verbatim>\<open>telemetry._WORKER_TELEM_FIELDS\<close>): in memory under SQLite, on the row under Postgres.
\<close>

record worker_telemetry =
  wt_last_seen :: time
  wt_disk_used_gb :: rat
  wt_disk_total_gb :: rat
  wt_cpu_percent :: rat
  wt_mem_percent :: rat
  wt_monthly_egress_gb :: rat
  wt_pending_download :: int
  wt_downloading :: int
  wt_pending_processing :: int
  wt_processing :: int
  wt_pending_upload :: int
  wt_uploading :: int
  wt_paused :: bool

record receiver_telemetry =
  rt_last_seen :: time
  rt_disk_free_gb :: rat
  rt_queue_pulling :: int
  rt_recent_pull_bps :: int

record worker =
  wk_id :: ident
  wk_version :: string
  wk_capacity :: int
  wk_public_url :: "string option"
  wk_telemetry :: worker_telemetry
  wk_download_concurrency :: "int option"
  wk_process_concurrency :: "int option"
  wk_live_download :: "int option"
  wk_live_process :: "int option"
  wk_ca_pem :: "string option"
  wk_update_requested_at :: "time option"
  wk_update_to_version :: "string option"
  wk_operator_paused :: "bool option"
  wk_gc_requested_at :: "time option"
  wk_removed_at :: "time option"

record receiver =
  rc_id :: ident
  rc_version :: string
  rc_platform :: string
  rc_telemetry :: receiver_telemetry
  rc_enabled :: bool
  rc_restart_requested_at :: "time option"

record rollout =
  ro_id :: int
  ro_target_version :: string
  ro_channel :: "string option"
  ro_phase :: string
  ro_wave_index :: int
  ro_member_ids :: "ident list"
  ro_wave_started_at :: "time option"
  ro_wave_deadline_at :: "time option"
  ro_canary_count :: int
  ro_batch_pct :: rat
  ro_wave_timeout_sec :: int
  ro_halt_reason :: "fmt option"
  ro_started_by :: "string option"
  ro_started_at :: time
  ro_updated_at :: time
  ro_finished_at :: "time option"

record batch =
  bt_id :: ident
  bt_name :: string
  bt_bundle_ref :: string
  bt_target_receiver :: "ident option"
  bt_status :: string
  bt_created_at :: time
  bt_execution_env :: "(string \<times> string) list"
  bt_credentials :: "(string \<times> credential) list"
  bt_delivered_count :: "int option"

record delivery_record =
  dr_id :: int
  dr_identity :: string
  dr_source_object :: int
  dr_uploaded_at :: time
  dr_batch :: ident
  dr_batch_name :: string
  dr_bundle_ref :: string
  dr_granule :: ident
  dr_object_key :: string
  dr_sha256 :: string
  dr_size :: int
  dr_receiver :: "ident option"
  dr_delivered_at :: time

record granule =
  gr_id :: ident
  gr_batch :: ident
  gr_state :: granule_state
  gr_inputs :: "input_spec list"
  gr_meta :: "(string \<times> pyval) list"
  gr_leased_by :: "ident option"
  gr_lease_expires_at :: "time option"
  gr_error :: "string option"
  gr_stdout_tail :: "string option"
  gr_stderr_tail :: "string option"
  gr_retry_count :: int
  gr_created_at :: time
  gr_updated_at :: time

record gobject =
  ob_id :: int
  ob_granule :: ident
  ob_worker :: ident
  ob_key :: string
  ob_url :: string
  ob_sha256 :: string
  ob_size :: int
  ob_uploaded_at :: time
  ob_acked_at :: "time option"
  ob_acked_by :: "ident option"
  ob_deleted_at :: "time option"
  ob_failed_pulls :: "int option"
  ob_pull_lease_by :: "ident option"
  ob_pull_lease_expires_at :: "time option"

record stage_timing =
  st_id :: int
  st_granule :: ident
  st_batch :: ident
  st_stage :: string
  st_started_at :: time
  st_finished_at :: time
  st_duration_ms :: int

record bundle_row =
  bn_name :: string
  bn_version :: string
  bn_sha256 :: string
  bn_size :: int
  bn_manifest :: pyval
  bn_description :: "string option"
  bn_uploaded_at :: time

record shared_file =
  sf_name :: string
  sf_sha256 :: string
  sf_size :: int
  sf_description :: "string option"
  sf_uploaded_at :: time

section \<open>In-memory companions of the tables\<close>

record event_draft =
  ed_level :: string
  ed_source :: ident
  ed_granule :: "ident option"
  ed_batch :: "ident option"
  ed_message :: fmt

record mem_event =
  me_id :: int
  me_ts :: time
  me_draft :: event_draft

record progress_entry =
  pe_granule :: ident
  pe_batch :: ident
  pe_ts :: time
  pe_step :: string
  pe_pct :: "rat option"
  pe_detail :: "string option"

record progress_store =
  by_granule :: "(ident \<times> progress_entry list) list"
  latest_by_batch :: "(ident \<times> (ident \<times> progress_entry) list) list"

record settings =
  is_postgres :: bool
  max_retries :: int
  max_pull_failures :: int
  pull_lease_sec :: int
  max_inflight_per_worker :: int
  min_worker_version :: string
  default_worker_detail :: string
  acked_orphan_grace_sec :: int
  retain_events_days :: int
  retain_deleted_days :: int
  rollout_canary_count :: int
  rollout_batch_pct :: rat
  rollout_wave_timeout_sec :: int

text \<open>The bounds that \<^verbatim>\<open>config.py\<close> enforces with \<^verbatim>\<open>max(1, ..)\<close>.\<close>

definition valid_settings :: "settings \<Rightarrow> bool" where
  "valid_settings cfg \<longleftrightarrow> 1 \<le> max_retries cfg \<and> 1 \<le> max_pull_failures cfg \<and> 1 \<le> pull_lease_sec cfg
     \<and> 1 \<le> rollout_canary_count cfg"

record orch =
  workers :: "worker list"
  receivers :: "receiver list"
  rollouts :: "rollout list"
  batches :: "batch list"
  deliveries :: "delivery_record list"
  granules :: "granule list"
  objects :: "gobject list"
  timings :: "stage_timing list"
  bundles :: "bundle_row list"
  shared_files :: "shared_file list"
  app_settings :: "(string \<times> string) list"
  pending_events :: "event_draft list"
  feed :: "mem_event list"
  next_event_id :: int
  progress :: progress_store
  worker_telem :: "(ident \<times> worker_telemetry) list"
  receiver_telem :: "(ident \<times> receiver_telemetry) list"
  outbox :: "scope list"

definition empty_orch :: orch where
  "empty_orch = \<lparr>workers = [], receivers = [], rollouts = [], batches = [], deliveries = [],
     granules = [], objects = [], timings = [], bundles = [], shared_files = [], app_settings = [],
     pending_events = [], feed = [], next_event_id = 1,
     progress = \<lparr>by_granule = [], latest_by_batch = []\<rparr>,
     worker_telem = [], receiver_telem = [], outbox = []\<rparr>"

type_synonym 'a handler = "orch \<Rightarrow> http_error + ('a \<times> orch)"

section \<open>Lookups\<close>

definition get_worker :: "ident \<Rightarrow> orch \<Rightarrow> worker option" where
  "get_worker k d = get_row wk_id k (workers d)"

definition get_receiver :: "ident \<Rightarrow> orch \<Rightarrow> receiver option" where
  "get_receiver k d = get_row rc_id k (receivers d)"

definition get_batch :: "ident \<Rightarrow> orch \<Rightarrow> batch option" where
  "get_batch k d = get_row bt_id k (batches d)"

definition get_granule :: "ident \<Rightarrow> orch \<Rightarrow> granule option" where
  "get_granule k d = get_row gr_id k (granules d)"

definition get_object :: "int \<Rightarrow> orch \<Rightarrow> gobject option" where
  "get_object k d = get_row ob_id k (objects d)"

definition get_bundle :: "string \<Rightarrow> string \<Rightarrow> orch \<Rightarrow> bundle_row option" where
  "get_bundle n v d = get_row (\<lambda>b. (bn_name b, bn_version b)) (n, v) (bundles d)"

lemmas get_defs = get_worker_def get_receiver_def get_batch_def get_granule_def get_object_def
  get_bundle_def

text \<open>\<^verbatim>\<open>_helpers.get_or_404\<close>, on the result of a lookup.\<close>

definition get_or_404 :: "'r option \<Rightarrow> string \<Rightarrow> http_error + 'r" where
  "get_or_404 r detail = (case r of None \<Rightarrow> Inl (HTTPException 404 (detail, [])) | Some x \<Rightarrow> Inr x)"

lemma get_or_404_iff [simp]:
  "get_or_404 r dt = Inr x \<longleftrightarrow> r = Some x" "get_or_404 r dt = Inl e \<longleftrightarrow> r = None \<and> e = HTTPException 404 (dt, [])"
  by (auto simp: get_or_404_def split: option.splits)

section \<open>SQL filters shared by the handlers\<close>

text \<open>\<^verbatim>\<open>db.not_in_paused_batch\<close>.\<close>

definition not_in_paused_batch :: "orch \<Rightarrow> granule \<Rightarrow> bool" where
  "not_in_paused_batch d g \<longleftrightarrow>
     gr_batch g \<notin> set (map bt_id (filter (\<lambda>b. bt_status b = ''paused'') (batches d)))"

section \<open>Runtime settings\<close>

definition WORKER_DETAIL_KEY :: string where
  "WORKER_DETAIL_KEY = ''worker_detail''"

definition get_setting :: "string \<Rightarrow> orch \<Rightarrow> string option" where
  "get_setting k d = map_of (app_settings d) k"

definition set_setting :: "string \<Rightarrow> string \<Rightarrow> orch \<Rightarrow> orch" where
  "set_setting k v d = d\<lparr>app_settings := AList.update k v (app_settings d)\<rparr>"

definition get_worker_detail :: "settings \<Rightarrow> orch \<Rightarrow> string" where
  "get_worker_detail cfg d =
     (case get_setting WORKER_DETAIL_KEY d of
        None \<Rightarrow> default_worker_detail cfg
      | Some v \<Rightarrow> if v \<in> {''verbose'', ''fast''} then v else default_worker_detail cfg)"

lemma get_set_setting: "get_setting k (set_setting k' v d) = (if k = k' then Some v else get_setting k d)"
  by (simp add: get_setting_def set_setting_def update_conv')

section \<open>The event log of a transaction, commit and publication\<close>

definition log_event ::
  "string \<Rightarrow> ident \<Rightarrow> fmt \<Rightarrow> ident option \<Rightarrow> ident option \<Rightarrow> orch \<Rightarrow> orch" where
  "log_event level source msg gid bid d =
     d\<lparr>pending_events := pending_events d @
         [\<lparr>ed_level = level, ed_source = source, ed_granule = gid, ed_batch = bid, ed_message = msg\<rparr>]\<rparr>"

fun stamp_events :: "time \<Rightarrow> int \<Rightarrow> event_draft list \<Rightarrow> mem_event list" where
  "stamp_events now n [] = []"
| "stamp_events now n (e # es) = \<lparr>me_id = n, me_ts = now, me_draft = e\<rparr> # stamp_events now (n + 1) es"

definition MAX_EVENTS :: nat where
  "MAX_EVENTS = 20000"

text \<open>A \<^verbatim>\<open>deque(maxlen=..)\<close> drops from the left what does not fit.\<close>

definition push_events :: "mem_event list \<Rightarrow> mem_event list \<Rightarrow> mem_event list" where
  "push_events st es = (let all = st @ es in drop (length all - MAX_EVENTS) all)"

text \<open>
  \<^verbatim>\<open>pubsub.commit_and_publish\<close>: the events of the transaction reach the feed, and each scope
  is nudged once, in order, with \<^verbatim>\<open>EVENTS\<close> last when there were events.
\<close>

definition commit_and_publish :: "time \<Rightarrow> scope option list \<Rightarrow> orch \<Rightarrow> orch" where
  "commit_and_publish now scopes d =
     (let evs = pending_events d;
          extra = (if evs = [] then [] else [EVENTS])
      in d\<lparr>pending_events := [],
           feed := push_events (feed d) (stamp_events now (next_event_id d) evs),
           next_event_id := next_event_id d + int (length evs),
           outbox := outbox d @ dedup (List.map_filter id scopes @ extra)\<rparr>)"

section \<open>Progress\<close>

definition evict_granule_store :: "ident \<Rightarrow> progress_store \<Rightarrow> progress_store" where
  "evict_granule_store gid p =
     (let entries = map_of (by_granule p) gid;
          p1 = p\<lparr>by_granule := AList.delete gid (by_granule p)\<rparr>
      in case entries of
           None \<Rightarrow> p1
         | Some [] \<Rightarrow> p1
         | Some (e # _) \<Rightarrow>
             (case map_of (latest_by_batch p) (pe_batch e) of
                None \<Rightarrow> p1
              | Some m \<Rightarrow>
                  (let m' = AList.delete gid m
                   in p1\<lparr>latest_by_batch :=
                        (if m' = [] then AList.delete (pe_batch e) (latest_by_batch p)
                         else AList.update (pe_batch e) m' (latest_by_batch p))\<rparr>)))"

definition evict_granule :: "ident \<Rightarrow> orch \<Rightarrow> orch" where
  "evict_granule gid d = d\<lparr>progress := evict_granule_store gid (progress d)\<rparr>"

definition evict_granules :: "ident list \<Rightarrow> orch \<Rightarrow> orch" where
  "evict_granules gids d = fold evict_granule gids d"

section \<open>Frame rules\<close>

text \<open>
  Logging, committing and evicting leave the tables alone: these facts are in the simpset so
  that a proof about a table does not see them.
\<close>

lemma log_event_frame [simp]:
  "workers (log_event l s m g b d) = workers d" "receivers (log_event l s m g b d) = receivers d"
  "rollouts (log_event l s m g b d) = rollouts d" "batches (log_event l s m g b d) = batches d"
  "deliveries (log_event l s m g b d) = deliveries d" "granules (log_event l s m g b d) = granules d"
  "objects (log_event l s m g b d) = objects d" "timings (log_event l s m g b d) = timings d"
  "bundles (log_event l s m g b d) = bundles d" "shared_files (log_event l s m g b d) = shared_files d"
  "app_settings (log_event l s m g b d) = app_settings d" "progress (log_event l s m g b d) = progress d"
  "worker_telem (log_event l s m g b d) = worker_telem d" "outbox (log_event l s m g b d) = outbox d"
  "feed (log_event l s m g b d) = feed d"
  by (simp_all add: log_event_def)

lemma commit_frame [simp]:
  "workers (commit_and_publish n sc d) = workers d" "receivers (commit_and_publish n sc d) = receivers d"
  "rollouts (commit_and_publish n sc d) = rollouts d" "batches (commit_and_publish n sc d) = batches d"
  "deliveries (commit_and_publish n sc d) = deliveries d" "granules (commit_and_publish n sc d) = granules d"
  "objects (commit_and_publish n sc d) = objects d" "timings (commit_and_publish n sc d) = timings d"
  "bundles (commit_and_publish n sc d) = bundles d" "shared_files (commit_and_publish n sc d) = shared_files d"
  "app_settings (commit_and_publish n sc d) = app_settings d" "progress (commit_and_publish n sc d) = progress d"
  "worker_telem (commit_and_publish n sc d) = worker_telem d" "pending_events (commit_and_publish n sc d) = []"
  by (simp_all add: commit_and_publish_def Let_def)

lemma evict_frame [simp]:
  "workers (evict_granule k d) = workers d" "receivers (evict_granule k d) = receivers d"
  "rollouts (evict_granule k d) = rollouts d" "batches (evict_granule k d) = batches d"
  "deliveries (evict_granule k d) = deliveries d" "granules (evict_granule k d) = granules d"
  "objects (evict_granule k d) = objects d" "timings (evict_granule k d) = timings d"
  "bundles (evict_granule k d) = bundles d" "shared_files (evict_granule k d) = shared_files d"
  "worker_telem (evict_granule k d) = worker_telem d" "pending_events (evict_granule k d) = pending_events d"
  by (simp_all add: evict_granule_def)

lemma evicts_frame [simp]:
  "workers (evict_granules ks d) = workers d" "receivers (evict_granules ks d) = receivers d"
  "rollouts (evict_granules ks d) = rollouts d" "batches (evict_granules ks d) = batches d"
  "deliveries (evict_granules ks d) = deliveries d" "granules (evict_granules ks d) = granules d"
  "objects (evict_granules ks d) = objects d" "timings (evict_granules ks d) = timings d"
  "bundles (evict_granules ks d) = bundles d" "shared_files (evict_granules ks d) = shared_files d"
  by (simp_all add: evict_granules_def fold_keeps)

end
