(* ===== verification/Transition.thy ===== *)
theory Transition
  imports Database
begin

text \<open>
  The applier of a transition, \<^verbatim>\<open>src/sathop/orchestrator/api/_transition.py\<close>: a snapshot of the
  granule row, the pure state machine, and the translation of its result into mutations of
  the tables (the rowcount-gated delete path included); and the SQL predicates on objects of
  \<^verbatim>\<open>api/_helpers.py\<close>. The lemmas describe the effect of one transition on every table.
\<close>

section \<open>Snapshot and row update\<close>

definition snapshot_of :: "granule \<Rightarrow> granule_snapshot" where
  "snapshot_of g = \<lparr>sn_state = gr_state g, sn_updated_at = gr_updated_at g, sn_retry_count = gr_retry_count g\<rparr>"

primrec set_field :: "field_update \<Rightarrow> granule \<Rightarrow> granule" where
  "set_field (SetUpdatedAt t) g = g\<lparr>gr_updated_at := t\<rparr>"
| "set_field (SetLeasedBy w) g = g\<lparr>gr_leased_by := w\<rparr>"
| "set_field (SetLeaseExpiresAt t) g = g\<lparr>gr_lease_expires_at := t\<rparr>"
| "set_field (SetError e) g = g\<lparr>gr_error := e\<rparr>"
| "set_field (SetStdoutTail t) g = g\<lparr>gr_stdout_tail := t\<rparr>"
| "set_field (SetStderrTail t) g = g\<lparr>gr_stderr_tail := t\<rparr>"
| "set_field (SetRetryCount n) g = g\<lparr>gr_retry_count := n\<rparr>"

text \<open>The row after \<^verbatim>\<open>granule.state = ..\<close> and the \<^verbatim>\<open>setattr\<close> loop.\<close>

definition transition_row :: "transition_result \<Rightarrow> granule \<Rightarrow> granule" where
  "transition_row r g = fold set_field (tr_fields r) (g\<lparr>gr_state := new_state r\<rparr>)"

text \<open>\<^verbatim>\<open>result.fields.get("updated_at")\<close>.\<close>

fun updated_at_of :: "field_update list \<Rightarrow> time option" where
  "updated_at_of [] = None"
| "updated_at_of (SetUpdatedAt t # fs) = Some t"
| "updated_at_of (_ # fs) = updated_at_of fs"

section \<open>Rows added by a transition\<close>

text \<open>
  \<^verbatim>\<open>max(0, int((finished - started).total_seconds() * 1000))\<close>: \<^verbatim>\<open>total_seconds\<close> divides the
  microseconds by a million in binary64 and the product is rounded again, before \<^verbatim>\<open>int\<close>
  truncates.
\<close>

definition duration_ms :: "int \<Rightarrow> int" where
  "duration_ms us = (if us \<le> 0 then 0 else \<lfloor>f64 (f64 (of_int us / 1000000) * 1000)\<rfloor>)"

definition add_object :: "ident \<Rightarrow> time \<Rightarrow> object_row \<Rightarrow> gobject list \<Rightarrow> gobject list" where
  "add_object gid now r os = os @
     [\<lparr>ob_id = next_id ob_id os, ob_granule = gid, ob_worker = or_worker r, ob_key = or_key r,
       ob_url = or_url r, ob_sha256 = or_sha256 r, ob_size = or_size r, ob_uploaded_at = now,
       ob_acked_at = None, ob_acked_by = None, ob_deleted_at = None, ob_failed_pulls = Some 0,
       ob_pull_lease_by = None, ob_pull_lease_expires_at = None\<rparr>]"

definition add_timing :: "ident \<Rightarrow> ident \<Rightarrow> stage_row \<Rightarrow> stage_timing list \<Rightarrow> stage_timing list" where
  "add_timing gid bid r ts = ts @
     [\<lparr>st_id = next_id st_id ts, st_granule = gid, st_batch = bid, st_stage = sr_stage r,
       st_started_at = sr_started r, st_finished_at = sr_finished r,
       st_duration_ms = duration_ms (sr_finished r - sr_started r)\<rparr>]"

section \<open>Materialising a result\<close>

definition bump_delivered :: "batch \<Rightarrow> batch" where
  "bump_delivered b = b\<lparr>bt_delivered_count := Some (coalesce (bt_delivered_count b) 0 + 1)\<rparr>"

definition flip_deleted :: "time option \<Rightarrow> granule \<Rightarrow> granule" where
  "flip_deleted t g = g\<lparr>gr_state := DELETED, gr_updated_at := coalesce t (gr_updated_at g)\<rparr>"

definition apply_to_session :: "time \<Rightarrow> granule \<Rightarrow> transition_result \<Rightarrow> orch \<Rightarrow> orch" where
  "apply_to_session now g r d =
     (case objects_deleted_at r of
        Some t \<Rightarrow>
          (let p = (\<lambda>x. gr_id x = gr_id g \<and> gr_state x \<noteq> DELETED);
               d1 = d\<lparr>granules := upd_where p (flip_deleted (updated_at_of (tr_fields r))) (granules d)\<rparr>
           in if row_count p (granules d) \<noteq> 1 then d1
              else d1\<lparr>objects := upd_where (\<lambda>x. ob_granule x = gr_id g) (\<lambda>x. x\<lparr>ob_deleted_at := Some t\<rparr>) (objects d),
                      batches := upd_where (\<lambda>b. bt_id b = gr_batch g) bump_delivered (batches d)\<rparr>)
      | None \<Rightarrow>
          d\<lparr>granules := upd_where (\<lambda>x. gr_id x = gr_id g) (transition_row r) (granules d),
            objects := fold (add_object (gr_id g) now) (new_objects r) (objects d),
            timings := fold (add_timing (gr_id g) (gr_batch g)) (stage_rows r) (timings d)\<rparr>)"

text \<open>
  \<open>apply_transition\<close> returns the conflict, which the caller either skips
  (\<^verbatim>\<open>on_conflict="skip"\<close>) or turns into an HTTP 409 (\<open>raise_409\<close>).
\<close>

definition apply_transition ::
  "settings \<Rightarrow> granule \<Rightarrow> any_event \<Rightarrow> time \<Rightarrow> orch \<Rightarrow> state_conflict + (transition_result \<times> orch)" where
  "apply_transition cfg g e now d =
     (case apply_event (snapshot_of g) e now (max_retries cfg) of
        Inl c \<Rightarrow> Inl c
      | Inr r \<Rightarrow> Inr (r, apply_to_session now g r d))"

definition apply_or_skip :: "settings \<Rightarrow> granule \<Rightarrow> any_event \<Rightarrow> time \<Rightarrow> orch \<Rightarrow> orch" where
  "apply_or_skip cfg g e now d =
     (case apply_transition cfg g e now d of Inl c \<Rightarrow> d | Inr (r, d') \<Rightarrow> d')"

primrec conflict_text :: "state_conflict \<Rightarrow> fmt" where
  "conflict_text (CannotTransition a b) =
     (''cannot transition {!r} to {!r}'', [AStr (state_value a), AStr (state_value b)])"
| "conflict_text (NotAccepted what a) = (what @ '' not accepted in state {!r}'', [AStr (state_value a)])"

definition raise_409 ::
  "(granule \<Rightarrow> state_conflict \<Rightarrow> fmt) \<Rightarrow> settings \<Rightarrow> granule \<Rightarrow> any_event \<Rightarrow> time \<Rightarrow> orch
     \<Rightarrow> http_error + (transition_result \<times> orch)" where
  "raise_409 message cfg g e now d =
     (case apply_transition cfg g e now d of
        Inl c \<Rightarrow> Inl (HTTPException 409 (message g c))
      | Inr rd \<Rightarrow> Inr rd)"

section \<open>Object predicates\<close>

definition object_is_pending :: "gobject \<Rightarrow> bool" where
  "object_is_pending x \<longleftrightarrow> ob_acked_at x = None \<and> ob_deleted_at x = None"

definition object_is_exhausted :: "settings \<Rightarrow> gobject \<Rightarrow> bool" where
  "object_is_exhausted cfg x \<longleftrightarrow>
     object_is_pending x \<and> max_pull_failures cfg \<le> coalesce (ob_failed_pulls x) 0"

definition object_is_pullable :: "settings \<Rightarrow> gobject \<Rightarrow> bool" where
  "object_is_pullable cfg x \<longleftrightarrow>
     object_is_pending x \<and> coalesce (ob_failed_pulls x) 0 < max_pull_failures cfg"

definition object_pull_claimable :: "settings \<Rightarrow> time \<Rightarrow> gobject \<Rightarrow> bool" where
  "object_pull_claimable cfg now x \<longleftrightarrow>
     object_is_pullable cfg x \<and> (ob_pull_lease_by x = None \<or> null_lt (ob_pull_lease_expires_at x) now)"

text \<open>\<^verbatim>\<open>count(*) = count(acked_at)\<close> over a group of object rows.\<close>

definition all_objects_acked :: "gobject list \<Rightarrow> bool" where
  "all_objects_acked os \<longleftrightarrow> length os = row_count (\<lambda>x. ob_acked_at x \<noteq> None) os"

lemma all_objects_acked_iff: "all_objects_acked os \<longleftrightarrow> (\<forall>x \<in> set os. ob_acked_at x \<noteq> None)"
proof (induction os)
  case Nil
  then show ?case by (simp add: all_objects_acked_def)
next
  case (Cons x os)
  have "row_count (\<lambda>x. ob_acked_at x \<noteq> None) os \<le> length os"
    by (simp add: row_count_def)
  with Cons show ?case by (auto simp: all_objects_acked_def row_count_Cons)
qed

lemma exhausted_or_pullable: "object_is_pending x \<longleftrightarrow> object_is_exhausted cfg x \<or> object_is_pullable cfg x"
  by (auto simp: object_is_exhausted_def object_is_pullable_def)

lemma not_exhausted_and_pullable: "\<not> (object_is_exhausted cfg x \<and> object_is_pullable cfg x)"
  by (auto simp: object_is_exhausted_def object_is_pullable_def)

section \<open>Frames\<close>

lemma set_field_frame [simp]:
  "gr_id (set_field u g) = gr_id g" "gr_batch (set_field u g) = gr_batch g"
  "gr_state (set_field u g) = gr_state g"
  by (cases u; simp)+

lemma fold_set_field_frame [simp]:
  "gr_id (fold set_field us g) = gr_id g" "gr_batch (fold set_field us g) = gr_batch g"
  "gr_state (fold set_field us g) = gr_state g"
  by (induction us arbitrary: g) auto

lemma transition_row_frame [simp]:
  "gr_id (transition_row r g) = gr_id g" "gr_batch (transition_row r g) = gr_batch g"
  "gr_state (transition_row r g) = new_state r"
  by (simp_all add: transition_row_def)

lemma flip_deleted_frame [simp]:
  "gr_id (flip_deleted t g) = gr_id g" "gr_batch (flip_deleted t g) = gr_batch g"
  "gr_state (flip_deleted t g) = DELETED" "gr_retry_count (flip_deleted t g) = gr_retry_count g"
  by (simp_all add: flip_deleted_def)

lemma bump_delivered_frame [simp]: "bt_id (bump_delivered b) = bt_id b"
  "bt_status (bump_delivered b) = bt_status b"
  by (simp_all add: bump_delivered_def)

lemma apply_to_session_frame [simp]:
  "workers (apply_to_session now g r d) = workers d"
  "receivers (apply_to_session now g r d) = receivers d"
  "rollouts (apply_to_session now g r d) = rollouts d"
  "deliveries (apply_to_session now g r d) = deliveries d"
  "bundles (apply_to_session now g r d) = bundles d"
  "shared_files (apply_to_session now g r d) = shared_files d"
  "app_settings (apply_to_session now g r d) = app_settings d"
  "pending_events (apply_to_session now g r d) = pending_events d"
  by (simp_all add: apply_to_session_def Let_def split: option.splits)

lemma apply_to_session_ids [simp]:
  "map gr_id (granules (apply_to_session now g r d)) = map gr_id (granules d)"
  "map bt_id (batches (apply_to_session now g r d)) = map bt_id (batches d)"
  by (simp_all add: apply_to_session_def Let_def map_upd_where split: option.splits)

lemma apply_transition_cases:
  assumes "apply_transition cfg g e now d = Inr (r, d')"
  shows "apply_event (snapshot_of g) e now (max_retries cfg) = Inr r"
    and "d' = apply_to_session now g r d"
  using assms by (auto simp: apply_transition_def split: sum.splits)

lemma fold_add_object_ids:
  "distinct (map ob_id os) \<Longrightarrow> distinct (map ob_id (fold (add_object gid now) rs os))"
proof (induction rs arbitrary: os)
  case Nil
  then show ?case by simp
next
  case (Cons r rs)
  have "distinct (map ob_id (add_object gid now r os))"
    using Cons.prems next_id_fresh [of ob_id os] by (simp add: add_object_def)
  then show ?case by (simp add: Cons.IH)
qed

lemma in_fold_add_object:
  "x \<in> set (fold (add_object gid now) rs os) \<Longrightarrow>
     x \<in> set os \<or> ob_granule x = gid \<and> ob_acked_at x = None \<and> ob_deleted_at x = None"
proof (induction rs arbitrary: os)
  case (Cons r rs)
  from Cons.prems Cons.IH [of "add_object gid now r os"] show ?case
    by (auto simp: add_object_def)
qed simp

lemma in_fold_add_timing:
  "x \<in> set (fold (add_timing gid bid) rs ts) \<Longrightarrow> x \<in> set ts \<or> st_granule x = gid \<and> st_batch x = bid"
proof (induction rs arbitrary: ts)
  case (Cons r rs)
  from Cons.prems Cons.IH [of "add_timing gid bid r ts"] show ?case
    by (auto simp: add_timing_def)
qed simp

lemma length_fold_add [simp]:
  "length (fold (add_object gid now) rs os) = length os + length rs"
  "length (fold (add_timing gid bid) qs ts) = length ts + length qs"
proof -
  show "length (fold (add_object gid now) rs os) = length os + length rs"
    by (induction rs arbitrary: os) (auto simp: add_object_def)
  show "length (fold (add_timing gid bid) qs ts) = length ts + length qs"
    by (induction qs arbitrary: ts) (auto simp: add_timing_def)
qed

end
