(* ===== verification/Lifecycle.thy ===== *)
theory Lifecycle
  imports Transition
begin

text \<open>
  What the state machine promises, proved of \<open>apply_event\<close> and of the row that a transition
  writes: the exact graph of transitions (\<open>lifecycle\<close>, the abstract specification), the
  agreement of the state with the lease columns, the caps on the failure tails, the
  equivalence of the three reporting modes of a worker, and the accuracy of the
  recorded durations.
\<close>

section \<open>The graph of transitions\<close>

inductive lifecycle :: "granule_state \<Rightarrow> granule_state \<Rightarrow> bool" where
  claimed: "lifecycle PENDING QUEUED"
| download: "lifecycle QUEUED DOWNLOADING"
| downloaded: "lifecycle DOWNLOADING DOWNLOADED"
| collapsed_process: "lifecycle DOWNLOADING PROCESSING"
| legacy_process: "lifecycle DOWNLOADED PROCESSING"
| processed: "lifecycle PROCESSING PROCESSED"
| upload: "lifecycle PROCESSED UPLOADING"
| uploaded: "st \<in> {QUEUED, PROCESSING, UPLOADING} \<Longrightarrow> lifecycle st UPLOADED"
| released: "st \<in> set LEASED_STATES \<Longrightarrow> lifecycle st PENDING"
| blacklisted: "st \<in> set CANCELLABLE_STATES \<Longrightarrow> lifecycle st BLACKLISTED"
| retried: "st \<in> set RETRYABLE_STATES \<Longrightarrow> lifecycle st PENDING"
| requeued: "lifecycle UPLOADED PENDING"
| acked: "lifecycle UPLOADED ACKED"
| deleted: "lifecycle st DELETED"

inductive_cases lifecycle_from_deleted [elim]: "lifecycle DELETED st"
inductive_cases lifecycle_to_failed [elim]: "lifecycle st FAILED"
inductive_cases lifecycle_to_acked [elim]: "lifecycle st ACKED"
inductive_cases lifecycle_to_uploaded [elim]: "lifecycle st UPLOADED"

lemmas machine_defs = forward_stage_transition_def require_predecessor_def enter_processing_def
  complete_upload_def processing_failed_def delete_confirmed_def TransitionResult_def StateSpec_def Let_def

text \<open>
  What an accepted event says of the old state and of the result, one fact per branch of the
  code: the proofs below never unfold the machine again.
\<close>

lemma forward_stage_transitionD:
  assumes "forward_stage_transition snap t now = Inr r"
  shows "predecessor (STATE_TABLE t) = Some (sn_state snap) \<and> new_state r = t
     \<and> tr_fields r = [SetUpdatedAt now] \<and> new_objects r = [] \<and> objects_deleted_at r = None"
  using assms by (auto simp: machine_defs split: if_splits)

lemma enter_processingD:
  assumes "enter_processing snap dl now = Inr r"
  shows "(sn_state snap = DOWNLOADING \<or> sn_state snap = DOWNLOADED) \<and> new_state r = PROCESSING
     \<and> tr_fields r = [SetUpdatedAt now] \<and> new_objects r = [] \<and> objects_deleted_at r = None"
  using assms by (auto simp: machine_defs split: if_splits)

definition upload_fields :: "time \<Rightarrow> field_update list" where
  "upload_fields now = [SetLeasedBy None, SetLeaseExpiresAt None, SetError None, SetStdoutTail None,
     SetStderrTail None, SetUpdatedAt now]"

lemma complete_uploadD:
  assumes "complete_upload snap w os pr dl now = Inr r"
  shows "(sn_state snap = QUEUED \<or> sn_state snap = PROCESSING \<or> sn_state snap = UPLOADING)
     \<and> new_state r = UPLOADED \<and> tr_fields r = upload_fields now
     \<and> new_objects r = map (uploaded_row w) os \<and> objects_deleted_at r = None"
  using assms by (auto simp: machine_defs upload_fields_def split: if_splits)

definition failure_fields :: "int \<Rightarrow> string \<Rightarrow> string option \<Rightarrow> string option \<Rightarrow> time \<Rightarrow> field_update list" where
  "failure_fields n err so se now =
     [SetRetryCount n, SetError (Some (take ERROR_CAP err)), SetLeasedBy None, SetLeaseExpiresAt None,
      SetUpdatedAt now]
     @ (case so of Some t \<Rightarrow> [SetStdoutTail (Some (take TAIL_CAP t))] | None \<Rightarrow> [])
     @ (case se of Some t \<Rightarrow> [SetStderrTail (Some (take TAIL_CAP t))] | None \<Rightarrow> [])"

lemma processing_failedD:
  assumes "processing_failed snap err so se now mr = Inr r"
  shows "sn_state snap \<in> set LEASED_STATES
     \<and> new_state r = (if sn_retry_count snap + 1 \<ge> mr then BLACKLISTED else PENDING)
     \<and> tr_fields r = failure_fields (sn_retry_count snap + 1) err so se now
     \<and> new_objects r = [] \<and> objects_deleted_at r = None"
  using assms by (auto simp: processing_failed_def TransitionResult_def Let_def failure_fields_def split: if_splits)

lemma delete_confirmedD:
  "new_state (delete_confirmed now) = DELETED \<and> tr_fields (delete_confirmed now) = [SetUpdatedAt now]
   \<and> new_objects (delete_confirmed now) = [] \<and> objects_deleted_at (delete_confirmed now) = Some now"
  by (simp add: delete_confirmed_def TransitionResult_def)

lemma require_predecessor_iff [simp]:
  "require_predecessor snap t = Inr u \<longleftrightarrow> predecessor (STATE_TABLE t) = Some (sn_state snap)"
  "require_predecessor snap t = Inl c \<longleftrightarrow> predecessor (STATE_TABLE t) \<noteq> Some (sn_state snap)
     \<and> c = CannotTransition (sn_state snap) t"
  by (auto simp: require_predecessor_def Let_def)

lemma apply_event_internalD:
  "apply_event snap (ClaimByLease g w t) now mr = Inr r \<Longrightarrow>
     sn_state snap = PENDING \<and> new_state r = QUEUED
     \<and> tr_fields r = [SetLeasedBy (Some w), SetLeaseExpiresAt (Some t), SetUpdatedAt now]
     \<and> new_objects r = [] \<and> objects_deleted_at r = None"
  "apply_event snap (RevokedByOperator g) now mr = Inr r \<Longrightarrow>
     sn_state snap \<in> set LEASED_STATES \<and> new_state r = PENDING
     \<and> tr_fields r = [SetLeasedBy None, SetLeaseExpiresAt None, SetRetryCount (sn_retry_count snap + 1), SetUpdatedAt now]
     \<and> new_objects r = [] \<and> objects_deleted_at r = None"
  "apply_event snap (CancelGranule g) now mr = Inr r \<Longrightarrow>
     sn_state snap \<in> set CANCELLABLE_STATES \<and> new_state r = BLACKLISTED
     \<and> tr_fields r = [SetLeasedBy None, SetLeaseExpiresAt None, SetUpdatedAt now]
     \<and> new_objects r = [] \<and> objects_deleted_at r = None"
  "apply_event snap (RetryGranule g) now mr = Inr r \<Longrightarrow>
     sn_state snap \<in> set RETRYABLE_STATES \<and> new_state r = PENDING
     \<and> tr_fields r = [SetRetryCount 0, SetError None, SetLeasedBy None, SetLeaseExpiresAt None, SetUpdatedAt now]
     \<and> new_objects r = [] \<and> objects_deleted_at r = None"
  "apply_event snap (RequeueGranule g) now mr = Inr r \<Longrightarrow>
     sn_state snap = UPLOADED \<and> new_state r = PENDING
     \<and> tr_fields r = [SetRetryCount 0, SetError None, SetLeasedBy None, SetLeaseExpiresAt None, SetUpdatedAt now]
     \<and> new_objects r = [] \<and> objects_deleted_at r = None"
  "apply_event snap (ObjectAcked g) now mr = Inr r \<Longrightarrow>
     sn_state snap = UPLOADED \<and> new_state r = ACKED \<and> tr_fields r = [SetUpdatedAt now]
     \<and> new_objects r = [] \<and> objects_deleted_at r = None"
  "apply_event snap (ReconcileOrphanDeleted g) now mr = Inr r \<Longrightarrow>
     sn_state snap = ACKED \<and> r = delete_confirmed now"
  by (simp_all add: TransitionResult_def StateSpec_def split: if_splits sum.splits) force+

lemmas eventD = forward_stage_transitionD enter_processingD complete_uploadD processing_failedD
  apply_event_internalD

text \<open>The sources of each target state.\<close>

lemma lifecycle_into [simp]:
  "lifecycle a QUEUED \<longleftrightarrow> a = PENDING"
  "lifecycle a DOWNLOADING \<longleftrightarrow> a = QUEUED"
  "lifecycle a DOWNLOADED \<longleftrightarrow> a = DOWNLOADING"
  "lifecycle a PROCESSING \<longleftrightarrow> a = DOWNLOADING \<or> a = DOWNLOADED"
  "lifecycle a PROCESSED \<longleftrightarrow> a = PROCESSING"
  "lifecycle a UPLOADING \<longleftrightarrow> a = PROCESSED"
  "lifecycle a UPLOADED \<longleftrightarrow> a = QUEUED \<or> a = PROCESSING \<or> a = UPLOADING"
  "lifecycle a PENDING \<longleftrightarrow> a \<in> set LEASED_STATES \<or> a \<in> set RETRYABLE_STATES \<or> a = UPLOADED"
  "lifecycle a BLACKLISTED \<longleftrightarrow> a \<in> set CANCELLABLE_STATES"
  "lifecycle a ACKED \<longleftrightarrow> a = UPLOADED"
  "lifecycle a DELETED"
  "\<not> lifecycle a FAILED"
  by (auto simp: lifecycle.simps)

lemma apply_event_sound:
  assumes "apply_event snap e now mr = Inr r"
  shows "lifecycle (sn_state snap) (new_state r)"
proof (cases e)
  case (Wire w)
  with assms show ?thesis
    by (cases w) (auto dest!: eventD simp: cancellable_states_set delete_confirmedD)
qed (use assms in \<open>auto simp del: apply_event.simps dest!: eventD simp: delete_confirmedD\<close>)

definition sample_event :: "granule_state \<Rightarrow> granule_state \<Rightarrow> any_event" where
  "sample_event a b =
     (case b of
        QUEUED \<Rightarrow> ClaimByLease [] [] 0
      | DOWNLOADING \<Rightarrow> Wire (DownloadStarted [] [])
      | DOWNLOADED \<Rightarrow> Wire (DownloadFinished [] [])
      | PROCESSING \<Rightarrow> Wire (ProcessStarted [] [] None)
      | PROCESSED \<Rightarrow> Wire (ProcessFinished [] [])
      | UPLOADING \<Rightarrow> Wire (UploadStarted [] [])
      | UPLOADED \<Rightarrow> Wire (UploadCompleted [] [] [] None None)
      | PENDING \<Rightarrow> (if a = UPLOADED then RequeueGranule []
                  else if a \<in> set LEASED_STATES then RevokedByOperator [] else RetryGranule [])
      | BLACKLISTED \<Rightarrow> CancelGranule []
      | ACKED \<Rightarrow> ObjectAcked []
      | _ \<Rightarrow> Wire (DeleteConfirmed [] [] []))"

lemma apply_event_complete:
  assumes "lifecycle (sn_state snap) b"
  shows "\<exists>r. apply_event snap (sample_event (sn_state snap) b) now mr = Inr r \<and> new_state r = b"
  using assms
  by (cases b) (auto simp: sample_event_def machine_defs state_sets)

text \<open>
  C3: The transitions that \<open>apply\<close> accepts are exactly the edges of the documented life
  cycle: some event moves a granule from one state to another if and only if the edge is
  in \<open>lifecycle\<close>.
\<close>

theorem apply_event_lifecycle:
  "(\<exists>e r. apply_event snap e now mr = Inr r \<and> new_state r = b) \<longleftrightarrow> lifecycle (sn_state snap) b"
  using apply_event_sound apply_event_complete by blast

section \<open>Lease columns\<close>

definition lease_ok :: "granule \<Rightarrow> bool" where
  "lease_ok g \<longleftrightarrow>
     (if gr_state g \<in> set LEASED_STATES
      then gr_leased_by g \<noteq> None \<and> gr_lease_expires_at g \<noteq> None
      else gr_state g = DELETED \<or> gr_leased_by g = None \<and> gr_lease_expires_at g = None)"

definition tails_ok :: "granule \<Rightarrow> bool" where
  "tails_ok g \<longleftrightarrow>
     (\<forall>e. gr_error g = Some e \<longrightarrow> length e \<le> 2000)
     \<and> (\<forall>t. gr_stdout_tail g = Some t \<longrightarrow> length t \<le> 16000)
     \<and> (\<forall>t. gr_stderr_tail g = Some t \<longrightarrow> length t \<le> 16000)"

definition granule_ok :: "granule \<Rightarrow> bool" where
  "granule_ok g \<longleftrightarrow> lease_ok g \<and> tails_ok g \<and> gr_state g \<noteq> FAILED \<and> 0 \<le> gr_retry_count g"

lemmas row_defs = transition_row_def snapshot_of_def rows_of_option_def

lemmas row_step_simps = row_defs upload_fields_def failure_fields_def delete_confirmedD

lemma lease_ok_step:
  assumes "lease_ok g" and "apply_event (snapshot_of g) e now mr = Inr r"
  shows "lease_ok (transition_row r g)"
proof (cases e)
  case (Wire w)
  with assms show ?thesis
    by (cases w)
      (auto dest!: eventD simp: lease_ok_def row_step_simps
        split: option.splits if_splits)
qed (use assms in \<open>auto simp del: apply_event.simps dest!: eventD
      simp: lease_ok_def row_step_simps cancellable_states_set retryable_states_set split: option.splits\<close>)

lemma tails_ok_step:
  assumes "tails_ok g" and "apply_event (snapshot_of g) e now mr = Inr r"
  shows "tails_ok (transition_row r g)"
proof (cases e)
  case (Wire w)
  with assms show ?thesis
    by (cases w)
      (auto dest!: eventD simp: tails_ok_def row_step_simps ERROR_CAP_def TAIL_CAP_def split: option.splits)
qed (use assms in \<open>auto simp del: apply_event.simps dest!: eventD simp: tails_ok_def row_step_simps\<close>)

lemma retry_nonneg_step:
  assumes "0 \<le> gr_retry_count g" and "apply_event (snapshot_of g) e now mr = Inr r"
  shows "0 \<le> gr_retry_count (transition_row r g)"
proof (cases e)
  case (Wire w)
  with assms show ?thesis
    by (cases w) (auto dest!: eventD simp: row_step_simps split: option.splits)
qed (use assms in \<open>auto simp del: apply_event.simps dest!: eventD simp: row_step_simps\<close>)

lemma granule_ok_step:
  assumes "granule_ok g" and "apply_event (snapshot_of g) e now mr = Inr r"
  shows "granule_ok (transition_row r g)"
proof -
  have "new_state r \<noteq> FAILED"
    using apply_event_sound [OF assms(2)] by (auto elim: lifecycle_to_failed)
  with assms show ?thesis
    by (auto simp: granule_ok_def intro: lease_ok_step tails_ok_step retry_nonneg_step)
qed

text \<open>
  A transition keeps the row well formed: a granule in a leased state names its holder and
  an expiry, every other granule (but a deleted one) names neither; the error and output tails
  stay within their caps; the retry count is not negative; the state is not \<open>FAILED\<close>.
\<close>

theorem transition_keeps_granule_ok:
  assumes "granule_ok g" and "apply_event (snapshot_of g) e now mr = Inr r"
  shows "granule_ok (transition_row r g)"
  using assms by (rule granule_ok_step)

definition sample_granule :: "granule_state \<Rightarrow> granule" where
  "sample_granule st = \<lparr>gr_id = ''b:g'', gr_batch = ''b'', gr_state = st, gr_inputs = [], gr_meta = [],
     gr_leased_by = (if st \<in> set LEASED_STATES then Some ''w'' else None),
     gr_lease_expires_at = (if st \<in> set LEASED_STATES then Some 100 else None),
     gr_error = None, gr_stdout_tail = None, gr_stderr_tail = None, gr_retry_count = 0,
     gr_created_at = 0, gr_updated_at = 0\<rparr>"

lemma sample_granule_simps [simp]:
  "gr_id (sample_granule st) = ''b:g''" "gr_batch (sample_granule st) = ''b''"
  "gr_state (sample_granule st) = st" "gr_updated_at (sample_granule st) = 0"
  "gr_retry_count (sample_granule st) = 0"
  by (simp_all add: sample_granule_def)

lemma sample_granule_ok [simp]: "st \<noteq> FAILED \<Longrightarrow> granule_ok (sample_granule st)"
  by (simp add: granule_ok_def lease_ok_def tails_ok_def sample_granule_def)

theorem transition_keeps_granule_ok_witness:
  "\<exists>r. apply_event (snapshot_of (sample_granule QUEUED)) (Wire (ProcessingFailed ''b:g'' ''w'' ''boom'' None None None)) 5 3 = Inr r
     \<and> granule_ok (transition_row r (sample_granule QUEUED)) \<and> gr_state (transition_row r (sample_granule QUEUED)) = PENDING"
proof -
  let ?e = "Wire (ProcessingFailed ''b:g'' ''w'' ''boom'' None None None)"
  obtain r where r: "apply_event (snapshot_of (sample_granule QUEUED)) ?e 5 3 = Inr r"
    and st: "new_state r = PENDING"
    by (simp add: machine_defs snapshot_of_def leased_states_set)
  have "granule_ok (transition_row r (sample_granule QUEUED))"
    by (rule transition_keeps_granule_ok [OF _ r]) simp
  with r st show ?thesis by auto
qed

section \<open>Runs of one granule\<close>

text \<open>
  The events that reach one row in turn, with the instant at which each is applied; the
  stage and object rows they add are collected in order.
\<close>

fun run_events ::
  "int \<Rightarrow> (any_event \<times> time) list \<Rightarrow> granule \<Rightarrow> state_conflict + (granule \<times> stage_row list \<times> object_row list)" where
  "run_events mr [] g = Inr (g, [], [])"
| "run_events mr ((e, now) # es) g =
     (case apply_event (snapshot_of g) e now mr of
        Inl c \<Rightarrow> Inl c
      | Inr r \<Rightarrow>
          (case run_events mr es (transition_row r g) of
             Inl c \<Rightarrow> Inl c
           | Inr (g', rows, objs) \<Rightarrow> Inr (g', stage_rows r @ rows, new_objects r @ objs)))"

section \<open>The reporting modes of a worker\<close>

text \<open>
  The same work reported by a legacy worker (every waypoint), by a current worker (the three
  collapsed events with measured durations) and in fast detail mode (the terminal event only).
\<close>

definition legacy_report :: "ident \<Rightarrow> ident \<Rightarrow> uploaded_object list \<Rightarrow> time list \<Rightarrow> (any_event \<times> time) list" where
  "legacy_report g w os ts = zip
     [Wire (DownloadStarted g w), Wire (DownloadFinished g w), Wire (ProcessStarted g w None),
      Wire (ProcessFinished g w), Wire (UploadStarted g w), Wire (UploadCompleted g w os None None)] ts"

definition collapsed_report ::
  "ident \<Rightarrow> ident \<Rightarrow> uploaded_object list \<Rightarrow> int \<Rightarrow> int \<Rightarrow> time list \<Rightarrow> (any_event \<times> time) list" where
  "collapsed_report g w os dl pr ts = zip
     [Wire (DownloadStarted g w), Wire (ProcessStarted g w (Some dl)),
      Wire (UploadCompleted g w os (Some pr) None)] ts"

definition fast_report ::
  "ident \<Rightarrow> ident \<Rightarrow> uploaded_object list \<Rightarrow> int \<Rightarrow> int \<Rightarrow> time \<Rightarrow> (any_event \<times> time) list" where
  "fast_report g w os dl pr t = [(Wire (UploadCompleted g w os (Some pr) (Some dl)), t)]"

definition uploaded_granule :: "granule \<Rightarrow> time \<Rightarrow> granule" where
  "uploaded_granule g now = g\<lparr>gr_state := UPLOADED, gr_leased_by := None, gr_lease_expires_at := None,
     gr_error := None, gr_stdout_tail := None, gr_stderr_tail := None, gr_updated_at := now\<rparr>"

lemmas run_simps = machine_defs row_defs uploaded_granule_def upload_fields_def stage_row_closing_def
  resident_stage_def measured_stage_def fast_upload_rows_def

text \<open>
  C14: The three reporting modes are equivalent: from a claimed granule each of them ends in the
  same row and the same object rows, and they differ only in the stage rows, of which the
  six-event mode writes six, the collapsed mode three and the fast mode two.
\<close>

theorem reporting_modes_agree:
  assumes "gr_state g = QUEUED"
  shows "\<exists>r1 r2 r3.
       run_events mr (legacy_report i w os [t1, t2, t3, t4, t5, now]) g
         = Inr (uploaded_granule g now, r1, map (uploaded_row w) os)
     \<and> run_events mr (collapsed_report i w os dl pr [t1, t3, now]) g
         = Inr (uploaded_granule g now, r2, map (uploaded_row w) os)
     \<and> run_events mr (fast_report i w os dl pr now) g
         = Inr (uploaded_granule g now, r3, map (uploaded_row w) os)
     \<and> map sr_stage r1 = [''download_wait'', ''download'', ''process_wait'', ''process'', ''upload_wait'', ''upload'']
     \<and> map sr_stage r2 = [''download_wait'', ''download'', ''process'']
     \<and> map sr_stage r3 = [''download'', ''process'']"
  using assms
  by (simp add: legacy_report_def collapsed_report_def fast_report_def run_simps)

theorem reporting_modes_agree_witness:
  "\<exists>r1 r2 r3.
       run_events 3 (legacy_report ''b:g'' ''w'' [] [1, 2, 3, 4, 5, 6]) (sample_granule QUEUED)
         = Inr (uploaded_granule (sample_granule QUEUED) 6, r1, [])
     \<and> run_events 3 (collapsed_report ''b:g'' ''w'' [] 10 20 [1, 3, 6]) (sample_granule QUEUED)
         = Inr (uploaded_granule (sample_granule QUEUED) 6, r2, [])
     \<and> run_events 3 (fast_report ''b:g'' ''w'' [] 10 20 6) (sample_granule QUEUED)
         = Inr (uploaded_granule (sample_granule QUEUED) 6, r3, [])
     \<and> length r1 = 6 \<and> length r2 = 3 \<and> length r3 = 2"
  using reporting_modes_agree [of "sample_granule QUEUED" 3 "''b:g''" "''w''" "[]" 1 2 3 4 5 6 10 20]
  by (auto dest!: map_eq_imp_length_eq [where g = "\<lambda>x. x"] arg_cong [where f = length])

section \<open>Recorded durations\<close>

lemma duration_ms_nonneg [simp]: "0 \<le> duration_ms us"
proof (cases "us \<le> 0")
  case False
  then have "0 < f64 (f64 (of_int us / 1000000) * 1000)" by (simp add: f64_pos)
  with False show ?thesis by (simp add: duration_ms_def)
qed (simp add: duration_ms_def)

text \<open>
  The recorded duration of a stage is its length in whole milliseconds, or one millisecond
  less: the two roundings in binary64 never add a millisecond, and lose at most one (for every
  length up to \<open>2 ^ 50\<close> microseconds, about 35 years).
\<close>

theorem duration_ms_bounds:
  assumes "us \<le> 2 ^ 50"
  shows "max 0 us div 1000 - 1 \<le> duration_ms us \<and> duration_ms us \<le> max 0 us div 1000"
proof (cases "us \<le> 0")
  case True
  then show ?thesis by (simp add: duration_ms_def)
next
  case False
  let ?x = "of_int us / 1000000 :: rat"
  let ?z = "f64 (f64 ?x * 1000)"
  have pos: "0 < ?x" using False by simp
  have le: "?x * 1000 / 2 ^ 51 \<le> 1 / 2000"
  proof -
    have "of_int us \<le> (of_int (2 ^ 50) :: rat)" using assms by (simp only: of_int_le_iff)
    then show ?thesis by simp
  qed
  define q where "q = us div 1000"
  have "us = 1000 * q + us mod 1000" and "us mod 1000 \<le> 999" and "0 \<le> us mod 1000"
    by (simp_all add: q_def)
  then have "1000 * q \<le> us" and "us \<le> 1000 * q + 999" by linarith+
  then have "of_int (1000 * q) \<le> (of_int us :: rat)" and "(of_int us :: rat) \<le> of_int (1000 * q + 999)"
    by (simp_all only: of_int_le_iff)
  then have ql: "of_int q \<le> ?x * 1000" and qu: "?x * 1000 \<le> of_int q + 999 / 1000" by simp_all
  have lo: "?x * 1000 - 1 / 2000 \<le> ?z" and hi: "?z \<le> ?x * 1000 + 1 / 2000"
    using f64_mult_bounds [OF pos, of 1000] le by linarith+
  have "of_int q - 1 \<le> ?z" using lo ql by linarith
  then have "q - 1 \<le> \<lfloor>?z\<rfloor>" by (simp add: le_floor_iff)
  moreover have "?z < of_int q + 1" using hi qu by linarith
  then have "\<lfloor>?z\<rfloor> \<le> q" by (simp add: floor_le_iff)
  ultimately show ?thesis using False by (simp add: duration_ms_def q_def max_def)
qed

theorem duration_ms_bounds_witness:
  "duration_ms (milliseconds 1001) = 1000 \<and> milliseconds 1001 \<le> 2 ^ 50
   \<and> max 0 (milliseconds 1001) div 1000 - 1 \<le> duration_ms (milliseconds 1001)"
proof -
  have "duration_ms (milliseconds 1001) = 1000" by code_simp
  with duration_ms_bounds [of "milliseconds 1001"] show ?thesis by (simp add: milliseconds_def)
qed

text \<open>
  A duration that the worker measured is not always recorded as it was reported: 1001
  milliseconds are stored as 1000 (\<^verbatim>\<open>1.001 * 1000\<close> rounds to a double below 1001), although the
  stage row is back-dated so that the duration be exact.
\<close>

theorem measured_duration_loses_a_millisecond:
  "\<exists>m. let r = measured_stage ''download'' m 5000000 in
      0 \<le> m \<and> sr_finished r - sr_started r = milliseconds m \<and> duration_ms (sr_finished r - sr_started r) \<noteq> m"
proof -
  have "duration_ms (milliseconds 1001) = 1000" by code_simp
  then show ?thesis by (intro exI [of _ 1001]) (simp add: measured_stage_def)
qed

end
