(* ===== verification/Ledger.thy ===== *)
theory Ledger
  imports Lifecycle
begin

text \<open>
  The durable delivery ledger, \<^verbatim>\<open>src/sathop/orchestrator/delivery_ledger.py\<close>, and the hard delete
  of granules, \<^verbatim>\<open>reaping.py\<close>. The digest of a receipt's identity (\<^verbatim>\<open>hashlib\<close>, not under
  src/) is the parameter \<open>digest\<close>; what the ledger relies on is that distinct identities have
  distinct digests (\<open>inj_digest\<close>).
\<close>

type_synonym digest = "ident \<Rightarrow> ident \<Rightarrow> int \<Rightarrow> time \<Rightarrow> string"

definition inj_digest :: "digest \<Rightarrow> bool" where
  "inj_digest digest \<longleftrightarrow>
     (\<forall>b g i t b' g' i' t'. digest b g i t = digest b' g' i' t' \<longrightarrow> b = b' \<and> g = g' \<and> i = i' \<and> t = t')"

section \<open>Receipts\<close>

definition has_delivery_record :: "orch \<Rightarrow> gobject \<Rightarrow> bool" where
  "has_delivery_record d x \<longleftrightarrow>
     list_ex (\<lambda>r. dr_source_object r = ob_id x \<and> dr_uploaded_at r = ob_uploaded_at x
                \<and> dr_granule r = ob_granule x) (deliveries d)"

text \<open>The row of \<^verbatim>\<open>values\<close> for one joined (object, granule, batch), and its guarded insertion.\<close>

definition receipt :: "digest \<Rightarrow> batch \<Rightarrow> gobject \<Rightarrow> int \<Rightarrow> delivery_record" where
  "receipt digest b x n =
     \<lparr>dr_id = n, dr_identity = digest (bt_id b) (ob_granule x) (ob_id x) (ob_uploaded_at x),
      dr_source_object = ob_id x, dr_uploaded_at = ob_uploaded_at x, dr_batch = bt_id b,
      dr_batch_name = bt_name b, dr_bundle_ref = bt_bundle_ref b, dr_granule = ob_granule x,
      dr_object_key = ob_key x, dr_sha256 = ob_sha256 x, dr_size = ob_size x,
      dr_receiver = ob_acked_by x, dr_delivered_at = coalesce (ob_acked_at x) 0\<rparr>"

definition insert_receipt :: "digest \<Rightarrow> batch \<times> gobject \<Rightarrow> delivery_record list \<Rightarrow> delivery_record list" where
  "insert_receipt digest bx rs =
     (let r = receipt digest (fst bx) (snd bx) (next_id dr_id rs)
      in if dr_identity r \<in> set (map dr_identity rs) then rs else rs @ [r])"

text \<open>The inner joins: the batch of an object, if its granule and that granule's batch exist.\<close>

definition batch_of_object :: "orch \<Rightarrow> gobject \<Rightarrow> batch option" where
  "batch_of_object d x =
     (case get_granule (ob_granule x) d of None \<Rightarrow> None | Some g \<Rightarrow> get_batch (gr_batch g) d)"

fun in_filter :: "'k list option \<Rightarrow> 'k \<Rightarrow> bool" where
  "in_filter None k = True"
| "in_filter (Some ks) k = (k \<in> set ks)"

definition archivable :: "ident list option \<Rightarrow> int list option \<Rightarrow> orch \<Rightarrow> gobject \<Rightarrow> bool" where
  "archivable gids oids d x \<longleftrightarrow>
     ob_acked_at x \<noteq> None \<and> \<not> has_delivery_record d x \<and> batch_of_object d x \<noteq> None
     \<and> in_filter gids (ob_granule x) \<and> in_filter oids (ob_id x)"

definition archive_page :: "ident list option \<Rightarrow> int list option \<Rightarrow> int \<Rightarrow> orch \<Rightarrow> gobject list" where
  "archive_page gids oids after d =
     take 500 (sort_key ob_id (filter (\<lambda>x. archivable gids oids d x \<and> after < ob_id x) (objects d)))"

definition insert_page :: "digest \<Rightarrow> gobject list \<Rightarrow> orch \<Rightarrow> orch" where
  "insert_page digest xs d =
     d\<lparr>deliveries := fold (insert_receipt digest) (map (\<lambda>x. (the (batch_of_object d x), x)) xs) (deliveries d)\<rparr>"

lemma insert_page_frame [simp]:
  "workers (insert_page dg xs d) = workers d" "receivers (insert_page dg xs d) = receivers d"
  "rollouts (insert_page dg xs d) = rollouts d" "batches (insert_page dg xs d) = batches d"
  "granules (insert_page dg xs d) = granules d" "objects (insert_page dg xs d) = objects d"
  "timings (insert_page dg xs d) = timings d" "pending_events (insert_page dg xs d) = pending_events d"
  by (simp_all add: insert_page_def)

lemma batch_of_object_cong:
  "granules d' = granules d \<Longrightarrow> batches d' = batches d \<Longrightarrow> batch_of_object d' = batch_of_object d"
  by (rule ext) (simp add: batch_of_object_def get_defs cong: option.case_cong)

lemma insert_page_batch [simp]: "batch_of_object (insert_page dg xs d) = batch_of_object d"
  by (rule batch_of_object_cong) simp_all

lemma archive_page_set:
  "x \<in> set (archive_page gids oids after d) \<Longrightarrow>
     x \<in> set (objects d) \<and> archivable gids oids d x \<and> after < ob_id x"
  unfolding archive_page_def by (drule in_set_takeD) auto

text \<open>
  The paging loop. It ends because each page starts after the last identifier of the one before.
\<close>

function archive_loop :: "digest \<Rightarrow> ident list option \<Rightarrow> int list option \<Rightarrow> int \<Rightarrow> orch \<Rightarrow> orch" where
  "archive_loop digest gids oids after d =
     (let page = archive_page gids oids after d
      in if page = [] then d
         else archive_loop digest gids oids (ob_id (last page)) (insert_page digest page d))"
  by pat_completeness auto
termination
proof (relation "measure (\<lambda>(dg, gs, os, after, d). length (filter (\<lambda>x. after < ob_id x) (objects d)))")
  fix dg :: digest and gids oids after d page
  assume page: "page = archive_page gids oids after d" and ne: "page \<noteq> []"
  then have last: "last page \<in> set (objects d)" "after < ob_id (last page)"
    using archive_page_set [of "last page" gids oids after d] by auto
  have "length (filter (\<lambda>x. ob_id (last page) < ob_id x) (objects d))
          < length (filter (\<lambda>x. after < ob_id x) (objects d))"
    using last
  proof (induction "objects d" arbitrary: d)
    case Nil
    then show ?case by simp
  next
    case (Cons x xs)
    let ?p = "\<lambda>x. ob_id (last page) < ob_id x" and ?q = "\<lambda>x. after < ob_id x"
    have le: "length (filter ?p ys) \<le> length (filter ?q ys)" for ys
      using Cons.prems(2) by (induction ys) auto
    show ?case
    proof (cases "last page = x")
      case True
      with Cons.prems(2) le [of xs] show ?thesis by (simp add: Cons.hyps(2) [symmetric])
    next
      case False
      with Cons.prems(1) Cons.hyps(2) have "last page \<in> set xs" by (metis set_ConsD)
      then have "length (filter ?p xs) < length (filter ?q xs)"
        using Cons.hyps(1) [of "d\<lparr>objects := xs\<rparr>"] Cons.prems(2) by simp
      then show ?thesis using Cons.prems(2) by (simp add: Cons.hyps(2) [symmetric])
    qed
  qed
  then show "((dg, gids, oids, ob_id (last page), insert_page dg page d), dg, gids, oids, after, d)
      \<in> measure (\<lambda>(dg, gs, os, after, d). length (filter (\<lambda>x. after < ob_id x) (objects d)))"
    by simp
qed simp

declare archive_loop.simps [simp del]

definition archive_confirmed :: "digest \<Rightarrow> ident list option \<Rightarrow> int list option \<Rightarrow> orch \<Rightarrow> orch" where
  "archive_confirmed digest gids oids d = archive_loop digest gids oids 0 d"

subsection \<open>What archiving keeps\<close>

lemma archive_loop_frame [simp]:
  "workers (archive_loop dg gs os a d) = workers d" "receivers (archive_loop dg gs os a d) = receivers d"
  "rollouts (archive_loop dg gs os a d) = rollouts d" "batches (archive_loop dg gs os a d) = batches d"
  "granules (archive_loop dg gs os a d) = granules d" "objects (archive_loop dg gs os a d) = objects d"
  "timings (archive_loop dg gs os a d) = timings d"
  "pending_events (archive_loop dg gs os a d) = pending_events d"
  by (induction dg gs os a d rule: archive_loop.induct)
    (subst archive_loop.simps, simp add: Let_def)+

lemma archive_frame [simp]:
  "workers (archive_confirmed dg gs os d) = workers d" "receivers (archive_confirmed dg gs os d) = receivers d"
  "rollouts (archive_confirmed dg gs os d) = rollouts d" "batches (archive_confirmed dg gs os d) = batches d"
  "granules (archive_confirmed dg gs os d) = granules d" "objects (archive_confirmed dg gs os d) = objects d"
  "timings (archive_confirmed dg gs os d) = timings d"
  "pending_events (archive_confirmed dg gs os d) = pending_events d"
  by (simp_all add: archive_confirmed_def)

lemma insert_receipts_keep:
  "r \<in> set rs \<Longrightarrow> r \<in> set (fold (insert_receipt dg) bxs rs)"
  by (induction bxs arbitrary: rs) (auto simp: insert_receipt_def Let_def)

lemma archive_loop_keeps: "r \<in> set (deliveries d) \<Longrightarrow> r \<in> set (deliveries (archive_loop dg gs os a d))"
proof (induction dg gs os a d rule: archive_loop.induct)
  case (1 dg gs os a d)
  then show ?case
    by (subst archive_loop.simps) (auto simp: Let_def insert_page_def intro: insert_receipts_keep)
qed

lemma has_record_keeps:
  "has_delivery_record d x \<Longrightarrow> set (deliveries d) \<subseteq> set (deliveries d') \<Longrightarrow> has_delivery_record d' x"
  by (auto simp: has_delivery_record_def list_ex_iff)

lemma archive_keeps: "set (deliveries d) \<subseteq> set (deliveries (archive_confirmed dg gs os d))"
  by (auto simp: archive_confirmed_def intro: archive_loop_keeps)

subsection \<open>What archiving adds\<close>

definition records_ok :: "digest \<Rightarrow> delivery_record list \<Rightarrow> bool" where
  "records_ok digest rs \<longleftrightarrow>
     (\<forall>r \<in> set rs. dr_identity r = digest (dr_batch r) (dr_granule r) (dr_source_object r) (dr_uploaded_at r))"

definition matches :: "gobject \<Rightarrow> delivery_record \<Rightarrow> bool" where
  "matches x r \<longleftrightarrow> dr_source_object r = ob_id x \<and> dr_uploaded_at r = ob_uploaded_at x \<and> dr_granule r = ob_granule x"

lemma has_record_iff: "has_delivery_record d x \<longleftrightarrow> (\<exists>r \<in> set (deliveries d). matches x r)"
  by (auto simp: has_delivery_record_def matches_def list_ex_iff)

lemma insert_receipt_records:
  "records_ok dg rs \<Longrightarrow> records_ok dg (insert_receipt dg bx rs)"
  by (auto simp: insert_receipt_def Let_def receipt_def records_ok_def)

lemma inj_digestD:
  "inj_digest dg \<Longrightarrow> dg b g i t = dg b' g' i' t' \<Longrightarrow> b = b' \<and> g = g' \<and> i = i' \<and> t = t'"
  unfolding inj_digest_def by blast

lemma insert_receipt_matches:
  assumes inj: "inj_digest dg" and ok: "records_ok dg rs"
  shows "\<exists>r \<in> set (insert_receipt dg bx rs). matches (snd bx) r"
proof -
  obtain b x where bx: "bx = (b, x)" by (cases bx)
  let ?r = "receipt dg b x (next_id dr_id rs)"
  show ?thesis
  proof (cases "dr_identity ?r \<in> dr_identity ` set rs")
    case True
    then obtain r where r: "r \<in> set rs" "dr_identity ?r = dr_identity r" by (rule imageE)
    from ok r(1) have "dr_identity r = dg (dr_batch r) (dr_granule r) (dr_source_object r) (dr_uploaded_at r)"
      by (simp only: records_ok_def)
    with r(2) have "dg (bt_id b) (ob_granule x) (ob_id x) (ob_uploaded_at x)
        = dg (dr_batch r) (dr_granule r) (dr_source_object r) (dr_uploaded_at r)"
      by (simp only: receipt_def delivery_record.simps)
    from inj_digestD [OF inj this] have "matches x r" by (simp add: matches_def)
    with True r(1) show ?thesis by (auto simp add: insert_receipt_def bx Let_def)
  next
    case False
    then have "?r \<in> set (insert_receipt dg bx rs)" by (simp add: insert_receipt_def bx Let_def)
    moreover have "matches x ?r" by (simp add: matches_def receipt_def)
    ultimately show ?thesis by (auto simp: bx)
  qed
qed

lemma insert_receipts_ok:
  assumes "inj_digest dg" and "records_ok dg rs"
  shows "records_ok dg (fold (insert_receipt dg) bxs rs)
     \<and> (\<forall>bx \<in> set bxs. \<exists>r \<in> set (fold (insert_receipt dg) bxs rs). matches (snd bx) r)"
  using assms(2)
proof (induction bxs arbitrary: rs)
  case Nil
  then show ?case by simp
next
  case (Cons bx bxs)
  have rec: "records_ok dg (insert_receipt dg bx rs)"
    by (rule insert_receipt_records [OF Cons.prems])
  obtain r where r: "r \<in> set (insert_receipt dg bx rs)" "matches (snd bx) r"
    using insert_receipt_matches [OF assms(1) Cons.prems, of bx] by blast
  from insert_receipts_keep [OF r(1)] r(2) Cons.IH [OF rec] show ?case
    by (auto intro: bexI [of _ r])
qed

lemma page_of_first:
  assumes "x \<in> set (objects d)" and "archivable gs os d x" and "a < ob_id x"
    and "x \<notin> set (archive_page gs os a d)"
  shows "archive_page gs os a d \<noteq> [] \<and> ob_id (last (archive_page gs os a d)) \<le> ob_id x"
proof -
  let ?ys = "sort_key ob_id (filter (\<lambda>x. archivable gs os d x \<and> a < ob_id x) (objects d))"
  have x: "x \<in> set ?ys" using assms by simp
  have page: "archive_page gs os a d = take 500 ?ys" by (simp add: archive_page_def)
  have split: "?ys = take 500 ?ys @ drop 500 ?ys" by simp
  have "sorted (map ob_id (take 500 ?ys @ drop 500 ?ys))" by (simp only: append_take_drop_id sorted_sort_key)
  then have le: "\<forall>y \<in> set (take 500 ?ys). \<forall>z \<in> set (drop 500 ?ys). ob_id y \<le> ob_id z"
    by (auto simp only: map_append sorted_append set_map image_iff)
  have xd: "x \<in> set (drop 500 ?ys)"
    using x assms(4) unfolding page by (metis Un_iff append_take_drop_id set_append)
  from x have "?ys \<noteq> []" by force
  then have ne: "take 500 ?ys \<noteq> []" by (simp only: take_eq_Nil) simp
  with le xd have "ob_id (last (take 500 ?ys)) \<le> ob_id x" by (meson last_in_set)
  with ne show ?thesis unfolding page by blast
qed

lemma archive_loop_ok:
  assumes "inj_digest dg" and "records_ok dg (deliveries d)" and "distinct (map ob_id (objects d))"
  shows "records_ok dg (deliveries (archive_loop dg gs os a d))
     \<and> (\<forall>x \<in> set (objects d). ob_acked_at x \<noteq> None \<longrightarrow> batch_of_object d x \<noteq> None \<longrightarrow>
          in_filter gs (ob_granule x) \<longrightarrow> in_filter os (ob_id x) \<longrightarrow> a < ob_id x \<longrightarrow>
          has_delivery_record (archive_loop dg gs os a d) x)"
  using assms
proof (induction dg gs os a d rule: archive_loop.induct)
  case (1 dg gs os a d)
  let ?page = "archive_page gs os a d"
  show ?case
  proof (cases "?page = []")
    case True
    have "has_delivery_record d x" if "x \<in> set (objects d)" "ob_acked_at x \<noteq> None"
        "batch_of_object d x \<noteq> None" "in_filter gs (ob_granule x)" "in_filter os (ob_id x)" "a < ob_id x" for x
      using that True page_of_first [of x d gs os a] by (auto simp: archivable_def)
    with True "1.prems" show ?thesis by (simp add: archive_loop.simps [of dg gs os a d] Let_def)
  next
    case False
    let ?d' = "insert_page dg ?page d"
    let ?bxs = "map (\<lambda>x. (the (batch_of_object d x), x)) ?page"
    have del: "deliveries ?d' = fold (insert_receipt dg) ?bxs (deliveries d)"
      by (simp add: insert_page_def)
    note ins = insert_receipts_ok [OF "1.prems"(1,2), of ?bxs]
    have rec: "records_ok dg (deliveries ?d')" using ins by (simp add: del)
    have paged: "has_delivery_record ?d' x" if "x \<in> set ?page" for x
      using ins that by (auto simp: has_record_iff del)
    have sub: "set (deliveries d) \<subseteq> set (deliveries ?d')"
      by (auto simp: del intro: insert_receipts_keep)
    have unfold: "archive_loop dg gs os a d = archive_loop dg gs os (ob_id (last ?page)) ?d'"
      using False by (simp add: archive_loop.simps [of dg gs os a d] Let_def)
    have mono: "set (deliveries ?d') \<subseteq> set (deliveries (archive_loop dg gs os (ob_id (last ?page)) ?d'))"
      by (auto intro: archive_loop_keeps)
    have IH: "records_ok dg (deliveries (archive_loop dg gs os (ob_id (last ?page)) ?d'))
       \<and> (\<forall>x \<in> set (objects ?d'). ob_acked_at x \<noteq> None \<longrightarrow> batch_of_object ?d' x \<noteq> None \<longrightarrow>
          in_filter gs (ob_granule x) \<longrightarrow> in_filter os (ob_id x) \<longrightarrow> ob_id (last ?page) < ob_id x \<longrightarrow>
          has_delivery_record (archive_loop dg gs os (ob_id (last ?page)) ?d') x)"
      using "1.IH" [OF refl False "1.prems"(1) rec] "1.prems"(3) by simp
    have "has_delivery_record (archive_loop dg gs os a d) x"
      if x: "x \<in> set (objects d)" "ob_acked_at x \<noteq> None" "batch_of_object d x \<noteq> None"
        "in_filter gs (ob_granule x)" "in_filter os (ob_id x)" "a < ob_id x" for x
    proof (cases "has_delivery_record ?d' x")
      case True
      then show ?thesis unfolding unfold by (rule has_record_keeps) (rule mono)
    next
      case new: False
      then have "x \<notin> set ?page" and "\<not> has_delivery_record d x"
        using paged sub by (auto dest: has_record_keeps)
      with x have "ob_id (last ?page) \<le> ob_id x"
        using page_of_first [of x d gs os a] by (auto simp: archivable_def)
      moreover have "ob_id (last ?page) \<noteq> ob_id x"
      proof
        assume eq: "ob_id (last ?page) = ob_id x"
        have "last ?page \<in> set (objects d)" and "last ?page \<in> set ?page"
          using False archive_page_set [of "last ?page" gs os a d] by auto
        with eq x(1) "1.prems"(3) have "last ?page = x" by (metis distinct_key_eq)
        with \<open>x \<notin> set ?page\<close> \<open>last ?page \<in> set ?page\<close> show False by simp
      qed
      ultimately show ?thesis using IH x unfolding unfold by simp
    qed
    with IH show ?thesis unfolding unfold by simp
  qed
qed

lemma archive_ok:
  assumes "inj_digest dg" and "records_ok dg (deliveries d)" and "distinct (map ob_id (objects d))"
  shows "records_ok dg (deliveries (archive_confirmed dg gs os d))"
    and "x \<in> set (objects d) \<Longrightarrow> ob_acked_at x \<noteq> None \<Longrightarrow> batch_of_object d x \<noteq> None \<Longrightarrow> 0 < ob_id x \<Longrightarrow>
       in_filter gs (ob_granule x) \<Longrightarrow> in_filter os (ob_id x) \<Longrightarrow>
       has_delivery_record (archive_confirmed dg gs os d) x"
  using archive_loop_ok [OF assms, of gs os 0] by (auto simp: archive_confirmed_def)

section \<open>Paging through the ledger\<close>

text \<open>
  \<^verbatim>\<open>iter_receipt_chunks\<close>: the pages that the export yields, for a filter \<open>c\<close> and the bound on
  the identifiers taken when the export began. Every page is read in a session of its own, so
  the table may have changed between two pages: \<open>reads k\<close> is the table when page \<open>k\<close> is read.
\<close>

definition receipt_page :: "(delivery_record \<Rightarrow> bool) \<Rightarrow> int \<Rightarrow> nat \<Rightarrow> int \<Rightarrow> delivery_record list \<Rightarrow> delivery_record list" where
  "receipt_page c upper n after rs =
     take n (sort_key dr_id (filter (\<lambda>r. c r \<and> dr_id r \<le> upper \<and> after < dr_id r) rs))"

function iter_receipt_chunks ::
  "(delivery_record \<Rightarrow> bool) \<Rightarrow> int \<Rightarrow> nat \<Rightarrow> int \<Rightarrow> (nat \<Rightarrow> delivery_record list) \<Rightarrow> delivery_record list list" where
  "iter_receipt_chunks c upper n after reads =
     (if after < upper then
        let page = receipt_page c upper n after (reads 0)
        in if page = [] then []
           else page # iter_receipt_chunks c upper n (dr_id (last page)) (\<lambda>k. reads (Suc k))
      else [])"
  by pat_completeness auto
termination
proof (relation "measure (\<lambda>(c, upper, n, after, reads). nat (upper - after))")
  fix c upper n after and reads :: "nat \<Rightarrow> delivery_record list" and page
  assume "after < upper" and page: "page = receipt_page c upper n after (reads 0)" and "page \<noteq> []"
  then have "last page \<in> set page" by simp
  then have "after < dr_id (last page)"
    unfolding page receipt_page_def by (auto dest: in_set_takeD)
  with \<open>after < upper\<close>
  show "((c, upper, n, dr_id (last page), \<lambda>k. reads (Suc k)), c, upper, n, after, reads)
      \<in> measure (\<lambda>(c, upper, n, after, reads). nat (upper - after))" by simp
qed simp

declare iter_receipt_chunks.simps [simp del]

lemma sort_key_filter_split:
  assumes "distinct (map k xs)" and xs': "xs' = sort_key k xs" and "0 < n" and "xs' \<noteq> []"
  shows "xs' = take n xs' @ sort_key k (filter (\<lambda>x. k (last (take n xs')) < (k x :: int)) xs)"
proof -
  let ?p = "take n xs'" and ?q = "drop n xs'"
  have "sorted_wrt (<) (map k xs')"
    using assms(1) unfolding xs' by (simp add: strict_sorted_iff distinct_map)
  then have "sorted_wrt (<) (map k ?p @ map k ?q)"
    by (simp only: map_append [symmetric] append_take_drop_id)
  then have lt: "\<And>y z. y \<in> set ?p \<Longrightarrow> z \<in> set ?q \<Longrightarrow> k y < k z" and sp: "sorted_wrt (<) (map k ?p)"
    by (auto simp only: sorted_wrt_append set_map)
  have ne: "?p \<noteq> []" using assms(3,4) by simp
  have sp': "sorted_wrt (<) (map k (butlast ?p @ [last ?p]))"
    by (simp only: append_butlast_last_id [OF ne] sp)
  then have bl: "\<And>y. y \<in> set (butlast ?p) \<Longrightarrow> k y < k (last ?p)" by (simp add: sorted_wrt_append)
  have le: "k y \<le> k (last ?p)" if "y \<in> set ?p" for y
  proof -
    have "y \<in> set (butlast ?p @ [last ?p])" using that by (simp only: append_butlast_last_id [OF ne])
    then show ?thesis using bl by (auto intro: less_imp_le)
  qed
  have "filter (\<lambda>x. k (last ?p) < k x) ?p = []"
    using le by (auto simp only: filter_empty_conv not_less)
  moreover have "filter (\<lambda>x. k (last ?p) < k x) ?q = ?q"
    using lt [OF last_in_set [OF ne]] by (simp only: filter_id_conv) blast
  moreover have "filter (\<lambda>x. k (last ?p) < k x) xs' = filter (\<lambda>x. k (last ?p) < k x) ?p @ filter (\<lambda>x. k (last ?p) < k x) ?q"
    by (simp only: filter_append [symmetric] append_take_drop_id)
  ultimately have "sort_key k (filter (\<lambda>x. k (last ?p) < k x) xs) = ?q"
    by (simp add: xs' filter_sort)
  then show ?thesis by (simp only: append_take_drop_id)
qed

definition selected :: "(delivery_record \<Rightarrow> bool) \<Rightarrow> int \<Rightarrow> int \<Rightarrow> delivery_record list \<Rightarrow> delivery_record list" where
  "selected c upper after rs = filter (\<lambda>r. c r \<and> dr_id r \<le> upper \<and> after < dr_id r) rs"

lemma iter_receipt_pages:
  assumes "0 < n" and "distinct (map dr_id rs)"
    and "\<And>k. selected c upper after (reads k) = selected c upper after rs"
  shows "concat (iter_receipt_chunks c upper n after reads) = sort_key dr_id (selected c upper after rs)"
  using assms
proof (induction c upper n after reads rule: iter_receipt_chunks.induct)
  case (1 c upper n after reads)
  let ?xs = "selected c upper after rs"
  let ?page = "take n (sort_key dr_id ?xs)"
  have page: "receipt_page c upper n after (reads 0) = ?page"
    using "1.prems"(3) [of 0] by (simp add: receipt_page_def selected_def)
  show ?case
  proof (cases "after < upper \<and> ?page \<noteq> []")
    case True
    then have ne: "sort_key dr_id ?xs \<noteq> []" by auto
    let ?l = "dr_id (last ?page)"
    have dist: "distinct (map dr_id ?xs)"
      using "1.prems"(2) by (auto simp: selected_def distinct_map inj_on_def)
    have "last ?page \<in> set ?page" using True by simp
    then have l: "after < ?l" by (auto simp: selected_def dest!: in_set_takeD)
    have later: "selected c upper ?l ys = filter (\<lambda>r. ?l < dr_id r) (selected c upper after ys)" for ys
      using l by (induction ys) (auto simp: selected_def)
    have "concat (iter_receipt_chunks c upper n ?l (\<lambda>k. reads (Suc k))) = sort_key dr_id (selected c upper ?l rs)"
      using "1.IH" [of ?page] True "1.prems" by (simp add: page later)
    moreover note sort_key_filter_split [OF dist refl "1.prems"(1) ne]
    ultimately show ?thesis
      using True by (simp add: iter_receipt_chunks.simps [of c upper n after reads] page Let_def later)
  next
    case False
    have "?xs = []"
    proof (cases "after < upper")
      case True
      with False "1.prems"(1) have "sort_key dr_id ?xs = []" by auto
      then have "set (sort_key dr_id ?xs) = {}" by (simp only: list.set)
      then show ?thesis by simp
    next
      case ge: False
      then show ?thesis by (auto simp: selected_def filter_empty_conv)
    qed
    then show ?thesis
      using False by (simp add: iter_receipt_chunks.simps [of c upper n after reads] page Let_def)
  qed
qed

text \<open>
  The export of the ledger, read page by page while deliveries go on, is the snapshot of the
  moment it began: if the rows up to the initial bound \<open>upper\<close> are in every later table (records
  are only added, above it), the pages together are exactly the records of the filter up to the
  bound, each once, in the order of their identifiers.
\<close>

theorem export_is_snapshot:
  assumes "0 < n" and "distinct (map dr_id rs)" and "\<forall>r \<in> set rs. 0 < dr_id r \<and> dr_id r \<le> upper"
    and "\<And>k. \<exists>later. reads k = rs @ later \<and> (\<forall>r \<in> set later. upper < dr_id r)"
  shows "concat (iter_receipt_chunks c upper n 0 reads) = sort_key dr_id (filter c rs)"
proof -
  have sel: "selected c upper 0 rs = filter c rs"
    using assms(3) by (auto simp: selected_def intro: filter_cong)
  have "selected c upper 0 (reads k) = selected c upper 0 rs" for k
  proof -
    obtain later where "reads k = rs @ later" and "\<forall>r \<in> set later. upper < dr_id r"
      using assms(4) by blast
    then show ?thesis by (auto simp: selected_def filter_empty_conv)
  qed
  from iter_receipt_pages [OF assms(1,2) this] show ?thesis by (simp only: sel)
qed

section \<open>The granule reaper\<close>

text \<open>
  \<^verbatim>\<open>reap_granules\<close>: in chunks of 20,000 identifiers, archive the confirmed objects of the chunk,
  then delete its objects, its timings and its granules, and count the deleted rows.
\<close>

record reap_counts =
  n_objects :: nat
  n_timings :: nat
  n_granules :: nat

definition reap_chunk :: "digest \<Rightarrow> ident list \<Rightarrow> reap_counts \<times> orch \<Rightarrow> reap_counts \<times> orch" where
  "reap_chunk digest chunk cd =
     (let c = fst cd; d = archive_confirmed digest (Some chunk) None (snd cd);
          po = (\<lambda>x. ob_granule x \<in> set chunk); pt = (\<lambda>t. st_granule t \<in> set chunk);
          pg = (\<lambda>g. gr_id g \<in> set chunk)
      in (\<lparr>n_objects = n_objects c + row_count po (objects d),
           n_timings = n_timings c + row_count pt (timings d),
           n_granules = n_granules c + row_count pg (granules d)\<rparr>,
          d\<lparr>objects := del_where po (objects d), timings := del_where pt (timings d),
            granules := del_where pg (granules d)\<rparr>))"

function chunks_of :: "nat \<Rightarrow> 'a list \<Rightarrow> 'a list list" where
  "chunks_of n xs = (if xs = [] \<or> n = 0 then [] else take n xs # chunks_of n (drop n xs))"
  by pat_completeness auto
termination by (relation "measure (\<lambda>(n, xs). length xs)") auto

declare chunks_of.simps [simp del]

definition reap_granules :: "digest \<Rightarrow> ident list \<Rightarrow> orch \<Rightarrow> reap_counts \<times> orch" where
  "reap_granules digest ids d =
     fold (reap_chunk digest) (chunks_of 20000 ids) (\<lparr>n_objects = 0, n_timings = 0, n_granules = 0\<rparr>, d)"

lemma chunks_of_step: "0 < n \<Longrightarrow> xs \<noteq> [] \<Longrightarrow> chunks_of n xs = take n xs # chunks_of n (drop n xs)"
  and chunks_of_Nil [simp]: "chunks_of n [] = []"
  by (subst chunks_of.simps, simp)+

lemma concat_chunks_of: "0 < n \<Longrightarrow> concat (chunks_of n xs) = xs"
proof (induction n xs rule: chunks_of.induct)
  case (1 n xs)
  then show ?case by (cases "xs = []") (simp_all add: chunks_of_step)
qed

lemma chunks_of_length: "0 < n \<Longrightarrow> c \<in> set (chunks_of n xs) \<Longrightarrow> length c \<le> n"
proof (induction n xs rule: chunks_of.induct)
  case (1 n xs)
  then show ?case by (cases "xs = []") (auto simp: chunks_of_step)
qed

text \<open>What a run over any list of chunks leaves.\<close>

lemma del_where_twice: "del_where p (del_where q rs) = del_where (\<lambda>r. q r \<or> p r) rs"
  by (simp add: del_where_def conj_commute)

lemma row_count_after_del:
  "row_count q rs + row_count p (del_where q rs) = row_count (\<lambda>r. q r \<or> p r) rs"
  by (induction rs) (auto simp: row_count_Cons del_where_def)

definition reaped :: "ident list \<Rightarrow> orch \<Rightarrow> orch \<Rightarrow> bool" where
  "reaped ids d d' \<longleftrightarrow>
     objects d' = del_where (\<lambda>x. ob_granule x \<in> set ids) (objects d)
     \<and> timings d' = del_where (\<lambda>t. st_granule t \<in> set ids) (timings d)
     \<and> granules d' = del_where (\<lambda>g. gr_id g \<in> set ids) (granules d)
     \<and> workers d' = workers d \<and> receivers d' = receivers d \<and> rollouts d' = rollouts d
     \<and> batches d' = batches d \<and> pending_events d' = pending_events d"

lemma reaped_Nil: "reaped [] d d"
  by (simp add: reaped_def del_where_def)

lemma reap_chunk_reaped:
  "reaped chunk (snd cd) (snd (reap_chunk dg chunk cd))"
  by (simp add: reap_chunk_def reaped_def Let_def)

lemma reaped_append: "reaped a d d' \<Longrightarrow> reaped b d' d'' \<Longrightarrow> reaped (a @ b) d d''"
  by (simp add: reaped_def del_where_twice)

definition counted :: "ident list \<Rightarrow> orch \<Rightarrow> reap_counts \<Rightarrow> reap_counts \<Rightarrow> bool" where
  "counted ids d c c' \<longleftrightarrow>
     n_objects c' = n_objects c + row_count (\<lambda>x. ob_granule x \<in> set ids) (objects d)
     \<and> n_timings c' = n_timings c + row_count (\<lambda>t. st_granule t \<in> set ids) (timings d)
     \<and> n_granules c' = n_granules c + row_count (\<lambda>g. gr_id g \<in> set ids) (granules d)"

lemma counted_Nil: "counted [] d c c"
  by (simp add: counted_def)

lemma reap_chunk_counted: "counted chunk (snd cd) (fst cd) (fst (reap_chunk dg chunk cd))"
  by (simp add: reap_chunk_def counted_def Let_def)

lemma counted_append:
  "counted a d c c' \<Longrightarrow> reaped a d d' \<Longrightarrow> counted b d' c' c'' \<Longrightarrow> counted (a @ b) d c c''"
  by (simp add: counted_def reaped_def row_count_after_del [symmetric])

lemma reap_fold:
  "reaped (concat cs) (snd cd) (snd (fold (reap_chunk dg) cs cd))
   \<and> counted (concat cs) (snd cd) (fst cd) (fst (fold (reap_chunk dg) cs cd))"
proof (induction cs arbitrary: cd)
  case Nil
  then show ?case by (simp add: reaped_Nil counted_Nil)
next
  case (Cons c cs)
  from Cons.IH [of "reap_chunk dg c cd"] show ?case
    by (auto intro: reaped_append counted_append reap_chunk_reaped reap_chunk_counted)
qed

lemma reap_granules_reaped:
  "reaped ids d (snd (reap_granules dg ids d))"
  "counted ids d \<lparr>n_objects = 0, n_timings = 0, n_granules = 0\<rparr> (fst (reap_granules dg ids d))"
  using reap_fold [where cs = "chunks_of 20000 ids" and dg = dg
      and cd = "(\<lparr>n_objects = 0, n_timings = 0, n_granules = 0\<rparr>, d)"]
  by (simp_all add: reap_granules_def concat_chunks_of)

lemma reap_fold_deliveries:
  "set (deliveries (snd cd)) \<subseteq> set (deliveries (snd (fold (reap_chunk dg) cs cd)))"
proof (induction cs arbitrary: cd)
  case (Cons c cs)
  have "set (deliveries (snd cd)) \<subseteq> set (deliveries (snd (reap_chunk dg c cd)))"
    using archive_keeps [of "snd cd" dg "Some c" None] by (auto simp: reap_chunk_def Let_def)
  with Cons.IH [of "reap_chunk dg c cd"] show ?case by auto
qed simp

lemma reap_granules_deliveries: "set (deliveries d) \<subseteq> set (deliveries (snd (reap_granules dg ids d)))"
  using reap_fold_deliveries [where cd = "(\<lparr>n_objects = 0, n_timings = 0, n_granules = 0\<rparr>, d)"]
  by (simp add: reap_granules_def)

lemma reap_fold_records:
  "inj_digest dg \<Longrightarrow> records_ok dg (deliveries (snd cd)) \<Longrightarrow> distinct (map ob_id (objects (snd cd))) \<Longrightarrow>
     records_ok dg (deliveries (snd (fold (reap_chunk dg) cs cd)))"
proof (induction cs arbitrary: cd)
  case (Cons c cs)
  have "records_ok dg (deliveries (snd (reap_chunk dg c cd)))"
    using archive_ok(1) [OF Cons.prems, where gs = "Some c" and os = None] by (simp add: reap_chunk_def Let_def)
  moreover have "distinct (map ob_id (objects (snd (reap_chunk dg c cd))))"
    using Cons.prems(3) by (simp add: reap_chunk_def Let_def distinct_del_where)
  ultimately show ?case using Cons.IH [of "reap_chunk dg c cd"] Cons.prems(1) by simp
qed simp

lemma reap_granules_records:
  "inj_digest dg \<Longrightarrow> records_ok dg (deliveries d) \<Longrightarrow> distinct (map ob_id (objects d)) \<Longrightarrow>
     records_ok dg (deliveries (snd (reap_granules dg ids d)))"
  using reap_fold_records [where cd = "(\<lparr>n_objects = 0, n_timings = 0, n_granules = 0\<rparr>, d)"]
  by (simp add: reap_granules_def)

text \<open>
  The digest is a parameter; that an injective one exists is shown with a prefix code, which
  the witnesses below and in the other theories use.
\<close>

definition encode_int :: "int \<Rightarrow> string" where
  "encode_int n = (if n < 0 then ''-'' else ''+'') @ replicate (nat \<bar>n\<bar>) (CHR ''1'') @ '';''"

definition encode_string :: "string \<Rightarrow> string" where
  "encode_string s = encode_int (int (length s)) @ s"

definition sample_digest :: digest where
  "sample_digest b g i t = encode_string b @ encode_string g @ encode_int i @ encode_int t"

lemma replicate_prefix:
  "replicate m (CHR ''1'') @ CHR '';'' # r = replicate n (CHR ''1'') @ CHR '';'' # s \<Longrightarrow> m = n \<and> r = s"
proof (induction m arbitrary: n)
  case 0
  then show ?case by (cases n) auto
next
  case (Suc m)
  then show ?case by (cases n) auto
qed

lemma encode_int_prefix: "encode_int m @ r = encode_int n @ s \<Longrightarrow> m = n \<and> r = s"
  by (auto simp: encode_int_def split: if_splits dest!: replicate_prefix)

lemma encode_string_prefix: "encode_string a @ r = encode_string b @ s \<Longrightarrow> a = b \<and> r = s"
  by (auto simp: encode_string_def dest!: encode_int_prefix)

lemma sample_digest_inj: "inj_digest sample_digest"
  unfolding inj_digest_def
proof (intro allI impI)
  fix b g b' g' :: ident and i i' :: int and t t' :: time
  assume "sample_digest b g i t = sample_digest b' g' i' t'"
  then have e: "encode_string b @ encode_string g @ encode_int i @ encode_int t
      = encode_string b' @ encode_string g' @ encode_int i' @ encode_int t'"
    by (simp add: sample_digest_def)
  from encode_string_prefix [OF e]
  have b: "b = b'" and e2: "encode_string g @ encode_int i @ encode_int t
      = encode_string g' @ encode_int i' @ encode_int t'" by blast+
  from encode_string_prefix [OF e2]
  have g: "g = g'" and e3: "encode_int i @ encode_int t = encode_int i' @ encode_int t'" by blast+
  from encode_int_prefix [OF e3]
  have "i = i'" and e4: "encode_int t @ [] = encode_int t' @ []" by auto
  with b g encode_int_prefix [OF e4] show "b = b' \<and> g = g' \<and> i = i' \<and> t = t'" by blast
qed

section \<open>Properties of the reaper\<close>

definition receipted :: "orch \<Rightarrow> gobject \<Rightarrow> bool" where
  "receipted d x \<longleftrightarrow> ob_acked_at x \<noteq> None \<longrightarrow> has_delivery_record d x"

lemma reap_fold_receipts:
  assumes "inj_digest dg"
    and "records_ok dg (deliveries (snd cd))" and "distinct (map ob_id (objects (snd cd)))"
    and "x \<in> set (objects (snd cd))" and "0 < ob_id x" and "ob_acked_at x \<noteq> None"
    and "batch_of_object (snd cd) x \<noteq> None" and "ob_granule x \<in> set (concat cs)"
  shows "has_delivery_record (snd (fold (reap_chunk dg) cs cd)) x"
  using assms(2-)
proof (induction cs arbitrary: cd)
  case Nil
  then show ?case by simp
next
  case (Cons c cs)
  let ?cd = "reap_chunk dg c cd"
  note arch = archive_ok [OF assms(1) Cons.prems(1,2), where gs = "Some c" and os = None]
  have del: "deliveries (snd ?cd) = deliveries (archive_confirmed dg (Some c) None (snd cd))"
    by (simp add: reap_chunk_def Let_def)
  show ?case
  proof (cases "ob_granule x \<in> set c")
    case True
    then have "has_delivery_record (archive_confirmed dg (Some c) None (snd cd)) x"
      using arch(2) [OF Cons.prems(3,5,6,4)] by simp
    then have "has_delivery_record (snd ?cd) x" by (simp add: has_record_iff del)
    moreover have "set (deliveries (snd ?cd)) \<subseteq> set (deliveries (snd (fold (reap_chunk dg) cs ?cd)))"
      by (rule reap_fold_deliveries)
    ultimately show ?thesis by (simp add: has_record_keeps)
  next
    case False
    have r: "reaped c (snd cd) (snd ?cd)" by (rule reap_chunk_reaped)
    obtain g b where g: "get_granule (ob_granule x) (snd cd) = Some g" "get_batch (gr_batch g) (snd cd) = Some b"
      using Cons.prems(6) by (auto simp: batch_of_object_def split: option.splits)
    have "get_granule (ob_granule x) (snd ?cd) = get_granule (ob_granule x) (snd cd)"
      using r False unfolding get_granule_def reaped_def
      by (elim conjE, simp only:) (rule get_row_del_where, simp)
    with g(1) have "get_granule (ob_granule x) (snd ?cd) = Some g" by simp
    then have "batch_of_object (snd ?cd) x \<noteq> None"
      using g(2) r by (simp add: batch_of_object_def reaped_def get_defs)
    moreover have "x \<in> set (objects (snd ?cd))" using r Cons.prems(3) False by (simp add: reaped_def)
    moreover have "distinct (map ob_id (objects (snd ?cd)))"
      using r Cons.prems(2) by (simp add: reaped_def distinct_del_where)
    moreover have "records_ok dg (deliveries (snd ?cd))" using arch(1) by (simp add: del)
    ultimately show ?thesis using Cons.IH [of ?cd] Cons.prems False by simp
  qed
qed

text \<open>
  Reaping granules deletes the rows of those granules, of their objects and of their timings,
  and no other row, whatever the number of chunks; it reports how many it deleted; and no receipt
  is lost: every delivered object that is deleted has its record in the ledger.
\<close>

theorem reap_granules_exact:
  assumes "inj_digest dg" and "records_ok dg (deliveries d)" and "distinct (map ob_id (objects d))"
    and "\<And>x. x \<in> set (objects d) \<Longrightarrow> 0 < ob_id x \<and> batch_of_object d x \<noteq> None"
    and "reap_granules dg ids d = (c, d')"
  shows "granules d' = filter (\<lambda>g. gr_id g \<notin> set ids) (granules d)
    \<and> objects d' = filter (\<lambda>x. ob_granule x \<notin> set ids) (objects d)
    \<and> timings d' = filter (\<lambda>t. st_granule t \<notin> set ids) (timings d)
    \<and> n_granules c + length (granules d') = length (granules d)
    \<and> n_objects c + length (objects d') = length (objects d)
    \<and> set (deliveries d) \<subseteq> set (deliveries d')
    \<and> (\<forall>x \<in> set (objects d) - set (objects d'). ob_acked_at x \<noteq> None \<longrightarrow> has_delivery_record d' x)"
proof -
  have d': "d' = snd (reap_granules dg ids d)" and c: "c = fst (reap_granules dg ids d)"
    using assms(5) by simp_all
  note r = reap_granules_reaped [of ids d dg, folded d' c]
  have "has_delivery_record d' x" if "x \<in> set (objects d)" "x \<notin> set (objects d')" "ob_acked_at x \<noteq> None" for x
    using reap_fold_receipts [of dg "(\<lparr>n_objects = 0, n_timings = 0, n_granules = 0\<rparr>, d)" x "chunks_of 20000 ids"]
      that assms r(1) by (auto simp: reap_granules_def concat_chunks_of reaped_def)
  then show ?thesis
    using r reap_granules_deliveries [of d dg ids, folded d']
      length_del_where [of "\<lambda>g. gr_id g \<in> set ids" "granules d"]
      length_del_where [of "\<lambda>x. ob_granule x \<in> set ids" "objects d"]
    by (auto simp: reaped_def counted_def del_where_def)
qed

text \<open>A concrete state for the witnesses: one batch with one delivered granule.\<close>

definition sample_batch :: batch where
  "sample_batch = \<lparr>bt_id = ''b'', bt_name = ''n'', bt_bundle_ref = ''x@1'', bt_target_receiver = None,
     bt_status = ''running'', bt_created_at = 0, bt_execution_env = [], bt_credentials = [],
     bt_delivered_count = Some 0\<rparr>"

definition sample_object :: "time option \<Rightarrow> gobject" where
  "sample_object acked = \<lparr>ob_id = 1, ob_granule = ''b:g'', ob_worker = ''w'', ob_key = ''k'', ob_url = ''u'',
     ob_sha256 = ''00'', ob_size = 5, ob_uploaded_at = 7, ob_acked_at = acked, ob_acked_by = map_option (\<lambda>_. ''r'') acked,
     ob_deleted_at = None, ob_failed_pulls = Some 0, ob_pull_lease_by = None, ob_pull_lease_expires_at = None\<rparr>"

definition sample_orch :: "granule_state \<Rightarrow> time option \<Rightarrow> orch" where
  "sample_orch st acked = empty_orch\<lparr>batches := [sample_batch], granules := [sample_granule st],
     objects := [sample_object acked]\<rparr>"

lemmas sample_defs = sample_orch_def sample_batch_def sample_object_def sample_granule_def empty_orch_def

theorem reap_granules_exact_witness:
  "granules (snd (reap_granules sample_digest [''b:g''] (sample_orch ACKED (Some 9)))) = []
   \<and> has_delivery_record (snd (reap_granules sample_digest [''b:g''] (sample_orch ACKED (Some 9))))
       (sample_object (Some 9))"
  using reap_granules_exact [OF sample_digest_inj, of "sample_orch ACKED (Some 9)" "[''b:g'']"
      "fst (reap_granules sample_digest [''b:g''] (sample_orch ACKED (Some 9)))"
      "snd (reap_granules sample_digest [''b:g''] (sample_orch ACKED (Some 9)))"]
  by (simp add: records_ok_def batch_of_object_def get_defs get_row_def sample_defs)

definition sample_record :: "int \<Rightarrow> delivery_record" where
  "sample_record n = \<lparr>dr_id = n, dr_identity = [], dr_source_object = n, dr_uploaded_at = 0, dr_batch = ''b'',
     dr_batch_name = ''n'', dr_bundle_ref = ''x@1'', dr_granule = ''b:g'', dr_object_key = ''k'', dr_sha256 = [],
     dr_size = 5, dr_receiver = None, dr_delivered_at = 0\<rparr>"

text \<open>Two records when the export began, one delivery more before each further page of one row.\<close>

theorem export_is_snapshot_witness:
  "concat (iter_receipt_chunks (\<lambda>r. True) 2 1 0
     (\<lambda>k. [sample_record 1, sample_record 2] @ map (\<lambda>n. sample_record (int n + 3)) [0..<k]))
   = [sample_record 1, sample_record 2]"
proof -
  have "concat (iter_receipt_chunks (\<lambda>r. True) 2 1 0
      (\<lambda>k. [sample_record 1, sample_record 2] @ map (\<lambda>n. sample_record (int n + 3)) [0..<k]))
    = sort_key dr_id (filter (\<lambda>r. True) [sample_record 1, sample_record 2])"
    by (rule export_is_snapshot) (auto simp: sample_record_def)
  then show ?thesis by (simp add: sample_record_def)
qed

end
