(* ===== verification/Integrity.thy ===== *)
theory Integrity
  imports Ledger
begin

text \<open>
  The integrity of the orchestrator's tables, the invariant that every handler and every
  background task keeps: identifiers are unique; objects, timings and granules refer to rows
  that exist; every granule row is well formed (\<open>granule_ok\<close>); only a granule that has uploaded
  has objects, and all of them are confirmed once it is \<open>ACKED\<close>; every confirmed object has its
  receipt in the ledger; the delivered counter of a batch covers its deleted granules.
  The facts below say which updates keep it, so that a handler's proof names its updates only.
\<close>

section \<open>The invariant\<close>

definition stored :: "granule_state set" where
  "stored = {UPLOADED, ACKED, DELETED}"

definition keys_ok :: "orch \<Rightarrow> bool" where
  "keys_ok d \<longleftrightarrow> distinct (map gr_id (granules d)) \<and> distinct (map ob_id (objects d))
     \<and> distinct (map bt_id (batches d)) \<and> (\<forall>x \<in> set (objects d). 0 < ob_id x)"

definition refs_ok :: "orch \<Rightarrow> bool" where
  "refs_ok d \<longleftrightarrow> (\<forall>g \<in> set (granules d). gr_batch g \<in> bt_id ` set (batches d))
     \<and> (\<forall>x \<in> set (objects d). ob_granule x \<in> gr_id ` set (granules d))
     \<and> (\<forall>t \<in> set (timings d). (st_granule t, st_batch t) \<in> (\<lambda>g. (gr_id g, gr_batch g)) ` set (granules d))"

definition rows_ok :: "orch \<Rightarrow> bool" where
  "rows_ok d \<longleftrightarrow> (\<forall>g \<in> set (granules d). granule_ok g)"

definition objects_ok :: "orch \<Rightarrow> bool" where
  "objects_ok d \<longleftrightarrow> (\<forall>x \<in> set (objects d). \<forall>g \<in> set (granules d). gr_id g = ob_granule x \<longrightarrow>
     gr_state g \<in> stored \<and> (gr_state g = ACKED \<longrightarrow> ob_acked_at x \<noteq> None))"

definition receipts_ok :: "digest \<Rightarrow> orch \<Rightarrow> bool" where
  "receipts_ok digest d \<longleftrightarrow> records_ok digest (deliveries d)
     \<and> (\<forall>x \<in> set (objects d). ob_acked_at x \<noteq> None \<longrightarrow> has_delivery_record d x)"

definition deleted_in :: "ident \<Rightarrow> granule \<Rightarrow> bool" where
  "deleted_in b g \<longleftrightarrow> gr_batch g = b \<and> gr_state g = DELETED"

definition counters_ok :: "orch \<Rightarrow> bool" where
  "counters_ok d \<longleftrightarrow> (\<forall>b \<in> set (batches d).
     int (row_count (deleted_in (bt_id b)) (granules d)) \<le> coalesce (bt_delivered_count b) 0)"

definition db_inv :: "digest \<Rightarrow> orch \<Rightarrow> bool" where
  "db_inv digest d \<longleftrightarrow> keys_ok d \<and> refs_ok d \<and> rows_ok d \<and> objects_ok d \<and> receipts_ok digest d \<and> counters_ok d"

lemmas inv_defs = keys_ok_def refs_ok_def rows_ok_def objects_ok_def receipts_ok_def counters_ok_def

lemma db_inv_cong:
  assumes "granules d' = granules d" "objects d' = objects d" "timings d' = timings d"
    "batches d' = batches d" "deliveries d' = deliveries d"
  shows "db_inv dg d' \<longleftrightarrow> db_inv dg d"
  using assms by (simp add: db_inv_def inv_defs has_delivery_record_def)

lemma db_inv_empty: "db_inv dg empty_orch"
  by (simp add: db_inv_def inv_defs empty_orch_def records_ok_def)

lemma db_inv_log [simp]: "db_inv dg (log_event l s m g b d) \<longleftrightarrow> db_inv dg d"
  by (rule db_inv_cong) simp_all

lemma db_inv_commit [simp]: "db_inv dg (commit_and_publish n sc d) \<longleftrightarrow> db_inv dg d"
  by (rule db_inv_cong) simp_all

lemma db_inv_evict [simp]: "db_inv dg (evict_granule k d) \<longleftrightarrow> db_inv dg d"
  by (rule db_inv_cong) simp_all

lemma db_inv_evicts [simp]: "db_inv dg (evict_granules ks d) \<longleftrightarrow> db_inv dg d"
  by (rule db_inv_cong) simp_all

lemma db_inv_log_fold [simp]:
  "db_inv dg (fold (\<lambda>w. log_event l s (m w) g b) ws d) \<longleftrightarrow> db_inv dg d"
  by (induction ws arbitrary: d) auto

section \<open>Bulk updates of granules without objects\<close>

text \<open>
  The contract of a bulk \<^verbatim>\<open>UPDATE granules SET f WHERE p\<close> outside the state machine (the
  carve-outs of \<^verbatim>\<open>ADR-0002\<close>): it selects granules that have not uploaded, and leaves them so and
  well formed.
\<close>

locale live_rewrite =
  fixes p :: "granule \<Rightarrow> bool" and f :: "granule \<Rightarrow> granule"
  assumes live: "p g \<Longrightarrow> gr_state g \<notin> stored"
    and same_id: "gr_id (f g) = gr_id g"
    and same_batch: "gr_batch (f g) = gr_batch g"
    and still_live: "p g \<Longrightarrow> gr_state (f g) \<notin> stored"
    and well_formed: "p g \<Longrightarrow> granule_ok g \<Longrightarrow> granule_ok (f g)"
begin

lemma keeps_ids: "map gr_id (upd_where p f gs) = map gr_id gs"
  by (rule map_upd_where) (rule same_id)

lemma keeps_id_set: "gr_id ` set (upd_where p f gs) = gr_id ` set gs"
  using keeps_ids [of gs] by (metis list.set_map)

lemma keeps_inv:
  assumes "db_inv dg d"
  shows "db_inv dg (d\<lparr>granules := upd_where p f (granules d)\<rparr>)"
proof -
  note inv = assms [unfolded db_inv_def]
  let ?d = "d\<lparr>granules := upd_where p f (granules d)\<rparr>"
  have "keys_ok ?d" using inv by (simp add: keys_ok_def keeps_ids)
  moreover have "map (\<lambda>g. (gr_id g, gr_batch g)) (upd_where p f (granules d)) = map (\<lambda>g. (gr_id g, gr_batch g)) (granules d)"
    by (rule map_upd_where) (simp add: same_id same_batch)
  then have "(\<lambda>g. (gr_id g, gr_batch g)) ` set (upd_where p f (granules d)) = (\<lambda>g. (gr_id g, gr_batch g)) ` set (granules d)"
    by (metis list.set_map)
  then have "refs_ok ?d"
    using inv by (auto simp: refs_ok_def keeps_id_set same_batch simp del: image_iff elim!: in_upd_whereE)
  moreover have "rows_ok ?d"
    using inv by (auto simp: rows_ok_def intro: well_formed elim!: in_upd_whereE)
  moreover have "objects_ok ?d"
    unfolding objects_ok_def
  proof (intro ballI impI)
    fix x g assume x: "x \<in> set (objects ?d)" and "g \<in> set (granules ?d)" and id: "gr_id g = ob_granule x"
    then have "g \<in> set (upd_where p f (granules d))" by simp
    then show "gr_state g \<in> stored \<and> (gr_state g = ACKED \<longrightarrow> ob_acked_at x \<noteq> None)"
    proof (cases rule: in_upd_whereE)
      case (1 r)
      then have "gr_state r \<in> stored"
        using inv x id by (auto simp: objects_ok_def same_id)
      with 1(2) live show ?thesis by blast
    next
      case (2 r)
      then show ?thesis using inv x id by (auto simp: objects_ok_def)
    qed
  qed
  moreover have "receipts_ok dg ?d" using inv by (simp add: receipts_ok_def has_delivery_record_def)
  moreover have "row_count (deleted_in b) (upd_where p f (granules d)) = row_count (deleted_in b) (granules d)" for b
    using live still_live by (intro row_count_upd_where_same) (auto simp: deleted_in_def stored_def)
  then have "counters_ok ?d" using inv by (simp add: counters_ok_def)
  ultimately show ?thesis by (simp add: db_inv_def)
qed

end

section \<open>Transitions\<close>

definition transition_allowed :: "orch \<Rightarrow> granule \<Rightarrow> any_event \<Rightarrow> bool" where
  "transition_allowed d g e \<longleftrightarrow>
     (case e of
        ObjectAcked gid \<Rightarrow> \<forall>x \<in> set (objects d). ob_granule x = gr_id g \<longrightarrow> ob_acked_at x \<noteq> None
      | RequeueGranule gid \<Rightarrow> False
      | _ \<Rightarrow> True)"

lemma no_predecessor_stored: "predecessor (STATE_TABLE t) \<noteq> Some UPLOADED"
  "predecessor (STATE_TABLE t) \<noteq> Some ACKED" "predecessor (STATE_TABLE t) \<noteq> Some DELETED"
  by (cases t; simp add: StateSpec_def)+

lemma transition_live:
  assumes "apply_event (snapshot_of g) e now mr = Inr r" and "transition_allowed d g e"
    and "gr_state g \<in> stored" and "objects_deleted_at r = None"
  shows "new_state r = ACKED \<and> (\<forall>x \<in> set (objects d). ob_granule x = gr_id g \<longrightarrow> ob_acked_at x \<noteq> None)
     \<and> new_objects r = []"
proof (cases e)
  case (Wire w)
  with assms show ?thesis
    by (cases w)
      (auto dest!: eventD simp: snapshot_of_def stored_def transition_allowed_def
        no_predecessor_stored delete_confirmedD)
qed (use assms in \<open>auto simp del: apply_event.simps dest!: eventD
      simp: snapshot_of_def stored_def transition_allowed_def delete_confirmedD
        cancellable_states_set retryable_states_set\<close>)

lemma transition_adds_objects:
  assumes "apply_event (snapshot_of g) e now mr = Inr r" and "new_objects r \<noteq> []"
  shows "new_state r = UPLOADED"
proof (cases e)
  case (Wire w)
  with assms show ?thesis by (cases w) (auto dest!: eventD simp: delete_confirmedD)
qed (use assms in \<open>auto simp del: apply_event.simps dest!: eventD simp: delete_confirmedD\<close>)

lemma transition_not_deleted:
  assumes "apply_event (snapshot_of g) e now mr = Inr r" and "objects_deleted_at r = None"
  shows "new_state r \<noteq> DELETED \<and> gr_state g \<noteq> DELETED"
proof -
  have "new_state r \<noteq> DELETED"
  proof (cases e)
    case (Wire w)
    with assms show ?thesis
      by (cases w) (auto dest!: eventD simp: delete_confirmedD snapshot_of_def no_predecessor_stored StateSpec_def split: if_splits)
  qed (use assms in \<open>auto simp del: apply_event.simps dest!: eventD simp: delete_confirmedD\<close>)
  with apply_event_sound [OF assms(1)] show ?thesis
    by (auto simp: snapshot_of_def cancellable_states_set retryable_states_set elim: lifecycle.cases)
qed

lemma fold_add_object_pos:
  "\<forall>x \<in> set os. 0 < ob_id x \<Longrightarrow> \<forall>x \<in> set (fold (add_object gid now) rs os). 0 < ob_id x"
proof (induction rs arbitrary: os)
  case (Cons r rs)
  have "\<forall>x \<in> set (add_object gid now r os). 0 < ob_id x"
    using Cons.prems next_id_pos [of ob_id os] by (simp add: add_object_def)
  then show ?case by (simp add: Cons.IH)
qed simp

lemma set_upd_key:
  assumes "distinct (map key rs)" and "r \<in> set rs" and "x \<in> set (upd_where (\<lambda>y. key y = key r) f rs)"
  shows "x = f r \<or> x \<in> set rs \<and> key x \<noteq> key r"
  using assms(3) by (rule in_upd_whereE) (auto dest: distinct_key_eq [OF assms(1) _ assms(2)])

text \<open>A transition that does not confirm a deletion.\<close>

lemma moved_keeps_inv:
  assumes inv: "db_inv dg d" and g: "g \<in> set (granules d)"
    and ev: "apply_event (snapshot_of g) e now mr = Inr r"
    and allowed: "transition_allowed d g e" and none: "objects_deleted_at r = None"
  shows "db_inv dg (apply_to_session now' g r d)"
proof -
  note inv' = inv [unfolded db_inv_def]
  have dist: "distinct (map gr_id (granules d))" using inv' by (simp add: keys_ok_def)
  let ?d = "apply_to_session now' g r d"
  have gs: "granules ?d = upd_where (\<lambda>x. gr_id x = gr_id g) (transition_row r) (granules d)"
    and os: "objects ?d = fold (add_object (gr_id g) now') (new_objects r) (objects d)"
    and ts: "timings ?d = fold (add_timing (gr_id g) (gr_batch g)) (stage_rows r) (timings d)"
    and bs: "batches ?d = batches d"
    using none by (simp_all add: apply_to_session_def)
  note upd = set_upd_key [OF dist g, of _ "transition_row r", folded gs]
  have ids: "gr_id ` set (granules ?d) = gr_id ` set (granules d)"
    using apply_to_session_ids(1) [of now' g r d] by (metis list.set_map)
  have "map (\<lambda>x. (gr_id x, gr_batch x)) (granules ?d) = map (\<lambda>x. (gr_id x, gr_batch x)) (granules d)"
    unfolding gs by (rule map_upd_where) simp
  then have pairs: "(\<lambda>x. (gr_id x, gr_batch x)) ` set (granules ?d) = (\<lambda>x. (gr_id x, gr_batch x)) ` set (granules d)"
    by (metis list.set_map)
  have "keys_ok ?d"
    using inv' fold_add_object_pos [of "objects d"] by (simp add: keys_ok_def bs os fold_add_object_ids)
  moreover have "refs_ok ?d"
    unfolding refs_ok_def ids pairs bs
  proof (intro conjI ballI)
    fix x assume "x \<in> set (granules ?d)"
    from upd [OF this] show "gr_batch x \<in> bt_id ` set (batches d)"
      using inv' g by (auto simp: refs_ok_def)
  next
    fix x assume "x \<in> set (objects ?d)"
    then show "ob_granule x \<in> gr_id ` set (granules d)"
      using inv' g unfolding os by (auto simp: refs_ok_def dest!: in_fold_add_object)
  next
    fix x assume "x \<in> set (timings ?d)"
    then show "(st_granule x, st_batch x) \<in> (\<lambda>g. (gr_id g, gr_batch g)) ` set (granules d)"
      using inv' g unfolding ts by (auto simp: refs_ok_def dest!: in_fold_add_timing)
  qed
  moreover have "rows_ok ?d"
    unfolding rows_ok_def
    using upd inv' g granule_ok_step [OF _ ev] by (auto simp: rows_ok_def)
  moreover have "objects_ok ?d"
    unfolding objects_ok_def
  proof (intro ballI impI)
    fix x h assume x: "x \<in> set (objects ?d)" and h: "h \<in> set (granules ?d)" and id: "gr_id h = ob_granule x"
    from x have x': "x \<in> set (objects d) \<or> ob_granule x = gr_id g \<and> ob_acked_at x = None"
      unfolding os by (auto dest!: in_fold_add_object)
    from x have new: "x \<notin> set (objects d) \<Longrightarrow> new_objects r \<noteq> []"
      unfolding os by (cases "new_objects r") simp_all
    from upd [OF h] show "gr_state h \<in> stored \<and> (gr_state h = ACKED \<longrightarrow> ob_acked_at x \<noteq> None)"
    proof
      assume h': "h = transition_row r g"
      show ?thesis
      proof (cases "x \<in> set (objects d)")
        case True
        with inv' g id h' have "gr_state g \<in> stored" by (auto simp: objects_ok_def)
        from transition_live [OF ev allowed this none] True h' id
        show ?thesis by (auto simp: stored_def)
      next
        case False
        with new transition_adds_objects [OF ev] h' show ?thesis by (simp add: stored_def)
      qed
    next
      assume "h \<in> set (granules d) \<and> gr_id h \<noteq> gr_id g"
      with x' id inv' show ?thesis by (auto simp: objects_ok_def)
    qed
  qed
  moreover have "receipts_ok dg ?d"
    using inv' unfolding receipts_ok_def os
    by (auto simp: has_delivery_record_def dest!: in_fold_add_object)
  moreover have "row_count (deleted_in b) (granules ?d) = row_count (deleted_in b) (granules d)" for b
    unfolding gs
  proof (rule row_count_upd_where_same)
    fix x assume "x \<in> set (granules d)" and "gr_id x = gr_id g"
    then have "x = g" using dist g by (metis distinct_key_eq)
    with transition_not_deleted [OF ev none]
    show "deleted_in b (transition_row r x) = deleted_in b x" by (simp add: deleted_in_def)
  qed
  then have "counters_ok ?d" using inv' by (simp add: counters_ok_def bs)
  ultimately show ?thesis by (simp add: db_inv_def)
qed

text \<open>A confirmed deletion, the rowcount-gated path.\<close>

lemma granule_ok_deleted: "granule_ok g \<Longrightarrow> granule_ok (flip_deleted t g)"
  by (simp add: granule_ok_def lease_ok_def tails_ok_def flip_deleted_def)

lemma deleted_keeps_inv:
  assumes inv: "db_inv dg d" and g: "g \<in> set (granules d)" and some: "objects_deleted_at r = Some t"
  shows "db_inv dg (apply_to_session now' g r d)"
proof -
  note inv' = inv [unfolded db_inv_def]
  have dist: "distinct (map gr_id (granules d))" using inv' by (simp add: keys_ok_def)
  let ?d = "apply_to_session now' g r d"
  let ?p = "\<lambda>x. gr_id x = gr_id g \<and> gr_state x \<noteq> DELETED"
  let ?f = "flip_deleted (updated_at_of (tr_fields r))"
  show ?thesis
  proof (cases "gr_state g = DELETED")
    case True
    have "upd_where ?p ?f (granules d) = granules d"
      using True dist g by (intro upd_where_none) (metis distinct_key_eq)
    then have "?d = d"
      using some True row_count_key [OF dist g, of "\<lambda>x. gr_state x \<noteq> DELETED"]
      by (simp add: apply_to_session_def Let_def del: row_count_0)
    with inv show ?thesis by simp
  next
    case False
    let ?o = "\<lambda>x. ob_granule x = gr_id g" and ?u = "\<lambda>x. x\<lparr>ob_deleted_at := Some t\<rparr>"
    have one: "row_count ?p (granules d) = 1"
      using False row_count_key [OF dist g, of "\<lambda>x. gr_state x \<noteq> DELETED"] by simp
    have gs: "granules ?d = upd_where ?p ?f (granules d)"
      and os: "objects ?d = upd_where ?o ?u (objects d)"
      and ts: "timings ?d = timings d"
      and bs: "batches ?d = upd_where (\<lambda>b. bt_id b = gr_batch g) bump_delivered (batches d)"
      using some one by (simp_all add: apply_to_session_def Let_def)
    have ids: "gr_id ` set (granules ?d) = gr_id ` set (granules d)"
      using apply_to_session_ids(1) [of now' g r d] by (metis list.set_map)
    have bids: "map bt_id (batches ?d) = map bt_id (batches d)" by simp
    then have bset: "bt_id ` set (batches ?d) = bt_id ` set (batches d)" by (metis list.set_map)
    have oids: "map ob_id (objects ?d) = map ob_id (objects d)"
      unfolding os by (rule map_upd_where) simp
    have old: "\<exists>y \<in> set (objects d). ob_granule y = ob_granule x \<and> ob_acked_at y = ob_acked_at x
        \<and> ob_id y = ob_id x \<and> ob_uploaded_at y = ob_uploaded_at x" if "x \<in> set (objects ?d)" for x
      using that unfolding os by (auto elim!: in_upd_whereE)
    have "keys_ok ?d"
      using inv' old unfolding keys_ok_def bids oids by (auto, metis)
    moreover have "map (\<lambda>x. (gr_id x, gr_batch x)) (granules ?d) = map (\<lambda>x. (gr_id x, gr_batch x)) (granules d)"
      unfolding gs by (rule map_upd_where) (simp add: flip_deleted_def)
    then have pairs: "(\<lambda>x. (gr_id x, gr_batch x)) ` set (granules ?d) = (\<lambda>x. (gr_id x, gr_batch x)) ` set (granules d)"
      by (metis list.set_map)
    have "refs_ok ?d"
      unfolding refs_ok_def ids pairs bset ts
      using inv' old by (auto simp: refs_ok_def gs simp del: image_iff elim!: in_upd_whereE, metis)
    moreover have "rows_ok ?d"
      using inv' by (auto simp: rows_ok_def gs intro: granule_ok_deleted elim!: in_upd_whereE)
    moreover have "objects_ok ?d"
      unfolding objects_ok_def
    proof (intro ballI impI)
      fix x h assume x: "x \<in> set (objects ?d)" and h: "h \<in> set (granules ?d)" and id: "gr_id h = ob_granule x"
      obtain y where y: "y \<in> set (objects d)" "ob_granule y = ob_granule x" "ob_acked_at y = ob_acked_at x"
        using old [OF x] by blast
      have "objects_ok d" using inv' by blast
      with y have ok: "gr_state k \<in> stored \<and> (gr_state k = ACKED \<longrightarrow> ob_acked_at x \<noteq> None)"
        if "k \<in> set (granules d)" "gr_id k = ob_granule x" for k
        using that unfolding objects_ok_def by metis
      from h show "gr_state h \<in> stored \<and> (gr_state h = ACKED \<longrightarrow> ob_acked_at x \<noteq> None)"
        unfolding gs by (rule in_upd_whereE) (use ok id in \<open>auto simp: stored_def\<close>)
    qed
    moreover have "receipts_ok dg ?d"
      unfolding receipts_ok_def
    proof (intro conjI ballI impI)
      show "records_ok dg (deliveries ?d)" using inv' by (simp add: receipts_ok_def)
    next
      fix x assume "x \<in> set (objects ?d)" and "ob_acked_at x \<noteq> None"
      with old [of x] inv' show "has_delivery_record ?d x"
        by (auto simp: receipts_ok_def has_delivery_record_def)
    qed
    moreover have "counters_ok ?d"
      unfolding counters_ok_def
    proof
      fix b assume "b \<in> set (batches ?d)"
      then obtain b0 where b0: "b0 \<in> set (batches d)" "bt_id b = bt_id b0"
        "b = (if bt_id b0 = gr_batch g then bump_delivered b0 else b0)"
        unfolding bs by (auto elim!: in_upd_whereE)
      have "int (row_count (deleted_in (bt_id b0)) (granules d)) \<le> coalesce (bt_delivered_count b0) 0"
        using inv' b0 by (simp add: counters_ok_def)
      moreover have "row_count (deleted_in (bt_id b0)) (granules ?d)
          \<le> row_count (deleted_in (bt_id b0)) (granules d) + (if bt_id b0 = gr_batch g then 1 else 0)"
      proof (cases "bt_id b0 = gr_batch g")
        case True
        show ?thesis unfolding gs using True row_count_flip_le [OF dist g] by simp
      next
        case neq: False
        have "row_count (deleted_in (bt_id b0)) (granules ?d) = row_count (deleted_in (bt_id b0)) (granules d)"
          unfolding gs
        proof (rule row_count_upd_where_same)
          fix x assume "x \<in> set (granules d)" and "gr_id x = gr_id g \<and> gr_state x \<noteq> DELETED"
          then have "x = g" using dist g by (metis distinct_key_eq)
          with neq show "deleted_in (bt_id b0) (?f x) = deleted_in (bt_id b0) x" by (auto simp: deleted_in_def)
        qed
        then show ?thesis by simp
      qed
      ultimately show "int (row_count (deleted_in (bt_id b)) (granules ?d)) \<le> coalesce (bt_delivered_count b) 0"
        using b0(2,3) by (auto simp: bump_delivered_def split: if_splits)
    qed
    ultimately show ?thesis by (simp add: db_inv_def)
  qed
qed

lemma transition_keeps_inv:
  assumes "db_inv dg d" and "g \<in> set (granules d)" and "transition_allowed d g e"
    and "apply_transition cfg g e now d = Inr (r, d')"
  shows "db_inv dg d'"
proof (cases "objects_deleted_at r")
  case None
  with moved_keeps_inv [OF assms(1,2) _ assms(3)] apply_transition_cases [OF assms(4)] show ?thesis by blast
next
  case (Some t)
  with deleted_keeps_inv [OF assms(1,2)] apply_transition_cases [OF assms(4)] show ?thesis by blast
qed

section \<open>Updates of objects\<close>

text \<open>
  The contract of an \<^verbatim>\<open>UPDATE granule_objects SET f\<close> that neither confirms an object nor moves
  it: pull claims, failure counters and deletion marks.
\<close>

locale object_rewrite =
  fixes f :: "gobject \<Rightarrow> gobject"
  assumes same_oid: "ob_id (f x) = ob_id x"
    and same_granule: "ob_granule (f x) = ob_granule x"
    and same_upload: "ob_uploaded_at (f x) = ob_uploaded_at x"
    and same_ack: "ob_acked_at (f x) = ob_acked_at x"
begin

lemma rewritten:
  assumes "x \<in> set (upd_where p f os)"
  shows "\<exists>y \<in> set os. ob_id x = ob_id y \<and> ob_granule x = ob_granule y
     \<and> ob_uploaded_at x = ob_uploaded_at y \<and> ob_acked_at x = ob_acked_at y"
  using assms by (rule in_upd_whereE) (auto intro: bexI simp: same_oid same_granule same_upload same_ack)

lemma keeps_inv_objects:
  assumes "db_inv dg d"
  shows "db_inv dg (d\<lparr>objects := upd_where p f (objects d)\<rparr>)"
proof -
  note inv = assms [unfolded db_inv_def]
  let ?d = "d\<lparr>objects := upd_where p f (objects d)\<rparr>"
  have "map ob_id (upd_where p f (objects d)) = map ob_id (objects d)"
    by (rule map_upd_where) (rule same_oid)
  then have "keys_ok ?d" using inv by (auto simp: keys_ok_def dest!: rewritten)
  moreover have "refs_ok ?d" using inv by (auto simp: refs_ok_def dest!: rewritten)
  moreover have "rows_ok ?d" using inv by (simp add: rows_ok_def)
  moreover have "objects_ok ?d"
    unfolding objects_ok_def
  proof (intro ballI impI)
    fix x h assume "x \<in> set (objects ?d)" and h: "h \<in> set (granules ?d)" "gr_id h = ob_granule x"
    then obtain y where "y \<in> set (objects d)" "ob_granule x = ob_granule y" "ob_acked_at x = ob_acked_at y"
      by (auto dest!: rewritten)
    moreover have "objects_ok d" using inv by blast
    ultimately show "gr_state h \<in> stored \<and> (gr_state h = ACKED \<longrightarrow> ob_acked_at x \<noteq> None)"
      using h unfolding objects_ok_def by simp
  qed
  moreover have "receipts_ok dg ?d"
    using inv by (auto simp: receipts_ok_def has_delivery_record_def dest!: rewritten)
  moreover have "counters_ok ?d" using inv by (simp add: counters_ok_def)
  ultimately show ?thesis by (simp add: db_inv_def)
qed

end

interpretation pull_claim: object_rewrite "\<lambda>x. x\<lparr>ob_pull_lease_by := w, ob_pull_lease_expires_at := t\<rparr>" for w t
  by unfold_locales simp_all

interpretation reset_pulls: object_rewrite "\<lambda>x. x\<lparr>ob_failed_pulls := n\<rparr>" for n
  by unfold_locales simp_all

interpretation failed_pull: object_rewrite
  "\<lambda>x. x\<lparr>ob_failed_pulls := n, ob_pull_lease_by := None, ob_pull_lease_expires_at := None\<rparr>" for n
  by unfold_locales simp_all

interpretation mark_deleted: object_rewrite "\<lambda>x. x\<lparr>ob_deleted_at := t\<rparr>" for t
  by unfold_locales simp_all

lemma drop_objects_inv:
  assumes "db_inv dg d"
  shows "db_inv dg (d\<lparr>objects := del_where p (objects d)\<rparr>)"
  using assms
  by (auto simp: db_inv_def inv_defs has_delivery_record_def distinct_del_where)

section \<open>The ledger and the reaper\<close>

lemma batch_of_object_ok:
  "refs_ok d \<Longrightarrow> x \<in> set (objects d) \<Longrightarrow> batch_of_object d x \<noteq> None"
proof -
  assume refs: "refs_ok d" and x: "x \<in> set (objects d)"
  then have "get_granule (ob_granule x) d \<noteq> None" by (simp only: get_granule_def get_row_None) (simp add: refs_ok_def)
  then obtain g where g: "get_granule (ob_granule x) d = Some g" by blast
  then have "g \<in> set (granules d)" by (auto simp: get_granule_def)
  with refs have "get_batch (gr_batch g) d \<noteq> None" by (simp only: get_batch_def get_row_None) (simp add: refs_ok_def)
  with g show ?thesis by (simp add: batch_of_object_def)
qed

lemma archive_receipts:
  assumes "inj_digest dg" and "keys_ok d" and "refs_ok d" and "records_ok dg (deliveries d)"
    and "x \<in> set (objects d)" and "ob_acked_at x \<noteq> None"
    and "in_filter gs (ob_granule x)" and "in_filter os (ob_id x)"
  shows "has_delivery_record (archive_confirmed dg gs os d) x"
  using archive_ok(2) [OF assms(1,4)] assms batch_of_object_ok by (auto simp: keys_ok_def)

lemma archive_keeps_inv:
  assumes "inj_digest dg" and "db_inv dg d"
  shows "db_inv dg (archive_confirmed dg gs os d)"
proof -
  note inv = assms(2) [unfolded db_inv_def]
  have "records_ok dg (deliveries (archive_confirmed dg gs os d))"
    using archive_ok(1) [OF assms(1)] inv by (simp add: receipts_ok_def keys_ok_def)
  moreover have "has_delivery_record (archive_confirmed dg gs os d) x"
    if "x \<in> set (objects d)" "ob_acked_at x \<noteq> None" for x
    using that inv archive_keeps [of d dg gs os] by (auto simp: receipts_ok_def intro: has_record_keeps)
  ultimately show ?thesis using inv by (simp add: db_inv_def inv_defs)
qed

lemma reap_keeps_inv:
  assumes "inj_digest dg" and "db_inv dg d"
  shows "db_inv dg (snd (reap_granules dg ids d))"
proof -
  note inv = assms(2) [unfolded db_inv_def]
  let ?d = "snd (reap_granules dg ids d)"
  note r = reap_granules_reaped(1) [of ids d dg, unfolded reaped_def]
  have keep: "has_delivery_record d x \<Longrightarrow> has_delivery_record ?d x" for x
    using has_record_keeps [OF _ reap_granules_deliveries] by blast
  have "keys_ok ?d" using inv r by (simp add: keys_ok_def distinct_del_where)
  moreover have "gr_id ` set (granules ?d) = gr_id ` set (granules d) - set ids" using r by auto
  moreover have "(\<lambda>g. (gr_id g, gr_batch g)) ` set (granules ?d)
      = {k \<in> (\<lambda>g. (gr_id g, gr_batch g)) ` set (granules d). fst k \<notin> set ids}" using r by auto
  ultimately have "refs_ok ?d" using inv r by (simp add: refs_ok_def)
  moreover have "keys_ok ?d" using inv r by (simp add: keys_ok_def distinct_del_where)
  moreover have "rows_ok ?d" "objects_ok ?d" using inv r by (auto simp: rows_ok_def objects_ok_def)
  moreover have "receipts_ok dg ?d"
    using inv r keep reap_granules_records [OF assms(1), of d ids] by (auto simp: receipts_ok_def keys_ok_def)
  moreover have "counters_ok ?d"
    unfolding counters_ok_def
  proof
    fix b assume "b \<in> set (batches ?d)"
    then have "int (row_count (deleted_in (bt_id b)) (granules d)) \<le> coalesce (bt_delivered_count b) 0"
      using inv r by (simp add: counters_ok_def)
    moreover have "row_count (deleted_in (bt_id b)) (granules ?d) \<le> row_count (deleted_in (bt_id b)) (granules d)"
      using r by (simp add: row_count_del_where_le)
    ultimately show "int (row_count (deleted_in (bt_id b)) (granules ?d)) \<le> coalesce (bt_delivered_count b) 0"
      by linarith
  qed
  ultimately show ?thesis by (simp add: db_inv_def)
qed

section \<open>Loops over granules\<close>

text \<open>
  A handler's \<^verbatim>\<open>for granule in rows\<close>: the session's identity map gives each iteration the
  current row.
\<close>

definition for_granules :: "(granule \<Rightarrow> orch \<Rightarrow> orch) \<Rightarrow> ident list \<Rightarrow> orch \<Rightarrow> orch" where
  "for_granules body gids d =
     fold (\<lambda>gid d. case get_granule gid d of None \<Rightarrow> d | Some g \<Rightarrow> body g d) gids d"

lemma for_granules_inv:
  assumes "P d" and "\<And>g d. P d \<Longrightarrow> g \<in> set (granules d) \<Longrightarrow> P (body g d)"
  shows "P (for_granules body gids d)"
  unfolding for_granules_def
  by (rule fold_invariant_P)
    (use assms in \<open>auto simp: get_granule_def split: option.splits\<close>)

lemma apply_or_skip_inv:
  "db_inv dg d \<Longrightarrow> g \<in> set (granules d) \<Longrightarrow> transition_allowed d g e \<Longrightarrow> db_inv dg (apply_or_skip cfg g e now d)"
  by (auto simp: apply_or_skip_def split: sum.splits intro: transition_keeps_inv)

text \<open>The same loop with an error that stops it.\<close>

primrec for_each :: "('x \<Rightarrow> 's \<Rightarrow> 'e + 's) \<Rightarrow> 'x list \<Rightarrow> 's \<Rightarrow> 'e + 's" where
  "for_each body [] s = Inr s"
| "for_each body (x # xs) s = (case body x s of Inl e \<Rightarrow> Inl e | Inr s' \<Rightarrow> for_each body xs s')"

lemma for_each_inv:
  assumes "\<And>x s s'. x \<in> set xs \<Longrightarrow> P s \<Longrightarrow> body x s = Inr s' \<Longrightarrow> P s'"
  shows "for_each body xs s = Inr s' \<Longrightarrow> P s \<Longrightarrow> P s'"
  using assms
proof (induction xs arbitrary: s)
  case (Cons x xs)
  from Cons.prems(1) obtain s1 where s1: "body x s = Inr s1" "for_each body xs s1 = Inr s'"
    by (auto split: sum.splits)
  from Cons.prems(3) [OF _ Cons.prems(2) s1(1)] have "P s1" by simp
  from s1(2) this show ?case by (rule Cons.IH) (auto intro: Cons.prems(3))
qed simp

text \<open>
  A loop that raises the same event on every row of a selection is the bulk update
  \<^verbatim>\<open>UPDATE granules SET f WHERE p\<close>, when the machine accepts the event on every row of the
  selection and only writes the row.
\<close>

locale bulk_transition =
  fixes cfg :: settings and now :: time and ev :: "ident \<Rightarrow> any_event"
    and p :: "granule \<Rightarrow> bool" and f :: "granule \<Rightarrow> granule"
  assumes accepted: "p g \<Longrightarrow> \<exists>r. apply_event (snapshot_of g) (ev (gr_id g)) now (max_retries cfg) = Inr r
      \<and> transition_row r g = f g \<and> new_objects r = [] \<and> stage_rows r = [] \<and> objects_deleted_at r = None"
    and keeps_id: "gr_id (f g) = gr_id g"
begin

lemma one_row:
  assumes "p g" and "g \<in> set (granules d)" and "distinct (map gr_id (granules d))"
  shows "\<exists>r. apply_transition cfg g (ev (gr_id g)) now d
     = Inr (r, d\<lparr>granules := upd_where (\<lambda>x. gr_id x = gr_id g) f (granules d)\<rparr>)"
proof -
  obtain r where r: "apply_event (snapshot_of g) (ev (gr_id g)) now (max_retries cfg) = Inr r"
      "transition_row r g = f g" "new_objects r = []" "stage_rows r = []" "objects_deleted_at r = None"
    using accepted [OF assms(1)] by blast
  have "upd_where (\<lambda>x. gr_id x = gr_id g) (transition_row r) (granules d)
      = upd_where (\<lambda>x. gr_id x = gr_id g) f (granules d)"
    using distinct_key_eq [OF assms(3) _ assms(2)] r(2) by (intro upd_where_cong) auto
  with r show ?thesis by (intro exI [of _ r]) (simp add: apply_transition_def apply_to_session_def)
qed

lemma loop_is_update:
  assumes body: "\<And>g d. p g \<Longrightarrow> g \<in> set (granules d) \<Longrightarrow> distinct (map gr_id (granules d)) \<Longrightarrow>
      body (gr_id g) d = Inr (b (gr_id g) d)
      \<and> granules (b (gr_id g) d) = upd_where (\<lambda>x. gr_id x = gr_id g) f (granules d)
      \<and> P d (b (gr_id g) d)"
    and refl: "\<And>d. P d d" and trans: "\<And>a b c. P a b \<Longrightarrow> P b c \<Longrightarrow> P a c"
    and "distinct ids" and "distinct (map gr_id (granules d))"
    and "\<And>i. i \<in> set ids \<Longrightarrow> \<exists>g \<in> set (granules d). gr_id g = i \<and> p g"
  shows "\<exists>d'. for_each body ids d = Inr d' \<and> granules d' = upd_where (\<lambda>x. gr_id x \<in> set ids) f (granules d) \<and> P d d'"
  using assms(4-)
proof (induction ids arbitrary: d)
  case Nil
  then show ?case by (simp add: upd_where_def refl)
next
  case (Cons i ids)
  obtain g where g: "g \<in> set (granules d)" "gr_id g = i" "p g"
    using Cons.prems(3) [of i] by auto
  let ?d = "b i d"
  from body [OF g(3,1) Cons.prems(2)] g(2)
  have b: "body i d = Inr ?d" and gs: "granules ?d = upd_where (\<lambda>x. gr_id x = i) f (granules d)" and P: "P d ?d"
    by simp_all
  have ids: "map gr_id (granules ?d) = map gr_id (granules d)"
    unfolding gs by (rule map_upd_where) (rule keeps_id)
  have "\<exists>g \<in> set (granules ?d). gr_id g = j \<and> p g" if j: "j \<in> set ids" for j
  proof -
    from Cons.prems(3) [of j] j obtain h where h: "h \<in> set (granules d)" "gr_id h = j" "p h" by auto
    moreover have "j \<noteq> i" using j Cons.prems(1) by auto
    ultimately have "h \<in> set (granules ?d)" unfolding gs by (intro in_upd_where_unchanged) simp_all
    with h show ?thesis by blast
  qed
  with Cons.IH [of ?d] Cons.prems(1,2) ids obtain d' where d': "for_each body ids ?d = Inr d'"
      "granules d' = upd_where (\<lambda>x. gr_id x \<in> set ids) f (granules ?d)" "P ?d d'" by auto
  have "upd_where (\<lambda>x. gr_id x \<in> set ids) f (granules ?d)
      = upd_where (\<lambda>x. gr_id x = i \<or> gr_id x \<in> set ids) f (granules d)"
    unfolding gs by (rule upd_where_compose) (use Cons.prems(1) in \<open>auto simp: keeps_id\<close>)
  with d' b trans [OF P] show ?case by simp
qed

lemma loop_over_selection:
  assumes body: "\<And>g d. p g \<Longrightarrow> g \<in> set (granules d) \<Longrightarrow> distinct (map gr_id (granules d)) \<Longrightarrow>
      body (gr_id g) d = Inr (b (gr_id g) d)
      \<and> granules (b (gr_id g) d) = upd_where (\<lambda>x. gr_id x = gr_id g) f (granules d)
      \<and> P d (b (gr_id g) d)"
    and "\<And>d. P d d" and "\<And>a b c. P a b \<Longrightarrow> P b c \<Longrightarrow> P a c"
    and dist: "distinct (map gr_id (granules d))"
    and q: "\<And>g. g \<in> set (granules d) \<Longrightarrow> q g \<Longrightarrow> p g"
  shows "\<exists>d'. for_each body (map gr_id (filter q (granules d))) d = Inr d'
     \<and> granules d' = upd_where q f (granules d) \<and> P d d'"
proof -
  have ids: "distinct (map gr_id (filter q (granules d)))" using dist by (rule distinct_map_filter)
  have sel: "\<exists>g \<in> set (granules d). gr_id g = i \<and> p g" if "i \<in> set (map gr_id (filter q (granules d)))" for i
    using that q by auto
  from loop_is_update [of body b P, OF body assms(2,3) ids dist sel]
  show ?thesis by (simp only: upd_where_by_key [OF dist])
qed

end

text \<open>Everything but the granules and the progress store is as it was.\<close>

definition granules_only :: "orch \<Rightarrow> orch \<Rightarrow> bool" where
  "granules_only d d' \<longleftrightarrow>
     (\<exists>gs ps. d' = d\<lparr>granules := gs, progress := ps\<rparr>)"

lemma granules_only_refl: "granules_only d d"
  unfolding granules_only_def by (intro exI [of _ "granules d"] exI [of _ "progress d"]) simp

lemma granules_only_trans: "granules_only a b \<Longrightarrow> granules_only b c \<Longrightarrow> granules_only a c"
  unfolding granules_only_def by (elim exE) (hypsubst, auto)

lemma granules_only_updates [simp]:
  "granules_only d (d\<lparr>granules := gs\<rparr>)" "granules_only d (evict_granule k (d\<lparr>granules := gs\<rparr>))"
proof -
  show "granules_only d (d\<lparr>granules := gs\<rparr>)"
    unfolding granules_only_def by (intro exI [of _ gs] exI [of _ "progress d"]) simp
  show "granules_only d (evict_granule k (d\<lparr>granules := gs\<rparr>))"
    unfolding granules_only_def evict_granule_def by (auto intro: exI [of _ gs])
qed

lemma granules_only_frame:
  assumes "granules_only d d'"
  shows "workers d' = workers d" "receivers d' = receivers d" "rollouts d' = rollouts d"
    "batches d' = batches d" "deliveries d' = deliveries d" "objects d' = objects d"
    "timings d' = timings d" "pending_events d' = pending_events d" "bundles d' = bundles d"
    "shared_files d' = shared_files d" "app_settings d' = app_settings d" "worker_telem d' = worker_telem d"
    "receiver_telem d' = receiver_telem d" "feed d' = feed d"
  using assms by (auto simp: granules_only_def)

section \<open>A concrete state with the invariant\<close>

definition sample_delivered :: orch where
  "sample_delivered = archive_confirmed sample_digest None None (sample_orch ACKED (Some 9))"

lemma sample_delivered_inv: "db_inv sample_digest sample_delivered"
proof -
  let ?d = "sample_orch ACKED (Some 9)"
  have k: "keys_ok ?d" and r: "refs_ok ?d" and rec: "records_ok sample_digest (deliveries ?d)"
    and o: "objects ?d = [sample_object (Some 9)]"
    by (simp_all add: keys_ok_def refs_ok_def records_ok_def sample_defs)
  have "has_delivery_record (archive_confirmed sample_digest None None ?d) (sample_object (Some 9))"
    by (rule archive_receipts [OF sample_digest_inj k r rec]) (simp_all add: o sample_object_def)
  moreover have "records_ok sample_digest (deliveries (archive_confirmed sample_digest None None ?d))"
    using archive_ok(1) [OF sample_digest_inj rec] k by (simp add: keys_ok_def)
  ultimately have "receipts_ok sample_digest (archive_confirmed sample_digest None None ?d)"
    by (simp add: receipts_ok_def o)
  then show ?thesis
    unfolding sample_delivered_def db_inv_def
    by (simp add: keys_ok_def refs_ok_def rows_ok_def objects_ok_def counters_ok_def granule_ok_def
        lease_ok_def tails_ok_def stored_def deleted_in_def row_count_def sample_defs)
qed

lemma sample_pending_inv: "db_inv dg (sample_orch PENDING None \<lparr>objects := []\<rparr>)"
  by (simp add: db_inv_def inv_defs records_ok_def granule_ok_def
      lease_ok_def tails_ok_def stored_def deleted_in_def row_count_def sample_defs)

end
