(* ===== verification/Leases.thy ===== *)
theory Leases
  imports Integrity
begin

text \<open>
  The lease life cycle of a worker, \<^verbatim>\<open>src/sathop/orchestrator/api/worker_leases.py\<close>, and its
  other half, the sweeper of expired leases (\<^verbatim>\<open>background.py\<close>): quota, claim, renewal,
  revocation, reclaim. Which claimable rows a \<^verbatim>\<open>SELECT .. LIMIT n\<close> without \<^verbatim>\<open>ORDER BY\<close> returns is
  up to the database: the parameter \<open>pick\<close>, constrained by \<open>picks\<close>. The statements that re-assert
  their predicate at write time are two definitions, a select and an update, so that the update
  can be stated on any later state.
\<close>

definition LEASE_DURATION :: int where
  "LEASE_DURATION = minutes 30"

type_synonym pick = "nat \<Rightarrow> granule list \<Rightarrow> granule list"

definition picks :: "pick \<Rightarrow> bool" where
  "picks pick \<longleftrightarrow> (\<forall>n gs. set (pick n gs) \<subseteq> set gs \<and> length (pick n gs) = min n (length gs)
     \<and> (distinct (map gr_id gs) \<longrightarrow> distinct (map gr_id (pick n gs))))"

lemma picks_take: "picks take"
  by (auto simp: picks_def take_map [symmetric] dest: in_set_takeD intro: distinct_take)

lemma picks_sub: "picks pick \<Longrightarrow> set (pick n gs) \<subseteq> set gs"
  unfolding picks_def by blast

section \<open>Quota\<close>

definition compute_lease_quota :: "int \<Rightarrow> int \<Rightarrow> int \<Rightarrow> int" where
  "compute_lease_quota requested current_inflight max_inflight =
     (let limit = requested
      in if max_inflight > 0 then min limit (max 0 (max_inflight - current_inflight)) else limit)"

definition leased_to :: "ident \<Rightarrow> granule \<Rightarrow> bool" where
  "leased_to w g \<longleftrightarrow> gr_leased_by g = Some w \<and> gr_state g \<in> set LEASED_STATES"

definition count_worker_inflight :: "ident \<Rightarrow> orch \<Rightarrow> nat" where
  "count_worker_inflight w d =
     row_count (leased_to w) (granules d)
     + length (remdups (map ob_granule (filter (\<lambda>x. ob_worker x = w \<and> ob_deleted_at x = None) (objects d))))"

record lease_request =
  lq_worker_id :: ident
  lq_capacity :: int

definition lease_limit :: "settings \<Rightarrow> lease_request \<Rightarrow> orch \<Rightarrow> int" where
  "lease_limit cfg req d =
     (let current_inflight =
        (if max_inflight_per_worker cfg > 0 then int (count_worker_inflight (lq_worker_id req) d) else 0)
      in compute_lease_quota (lq_capacity req) current_inflight (max_inflight_per_worker cfg))"

section \<open>Claiming\<close>

record lease_item =
  li_granule :: ident
  li_batch :: ident
  li_bundle_ref :: string
  li_inputs :: "input_spec list"
  li_meta :: "(string \<times> pyval) list"
  li_execution_env :: "(string \<times> string) list"
  li_credentials :: "(string \<times> credential) list"

definition lease_item_of :: "granule \<Rightarrow> batch option \<Rightarrow> lease_item" where
  "lease_item_of g b =
     \<lparr>li_granule = gr_id g, li_batch = gr_batch g,
      li_bundle_ref = (case b of None \<Rightarrow> [] | Some b \<Rightarrow> bt_bundle_ref b),
      li_inputs = gr_inputs g, li_meta = gr_meta g,
      li_execution_env = (case b of None \<Rightarrow> [] | Some b \<Rightarrow> bt_execution_env b),
      li_credentials = (case b of None \<Rightarrow> [] | Some b \<Rightarrow> bt_credentials b)\<rparr>"

definition claimable :: "time \<Rightarrow> orch \<Rightarrow> granule \<Rightarrow> bool" where
  "claimable now d g \<longleftrightarrow>
     gr_state g = PENDING \<and> (gr_leased_by g = None \<or> null_lt (gr_lease_expires_at g) now)
     \<and> not_in_paused_batch d g"

definition claim_row :: "ident \<Rightarrow> time \<Rightarrow> time \<Rightarrow> granule \<Rightarrow> granule" where
  "claim_row w now expires g =
     g\<lparr>gr_state := QUEUED, gr_leased_by := Some w, gr_lease_expires_at := Some expires, gr_updated_at := now\<rparr>"

definition claim_pending_granules ::
  "pick \<Rightarrow> ident \<Rightarrow> int \<Rightarrow> time \<Rightarrow> time \<Rightarrow> orch \<Rightarrow> lease_item list \<times> orch" where
  "claim_pending_granules pick w limit now expires d =
     (if limit \<le> 0 then ([], d)
      else
        let ids = map gr_id (pick (nat limit) (filter (claimable now d) (granules d)));
            d' = d\<lparr>granules := upd_where (\<lambda>g. gr_id g \<in> set ids) (claim_row w now expires) (granules d)\<rparr>;
            rows = filter (\<lambda>g. gr_id g \<in> set ids) (granules d')
        in if ids = [] then ([], d)
           else (map (\<lambda>g. lease_item_of g (get_batch (gr_batch g) d')) rows, d'))"

section \<open>Renewal, revocation, reclaim\<close>

definition renewable :: "ident \<Rightarrow> time \<Rightarrow> granule \<Rightarrow> bool" where
  "renewable w now g \<longleftrightarrow> leased_to w g \<and> null_lt (gr_lease_expires_at g) (now + LEASE_DURATION div 2)"

definition renew_worker_leases :: "ident \<Rightarrow> time \<Rightarrow> orch \<Rightarrow> nat \<times> orch" where
  "renew_worker_leases w now d =
     (row_count (renewable w now) (granules d),
      d\<lparr>granules := upd_where (renewable w now) (\<lambda>g. g\<lparr>gr_lease_expires_at := Some (now + LEASE_DURATION)\<rparr>)
                     (granules d)\<rparr>)"

text \<open>
  \<^verbatim>\<open>revoke_worker_leases\<close> leaves the conflict policy at its default, which raises: the loop
  returns the error, and that it never does is a property below.
\<close>

definition revoke_one :: "settings \<Rightarrow> time \<Rightarrow> ident \<Rightarrow> orch \<Rightarrow> http_error + orch" where
  "revoke_one cfg now gid d =
     (case get_granule gid d of
        None \<Rightarrow> Inr d
      | Some g \<Rightarrow>
          (case raise_409 (\<lambda>g c. conflict_text c) cfg g (RevokedByOperator gid) now d of
             Inl e \<Rightarrow> Inl e
           | Inr (r, d') \<Rightarrow> Inr (evict_granule gid d')))"

definition revoke_worker_leases :: "settings \<Rightarrow> ident \<Rightarrow> time \<Rightarrow> orch \<Rightarrow> http_error + (nat \<times> orch)" where
  "revoke_worker_leases cfg w now d =
     (let ids = map gr_id (filter (leased_to w) (granules d))
      in case for_each (revoke_one cfg now) ids d of
           Inl e \<Rightarrow> Inl e
         | Inr d' \<Rightarrow> Inr (length ids, d'))"

definition release_row :: "time \<Rightarrow> granule \<Rightarrow> granule" where
  "release_row now g =
     g\<lparr>gr_state := PENDING, gr_leased_by := None, gr_lease_expires_at := None, gr_updated_at := now\<rparr>"

definition reclaim_select :: "ident \<Rightarrow> ident list \<Rightarrow> time \<Rightarrow> int \<Rightarrow> orch \<Rightarrow> ident list" where
  "reclaim_select w reported now grace_sec d =
     map gr_id (filter (\<lambda>g. leased_to w g \<and> gr_updated_at g < now - seconds grace_sec
                          \<and> (reported = [] \<or> gr_id g \<notin> set reported)) (granules d))"

definition reclaim_update :: "ident \<Rightarrow> ident list \<Rightarrow> time \<Rightarrow> orch \<Rightarrow> nat \<times> orch" where
  "reclaim_update w ids now d =
     (let p = (\<lambda>g. gr_id g \<in> set ids \<and> leased_to w g)
      in (row_count p (granules d),
          evict_granules ids (d\<lparr>granules := upd_where p (release_row now) (granules d)\<rparr>)))"

definition reclaim_inactive_leases :: "ident \<Rightarrow> ident list \<Rightarrow> time \<Rightarrow> int \<Rightarrow> orch \<Rightarrow> nat \<times> orch" where
  "reclaim_inactive_leases w reported now grace_sec d =
     (let ids = reclaim_select w reported now grace_sec d
      in if ids = [] then (0, d) else reclaim_update w ids now d)"

section \<open>The sweeper of expired leases\<close>

definition ownerless :: "time \<Rightarrow> granule \<Rightarrow> bool" where
  "ownerless now g \<longleftrightarrow>
     gr_state g \<in> set LEASED_STATES \<and> (gr_leased_by g = None \<or> null_lt (gr_lease_expires_at g) now)"

definition sweep_select :: "time \<Rightarrow> orch \<Rightarrow> ident list" where
  "sweep_select now d = map gr_id (filter (ownerless now) (granules d))"

definition sweep_update :: "ident list \<Rightarrow> time \<Rightarrow> orch \<Rightarrow> nat \<times> orch" where
  "sweep_update ids now d =
     (let p = (\<lambda>g. gr_id g \<in> set ids \<and> ownerless now g); n = row_count p (granules d)
      in if n = 0 then (0, d)
         else (n, commit_and_publish now [Some BATCHES]
                 (log_event ''warn'' ''scheduler'' (''reclaimed {} ownerless lease(s)'', [AInt (int n)]) None None
                   (evict_granules ids (d\<lparr>granules := upd_where p (release_row now) (granules d)\<rparr>)))))"

definition sweep_expired_leases :: "time \<Rightarrow> orch \<Rightarrow> nat \<times> orch" where
  "sweep_expired_leases now d =
     (let ids = sweep_select now d in if ids = [] then (0, d) else sweep_update ids now d)"

section \<open>Integrity\<close>

lemma live_not_stored: "gr_state g \<in> set LEASED_STATES \<Longrightarrow> gr_state g \<notin> stored"
  by (cases "gr_state g") (auto simp: stored_def)

interpretation claim: live_rewrite "\<lambda>g. gr_id g \<in> ids \<and> gr_state g = PENDING" "claim_row w now expires"
  for ids w now expires
  by unfold_locales (auto simp: claim_row_def stored_def granule_ok_def lease_ok_def tails_ok_def)

interpretation renew: live_rewrite "renewable w now" "\<lambda>g. g\<lparr>gr_lease_expires_at := Some e\<rparr>"
  for w now and e :: time
  by unfold_locales (auto simp: renewable_def leased_to_def granule_ok_def lease_ok_def tails_ok_def
      dest: live_not_stored)

interpretation reclaim: live_rewrite "\<lambda>g. gr_id g \<in> ids \<and> leased_to w g" "release_row now" for ids w now
  by unfold_locales (auto simp: leased_to_def release_row_def stored_def granule_ok_def lease_ok_def tails_ok_def)

interpretation sweep: live_rewrite "\<lambda>g. gr_id g \<in> ids \<and> ownerless now' g" "release_row now" for ids now' now
  by unfold_locales (auto simp: ownerless_def release_row_def stored_def granule_ok_def lease_ok_def tails_ok_def)

lemma claimed_pending:
  assumes "picks pick" and "distinct (map gr_id (granules d))" and "g \<in> set (granules d)"
    and "gr_id g \<in> gr_id ` set (pick n (filter p (granules d)))"
  shows "p g"
proof -
  from assms(4) obtain h where h: "h \<in> set (pick n (filter p (granules d)))" "gr_id g = gr_id h" by auto
  from assms(1) have "set (pick n (filter p (granules d))) \<subseteq> set (filter p (granules d))"
    unfolding picks_def by blast
  with h(1) have h': "h \<in> set (filter p (granules d))" by (rule subsetD [rotated])
  then have "h \<in> set (granules d)" by simp
  from distinct_key_eq [OF assms(2,3) this h(2)] have "g = h" .
  with h' show ?thesis by simp
qed

lemma claim_update_eq:
  assumes "picks pick" and "distinct (map gr_id (granules d))"
    and ids: "ids = map gr_id (pick n (filter (claimable now d) (granules d)))"
  shows "upd_where (\<lambda>g. gr_id g \<in> set ids) f (granules d)
       = upd_where (\<lambda>g. gr_id g \<in> set ids \<and> gr_state g = PENDING) f (granules d)"
proof -
  have "gr_state g = PENDING" if "g \<in> set (granules d)" "gr_id g \<in> set ids" for g
    using claimed_pending [OF assms(1,2) that(1), of n "claimable now d"] that(2)
    by (simp add: ids claimable_def)
  then show ?thesis unfolding upd_where_def by (intro map_cong) auto
qed

lemma claim_keeps_inv [step_intros]:
  assumes "picks pick" and "db_inv dg d"
  shows "db_inv dg (snd (claim_pending_granules pick w limit now expires d))"
proof -
  have "distinct (map gr_id (granules d))" using assms(2) by (simp add: db_inv_def keys_ok_def)
  from claim_update_eq [OF assms(1) this refl] claim.keeps_inv [OF assms(2)]
  show ?thesis using assms(2) by (simp add: claim_pending_granules_def Let_def)
qed

lemma renew_keeps_inv [step_intros]: "db_inv dg d \<Longrightarrow> db_inv dg (snd (renew_worker_leases w now d))"
  by (simp add: renew_worker_leases_def renew.keeps_inv)

lemma reclaim_keeps_inv [step_intros]:
  "db_inv dg d \<Longrightarrow> db_inv dg (snd (reclaim_inactive_leases w reported now grace d))"
  by (simp add: reclaim_inactive_leases_def reclaim_update_def Let_def reclaim.keeps_inv)

lemma sweep_keeps_inv [step_intros]: "db_inv dg d \<Longrightarrow> db_inv dg (snd (sweep_update ids now d))"
  by (simp add: sweep_update_def Let_def sweep.keeps_inv)

lemma sweep_expired_keeps_inv [step_intros]: "db_inv dg d \<Longrightarrow> db_inv dg (snd (sweep_expired_leases now d))"
  by (simp add: sweep_expired_leases_def Let_def sweep_keeps_inv)

lemma raise_409_ok [simp]:
  "raise_409 m cfg g e now d = Inr rd \<longleftrightarrow> apply_transition cfg g e now d = Inr rd"
  by (auto simp: raise_409_def split: sum.splits)

lemma revoke_one_inv:
  assumes "revoke_one cfg now gid d = Inr d'" and inv: "db_inv dg d"
  shows "db_inv dg d'"
proof (cases "get_granule gid d")
  case None
  with assms show ?thesis by (simp add: revoke_one_def)
next
  case (Some g)
  with assms(1) obtain r d1 where ap: "apply_transition cfg g (RevokedByOperator gid) now d = Inr (r, d1)"
      and d': "d' = evict_granule gid d1"
    by (auto simp: revoke_one_def split: sum.splits)
  from Some have "g \<in> set (granules d)" by (auto simp: get_granule_def)
  from transition_keeps_inv [OF inv this _ ap] show ?thesis by (simp add: d' transition_allowed_def)
qed

lemma revoke_keeps_inv [step_intros]:
  assumes "revoke_worker_leases cfg w now d = Inr (n, d')" and "db_inv dg d"
  shows "db_inv dg d'"
  using assms by (auto simp: revoke_worker_leases_def Let_def split: sum.splits
      intro: for_each_inv [where P = "db_inv dg"] revoke_one_inv)

section \<open>Revocation is one bulk update\<close>

definition revoked_row :: "time \<Rightarrow> granule \<Rightarrow> granule" where
  "revoked_row now g =
     g\<lparr>gr_state := PENDING, gr_leased_by := None, gr_lease_expires_at := None,
       gr_retry_count := gr_retry_count g + 1, gr_updated_at := now\<rparr>"

interpretation revoke: bulk_transition cfg now RevokedByOperator "leased_to w" "revoked_row now" for cfg now w
proof unfold_locales
  fix g assume "leased_to w g"
  then show "\<exists>r. apply_event (snapshot_of g) (RevokedByOperator (gr_id g)) now (max_retries cfg) = Inr r
      \<and> transition_row r g = revoked_row now g \<and> new_objects r = [] \<and> stage_rows r = []
      \<and> objects_deleted_at r = None"
    by (simp add: leased_to_def snapshot_of_def TransitionResult_def transition_row_def revoked_row_def)
next
  show "gr_id (revoked_row now g) = gr_id g" for g by (simp add: revoked_row_def)
qed

lemma revoke_one_row:
  assumes "leased_to w g" and "g \<in> set (granules d)" and "distinct (map gr_id (granules d))"
  shows "revoke_one cfg now (gr_id g) d
     = Inr (evict_granule (gr_id g)
         (d\<lparr>granules := upd_where (\<lambda>x. gr_id x = gr_id g) (revoked_row now) (granules d)\<rparr>))"
  using revoke.one_row [OF assms, of cfg now] get_row_unique [OF assms(3,2)]
  by (auto simp: revoke_one_def get_granule_def raise_409_def)

lemma revoke_worker_leases_spec:
  assumes "distinct (map gr_id (granules d))"
  shows "\<exists>d'. revoke_worker_leases cfg w now d = Inr (row_count (leased_to w) (granules d), d')
     \<and> granules d' = upd_where (leased_to w) (revoked_row now) (granules d) \<and> granules_only d d'"
proof -
  have "\<exists>d'. for_each (revoke_one cfg now) (map gr_id (filter (leased_to w) (granules d))) d = Inr d'
      \<and> granules d' = upd_where (leased_to w) (revoked_row now) (granules d) \<and> granules_only d d'"
  proof (rule revoke.loop_over_selection [where P = granules_only and w = w and
        b = "\<lambda>i d. evict_granule i (d\<lparr>granules := upd_where (\<lambda>x. gr_id x = i) (revoked_row now) (granules d)\<rparr>)"])
    fix g :: granule and d :: orch
    assume "leased_to w g" and "g \<in> set (granules d)" and "distinct (map gr_id (granules d))"
    from revoke_one_row [OF this]
    show "revoke_one cfg now (gr_id g) d
          = Inr (evict_granule (gr_id g) (d\<lparr>granules := upd_where (\<lambda>x. gr_id x = gr_id g) (revoked_row now) (granules d)\<rparr>))
        \<and> granules (evict_granule (gr_id g) (d\<lparr>granules := upd_where (\<lambda>x. gr_id x = gr_id g) (revoked_row now) (granules d)\<rparr>))
          = upd_where (\<lambda>x. gr_id x = gr_id g) (revoked_row now) (granules d)
        \<and> granules_only d (evict_granule (gr_id g) (d\<lparr>granules := upd_where (\<lambda>x. gr_id x = gr_id g) (revoked_row now) (granules d)\<rparr>))"
      by simp
  qed (auto simp: granules_only_refl assms intro: granules_only_trans)
  then show ?thesis by (auto simp: revoke_worker_leases_def Let_def row_count_def)
qed

text \<open>
  Revoking a worker's leases never fails, although the loop leaves the conflict policy at
  "raise 409": it is the bulk update that returns exactly the worker's granules to \<open>PENDING\<close>, without
  a lease and with one retry more, leaves every other row alone, and reports their number; the
  worker then holds nothing.
\<close>

theorem revoke_releases_all:
  assumes "distinct (map gr_id (granules d))"
  shows "\<exists>d'. revoke_worker_leases cfg w now d = Inr (row_count (leased_to w) (granules d), d')
     \<and> granules d' = map (\<lambda>g. if leased_to w g
         then g\<lparr>gr_state := PENDING, gr_leased_by := None, gr_lease_expires_at := None,
                gr_retry_count := gr_retry_count g + 1, gr_updated_at := now\<rparr>
         else g) (granules d)
     \<and> row_count (leased_to w) (granules d') = 0 \<and> objects d' = objects d"
proof -
  obtain d' where d': "revoke_worker_leases cfg w now d = Inr (row_count (leased_to w) (granules d), d')"
      "granules d' = upd_where (leased_to w) (revoked_row now) (granules d)" "granules_only d d'"
    using revoke_worker_leases_spec [OF assms] by blast
  have zero: "row_count (leased_to w) (granules d') = 0"
    unfolding d'(2) row_count_0 by (auto simp: leased_to_def revoked_row_def elim!: in_upd_whereE)
  have gs: "granules d' = map (\<lambda>g. if leased_to w g
         then g\<lparr>gr_state := PENDING, gr_leased_by := None, gr_lease_expires_at := None,
                gr_retry_count := gr_retry_count g + 1, gr_updated_at := now\<rparr>
         else g) (granules d)"
    unfolding d'(2) upd_where_def revoked_row_def by (rule refl)
  show ?thesis
    by (intro exI [of _ d'] conjI d'(1) gs zero granules_only_frame(6) [OF d'(3)])
qed

theorem revoke_releases_all_witness:
  "\<forall>cfg. \<exists>d'. revoke_worker_leases cfg ''w'' 7 (sample_orch PROCESSING None) = Inr (1, d')
     \<and> row_count (leased_to ''w'') (granules d') = 0"
  using revoke_releases_all [of "sample_orch PROCESSING None" _ "''w''" 7]
  by (auto simp: sample_defs leased_to_def row_count_def)

section \<open>Properties of claiming\<close>

lemma filter_key_length:
  assumes "distinct (map key rs)" and "distinct ks" and "set ks \<subseteq> key ` set rs"
  shows "length (filter (\<lambda>r. key r \<in> set ks) rs) = length ks"
proof -
  let ?fs = "filter (\<lambda>r. key r \<in> set ks) rs"
  have "distinct (map key ?fs)" using assms(1) by (rule distinct_map_filter)
  moreover have "set (map key ?fs) = set ks" using assms(3) by auto
  ultimately have "length (map key ?fs) = card (set ks)" by (metis distinct_card)
  with assms(2) show ?thesis by (simp add: distinct_card)
qed

definition claimed_ids :: "pick \<Rightarrow> int \<Rightarrow> time \<Rightarrow> orch \<Rightarrow> ident list" where
  "claimed_ids pick limit now d =
     (if limit \<le> 0 then [] else map gr_id (pick (nat limit) (filter (claimable now d) (granules d))))"

lemma claimed_ids_sub: "picks pick \<Longrightarrow> set (claimed_ids pick limit now d) \<subseteq> gr_id ` set (granules d)"
  using picks_sub [of pick "nat limit" "filter (claimable now d) (granules d)"]
  by (simp add: claimed_ids_def) (blast intro: image_mono)

lemma claim_rows:
  assumes "picks pick" and "distinct (map gr_id (granules d))"
    and "claim_pending_granules pick w limit now expires d = (items, d')"
  shows "granules d' = upd_where (\<lambda>g. gr_id g \<in> set (claimed_ids pick limit now d)) (claim_row w now expires) (granules d)"
    and "set (map li_granule items) = set (claimed_ids pick limit now d)"
    and "length items = min (nat limit) (row_count (claimable now d) (granules d))"
    and "distinct (claimed_ids pick limit now d)"
    and "distinct (map li_granule items)"
    and "objects d' = objects d \<and> batches d' = batches d \<and> workers d' = workers d"
proof -
  let ?ids = "claimed_ids pick limit now d"
  let ?gs = "upd_where (\<lambda>g. gr_id g \<in> set ?ids) (claim_row w now expires) (granules d)"
  have keys: "map gr_id ?gs = map gr_id (granules d)"
    by (rule map_upd_where) (simp add: claim_row_def)
  have sub: "set ?ids \<subseteq> gr_id ` set (granules d)"
    by (rule claimed_ids_sub [OF assms(1)])
  have dist: "distinct ?ids"
    using assms(1,2) by (auto simp: picks_def claimed_ids_def distinct_map_filter split: if_splits)
  have len: "length ?ids = min (nat limit) (row_count (claimable now d) (granules d))"
    using assms(1) by (auto simp: picks_def claimed_ids_def row_count_def)
  have res: "granules d' = ?gs" "map li_granule items = map gr_id (filter (\<lambda>g. gr_id g \<in> set ?ids) ?gs)"
    "objects d' = objects d \<and> batches d' = batches d \<and> workers d' = workers d"
    using assms(3)
    by (auto simp: claim_pending_granules_def claimed_ids_def Let_def lease_item_of_def upd_where_def split: if_splits)
  show "granules d' = ?gs" and "objects d' = objects d \<and> batches d' = batches d \<and> workers d' = workers d"
    and "distinct ?ids" by (fact res dist)+
  have "gr_id ` set ?gs = gr_id ` set (granules d)" using keys by (metis list.set_map)
  then show "set (map li_granule items) = set ?ids" using sub by (auto simp: res(2))
  have "distinct (map gr_id ?gs)" using keys assms(2) by simp
  then show "distinct (map li_granule items)" by (simp only: res(2) distinct_map_filter)
  have "length items = length (filter (\<lambda>g. gr_id g \<in> set ?ids) ?gs)"
    using res(2) by (metis length_map)
  also have "\<dots> = length ?ids"
    using \<open>distinct (map gr_id ?gs)\<close> dist sub \<open>gr_id ` set ?gs = gr_id ` set (granules d)\<close>
    by (intro filter_key_length) simp_all
  finally show "length items = min (nat limit) (row_count (claimable now d) (granules d))"
    by (simp only: len)
qed

lemma claimed_was_claimable:
  assumes "picks pick" and "distinct (map gr_id (granules d))" and "g \<in> set (granules d)"
    and "gr_id g \<in> set (claimed_ids pick limit now d)"
  shows "claimable now d g"
  using claimed_pending [OF assms(1-3), of "nat limit" "claimable now d"] assms(4)
  by (auto simp: claimed_ids_def split: if_splits)

text \<open>
  C7: A claim takes as many granules as the limit and the claimable rows allow; each was
  \<open>PENDING\<close>, free, and in a batch that is not paused, and is now \<open>QUEUED\<close> under the claimer's lease;
  no other row changes. Two claims in sequence, whoever makes them, never share a granule.
\<close>

theorem claims_are_exclusive:
  assumes "picks pick" and "picks pick'" and "distinct (map gr_id (granules d))"
    and "claim_pending_granules pick w limit now expires d = (items, d1)"
    and "claim_pending_granules pick' w' limit' now' expires' d1 = (items', d2)"
  shows "length items = min (nat limit) (row_count (claimable now d) (granules d))
    \<and> granules d1 = map (\<lambda>g. if gr_id g \<in> set (map li_granule items)
         then g\<lparr>gr_state := QUEUED, gr_leased_by := Some w, gr_lease_expires_at := Some expires, gr_updated_at := now\<rparr>
         else g) (granules d)
    \<and> (\<forall>g \<in> set (granules d). gr_id g \<in> set (map li_granule items) \<longrightarrow>
         gr_state g = PENDING \<and> not_in_paused_batch d g)
    \<and> set (map li_granule items) \<inter> set (map li_granule items') = {}"
proof -
  note one = claim_rows [OF assms(1,3,4)]
  have dist: "distinct (map gr_id (granules d1))"
    unfolding one(1) using assms(3) by (subst map_upd_where) (simp_all add: claim_row_def)
  note two = claim_rows [OF assms(2) dist assms(5)]
  have "k \<notin> set (claimed_ids pick' limit' now' d1)" if k: "k \<in> set (claimed_ids pick limit now d)" for k
  proof
    assume k': "k \<in> set (claimed_ids pick' limit' now' d1)"
    have "k \<in> gr_id ` set (granules d1)"
      using k' claimed_ids_sub [OF assms(2)] by blast
    then obtain g where g: "g \<in> set (granules d1)" "gr_id g = k" by auto
    from claimed_was_claimable [OF assms(2) dist g(1)] k' g(2) have "gr_state g = PENDING"
      by (simp add: claimable_def)
    moreover from g have "gr_state g = QUEUED"
      unfolding one(1) by (elim in_upd_whereE) (use k in \<open>auto simp: claim_row_def\<close>)
    ultimately show False by simp
  qed
  moreover have "gr_state g = PENDING \<and> not_in_paused_batch d g"
    if "g \<in> set (granules d)" "gr_id g \<in> set (claimed_ids pick limit now d)" for g
    using claimed_was_claimable [OF assms(1,3) that] by (simp add: claimable_def)
  ultimately show ?thesis
    using one(1,3) unfolding one(2) two(2)
    by (auto simp: upd_where_def claim_row_def)
qed

theorem claims_are_exclusive_witness:
  "length (fst (claim_pending_granules take ''w'' 5 1 9 (sample_orch PENDING None))) = 1"
proof -
  let ?c = "claim_pending_granules take ''w'' 5 1 9 (sample_orch PENDING None)"
  let ?c' = "claim_pending_granules take ''v'' 5 2 9 (snd ?c)"
  have "distinct (map gr_id (granules (sample_orch PENDING None)))" by (simp add: sample_defs)
  from claims_are_exclusive [OF picks_take picks_take this, of "''w''" 5 1 9 "fst ?c" "snd ?c" "''v''" 5 2 9
      "fst ?c'" "snd ?c'"]
  have "length (fst ?c) = min (nat 5) (row_count (claimable 1 (sample_orch PENDING None)) (granules (sample_orch PENDING None)))"
    by simp
  then show ?thesis by (simp add: sample_defs claimable_def not_in_paused_batch_def row_count_Cons)
qed

subsection \<open>The quota\<close>

lemma inflight_after_claim:
  assumes "picks pick" and "distinct (map gr_id (granules d))"
    and "claim_pending_granules pick w limit now expires d = (items, d')"
  shows "count_worker_inflight w d' = count_worker_inflight w d + length items"
proof -
  let ?ids = "claimed_ids pick limit now d"
  note c = claim_rows [OF assms]
  have "row_count (leased_to w) (granules d')
      = row_count (\<lambda>g. leased_to w g \<or> gr_id g \<in> set ?ids) (granules d)"
    unfolding c(1) row_count_upd_where
    by (rule row_count_cong) (auto simp: leased_to_def claim_row_def)
  also have "\<dots> = row_count (leased_to w) (granules d) + row_count (\<lambda>g. gr_id g \<in> set ?ids) (granules d)"
  proof (rule row_count_disjoint)
    fix g assume "g \<in> set (granules d)"
    then show "\<not> (leased_to w g \<and> gr_id g \<in> set ?ids)"
      using claimed_was_claimable [OF assms(1,2)] by (auto simp: leased_to_def claimable_def)
  qed
  also have "row_count (\<lambda>g. gr_id g \<in> set ?ids) (granules d) = length ?ids"
    unfolding row_count_def
    by (rule filter_key_length [OF assms(2) c(4) claimed_ids_sub [OF assms(1)]])
  also have "length ?ids = length items"
    using c(2,4,5) by (metis distinct_card length_map)
  finally show ?thesis using c(6) by (simp add: count_worker_inflight_def)
qed

text \<open>
  The per-worker cap is never exceeded by a lease: with a cap set, what a worker holds after
  a round (leased granules, and uploaded granules whose objects it still stores) is at most the
  larger of the cap and what it held before, and the round gives at most what it asked for.
\<close>

theorem lease_respects_quota:
  assumes "picks pick" and "distinct (map gr_id (granules d))" and "0 < max_inflight_per_worker cfg"
    and "claim_pending_granules pick (lq_worker_id req) (lease_limit cfg req d) now expires d = (items, d')"
  shows "int (count_worker_inflight (lq_worker_id req) d')
       \<le> max (max_inflight_per_worker cfg) (int (count_worker_inflight (lq_worker_id req) d))
    \<and> int (length items) \<le> max 0 (lq_capacity req)"
proof -
  note len = claim_rows(3) [OF assms(1,2,4)] and inflight = inflight_after_claim [OF assms(1,2,4)]
  show ?thesis
    unfolding inflight using len assms(3)
    by (auto simp: lease_limit_def compute_lease_quota_def Let_def)
qed

definition sample_settings :: settings where
  "sample_settings = \<lparr>is_postgres = False, max_retries = 3, max_pull_failures = 2, pull_lease_sec = 60,
     max_inflight_per_worker = 1, min_worker_version = [], default_worker_detail = ''verbose'',
     acked_orphan_grace_sec = 600, retain_events_days = 30, retain_deleted_days = 30,
     rollout_canary_count = 1, rollout_batch_pct = 1/4, rollout_wave_timeout_sec = 600\<rparr>"

theorem lease_respects_quota_witness:
  "count_worker_inflight ''w''
     (snd (claim_pending_granules take ''w''
        (lease_limit sample_settings \<lparr>lq_worker_id = ''w'', lq_capacity = 8\<rparr> (sample_orch PENDING None)) 1 9
        (sample_orch PENDING None))) \<le> 1"
proof -
  let ?req = "\<lparr>lq_worker_id = ''w'', lq_capacity = 8\<rparr>"
  let ?c = "claim_pending_granules take ''w'' (lease_limit sample_settings ?req (sample_orch PENDING None)) 1 9
    (sample_orch PENDING None)"
  have "distinct (map gr_id (granules (sample_orch PENDING None)))" by (simp add: sample_defs)
  from lease_respects_quota [OF picks_take this, of sample_settings ?req 1 9 "fst ?c" "snd ?c"]
  have "int (count_worker_inflight ''w'' (snd ?c)) \<le> max 1 (int (count_worker_inflight ''w'' (sample_orch PENDING None)))"
    by (simp add: sample_settings_def)
  moreover have "count_worker_inflight ''w'' (sample_orch PENDING None) = 1"
    by (simp add: count_worker_inflight_def leased_to_def sample_defs row_count_def)
  ultimately show ?thesis by simp
qed

section \<open>Properties of the sweeper and of renewal\<close>

lemma in_sweep_update:
  assumes "g \<in> set (granules d)" and "\<not> ownerless now g"
  shows "g \<in> set (granules (snd (sweep_update ids now d)))"
  using assms by (auto simp: sweep_update_def Let_def intro: in_upd_where_unchanged)

lemma renewed_row:
  assumes "g \<in> set (granules d)" and "leased_to w g" and "gr_lease_expires_at g \<noteq> None"
  shows "\<exists>g' \<in> set (granules (snd (renew_worker_leases w now d))). gr_id g' = gr_id g \<and> leased_to w g'
     \<and> (\<exists>e. gr_lease_expires_at g' = Some e \<and> now + LEASE_DURATION div 2 \<le> e)"
proof (cases "renewable w now g")
  case True
  let ?g = "g\<lparr>gr_lease_expires_at := Some (now + LEASE_DURATION)\<rparr>"
  have "?g \<in> set (granules (snd (renew_worker_leases w now d)))"
    using assms(1) True by (auto simp: renew_worker_leases_def intro: in_upd_where_changed)
  moreover have "LEASE_DURATION div 2 \<le> LEASE_DURATION" by (simp add: LEASE_DURATION_def time_units)
  ultimately show ?thesis using assms(2) by (intro bexI [of _ ?g]) (auto simp: leased_to_def)
next
  case False
  then have "g \<in> set (granules (snd (renew_worker_leases w now d)))"
    using assms(1) by (auto simp: renew_worker_leases_def intro: in_upd_where_unchanged)
  with False assms show ?thesis by (intro bexI [of _ g]) (auto simp: renewable_def)
qed

text \<open>
  C8: The race of the sweeper with a heartbeat: whatever rows the sweeper selected, and however
  the tables changed before its update runs, if the holder's leases were renewed in between
  (no more than half a lease before the sweeper's reading of the clock) then every granule that
  the worker holds is still leased to it after the sweep.
\<close>

theorem renewal_beats_sweeper:
  assumes "g \<in> set (granules d)" and "leased_to w g" and "gr_lease_expires_at g \<noteq> None"
    and "now \<le> now' + LEASE_DURATION div 2"
    and "renew_worker_leases w now' d = (n, d')"
  shows "\<exists>g' \<in> set (granules (snd (sweep_update ids now d'))). gr_id g' = gr_id g \<and> leased_to w g'"
proof -
  obtain g' e where g': "g' \<in> set (granules d')" "gr_id g' = gr_id g" "leased_to w g'"
      "gr_lease_expires_at g' = Some e" "now' + LEASE_DURATION div 2 \<le> e"
    using renewed_row [OF assms(1-3), of now'] assms(5) by auto
  with assms(4) have "\<not> ownerless now g'" by (auto simp: ownerless_def leased_to_def)
  with g' in_sweep_update [OF g'(1), of now ids] show ?thesis by blast
qed

theorem renewal_beats_sweeper_witness:
  "\<exists>g' \<in> set (granules (snd (sweep_update (sweep_select 200 (sample_orch QUEUED None)) 200
      (snd (renew_worker_leases ''w'' 150 (sample_orch QUEUED None)))))). leased_to ''w'' g'"
  using renewal_beats_sweeper [of "sample_granule QUEUED" "sample_orch QUEUED None" "''w''" 200 150
      "fst (renew_worker_leases ''w'' 150 (sample_orch QUEUED None))"
      "snd (renew_worker_leases ''w'' 150 (sample_orch QUEUED None))"
      "sweep_select 200 (sample_orch QUEUED None)"]
  by (auto simp: sample_orch_def sample_granule_def empty_orch_def leased_to_def LEASE_DURATION_def time_units)

text \<open>
  A sweep leaves no ownerless granule: the granules it takes back are exactly those in flight
  without an owner or past their expiry; each is \<open>PENDING\<close> again with its retry budget intact,
  every other row is untouched, and the returned number is theirs.
\<close>

theorem sweep_reclaims_ownerless:
  assumes "distinct (map gr_id (granules d))" and "sweep_expired_leases now d = (n, d')"
  shows "granules d' = map (\<lambda>g. if ownerless now g
       then g\<lparr>gr_state := PENDING, gr_leased_by := None, gr_lease_expires_at := None, gr_updated_at := now\<rparr>
       else g) (granules d)
     \<and> n = row_count (ownerless now) (granules d)
     \<and> row_count (ownerless now) (granules d') = 0"
proof -
  let ?ids = "sweep_select now d"
  let ?p = "\<lambda>g. gr_id g \<in> set ?ids \<and> ownerless now g"
  have p: "upd_where ?p f (granules d) = upd_where (ownerless now) f (granules d)" for f
    by (rule upd_where_cong) (auto simp: sweep_select_def)
  have c: "row_count ?p (granules d) = row_count (ownerless now) (granules d)"
    by (rule row_count_cong) (auto simp: sweep_select_def)
  have none: "upd_where (ownerless now) (release_row now) (granules d) = granules d"
    if "row_count (ownerless now) (granules d) = 0"
    using that by (intro upd_where_none) simp
  have gs: "granules d' = upd_where (ownerless now) (release_row now) (granules d)"
    and n: "n = row_count (ownerless now) (granules d)"
  proof -
    have empty: "?ids = [] \<longleftrightarrow> row_count (ownerless now) (granules d) = 0"
      by (auto simp: sweep_select_def filter_empty_conv)
    show "granules d' = upd_where (ownerless now) (release_row now) (granules d)"
      using assms(2) empty none
      by (auto simp only: sweep_expired_leases_def sweep_update_def Let_def p c evicts_frame log_event_frame
          commit_frame split: if_splits) simp_all
    show "n = row_count (ownerless now) (granules d)"
      using assms(2) empty
      by (auto simp only: sweep_expired_leases_def sweep_update_def Let_def p c split: if_splits)
  qed
  have zero: "row_count (ownerless now) (granules d') = 0"
    unfolding gs row_count_0 by (auto simp: ownerless_def release_row_def elim!: in_upd_whereE)
  have gs': "granules d' = map (\<lambda>g. if ownerless now g
       then g\<lparr>gr_state := PENDING, gr_leased_by := None, gr_lease_expires_at := None, gr_updated_at := now\<rparr>
       else g) (granules d)"
    unfolding gs upd_where_def release_row_def by (rule refl)
  show ?thesis by (intro conjI gs' n zero)
qed

theorem sweep_reclaims_ownerless_witness:
  "fst (sweep_expired_leases 200 (sample_orch QUEUED None)) = 1"
  using sweep_reclaims_ownerless [of "sample_orch QUEUED None" 200
      "fst (sweep_expired_leases 200 (sample_orch QUEUED None))"
      "snd (sweep_expired_leases 200 (sample_orch QUEUED None))"]
  by (simp add: sample_orch_def sample_granule_def ownerless_def row_count_def)

section \<open>The retry budget\<close>

text \<open>
  What may happen to the row of a granule: an event the state machine accepts, or the release of
  its lease by the sweeper or by the heartbeat of its worker, which write the row without an
  event. \<open>row_history\<close> applies such changes in turn and stops at the first that is refused.
\<close>

datatype row_change = Applied any_event | Released

fun row_history :: "int \<Rightarrow> (row_change \<times> time) list \<Rightarrow> granule \<Rightarrow> state_conflict + granule" where
  "row_history mr [] g = Inr g"
| "row_history mr ((Applied e, now) # cs) g =
     (case apply_event (snapshot_of g) e now mr of
        Inl c \<Rightarrow> Inl c
      | Inr r \<Rightarrow> row_history mr cs (transition_row r g))"
| "row_history mr ((Released, now) # cs) g =
     (if gr_state g \<in> set LEASED_STATES then row_history mr cs (release_row now g)
      else Inl (NotAccepted ''release'' (gr_state g)))"

text \<open>
  \<open>failures\<close> counts the failures since the operator last granted a fresh start (a retry of a
  blacklisted granule or the requeue of an uploaded one), \<open>tally\<close> the failures and the
  revocations of an operator.
\<close>

fun is_fresh_start :: "row_change \<Rightarrow> bool" where
  "is_fresh_start (Applied (RetryGranule g)) = True"
| "is_fresh_start (Applied (RequeueGranule g)) = True"
| "is_fresh_start _ = False"

fun is_failure :: "row_change \<Rightarrow> bool" where
  "is_failure (Applied (Wire (ProcessingFailed g w e so se x))) = True"
| "is_failure _ = False"

fun is_revocation :: "row_change \<Rightarrow> bool" where
  "is_revocation (Applied (RevokedByOperator g)) = True"
| "is_revocation _ = False"

fun is_cancellation :: "row_change \<Rightarrow> bool" where
  "is_cancellation (Applied (CancelGranule g)) = True"
| "is_cancellation _ = False"

definition count_since :: "(row_change \<Rightarrow> bool) \<Rightarrow> (row_change \<times> time) list \<Rightarrow> int" where
  "count_since p cs = int (length (filter p (takeWhile (\<lambda>c. \<not> is_fresh_start c) (rev (map fst cs)))))"

definition failures :: "(row_change \<times> time) list \<Rightarrow> int" where
  "failures cs = count_since is_failure cs"

definition tally :: "(row_change \<times> time) list \<Rightarrow> int" where
  "tally cs = count_since (\<lambda>c. is_failure c \<or> is_revocation c) cs"

lemma count_since_Nil [simp]: "count_since p [] = 0"
  by (simp add: count_since_def)

lemma count_since_snoc [simp]:
  "count_since p (cs @ [c]) =
     (if is_fresh_start (fst c) then 0 else count_since p cs + (if p (fst c) then 1 else 0))"
  by (simp add: count_since_def)

lemma failures_le_tally: "0 \<le> failures cs \<and> failures cs \<le> tally cs"
proof (induction cs rule: rev_induct)
  case (snoc c cs)
  then show ?case by (auto simp: failures_def tally_def)
qed (simp add: failures_def tally_def)

lemma row_history_append:
  "row_history mr (xs @ ys) g =
     (case row_history mr xs g of Inl c \<Rightarrow> Inl c | Inr g' \<Rightarrow> row_history mr ys g')"
  by (induction mr xs g rule: row_history.induct) (auto split: sum.splits)

text \<open>One change: its effect on the count, and where it may lead.\<close>

definition within_budget :: "int \<Rightarrow> int \<Rightarrow> granule \<Rightarrow> bool" where
  "within_budget mr n g \<longleftrightarrow> n \<le> max 1 mr
     \<and> (gr_state g \<notin> {BLACKLISTED, DELETED} \<longrightarrow> n = 0 \<or> n < mr)"

lemma change_counts:
  assumes "row_history mr [(c, now)] g = Inr g'"
  shows "gr_retry_count g' = (if is_fresh_start c then 0
     else gr_retry_count g + (if is_failure c \<or> is_revocation c then 1 else 0))"
proof (cases c)
  case (Applied e)
  show ?thesis
  proof (cases e)
    case (Wire w)
    with Applied assms show ?thesis
      by (cases w) (auto dest!: eventD simp: row_step_simps split: option.splits sum.splits)
  qed (use Applied assms in \<open>auto simp del: apply_event.simps dest!: eventD
      simp: row_step_simps split: option.splits sum.splits\<close>)
qed (use assms in \<open>auto simp: release_row_def split: if_splits\<close>)

lemma change_within_budget:
  assumes "row_history mr [(c, now)] g = Inr g'" and "within_budget mr n g"
    and "n \<le> gr_retry_count g" and "0 \<le> n" and "gr_state g \<noteq> FAILED"
  shows "within_budget mr (if is_fresh_start c then 0 else n + (if is_failure c then 1 else 0)) g'
     \<and> gr_state g' \<noteq> FAILED"
proof (cases c)
  case (Applied e)
  show ?thesis
  proof (cases e)
    case (Wire w)
    with Applied assms show ?thesis
      by (cases w)
        (auto dest!: eventD simp: row_step_simps within_budget_def split: option.splits sum.splits if_splits)
  qed (use Applied assms in \<open>auto simp del: apply_event.simps dest!: eventD
      simp: row_step_simps within_budget_def cancellable_states_set retryable_states_set split: option.splits sum.splits\<close>)
qed (use assms in \<open>auto simp: release_row_def within_budget_def split: if_splits\<close>)

lemma change_blacklists:
  assumes "row_history mr [(c, now)] g = Inr g'" and "\<not> is_cancellation c"
    and "gr_state g' = BLACKLISTED"
  shows "is_failure c \<and> mr \<le> gr_retry_count g'"
proof (cases c)
  case (Applied e)
  show ?thesis
  proof (cases e)
    case (Wire w)
    with Applied assms show ?thesis
      by (cases w) (auto dest!: eventD simp: row_step_simps split: option.splits sum.splits if_splits)
  qed (use Applied assms in \<open>auto simp del: apply_event.simps dest!: eventD
      simp: row_step_simps split: option.splits sum.splits\<close>)
qed (use assms in \<open>auto simp: release_row_def split: if_splits\<close>)

lemma budget_invariant:
  assumes "gr_state g = PENDING" and "gr_retry_count g = 0" and "row_history mr cs g = Inr g'"
  shows "gr_retry_count g' = tally cs \<and> within_budget mr (failures cs) g' \<and> gr_state g' \<noteq> FAILED
    \<and> ((\<forall>c \<in> set cs. \<not> is_cancellation (fst c)) \<longrightarrow> gr_state g' = BLACKLISTED
         \<longrightarrow> mr \<le> gr_retry_count g' \<and> is_failure (fst (last cs)))"
  using assms(3)
proof (induction cs arbitrary: g' rule: rev_induct)
  case Nil
  with assms(1,2) show ?case by (auto simp: tally_def failures_def within_budget_def)
next
  case (snoc c cs)
  obtain ch now where c: "c = (ch, now)" by (cases c)
  from snoc.prems obtain h where h: "row_history mr cs g = Inr h" and step: "row_history mr [(ch, now)] h = Inr g'"
    by (auto simp: row_history_append c split: sum.splits simp del: row_history.simps)
  note IH = snoc.IH [OF h]
  have "gr_retry_count g' = tally (cs @ [c])"
    using change_counts [OF step] IH by (simp add: tally_def c)
  moreover have "within_budget mr (failures (cs @ [c])) g' \<and> gr_state g' \<noteq> FAILED"
    using change_within_budget [OF step, of "failures cs"] IH failures_le_tally [of cs]
    by (auto simp: failures_def c split: if_splits)
  ultimately show ?case
    using change_blacklists [OF step] by (auto simp: c)
qed

text \<open>
  C15: The retry budget. Over every history of accepted events and released leases of a granule
  that starts \<open>PENDING\<close> with no retry, the retry count is the number of failures and operator
  revocations since the operator last granted a fresh start (\<open>tally\<close>), and the failures among
  them never exceed the budget: while the granule is neither blacklisted nor deleted they
  are fewer than \<open>max_retries\<close>. A further failure of a leased granule is accepted, clears the
  lease, and blacklists the granule if it makes the count reach \<open>max_retries\<close>, else returns it
  to \<open>PENDING\<close>; a further revocation counts as well but always returns it. Without a cancellation
  only a failure that exhausts the budget blacklists.
\<close>

theorem retry_budget:
  assumes "gr_state g = PENDING" and "gr_retry_count g = 0" and "row_history mr cs g = Inr g'"
  shows "gr_retry_count g' = tally cs
    \<and> failures cs \<le> max 1 mr
    \<and> (gr_state g' \<notin> {BLACKLISTED, DELETED} \<longrightarrow> failures cs = 0 \<or> failures cs < mr)
    \<and> ((\<forall>c \<in> set cs. \<not> is_cancellation (fst c)) \<longrightarrow> gr_state g' = BLACKLISTED
         \<longrightarrow> mr \<le> tally cs \<and> is_failure (fst (last cs)))
    \<and> (gr_state g' \<in> set LEASED_STATES \<longrightarrow>
        (\<forall>i w e so se x now. \<exists>h.
            row_history mr (cs @ [(Applied (Wire (ProcessingFailed i w e so se x)), now)]) g = Inr h
          \<and> gr_retry_count h = tally cs + 1 \<and> gr_leased_by h = None
          \<and> gr_state h = (if mr \<le> tally cs + 1 then BLACKLISTED else PENDING))
      \<and> (\<forall>i now. \<exists>h. row_history mr (cs @ [(Applied (RevokedByOperator i), now)]) g = Inr h
          \<and> gr_retry_count h = tally cs + 1 \<and> gr_leased_by h = None \<and> gr_state h = PENDING))"
proof -
  note inv = budget_invariant [OF assms]
  have fail: "\<exists>h. row_history mr [(Applied (Wire (ProcessingFailed i w e so se x)), now)] g' = Inr h
      \<and> gr_retry_count h = gr_retry_count g' + 1 \<and> gr_leased_by h = None
      \<and> gr_state h = (if mr \<le> gr_retry_count g' + 1 then BLACKLISTED else PENDING)"
    if "gr_state g' \<in> set LEASED_STATES" for i w e so se x now
    using that by (auto simp: machine_defs row_defs split: option.splits)
  have revoke: "\<exists>h. row_history mr [(Applied (RevokedByOperator i), now)] g' = Inr h
      \<and> gr_retry_count h = gr_retry_count g' + 1 \<and> gr_leased_by h = None \<and> gr_state h = PENDING"
    if "gr_state g' \<in> set LEASED_STATES" for i now
    using that by (auto simp: TransitionResult_def row_defs)
  show ?thesis
    using inv fail revoke by (auto simp: row_history_append assms(3) within_budget_def simp del: row_history.simps)
qed

definition sample_history :: "(row_change \<times> time) list" where
  "sample_history =
     (let claim = Applied (ClaimByLease ''b:g'' ''w'' 100);
          fail = Applied (Wire (ProcessingFailed ''b:g'' ''w'' ''boom'' None None None))
      in [(claim, 1), (fail, 2), (claim, 3), (Released, 4), (claim, 5), (Applied (RevokedByOperator ''b:g''), 6),
          (claim, 7)])"

theorem retry_budget_witness:
  "\<exists>g' h. row_history 3 sample_history (sample_granule PENDING) = Inr g' \<and> gr_retry_count g' = 2
     \<and> row_history 3 (sample_history @
         [(Applied (Wire (ProcessingFailed ''b:g'' ''w'' ''boom'' None None None)), 8)]) (sample_granule PENDING) = Inr h
     \<and> gr_state h = BLACKLISTED \<and> gr_retry_count h = 3"
proof -
  have tally: "tally sample_history = 2"
    by (simp add: sample_history_def tally_def count_since_def Let_def)
  obtain g' where g': "row_history 3 sample_history (sample_granule PENDING) = Inr g'"
    and st: "gr_state g' \<in> set LEASED_STATES"
    by (simp add: sample_history_def Let_def machine_defs row_defs release_row_def)
  have "gr_state (sample_granule PENDING) = PENDING" "gr_retry_count (sample_granule PENDING) = 0" by simp_all
  from retry_budget [OF this g'] st have "gr_retry_count g' = 2"
    and "\<exists>h. row_history 3 (sample_history @
         [(Applied (Wire (ProcessingFailed ''b:g'' ''w'' ''boom'' None None None)), 8)]) (sample_granule PENDING) = Inr h
       \<and> gr_state h = BLACKLISTED \<and> gr_retry_count h = 3"
    by (simp_all add: tally) blast
  with g' show ?thesis by blast
qed

end
