(* ===== verification/Wire.thy ===== *)
theory Wire
  imports Prelude Text
begin

text \<open>
  The pure text formats the agents exchange: versions (\<^verbatim>\<open>shared/versioning.py\<close>,
  \<^verbatim>\<open>release.normalize_version\<close>), HTTP content ranges (\<^verbatim>\<open>shared/http_range.py\<close>), bundle references
  (\<^verbatim>\<open>shared/bundle_ref.py\<close>), safe path segments (\<^verbatim>\<open>safe_path.is_safe_name\<close>), the wrapper
  directory of a bundle archive (\<^verbatim>\<open>bundle_archive.py\<close>) and the lines of a \<^verbatim>\<open>requirements.txt\<close>
  (\<^verbatim>\<open>bundle_python_deps.py\<close>). A \<^verbatim>\<open>ValueError\<close> is the left side of a sum.
\<close>

datatype value_error = ValueError fmt

section \<open>Versions\<close>

text \<open>\<^verbatim>\<open>_NUM_PREFIX.match(seg)\<close>, and 0 where it does not match.\<close>

definition num_prefix :: "string \<Rightarrow> nat" where
  "num_prefix seg = (let ds = takeWhile is_digit seg in if ds = [] then 0 else nat_of_digits ds)"

definition is_v :: "char \<Rightarrow> bool" where
  "is_v c \<longleftrightarrow> c = CHR ''v''"

definition parse_version :: "string \<Rightarrow> nat \<times> nat \<times> nat" where
  "parse_version v =
     (let parts = map num_prefix (take 3 (split_on (CHR ''.'') (lstrip_where is_v (strip v))));
          padded = parts @ replicate (3 - length parts) 0
      in (padded ! 0, padded ! 1, padded ! 2))"

text \<open>Tuples compare lexicographically.\<close>

fun version_less :: "nat \<times> nat \<times> nat \<Rightarrow> nat \<times> nat \<times> nat \<Rightarrow> bool" where
  "version_less (a, b, c) (a', b', c') = (a < a' \<or> a = a' \<and> (b < b' \<or> b = b' \<and> c < c'))"

definition version_char :: "char \<Rightarrow> bool" where
  "version_char c \<longleftrightarrow> is_alnum c \<or> c \<in> set ''.+-''"

text \<open>\<^verbatim>\<open>re.fullmatch(r"\d+\.\d+[0-9A-Za-z.+-]*", v)\<close>.\<close>

definition version_shape :: "string \<Rightarrow> bool" where
  "version_shape v =
     (let r1 = dropWhile is_digit v
      in takeWhile is_digit v \<noteq> [] \<and>
         (case r1 of
            [] \<Rightarrow> False
          | c # r2 \<Rightarrow> c = CHR ''.'' \<and> takeWhile is_digit r2 \<noteq> [] \<and> list_all version_char (dropWhile is_digit r2)))"

definition normalize_version :: "string \<Rightarrow> value_error + string" where
  "normalize_version version =
     (let v = lstrip_where is_v (strip version)
      in if \<not> version_shape v then Inl (ValueError (''invalid version: {!r}'', [AStr version])) else Inr v)"

lemma all_takeWhile_dropWhile:
  "list_all q (takeWhile p s) \<Longrightarrow> list_all q (dropWhile p s) \<Longrightarrow> list_all q s"
  by (metis list_all_append takeWhile_dropWhile_id)

lemma digits_are_version_chars: "list_all version_char (takeWhile is_digit s)"
  by (auto simp: list_all_iff version_char_def is_alnum_def dest: set_takeWhileD)

lemma version_shape_chars: "version_shape v \<Longrightarrow> list_all version_char v"
proof -
  assume v: "version_shape v"
  then obtain r where r: "dropWhile is_digit v = CHR ''.'' # r" "list_all version_char (dropWhile is_digit r)"
    by (auto simp: version_shape_def Let_def split: list.splits)
  have "list_all version_char r"
    by (rule all_takeWhile_dropWhile [OF digits_are_version_chars r(2)])
  then have "list_all version_char (dropWhile is_digit v)" by (simp add: r(1) version_char_def)
  then show ?thesis by (rule all_takeWhile_dropWhile [OF digits_are_version_chars])
qed

lemma version_shape_hd: "version_shape v \<Longrightarrow> v \<noteq> [] \<and> is_digit (hd v)"
  by (cases v) (auto simp: version_shape_def Let_def split: if_splits)

lemma version_char_not_space: "version_char c \<Longrightarrow> \<not> is_space c"
  by (auto simp: version_char_def is_alnum_def is_alpha_def is_digit_def is_space_def Let_def)

lemma version_shape_fixed: "version_shape v \<Longrightarrow> lstrip_where is_v (strip v) = v"
proof -
  assume v: "version_shape v"
  have hd: "v \<noteq> []" "is_digit (hd v)" using version_shape_hd [OF v] by auto
  have "version_char (last v)" using version_shape_chars [OF v] hd(1) by (simp add: list_all_iff)
  then have "strip v = v"
    using hd version_char_not_space digit_not_space by (intro strip_id) blast
  moreover have "\<not> is_v (hd v)" using hd(2) by (auto simp: is_v_def is_digit_def Let_def)
  ultimately show ?thesis by (simp add: lstrip_id)
qed

text \<open>
  A version that the release helpers accept is safe to put in a path and in a URL: it is
  not empty, begins with a digit and holds only letters, digits, dots, plus and minus signs (so no
  separator and no white space); accepting is idempotent, and does not change the version that
  the minimum-version check reads.
\<close>

theorem normalize_version_safe:
  assumes "normalize_version s = Inr v"
  shows "v \<noteq> [] \<and> is_digit (hd v) \<and> list_all version_char v
    \<and> CHR ''/'' \<notin> set v \<and> CHR 0x5C \<notin> set v \<and> (\<forall>c \<in> set v. \<not> is_space c)
    \<and> normalize_version v = Inr v \<and> parse_version v = parse_version s"
proof -
  have v: "version_shape v" "v = lstrip_where is_v (strip s)"
    using assms by (auto simp: normalize_version_def Let_def split: if_splits)
  have all: "list_all version_char v" using v(1) by (rule version_shape_chars)
  have "CHR ''/'' \<notin> set v" "CHR 0x5C \<notin> set v"
    using all by (auto simp: list_all_iff version_char_def is_alnum_def is_alpha_def is_digit_def Let_def)
  moreover have "normalize_version v = Inr v"
    using v(1) version_shape_fixed [OF v(1)] by (simp add: normalize_version_def Let_def)
  moreover have "parse_version v = parse_version s"
    using version_shape_fixed [OF v(1)] v(2) by (simp add: parse_version_def)
  ultimately show ?thesis
    using all version_shape_hd [OF v(1)] version_char_not_space by (auto simp: list_all_iff)
qed

theorem normalize_version_safe_witness: "normalize_version ''0.8.1-rc1'' = Inr ''0.8.1-rc1''"
proof -
  have "normalize_version '' v0.8.1-rc1 '' = Inr ''0.8.1-rc1''" by code_simp
  from normalize_version_safe [OF this] show ?thesis by blast
qed

section \<open>Content ranges\<close>

record content_range =
  cr_start :: nat
  cr_end :: nat
  cr_total :: "nat option"

definition lower :: "char \<Rightarrow> char" where
  "lower c = (let n = of_char c :: nat in if 65 \<le> n \<and> n \<le> 90 then char_of (n + 32) else c)"

definition after_bytes :: "string \<Rightarrow> string option" where
  "after_bytes s = (if map lower (take 6 s) = ''bytes '' then Some (drop 6 s) else None)"

text \<open>A run of digits followed by the character \<open>c\<close>.\<close>

definition number_then :: "char \<Rightarrow> string \<Rightarrow> (nat \<times> string) option" where
  "number_then c s =
     (let ds = takeWhile is_digit s
      in case dropWhile is_digit s of
           [] \<Rightarrow> None
         | x # r \<Rightarrow> if ds \<noteq> [] \<and> x = c then Some (nat_of_digits ds, r) else None)"

definition whole_number :: "string \<Rightarrow> nat option" where
  "whole_number s = (if s \<noteq> [] \<and> list_all is_digit s then Some (nat_of_digits s) else None)"

definition parse_content_range :: "string \<Rightarrow> content_range option" where
  "parse_content_range value =
     (case after_bytes (strip value) of
        None \<Rightarrow> None
      | Some r \<Rightarrow>
        (case number_then (CHR ''-'') r of
           None \<Rightarrow> None
         | Some (start, r1) \<Rightarrow>
           (case number_then (CHR ''/'') r1 of
              None \<Rightarrow> None
            | Some (end_, r2) \<Rightarrow>
              (case (if r2 = ''*'' then Some None else map_option Some (whole_number r2)) of
                 None \<Rightarrow> None
               | Some tot \<Rightarrow>
                   if start > end_ \<or> (case tot of None \<Rightarrow> False | Some t \<Rightarrow> end_ \<ge> t) then None
                   else Some \<lparr>cr_start = start, cr_end = end_, cr_total = tot\<rparr>))))"

definition unsatisfied_range_size :: "string \<Rightarrow> nat option" where
  "unsatisfied_range_size value =
     (case after_bytes (strip value) of
        None \<Rightarrow> None
      | Some r \<Rightarrow> if take 2 r = ''*/'' then whole_number (drop 2 r) else None)"

text \<open>The header that a server sends for a range.\<close>

definition format_content_range :: "content_range \<Rightarrow> string" where
  "format_content_range r = ''bytes '' @ show_nat (cr_start r) @ ''-'' @ show_nat (cr_end r) @ ''/''
     @ (case cr_total r of None \<Rightarrow> ''*'' | Some t \<Rightarrow> show_nat t)"

lemma takeWhile_digits: "takeWhile is_digit (show_nat n @ c # r) = show_nat n @ takeWhile is_digit (c # r)"
  and dropWhile_digits: "dropWhile is_digit (show_nat n @ c # r) = dropWhile is_digit (c # r)"
  by (simp_all add: takeWhile_append2 dropWhile_append2 show_nat_digits)

lemma number_then_show: "\<not> is_digit c \<Longrightarrow> number_then c (show_nat n @ c # r) = Some (n, r)"
  by (simp add: number_then_def takeWhile_digits dropWhile_digits Let_def)

lemma whole_number_show [simp]: "whole_number (show_nat n) = Some n"
  by (simp add: whole_number_def list_all_iff show_nat_digits)

lemma not_digits [simp]: "\<not> is_digit (CHR ''-'')" "\<not> is_digit (CHR ''/'')" "\<not> is_digit (CHR ''*'')"
  by (simp_all add: is_digit_def)

lemma show_nat_not_star [simp]: "show_nat n \<noteq> ''*''"
  using show_nat_digits [of "CHR ''*''" n] by auto

definition range_ok :: "content_range \<Rightarrow> bool" where
  "range_ok r \<longleftrightarrow> cr_start r \<le> cr_end r \<and> (\<forall>t. cr_total r = Some t \<longrightarrow> cr_end r < t)"

lemma strip_format: "strip (format_content_range r) = format_content_range r"
proof (rule strip_id, rule disjI2, rule conjI)
  show "\<not> is_space (hd (format_content_range r))" by (simp add: format_content_range_def is_space_def)
  show "\<not> is_space (last (format_content_range r))"
  proof (cases "cr_total r")
    case None
    then show ?thesis by (simp add: format_content_range_def is_space_def)
  next
    case (Some t)
    then have "last (format_content_range r) = last (show_nat t)" by (simp add: format_content_range_def)
    then show ?thesis using show_nat_digits [of "last (show_nat t)" t] digit_not_space by simp
  qed
qed

text \<open>
  Parsing a content range is exact: every well-formed range comes back from its header, and
  whatever header is accepted, the result is well formed (start at most end, end below the total).
\<close>

theorem content_range_roundtrip:
  "(parse_content_range (format_content_range r) = Some r \<longleftrightarrow> range_ok r)
   \<and> (case parse_content_range s of None \<Rightarrow> True | Some r' \<Rightarrow> range_ok r')"
proof
  have ab: "after_bytes (format_content_range r) = Some (drop 6 (format_content_range r))"
    by (simp add: after_bytes_def format_content_range_def lower_def)
  have dr: "drop 6 (format_content_range r) = show_nat (cr_start r) @ CHR ''-'' # show_nat (cr_end r) @ CHR ''/''
      # (case cr_total r of None \<Rightarrow> ''*'' | Some t \<Rightarrow> show_nat t)"
    by (simp add: format_content_range_def)
  show "parse_content_range (format_content_range r) = Some r \<longleftrightarrow> range_ok r"
  proof (cases "cr_total r")
    case None
    have "r = \<lparr>cr_start = cr_start r, cr_end = cr_end r, cr_total = None\<rparr>"
      unfolding None [symmetric] by simp
    then show ?thesis
      unfolding parse_content_range_def strip_format ab option.case(2) dr None
      by (auto simp: number_then_show range_ok_def None)
  next
    case (Some t)
    have "r = \<lparr>cr_start = cr_start r, cr_end = cr_end r, cr_total = Some t\<rparr>"
      unfolding Some [symmetric] by simp
    then show ?thesis
      unfolding parse_content_range_def strip_format ab option.case(2) dr Some
      by (auto simp: number_then_show range_ok_def Some)
  qed
  show "case parse_content_range s of None \<Rightarrow> True | Some r' \<Rightarrow> range_ok r'"
    by (auto simp: parse_content_range_def range_ok_def split: option.splits if_splits)
qed

section \<open>Bundle references\<close>

definition BUNDLE_REF_PREFIX :: string where
  "BUNDLE_REF_PREFIX = ''orch:''"

definition format_bundle_ref :: "string \<Rightarrow> string \<Rightarrow> string" where
  "format_bundle_ref name version = BUNDLE_REF_PREFIX @ name @ ''@'' @ version"

definition parse_bundle_ref :: "string \<Rightarrow> value_error + (string \<times> string)" where
  "parse_bundle_ref ref =
     (if \<not> starts_with BUNDLE_REF_PREFIX ref then
        Inl (ValueError (''bundle ref must start with {!r}, got {!r}'', [AStr BUNDLE_REF_PREFIX, AStr ref]))
      else
        let body = drop (length BUNDLE_REF_PREFIX) ref
        in if CHR ''@'' \<notin> set body then Inl (ValueError (''bundle ref missing '' @ [CHR 0x27] @ ''@<version>'' @ [CHR 0x27] @ '': {!r}'', [AStr ref]))
           else
             let (name, version) = rsplit1 (CHR ''@'') body
             in if name = [] \<or> version = [] then
                  Inl (ValueError (''bundle ref name/version both required: {!r}'', [AStr ref]))
                else Inr (name, version))"

lemma bundle_ref_roundtrip_iff:
  "parse_bundle_ref ref = Inr (name, version) \<longleftrightarrow>
     ref = format_bundle_ref name version \<and> name \<noteq> [] \<and> version \<noteq> [] \<and> CHR ''@'' \<notin> set version"
proof
  assume p: "parse_bundle_ref ref = Inr (name, version)"
  then have s: "starts_with BUNDLE_REF_PREFIX ref"
    and at: "CHR ''@'' \<in> set (drop (length BUNDLE_REF_PREFIX) ref)"
    and sp: "rsplit1 (CHR ''@'') (drop (length BUNDLE_REF_PREFIX) ref) = (name, version)"
    and ne: "name \<noteq> [] \<and> version \<noteq> []"
    by (auto simp: parse_bundle_ref_def Let_def split: if_splits prod.splits)
  from rsplit1_join [OF at sp] have "drop (length BUNDLE_REF_PREFIX) ref = name @ ''@'' @ version"
    and "CHR ''@'' \<notin> set version" by simp_all
  with s ne show "ref = format_bundle_ref name version \<and> name \<noteq> [] \<and> version \<noteq> [] \<and> CHR ''@'' \<notin> set version"
    unfolding format_bundle_ref_def starts_with_def by (metis append_take_drop_id)
next
  assume r: "ref = format_bundle_ref name version \<and> name \<noteq> [] \<and> version \<noteq> [] \<and> CHR ''@'' \<notin> set version"
  then have "drop (length BUNDLE_REF_PREFIX) ref = name @ CHR ''@'' # version"
    by (simp add: format_bundle_ref_def)
  with r rsplit1_append [of "CHR ''@''" version name] show "parse_bundle_ref ref = Inr (name, version)"
    by (simp add: parse_bundle_ref_def format_bundle_ref_def)
qed

text \<open>
  References and (name, version) pairs correspond: a text parses to a pair if and only if it
  is the reference of that pair, both parts are present, and the version has no \<open>@\<close>.
\<close>

theorem bundle_ref_roundtrip:
  "parse_bundle_ref ref = Inr (name, version) \<longleftrightarrow>
     ref = format_bundle_ref name version \<and> name \<noteq> [] \<and> version \<noteq> [] \<and> CHR ''@'' \<notin> set version"
  by (rule bundle_ref_roundtrip_iff)

section \<open>Safe path segments\<close>

definition UNSAFE_SUBSTRINGS :: "string list" where
  "UNSAFE_SUBSTRINGS = [''/'', [CHR 0x5C], ''..'', [CHR 0x00]]"

definition is_safe_name :: "string \<Rightarrow> bool" where
  "is_safe_name name =
     (if name = [] then False
      else if list_ex (\<lambda>s. contains s name) UNSAFE_SUBSTRINGS then False
      else if starts_with ''/'' name \<or> (length name \<ge> 2 \<and> name ! 1 = CHR '':'') then False
      else True)"

text \<open>
  The resolution of a relative path without symbolic links: \<open>.\<close> and empty components vanish,
  \<open>..\<close> removes the component before it (and is dropped at the root).
\<close>

fun resolve_parts :: "string list \<Rightarrow> string list \<Rightarrow> string list" where
  "resolve_parts acc [] = acc"
| "resolve_parts acc (p # ps) =
     (if p = [] \<or> p = ''.'' then resolve_parts acc ps
      else if p = ''..'' then resolve_parts (butlast acc) ps
      else resolve_parts (acc @ [p]) ps)"

definition safe_join :: "string list \<Rightarrow> string \<Rightarrow> value_error + string list" where
  "safe_join base segment =
     (let base_resolved = resolve_parts [] base;
          candidate = (if starts_with ''/'' segment then resolve_parts [] (split_on (CHR ''/'') segment)
                       else resolve_parts base_resolved (split_on (CHR ''/'') segment))
      in if candidate \<noteq> base_resolved
            \<and> \<not> (length base_resolved < length candidate \<and> take (length base_resolved) candidate = base_resolved)
         then Inl (ValueError (''path segment escapes base: {!r}'', [AStr segment]))
         else Inr candidate)"

lemma split_on_whole: "c \<notin> set s \<Longrightarrow> split_on c s = [s]"
  by (induction s) auto

text \<open>
  The two guards together: whatever the segment, a path that the I/O layer accepts lies in the
  base directory; and a name that the boundary accepts is never refused there and names a direct
  child of the base (or the base itself, for the name consisting of one dot).
\<close>

theorem safe_join_contained:
  "(case safe_join base segment of Inl e \<Rightarrow> True
      | Inr path \<Rightarrow> take (length (resolve_parts [] base)) path = resolve_parts [] base)
   \<and> (\<not> is_safe_name name
      \<or> safe_join base name = Inr (if name = ''.'' then resolve_parts [] base else resolve_parts [] base @ [name]))"
proof
  show "case safe_join base segment of Inl e \<Rightarrow> True
      | Inr path \<Rightarrow> take (length (resolve_parts [] base)) path = resolve_parts [] base"
    by (auto simp: safe_join_def Let_def split: if_splits)
  show "\<not> is_safe_name name
      \<or> safe_join base name = Inr (if name = ''.'' then resolve_parts [] base else resolve_parts [] base @ [name])"
  proof (cases "is_safe_name name")
    case True
    then have n: "name \<noteq> []" "CHR ''/'' \<notin> set name" "\<not> contains ''..'' name" "\<not> starts_with ''/'' name"
      by (auto simp: is_safe_name_def UNSAFE_SUBSTRINGS_def contains_char split: if_splits)
    then have "name \<noteq> ''..''" by (auto simp: starts_with_def)
    with n show ?thesis by (auto simp: safe_join_def split_on_whole Let_def)
  qed simp
qed

theorem safe_join_contained_witness:
  "is_safe_name ''a.zip'' \<and> (\<forall>base. safe_join base ''a.zip'' = Inr (resolve_parts [] base @ [''a.zip'']))"
proof -
  have "is_safe_name ''a.zip''" by code_simp
  with safe_join_contained [of _ "''a.zip''" "''a.zip''"] show ?thesis by simp
qed

section \<open>Bundle archives\<close>

text \<open>
  \<^verbatim>\<open>detect_wrapper_dir\<close>: the set of first segments has one element; \<open>dedup\<close> lists it.
\<close>

definition first_seg :: "string \<Rightarrow> string" where
  "first_seg p = takeWhile (\<lambda>c. c \<noteq> CHR ''/'') p"

definition detect_wrapper_dir :: "string list \<Rightarrow> string option" where
  "detect_wrapper_dir rel_paths =
     (let files = filter (\<lambda>p. p \<noteq> [] \<and> last p \<noteq> CHR ''/'') rel_paths
      in if files = [] then None
         else if list_ex (\<lambda>p. CHR ''/'' \<notin> set p) files then None
         else
           let first_segs = dedup (map first_seg files)
           in if length first_segs \<noteq> 1 then None
              else
                let wrapper = hd first_segs
                in if (wrapper @ ''/manifest.yaml'') \<notin> set files then None else Some wrapper)"

lemma first_seg_prefix: "CHR ''/'' \<in> set p \<Longrightarrow> starts_with (first_seg p @ ''/'') p"
proof -
  assume "CHR ''/'' \<in> set p"
  then obtain a b where "p = a @ CHR ''/'' # b" "CHR ''/'' \<notin> set a" by (meson split_list_first)
  moreover from this have "first_seg p = a"
    by (simp add: first_seg_def takeWhile_append2 takeWhile_tail) (metis (mono_tags) takeWhile_eq_all_conv)
  ultimately show ?thesis by (simp add: starts_with_iff)
qed

text \<open>
  The wrapper directory that is stripped from an archive is one that every file of the
  archive is under, and it holds the manifest.
\<close>

theorem detect_wrapper_dir_sound:
  assumes "detect_wrapper_dir paths = Some w"
  shows "(w @ ''/manifest.yaml'') \<in> set paths
     \<and> (\<forall>p \<in> set paths. p = [] \<or> last p = CHR ''/'' \<or> starts_with (w @ ''/'') p)"
proof -
  let ?files = "filter (\<lambda>p. p \<noteq> [] \<and> last p \<noteq> CHR ''/'') paths"
  let ?segs = "dedup (map first_seg ?files)"
  have slash: "\<forall>p \<in> set ?files. CHR ''/'' \<in> set p" and one: "length ?segs = 1" and w: "w = hd ?segs"
    and manifest: "(w @ ''/manifest.yaml'') \<in> set ?files"
    using assms by (auto simp: detect_wrapper_dir_def Let_def list_ex_iff split: if_splits)
  from one have "?segs = [w]" unfolding w by (cases ?segs) auto
  then have "set (map first_seg ?files) = {w}" by (metis set_dedup list.set(1) list.set(2))
  then have "first_seg p = w" if "p \<in> set ?files" for p using that by auto
  with slash first_seg_prefix manifest show ?thesis by auto
qed

theorem detect_wrapper_dir_sound_witness:
  "(''b/manifest.yaml'') \<in> set [''b/'', ''b/run.sh'', ''b/manifest.yaml'']"
proof -
  have "detect_wrapper_dir [''b/'', ''b/run.sh'', ''b/manifest.yaml''] = Some ''b''" by code_simp
  from detect_wrapper_dir_sound [OF this] show ?thesis by simp
qed

section \<open>Requirement lines\<close>

definition PIP_OPTION_PREFIXES :: "string list" where
  "PIP_OPTION_PREFIXES = [''--extra-index-url'', ''--find-links'', ''--index-url'', ''--no-index'',
     ''--require-hashes'', ''--trusted-host'', ''-f'', ''-i'']"

definition meaningful_requirement :: "string \<Rightarrow> bool" where
  "meaningful_requirement line =
     (let stripped = strip line
      in stripped \<noteq> [] \<and> \<not> starts_with ''#'' stripped
         \<and> \<not> list_ex (\<lambda>p. starts_with p stripped) PIP_OPTION_PREFIXES)"

datatype python_deps_source =
    RequirementsTxt "string list"
  | ManifestPip "string list"

text \<open>
  \<^verbatim>\<open>python_deps_source\<close>: \<open>req_lines\<close> are the lines of \<^verbatim>\<open>requirements.txt\<close> when the file exists.
\<close>

definition python_deps_source :: "string list \<Rightarrow> string list option \<Rightarrow> python_deps_source option" where
  "python_deps_source pip req_lines =
     (case req_lines of
        Some lines \<Rightarrow>
          (let values = map strip (filter meaningful_requirement lines)
           in if values = [] then None else Some (RequirementsTxt values))
      | None \<Rightarrow> if pip = [] then None else Some (ManifestPip pip))"

definition pip_install_args :: "string \<Rightarrow> python_deps_source \<Rightarrow> string list" where
  "pip_install_args requirements_file src =
     (case src of RequirementsTxt values \<Rightarrow> [''-r'', requirements_file] | ManifestPip values \<Rightarrow> values)"

end
