(* ===== verification/Agents.thy ===== *)
theory Agents
  imports Leases Wire
begin

text \<open>
  What the worker and receiver endpoints share: the in-memory telemetry (\<^verbatim>\<open>telemetry.py\<close>), the
  one-shot signals and the version check of \<^verbatim>\<open>api/one_shot.py\<close>, and the ingestion of a worker's
  heartbeat (\<^verbatim>\<open>api/worker_heartbeat.py\<close>). A session that ends without a commit loses what it
  wrote to the tables but not what it did to the memory of the process: \<open>discard\<close>.
\<close>

definition discard :: "orch \<Rightarrow> orch \<Rightarrow> orch" where
  "discard d0 d = d0\<lparr>progress := progress d, worker_telem := worker_telem d, receiver_telem := receiver_telem d\<rparr>"

definition put_worker :: "worker \<Rightarrow> orch \<Rightarrow> orch" where
  "put_worker w d = d\<lparr>workers := upd_where (\<lambda>x. wk_id x = wk_id w) (\<lambda>_. w) (workers d)\<rparr>"

definition put_receiver :: "receiver \<Rightarrow> orch \<Rightarrow> orch" where
  "put_receiver r d = d\<lparr>receivers := upd_where (\<lambda>x. rc_id x = rc_id r) (\<lambda>_. r) (receivers d)\<rparr>"

lemma get_worker_put:
  assumes "get_worker k d = Some w" and "wk_id x = k"
  shows "get_worker k (put_worker x d) = Some x"
proof -
  have "get_row wk_id k (upd_where (\<lambda>y. wk_id y = wk_id x) (\<lambda>_. x) (workers d))
      = map_option (\<lambda>r. if wk_id r = wk_id x then x else r) (get_row wk_id k (workers d))"
    by (rule get_row_upd_where) simp
  with assms show ?thesis by (auto simp: get_worker_def put_worker_def dest: get_row_key)
qed

section \<open>Telemetry in memory\<close>

definition update_worker_telem :: "ident \<Rightarrow> worker_telemetry \<Rightarrow> orch \<Rightarrow> orch" where
  "update_worker_telem k t d = d\<lparr>worker_telem := AList.update k t (worker_telem d)\<rparr>"

definition get_worker_telem :: "ident \<Rightarrow> orch \<Rightarrow> worker_telemetry option" where
  "get_worker_telem k d = map_of (worker_telem d) k"

definition evict_worker :: "ident \<Rightarrow> orch \<Rightarrow> orch" where
  "evict_worker k d = d\<lparr>worker_telem := AList.delete k (worker_telem d)\<rparr>"

definition worker_snapshot :: "worker \<Rightarrow> orch \<Rightarrow> worker_telemetry" where
  "worker_snapshot w d = coalesce (get_worker_telem (wk_id w) d) (wk_telemetry w)"

definition update_receiver_telem :: "ident \<Rightarrow> receiver_telemetry \<Rightarrow> orch \<Rightarrow> orch" where
  "update_receiver_telem k t d = d\<lparr>receiver_telem := AList.update k t (receiver_telem d)\<rparr>"

definition get_receiver_telem :: "ident \<Rightarrow> orch \<Rightarrow> receiver_telemetry option" where
  "get_receiver_telem k d = map_of (receiver_telem d) k"

definition evict_receiver :: "ident \<Rightarrow> orch \<Rightarrow> orch" where
  "evict_receiver k d = d\<lparr>receiver_telem := AList.delete k (receiver_telem d)\<rparr>"

definition receiver_snapshot :: "receiver \<Rightarrow> orch \<Rightarrow> receiver_telemetry" where
  "receiver_snapshot r d = coalesce (get_receiver_telem (rc_id r) d) (rc_telemetry r)"

section \<open>One-shot signals\<close>

text \<open>
  The helpers work on an attribute of an entity: \<open>get_at\<close> reads it, \<open>put_at\<close> writes it. The entity is
  threaded; the caller stores it.
\<close>

definition request_one_shot_signal ::
  "(time option \<Rightarrow> 'e \<Rightarrow> 'e) \<Rightarrow> ('e \<Rightarrow> orch \<Rightarrow> orch) \<Rightarrow> ident \<Rightarrow> fmt \<Rightarrow> scope \<Rightarrow> time \<Rightarrow> 'e \<Rightarrow> orch \<Rightarrow> orch" where
  "request_one_shot_signal put_at put source message sc now e d =
     commit_and_publish now [Some sc]
       (log_event ''info'' source message None None (put (put_at (Some now) e) d))"

definition signal_one_shot ::
  "(ident \<Rightarrow> orch \<Rightarrow> 'e option) \<Rightarrow> string \<Rightarrow> (time option \<Rightarrow> 'e \<Rightarrow> 'e) \<Rightarrow> ('e \<Rightarrow> orch \<Rightarrow> orch)
     \<Rightarrow> ident \<Rightarrow> scope \<Rightarrow> fmt \<Rightarrow> time \<Rightarrow> unit handler" where
  "signal_one_shot lookup noun put_at put k sc message now d =
     and_then (get_or_404 (lookup k d) (noun @ '' not found'')) (\<lambda>e.
       Inr ((), request_one_shot_signal put_at put k message sc now e d))"

definition consume_one_shot_signal ::
  "('e \<Rightarrow> time option) \<Rightarrow> (time option \<Rightarrow> 'e \<Rightarrow> 'e) \<Rightarrow> ident \<Rightarrow> fmt \<Rightarrow> 'e \<Rightarrow> orch \<Rightarrow> bool \<times> 'e \<times> orch" where
  "consume_one_shot_signal get_at put_at source message e d =
     (if get_at e = None then (False, e, d)
      else (True, put_at None e, log_event ''info'' source message None None d))"

definition record_version_flap ::
  "('e \<Rightarrow> string) \<Rightarrow> (string \<Rightarrow> 'e \<Rightarrow> 'e) \<Rightarrow> string \<Rightarrow> ident \<Rightarrow> string \<Rightarrow> 'e \<Rightarrow> orch \<Rightarrow> bool \<times> 'e \<times> orch" where
  "record_version_flap get_at put_at new_version source kind e d =
     (if new_version = [] \<or> new_version = get_at e then (False, e, d)
      else (True, put_at new_version e,
            log_event ''warn'' source
              (''{} version changed {!r} -> {!r} (if this keeps flipping, two containers likely share the {}_id)'',
               [AStr kind, AStr (get_at e), AStr new_version, AStr kind]) None None d))"

definition set_update_requested :: "time option \<Rightarrow> worker \<Rightarrow> worker" where
  "set_update_requested t w = w\<lparr>wk_update_requested_at := t\<rparr>"

definition set_gc_requested :: "time option \<Rightarrow> worker \<Rightarrow> worker" where
  "set_gc_requested t w = w\<lparr>wk_gc_requested_at := t\<rparr>"

definition set_worker_version :: "string \<Rightarrow> worker \<Rightarrow> worker" where
  "set_worker_version v w = w\<lparr>wk_version := v\<rparr>"

definition set_restart_requested :: "time option \<Rightarrow> receiver \<Rightarrow> receiver" where
  "set_restart_requested t r = r\<lparr>rc_restart_requested_at := t\<rparr>"

definition set_receiver_version :: "string \<Rightarrow> receiver \<Rightarrow> receiver" where
  "set_receiver_version v r = r\<lparr>rc_version := v\<rparr>"

section \<open>The heartbeat of a worker\<close>

record worker_heartbeat =
  hb_worker_id :: ident
  hb_version :: string
  hb_disk_used_gb :: rat
  hb_disk_total_gb :: rat
  hb_cpu_percent :: rat
  hb_mem_percent :: rat
  hb_monthly_egress_gb :: rat
  hb_pending_download :: int
  hb_downloading :: int
  hb_pending_processing :: int
  hb_processing :: int
  hb_pending_upload :: int
  hb_uploading :: int
  hb_download_concurrency :: int
  hb_process_concurrency :: int
  hb_paused :: bool
  hb_active_granule_ids :: "ident list option"

definition TELEMETRY_PERSIST_US :: int where
  "TELEMETRY_PERSIST_US = seconds 45"

definition telemetry_of :: "worker_heartbeat \<Rightarrow> time \<Rightarrow> worker_telemetry" where
  "telemetry_of req now =
     \<lparr>wt_last_seen = now, wt_disk_used_gb = hb_disk_used_gb req, wt_disk_total_gb = hb_disk_total_gb req,
      wt_cpu_percent = hb_cpu_percent req, wt_mem_percent = hb_mem_percent req,
      wt_monthly_egress_gb = hb_monthly_egress_gb req, wt_pending_download = hb_pending_download req,
      wt_downloading = hb_downloading req, wt_pending_processing = hb_pending_processing req,
      wt_processing = hb_processing req, wt_pending_upload = hb_pending_upload req,
      wt_uploading = hb_uploading req, wt_paused = hb_paused req\<rparr>"

definition live_changed :: "worker \<Rightarrow> worker_heartbeat \<Rightarrow> bool" where
  "live_changed w req \<longleftrightarrow> wk_live_download w \<noteq> Some (hb_download_concurrency req)
     \<or> wk_live_process w \<noteq> Some (hb_process_concurrency req)"

definition set_live :: "worker_heartbeat \<Rightarrow> worker \<Rightarrow> worker" where
  "set_live req w = w\<lparr>wk_live_download := Some (hb_download_concurrency req),
                     wk_live_process := Some (hb_process_concurrency req)\<rparr>"

text \<open>Returns whether the caller should commit, the row, and the state with the memory updated.\<close>

definition apply_worker_heartbeat ::
  "settings \<Rightarrow> worker_heartbeat \<Rightarrow> time \<Rightarrow> worker \<Rightarrow> orch \<Rightarrow> bool \<times> worker \<times> orch" where
  "apply_worker_heartbeat cfg req now w d =
     (if is_postgres cfg then
        let material = (live_changed w req \<or> wt_paused (wk_telemetry w) \<noteq> hb_paused req);
            due = (now - wt_last_seen (wk_telemetry w) \<ge> TELEMETRY_PERSIST_US)
        in if \<not> (material \<or> due) then (False, w, d)
           else (True, set_live req (w\<lparr>wk_telemetry := telemetry_of req now\<rparr>), d)
      else
        let d' = update_worker_telem (wk_id w) (telemetry_of req now) d;
            changed = live_changed w req
        in (changed, (if changed then set_live req w else w), d'))"

definition revoked_active_granules :: "worker_heartbeat \<Rightarrow> orch \<Rightarrow> ident list" where
  "revoked_active_granules req d =
     (case hb_active_granule_ids req of
        None \<Rightarrow> []
      | Some [] \<Rightarrow> []
      | Some ids \<Rightarrow>
          (let owned = map gr_id (filter (\<lambda>g. gr_id g \<in> set ids \<and> leased_to (hb_worker_id req) g) (granules d))
           in filter (\<lambda>i. i \<notin> set owned) ids))"

section \<open>Frames\<close>

lemma telem_frame [simp]:
  "workers (update_worker_telem k t d) = workers d" "receivers (update_worker_telem k t d) = receivers d"
  "rollouts (update_worker_telem k t d) = rollouts d" "batches (update_worker_telem k t d) = batches d"
  "deliveries (update_worker_telem k t d) = deliveries d" "granules (update_worker_telem k t d) = granules d"
  "objects (update_worker_telem k t d) = objects d" "timings (update_worker_telem k t d) = timings d"
  "pending_events (update_worker_telem k t d) = pending_events d"
  by (simp_all add: update_worker_telem_def)

lemma put_worker_frame [simp]:
  "receivers (put_worker w d) = receivers d" "rollouts (put_worker w d) = rollouts d"
  "batches (put_worker w d) = batches d" "deliveries (put_worker w d) = deliveries d"
  "granules (put_worker w d) = granules d" "objects (put_worker w d) = objects d"
  "timings (put_worker w d) = timings d" "pending_events (put_worker w d) = pending_events d"
  by (simp_all add: put_worker_def)

lemma put_receiver_frame [simp]:
  "workers (put_receiver r d) = workers d" "rollouts (put_receiver r d) = rollouts d"
  "batches (put_receiver r d) = batches d" "deliveries (put_receiver r d) = deliveries d"
  "granules (put_receiver r d) = granules d" "objects (put_receiver r d) = objects d"
  "timings (put_receiver r d) = timings d" "pending_events (put_receiver r d) = pending_events d"
  by (simp_all add: put_receiver_def)

lemma db_inv_agents [simp]:
  "db_inv dg (update_worker_telem k t d) \<longleftrightarrow> db_inv dg d"
  "db_inv dg (put_worker w d) \<longleftrightarrow> db_inv dg d" "db_inv dg (put_receiver r d) \<longleftrightarrow> db_inv dg d"
  "db_inv dg (evict_worker k d) \<longleftrightarrow> db_inv dg d" "db_inv dg (evict_receiver k d) \<longleftrightarrow> db_inv dg d"
  "db_inv dg (update_receiver_telem k rt d) \<longleftrightarrow> db_inv dg d"
  "db_inv dg (discard d d') \<longleftrightarrow> db_inv dg d"
  by (rule db_inv_cong;
      simp add: evict_worker_def evict_receiver_def update_receiver_telem_def discard_def)+

lemma apply_worker_heartbeat_inv [simp]:
  "db_inv dg (snd (snd (apply_worker_heartbeat cfg req now w d))) \<longleftrightarrow> db_inv dg d"
  by (simp add: apply_worker_heartbeat_def Let_def)

lemma apply_worker_heartbeat_row [simp]:
  "wk_id (fst (snd (apply_worker_heartbeat cfg req now w d))) = wk_id w"
  by (simp add: apply_worker_heartbeat_def Let_def set_live_def)

lemma consume_inv [simp]:
  "db_inv dg (snd (snd (consume_one_shot_signal get_at put_at s m e d))) \<longleftrightarrow> db_inv dg d"
  by (simp add: consume_one_shot_signal_def)

lemma flap_inv [simp]:
  "db_inv dg (snd (snd (record_version_flap get_at put_at v s k e d))) \<longleftrightarrow> db_inv dg d"
  by (simp add: record_version_flap_def)

end
