(* ===== verification/WorkersApi.thy ===== *)
theory WorkersApi
  imports Agents
begin

text \<open>
  The worker-facing endpoints, \<^verbatim>\<open>src/sathop/orchestrator/api/workers.py\<close>: registration,
  heartbeat, lease, the ingress of transition events (single and batched), the poll for deletable
  granules, and the operator's actions on a worker. Each is a handler: the guards in the order of
  the code, then the updates, the log lines and the commit.
\<close>

section \<open>Guards\<close>

definition check_worker_version :: "settings \<Rightarrow> string \<Rightarrow> ident \<Rightarrow> http_error + unit" where
  "check_worker_version cfg version worker_id =
     (let min_ver = min_worker_version cfg
      in if min_ver = [] then Inr ()
         else if version_less (parse_version version) (parse_version min_ver) then
           Inl (HTTPException 426 (''worker {} version {} below minimum {}'',
                [AStr worker_id, AStr version, AStr min_ver]))
         else Inr ())"

definition active_worker_or_403 :: "ident \<Rightarrow> orch \<Rightarrow> http_error + worker" where
  "active_worker_or_403 k d =
     (case get_worker k d of
        None \<Rightarrow> Inl (HTTPException 403 (''worker not registered or removed'', []))
      | Some w \<Rightarrow>
          if wk_removed_at w \<noteq> None then Inl (HTTPException 403 (''worker not registered or removed'', []))
          else if wk_operator_paused w = Some True then Inl (HTTPException 403 (''worker is paused'', []))
          else Inr w)"

section \<open>Registration\<close>

record worker_register =
  wr_worker_id :: ident
  wr_version :: string
  wr_capacity :: int
  wr_public_url :: "string option"
  wr_ca_pem :: "string option"

definition new_worker :: "worker_register \<Rightarrow> time \<Rightarrow> worker" where
  "new_worker req now =
     \<lparr>wk_id = wr_worker_id req, wk_version = wr_version req, wk_capacity = wr_capacity req,
      wk_public_url = wr_public_url req,
      wk_telemetry = \<lparr>wt_last_seen = now, wt_disk_used_gb = 0, wt_disk_total_gb = 0, wt_cpu_percent = 0,
        wt_mem_percent = 0, wt_monthly_egress_gb = 0, wt_pending_download = 0, wt_downloading = 0,
        wt_pending_processing = 0, wt_processing = 0, wt_pending_upload = 0, wt_uploading = 0,
        wt_paused = False\<rparr>,
      wk_download_concurrency = None, wk_process_concurrency = None, wk_live_download = None,
      wk_live_process = None, wk_ca_pem = wr_ca_pem req, wk_update_requested_at = None,
      wk_update_to_version = None, wk_operator_paused = Some False, wk_gc_requested_at = None,
      wk_removed_at = None\<rparr>"

definition reregistered :: "worker_register \<Rightarrow> time \<Rightarrow> worker \<Rightarrow> worker" where
  "reregistered req now w =
     w\<lparr>wk_version := wr_version req, wk_capacity := wr_capacity req, wk_public_url := wr_public_url req,
       wk_ca_pem := (if wr_ca_pem req \<noteq> None then wr_ca_pem req else wk_ca_pem w),
       wk_telemetry := (wk_telemetry w)\<lparr>wt_last_seen := now\<rparr>\<rparr>"

definition register :: "settings \<Rightarrow> time \<Rightarrow> worker_register \<Rightarrow> unit handler" where
  "register cfg now req d =
     and_then (check_worker_version cfg (wr_version req) (wr_worker_id req)) (\<lambda>_.
       case get_worker (wr_worker_id req) d of
         None \<Rightarrow>
           Inr ((), commit_and_publish now [Some WORKERS, None]
             (log_event ''info'' (wr_worker_id req) (''worker registered (cap={})'', [AInt (wr_capacity req)]) None None
               (d\<lparr>workers := workers d @ [new_worker req now]\<rparr>)))
       | Some w \<Rightarrow>
           if wk_removed_at w \<noteq> None then
             Inl (HTTPException 410 (''worker has been removed'', []))
           else
             and_then (revoke_worker_leases cfg (wr_worker_id req) now (put_worker (reregistered req now w) d))
               (\<lambda>(reclaimed, d1).
                 let d2 = (if reclaimed = 0 then d1
                           else log_event ''info'' (wr_worker_id req)
                                  (''re-register reclaimed {} orphaned lease(s)'', [AInt (int reclaimed)]) None None d1)
                 in Inr ((), commit_and_publish now
                          [Some WORKERS, if reclaimed = 0 then None else Some BATCHES] d2)))"

section \<open>Heartbeat\<close>

record heartbeat_response =
  hr_download_concurrency :: "int option"
  hr_process_concurrency :: "int option"
  hr_revoked :: "ident list"
  hr_update_requested :: bool
  hr_update_to_version :: "string option"
  hr_operator_paused :: bool
  hr_gc_requested :: bool
  hr_removed :: bool
  hr_detail :: string

definition removed_response :: heartbeat_response where
  "removed_response = \<lparr>hr_download_concurrency = None, hr_process_concurrency = None, hr_revoked = [],
     hr_update_requested = False, hr_update_to_version = None, hr_operator_paused = False,
     hr_gc_requested = False, hr_removed = True, hr_detail = ''verbose''\<rparr>"

definition heartbeat :: "settings \<Rightarrow> time \<Rightarrow> worker_heartbeat \<Rightarrow> heartbeat_response handler" where
  "heartbeat cfg now req d =
     and_then (check_worker_version cfg (hb_version req) (hb_worker_id req)) (\<lambda>_.
     and_then (get_or_404 (get_worker (hb_worker_id req) d) ''worker not registered'') (\<lambda>w.
       if wk_removed_at w \<noteq> None then Inr (removed_response, d)
       else
         let (live_chg, w1, d1) = apply_worker_heartbeat cfg req now w d;
             (flapped, w2, d2) =
               record_version_flap wk_version set_worker_version (hb_version req) (hb_worker_id req) ''worker'' w1 d1;
             (reclaimed, d3) =
               (case hb_active_granule_ids req of
                  None \<Rightarrow> (0, d2)
                | Some reported \<Rightarrow> reclaim_inactive_leases (hb_worker_id req) reported now 60 d2);
             d4 = (if reclaimed = 0 then d3
                   else log_event ''info'' (hb_worker_id req)
                          (''reclaimed {} orphaned lease(s) (heartbeat reconcile)'', [AInt (int reclaimed)]) None None d3);
             (renewed, d5) = renew_worker_leases (hb_worker_id req) now d4;
             revoked = revoked_active_granules req d5;
             (update, w3, d6) =
               consume_one_shot_signal wk_update_requested_at set_update_requested (wk_id w)
                 (''update signal delivered to worker'', []) w2 d5;
             to_version = (if update then wk_update_to_version w3 else None);
             w4 = (if update then w3\<lparr>wk_update_to_version := None\<rparr> else w3);
             (gc, w5, d7) =
               consume_one_shot_signal wk_gc_requested_at set_gc_requested (wk_id w)
                 (''cache GC signal delivered to worker'', []) w4 d6;
             d8 = put_worker w5 d7;
             d9 = (if flapped \<or> reclaimed \<noteq> 0 \<or> renewed \<noteq> 0 \<or> update \<or> gc \<or> live_chg
                   then commit_and_publish now [Some WORKERS, if reclaimed = 0 then None else Some BATCHES] d8
                   else discard d d8)
         in Inr (\<lparr>hr_download_concurrency = wk_download_concurrency w5,
                  hr_process_concurrency = wk_process_concurrency w5, hr_revoked = revoked,
                  hr_update_requested = update, hr_update_to_version = to_version,
                  hr_operator_paused = (wk_operator_paused w5 = Some True), hr_gc_requested = gc,
                  hr_removed = False, hr_detail = get_worker_detail cfg d8\<rparr>, d9)))"

section \<open>Lease\<close>

definition lease :: "settings \<Rightarrow> pick \<Rightarrow> time \<Rightarrow> lease_request \<Rightarrow> (lease_item list \<times> time) handler" where
  "lease cfg pick now req d =
     and_then (active_worker_or_403 (lq_worker_id req) d) (\<lambda>_.
       let expires = now + LEASE_DURATION; limit = lease_limit cfg req d
       in if limit \<le> 0 then Inr (([], expires), d)
          else
            let (items, d1) = claim_pending_granules pick (lq_worker_id req) limit now expires d
            in if items = [] then Inr (([], expires), d)
               else Inr ((items, expires),
                      commit_and_publish now [Some BATCHES]
                        (log_event ''info'' (lq_worker_id req) (''leased {} granules'', [AInt (int (length items))])
                           None None d1)))"

section \<open>Events\<close>

definition terminal_side_effects :: "granule_event \<Rightarrow> orch \<Rightarrow> orch" where
  "terminal_side_effects ev d =
     (case get_granule (event_granule ev) d of
        None \<Rightarrow> d
      | Some g \<Rightarrow>
          (case ev of
             UploadCompleted gid wid objs pr dl \<Rightarrow>
               log_event ''info'' wid (''uploaded {} objects'', [AInt (int (length objs))])
                 (Some (gr_id g)) (Some (gr_batch g)) (evict_granule (gr_id g) d)
           | ProcessingFailed gid wid err so se code \<Rightarrow>
               log_event (if gr_state g = BLACKLISTED then ''error'' else ''warn'') wid
                 (''processing failed (exit={}) retry={}'',
                  [AOpt (map_option (\<lambda>c. if c < 0 then CHR ''-'' # show_nat (nat (- c)) else show_nat (nat c)) code),
                   AInt (gr_retry_count g)])
                 (Some (gr_id g)) (Some (gr_batch g)) (evict_granule (gr_id g) d)
           | _ \<Rightarrow> d))"

definition holds_lease :: "granule_event \<Rightarrow> granule \<Rightarrow> bool" where
  "holds_lease ev g \<longleftrightarrow> is_DeleteConfirmed ev \<or> gr_leased_by g = Some (event_worker ev)"

definition emit_event :: "settings \<Rightarrow> time \<Rightarrow> granule_event \<Rightarrow> granule_state handler" where
  "emit_event cfg now ev d =
     and_then (get_or_404 (get_granule (event_granule ev) d) ''granule not found'') (\<lambda>g.
       if \<not> holds_lease ev g then Inl (HTTPException 409 (''granule not leased by this worker'', []))
       else
         and_then (raise_409 (\<lambda>g c. conflict_text c) cfg g (Wire ev) now d) (\<lambda>(result, d1).
           Inr (new_state result,
                commit_and_publish now [publish_scope result] (terminal_side_effects ev d1))))"

text \<open>One event of the batched twin, on the state and the list of granules to report as revoked.\<close>

definition batch_event ::
  "settings \<Rightarrow> time \<Rightarrow> granule_event \<Rightarrow> orch \<times> scope list \<times> ident list \<Rightarrow> orch \<times> scope list \<times> ident list" where
  "batch_event cfg now ev st =
     (case st of (d, scopes, revoked) \<Rightarrow>
        (case get_granule (event_granule ev) d of
           None \<Rightarrow> (d, scopes, revoked @ [event_granule ev])
         | Some g \<Rightarrow>
             if \<not> holds_lease ev g then (d, scopes, revoked @ [event_granule ev])
             else
               (case apply_transition cfg g (Wire ev) now d of
                  Inl c \<Rightarrow> (d, scopes, revoked)
                | Inr (result, d1) \<Rightarrow>
                    (terminal_side_effects ev d1,
                     (case publish_scope result of None \<Rightarrow> scopes | Some sc \<Rightarrow> List.insert sc scopes),
                     revoked))))"

definition emit_events_batch :: "settings \<Rightarrow> time \<Rightarrow> granule_event list \<Rightarrow> ident list handler" where
  "emit_events_batch cfg now events d =
     (if events = [] then Inr ([], d)
      else
        let (d1, scopes, revoked) = fold (batch_event cfg now) events (d, [], [])
        in Inr (dedup revoked, commit_and_publish now (map Some scopes) d1))"

definition fully_acked :: "orch \<Rightarrow> ident \<Rightarrow> bool" where
  "fully_acked d gid \<longleftrightarrow>
     (let os = filter (\<lambda>x. ob_granule x = gid \<and> ob_deleted_at x = None) (objects d)
      in os \<noteq> [] \<and> all_objects_acked os)"

definition deletable :: "ident \<Rightarrow> orch \<Rightarrow> (ident \<times> string list) list" where
  "deletable worker_id d =
     (let rows = filter (\<lambda>x. ob_worker x = worker_id \<and> ob_acked_at x \<noteq> None \<and> ob_deleted_at x = None
                           \<and> fully_acked d (ob_granule x)) (objects d)
      in map (\<lambda>gid. (gid, map ob_key (filter (\<lambda>x. ob_granule x = gid) rows))) (dedup (map ob_granule rows)))"

section \<open>Operator actions\<close>

record concurrency_override =
  co_download :: "int option"
  co_process :: "int option"

definition validate_concurrency :: "concurrency_override \<Rightarrow> http_error + unit" where
  "validate_concurrency body =
     (let bad = (\<lambda>v. case v of None \<Rightarrow> False | Some n \<Rightarrow> n < (1::int))
      in if bad (co_download body) then
           Inl (HTTPException 422 (''{} must be a positive int or null'', [AStr ''download_concurrency'']))
         else if bad (co_process body) then
           Inl (HTTPException 422 (''{} must be a positive int or null'', [AStr ''process_concurrency'']))
         else Inr ())"

definition set_override :: "concurrency_override \<Rightarrow> worker \<Rightarrow> worker" where
  "set_override body w = w\<lparr>wk_download_concurrency := co_download body, wk_process_concurrency := co_process body\<rparr>"

definition set_concurrency_bulk ::
  "time \<Rightarrow> concurrency_override \<Rightarrow> ident list \<Rightarrow> ident list handler" where
  "set_concurrency_bulk now body ids d =
     and_then (validate_concurrency body) (\<lambda>_.
       let applied = filter (\<lambda>k. get_worker k d \<noteq> None) ids;
           d1 = d\<lparr>workers := upd_where (\<lambda>w. wk_id w \<in> set ids) (set_override body) (workers d)\<rparr>
       in if applied = [] then Inr ([], d)
          else Inr (applied, commit_and_publish now [Some WORKERS]
                 (log_event ''info'' ''operator'' (''concurrency override ({} worker(s))'', [AInt (int (length applied))])
                    None None d1)))"

definition set_concurrency :: "time \<Rightarrow> ident \<Rightarrow> concurrency_override \<Rightarrow> unit handler" where
  "set_concurrency now k body d =
     and_then (validate_concurrency body) (\<lambda>_.
     and_then (get_or_404 (get_worker k d) ''worker not found'') (\<lambda>w.
       Inr ((), commit_and_publish now [Some WORKERS]
              (log_event ''info'' k (''concurrency override'', []) None None (put_worker (set_override body w) d)))))"

fun norm_update_version :: "string option \<Rightarrow> http_error + string option" where
  "norm_update_version None = Inr None"
| "norm_update_version (Some v) =
     (case normalize_version v of
        Inl (ValueError msg) \<Rightarrow> Inl (HTTPException 422 msg)
      | Inr n \<Rightarrow> Inr (Some n))"

definition stamp_update :: "time \<Rightarrow> string option \<Rightarrow> worker \<Rightarrow> worker" where
  "stamp_update now target w = w\<lparr>wk_update_requested_at := Some now, wk_update_to_version := target\<rparr>"

definition request_update :: "time \<Rightarrow> ident \<Rightarrow> string option \<Rightarrow> string option handler" where
  "request_update now k version d =
     and_then (norm_update_version version) (\<lambda>target.
     and_then (get_or_404 (get_worker k d) ''worker not found'') (\<lambda>w.
       Inr (target, commit_and_publish now [Some WORKERS]
              (log_event ''info'' k (''update requested via UI'', [AOpt target]) None None
                 (put_worker (stamp_update now target w) d)))))"

definition request_update_all :: "time \<Rightarrow> string option \<Rightarrow> (nat \<times> string option) handler" where
  "request_update_all now version d =
     and_then (norm_update_version version) (\<lambda>target.
       let p = (\<lambda>w. wk_removed_at w = None \<and> wk_operator_paused w \<noteq> Some True);
           count = row_count p (workers d);
           d1 = d\<lparr>workers := upd_where p (stamp_update now target) (workers d)\<rparr>
       in if count = 0 then Inr ((0, target), d)
          else Inr ((count, target), commit_and_publish now [Some WORKERS]
                 (log_event ''info'' ''operator'' (''update-all: {} worker(s)'', [AInt (int count)]) None None d1)))"

definition mark_removed :: "time \<Rightarrow> worker \<Rightarrow> worker" where
  "mark_removed now w = w\<lparr>wk_removed_at := Some now, wk_operator_paused := Some True\<rparr>"

definition request_remove_all :: "time \<Rightarrow> nat handler" where
  "request_remove_all now d =
     (let p = (\<lambda>w. wk_removed_at w = None);
          count = row_count p (workers d);
          d1 = d\<lparr>workers := upd_where p (mark_removed now) (workers d)\<rparr>
      in if count = 0 then Inr (0, d)
         else Inr (count, fold evict_worker (map wk_id (filter p (workers d)))
                (commit_and_publish now [Some WORKERS]
                   (log_event ''info'' ''operator'' (''remove-all: {} worker(s)'', [AInt (int count)]) None None d1))))"

definition set_paused :: "time \<Rightarrow> ident \<Rightarrow> bool \<Rightarrow> bool handler" where
  "set_paused now k paused d =
     and_then (get_or_404 (get_worker k d) ''worker not found'') (\<lambda>w.
       Inr (paused, commit_and_publish now [Some WORKERS]
              (log_event ''info'' k ((if paused then ''worker paused via UI'' else ''worker resumed via UI''), []) None None
                 (put_worker (w\<lparr>wk_operator_paused := Some paused\<rparr>) d))))"

definition revoke_all_leases :: "settings \<Rightarrow> time \<Rightarrow> ident \<Rightarrow> nat handler" where
  "revoke_all_leases cfg now k d =
     and_then (get_or_404 (get_worker k d) ''worker not found'') (\<lambda>w.
     and_then (revoke_worker_leases cfg k now d) (\<lambda>(revoked, d1).
       let d2 = (if revoked = 0 then d1
                 else log_event ''info'' k (''force-revoked {} lease(s) via UI'', [AInt (int revoked)]) None None d1)
       in Inr (revoked, commit_and_publish now [Some WORKERS, if revoked = 0 then None else Some BATCHES] d2)))"

definition request_gc :: "time \<Rightarrow> ident \<Rightarrow> unit handler" where
  "request_gc now k =
     signal_one_shot get_worker ''worker'' set_gc_requested put_worker k WORKERS
       (''cache GC requested via UI'', []) now"

definition remove_worker :: "settings \<Rightarrow> time \<Rightarrow> ident \<Rightarrow> bool \<Rightarrow> bool \<Rightarrow> unit handler" where
  "remove_worker cfg now k force purge d =
     and_then (get_or_404 (get_worker k d) ''worker not found'') (\<lambda>w.
       if purge then
         if wk_removed_at w = None then
           Inl (HTTPException 409 (''worker must be removed before it can be purged'', []))
         else Inr ((), evict_worker k (commit_and_publish now [Some WORKERS]
                ((log_event ''info'' k (''worker purged (physical delete)'', []) None None d)
                   \<lparr>workers := del_where (\<lambda>x. wk_id x = k) (workers d)\<rparr>)))
       else if wk_removed_at w \<noteq> None then Inr ((), d)
       else
         and_then (if force then
                     and_then (revoke_worker_leases cfg k now d) (\<lambda>(n, d1).
                       Inr (d1\<lparr>objects := upd_where (\<lambda>x. ob_worker x = k \<and> ob_deleted_at x = None)
                                  (\<lambda>x. x\<lparr>ob_deleted_at := Some now\<rparr>) (objects d1)\<rparr>))
                   else Inr d) (\<lambda>d2.
           Inr ((), evict_worker k (commit_and_publish now [Some WORKERS, if force then Some BATCHES else None]
                 (log_event ''info'' k (''worker removed (force={})'', [AInt (if force then 1 else 0)]) None None
                    (put_worker (mark_removed now w) d2))))))"

section \<open>Integrity\<close>

lemma db_inv_workers [simp]: "db_inv dg (d\<lparr>workers := ws\<rparr>) \<longleftrightarrow> db_inv dg d"
  by (rule db_inv_cong) simp_all

lemma db_inv_evict_workers [simp]: "db_inv dg (fold evict_worker ks d) \<longleftrightarrow> db_inv dg d"
  by (induction ks arbitrary: d) simp_all

lemma register_inv [step_intros]:
  "db_inv dg d \<Longrightarrow> register cfg now req d = Inr (u, d') \<Longrightarrow> db_inv dg d'"
  by (auto simp: register_def Let_def split: option.splits if_splits dest!: revoke_keeps_inv)

lemma heartbeat_inv [step_intros]:
  assumes "db_inv dg d" and "heartbeat cfg now req d = Inr (u, d')"
  shows "db_inv dg d'"
proof -
  obtain w where w: "get_worker (hb_worker_id req) d = Some w"
    using assms(2) by (auto simp: heartbeat_def)
  obtain live w1 d1 where a: "apply_worker_heartbeat cfg req now w d = (live, w1, d1)"
    by (metis prod_cases3)
  have 1: "db_inv dg d1" using a assms(1) apply_worker_heartbeat_inv by (metis snd_conv)
  obtain fl w2 d2 where b: "record_version_flap wk_version set_worker_version (hb_version req) (hb_worker_id req) ''worker'' w1 d1
      = (fl, w2, d2)" by (metis prod_cases3)
  have 2: "db_inv dg d2" using b 1 flap_inv by (metis snd_conv)
  obtain rc d3 where c: "(case hb_active_granule_ids req of None \<Rightarrow> (0, d2)
      | Some reported \<Rightarrow> reclaim_inactive_leases (hb_worker_id req) reported now 60 d2) = (rc, d3)"
    by (metis surj_pair)
  have 3: "db_inv dg d3"
    using c 2 reclaim_keeps_inv [OF 2] by (auto split: option.splits) (metis snd_conv)
  define d4 where "d4 = (if rc = 0 then d3 else log_event ''info'' (hb_worker_id req)
      (''reclaimed {} orphaned lease(s) (heartbeat reconcile)'', [AInt (int rc)]) None None d3)"
  have 4: "db_inv dg d4" using 3 by (simp add: d4_def)
  obtain rn d5 where e: "renew_worker_leases (hb_worker_id req) now d4 = (rn, d5)" by (metis surj_pair)
  have 5: "db_inv dg d5" using e renew_keeps_inv [OF 4] by (metis snd_conv)
  show ?thesis
    using assms 5
    by (auto simp: heartbeat_def Let_def w a b c d4_def [symmetric] e consume_one_shot_signal_def split: if_splits)
qed

lemma lease_inv [step_intros]:
  assumes "picks pick" and "db_inv dg d" and "lease cfg pick now req d = Inr (u, d')"
  shows "db_inv dg d'"
  using assms(3) claim_keeps_inv [OF assms(1,2)] assms(2)
  by (auto simp: lease_def Let_def split: if_splits prod.splits) (metis snd_conv)

lemma terminal_side_effects_inv [simp]: "db_inv dg (terminal_side_effects ev d) \<longleftrightarrow> db_inv dg d"
  by (auto simp: terminal_side_effects_def split: option.splits granule_event.splits)

lemma get_granule_in: "get_granule k d = Some g \<Longrightarrow> g \<in> set (granules d)"
  by (auto simp: get_granule_def)

lemma wire_allowed [simp]: "transition_allowed d g (Wire ev)"
  by (simp add: transition_allowed_def)

lemma emit_event_inv [step_intros]:
  assumes "db_inv dg d" and "emit_event cfg now ev d = Inr (u, d')"
  shows "db_inv dg d'"
proof -
  obtain g r d1 where g: "get_granule (event_granule ev) d = Some g"
      and ap: "apply_transition cfg g (Wire ev) now d = Inr (r, d1)"
      and d': "d' = commit_and_publish now [publish_scope r] (terminal_side_effects ev d1)"
    using assms(2) by (auto simp: emit_event_def split: if_splits)
  from transition_keeps_inv [OF assms(1) get_granule_in [OF g] _ ap] show ?thesis by (simp add: d')
qed

lemma batch_event_inv: "db_inv dg (fst st) \<Longrightarrow> db_inv dg (fst (batch_event cfg now ev st))"
  using transition_keeps_inv [OF _ get_granule_in wire_allowed]
  by (cases st) (auto simp: batch_event_def split: option.splits sum.splits)

lemma emit_events_batch_inv [step_intros]:
  assumes "db_inv dg d" and "emit_events_batch cfg now evs d = Inr (u, d')"
  shows "db_inv dg d'"
proof -
  have "db_inv dg (fst (fold (batch_event cfg now) evs (d, [], [])))"
    by (rule fold_invariant_P [where P = "\<lambda>st. db_inv dg (fst st)"]) (simp_all add: assms(1) batch_event_inv)
  with assms show ?thesis by (auto simp: emit_events_batch_def split: if_splits prod.splits)
qed

lemma operator_inv [step_intros]:
  "db_inv dg d \<Longrightarrow> set_concurrency_bulk now body ids d = Inr (a, d') \<Longrightarrow> db_inv dg d'"
  "db_inv dg d \<Longrightarrow> set_concurrency now k body d = Inr (b, d') \<Longrightarrow> db_inv dg d'"
  "db_inv dg d \<Longrightarrow> request_update now k v d = Inr (c, d') \<Longrightarrow> db_inv dg d'"
  "db_inv dg d \<Longrightarrow> request_update_all now v d = Inr (e, d') \<Longrightarrow> db_inv dg d'"
  "db_inv dg d \<Longrightarrow> request_remove_all now d = Inr (n, d') \<Longrightarrow> db_inv dg d'"
  "db_inv dg d \<Longrightarrow> set_paused now k p d = Inr (p', d') \<Longrightarrow> db_inv dg d'"
  "db_inv dg d \<Longrightarrow> request_gc now k d = Inr (u, d') \<Longrightarrow> db_inv dg d'"
  by (auto simp: set_concurrency_bulk_def set_concurrency_def request_update_def request_update_all_def
      request_remove_all_def set_paused_def request_gc_def signal_one_shot_def request_one_shot_signal_def
      Let_def split: if_splits)

lemma revoke_all_inv [step_intros]:
  "db_inv dg d \<Longrightarrow> revoke_all_leases cfg now k d = Inr (n, d') \<Longrightarrow> db_inv dg d'"
  by (auto simp: revoke_all_leases_def Let_def split: if_splits dest!: revoke_keeps_inv)

lemma remove_worker_inv [step_intros]:
  "db_inv dg d \<Longrightarrow> remove_worker cfg now k force purge d = Inr (u, d') \<Longrightarrow> db_inv dg d'"
  by (auto simp: remove_worker_def split: if_splits dest!: revoke_keeps_inv intro: mark_deleted.keeps_inv_objects)

section \<open>What a heartbeat does to the leases\<close>

definition orphaned :: "ident \<Rightarrow> ident list option \<Rightarrow> time \<Rightarrow> granule \<Rightarrow> bool" where
  "orphaned w reported now g \<longleftrightarrow>
     (case reported of None \<Rightarrow> False
      | Some ids \<Rightarrow> leased_to w g \<and> gr_updated_at g < now - seconds 60 \<and> gr_id g \<notin> set ids)"

lemma reclaim_rows:
  assumes "distinct (map gr_id (granules d))"
  shows "granules (snd (reclaim_inactive_leases w ids now 60 d))
       = upd_where (orphaned w (Some ids) now) (release_row now) (granules d)"
    and "fst (reclaim_inactive_leases w ids now 60 d) = row_count (orphaned w (Some ids) now) (granules d)"
proof -
  let ?sel = "reclaim_select w ids now 60 d"
  have sel: "?sel = map gr_id (filter (orphaned w (Some ids) now) (granules d))"
    unfolding reclaim_select_def orphaned_def by (auto intro!: arg_cong [where f = "map gr_id"] filter_cong)
  have p: "(gr_id g \<in> set ?sel \<and> leased_to w g) = orphaned w (Some ids) now g" if "g \<in> set (granules d)" for g
    using that distinct_key_eq [OF assms that] by (auto simp: sel orphaned_def)
  show "granules (snd (reclaim_inactive_leases w ids now 60 d))
       = upd_where (orphaned w (Some ids) now) (release_row now) (granules d)"
  proof (cases "?sel = []")
    case True
    then have "\<forall>g \<in> set (granules d). \<not> orphaned w (Some ids) now g" by (simp add: sel filter_empty_conv)
    with True show ?thesis by (simp add: reclaim_inactive_leases_def upd_where_none)
  next
    case False
    then show ?thesis
      by (simp add: reclaim_inactive_leases_def reclaim_update_def Let_def) (rule upd_where_cong; simp add: p)
  qed
  show "fst (reclaim_inactive_leases w ids now 60 d) = row_count (orphaned w (Some ids) now) (granules d)"
  proof (cases "?sel = []")
    case True
    then have "\<forall>g \<in> set (granules d). \<not> orphaned w (Some ids) now g" by (simp add: sel filter_empty_conv)
    with True show ?thesis by (simp add: reclaim_inactive_leases_def)
  next
    case False
    then show ?thesis
      by (simp add: reclaim_inactive_leases_def reclaim_update_def Let_def) (rule row_count_cong; simp add: p)
  qed
qed

definition renew_row :: "time \<Rightarrow> granule \<Rightarrow> granule" where
  "renew_row now g = g\<lparr>gr_lease_expires_at := Some (now + LEASE_DURATION)\<rparr>"

lemma renew_rows:
  "granules (snd (renew_worker_leases w now d)) = upd_where (renewable w now) (renew_row now) (granules d)"
  "fst (renew_worker_leases w now d) = row_count (renewable w now) (granules d)"
  by (simp_all add: renew_worker_leases_def renew_row_def [abs_def])

lemma heartbeat_rows:
  assumes "heartbeat cfg now req d = Inr (resp, d')" and dist: "distinct (map gr_id (granules d))"
    and w: "get_worker (hb_worker_id req) d = Some w" and live: "wk_removed_at w = None"
  defines "gs \<equiv> upd_where (renewable (hb_worker_id req) now) (renew_row now)
      (upd_where (orphaned (hb_worker_id req) (hb_active_granule_ids req) now) (release_row now) (granules d))"
  shows "granules d' = gs"
    and "hr_revoked resp = (case hb_active_granule_ids req of None \<Rightarrow> [] | Some ids \<Rightarrow>
       filter (\<lambda>i. i \<notin> gr_id ` {g \<in> set gs. leased_to (hb_worker_id req) g}) ids)"
proof -
  let ?w = "hb_worker_id req" and ?a = "hb_active_granule_ids req"
  obtain live' w1 d1 where a: "apply_worker_heartbeat cfg req now w d = (live', w1, d1)" by (metis prod_cases3)
  have 1: "granules d1 = granules d"
    using a by (auto simp: apply_worker_heartbeat_def Let_def split: if_splits)
  obtain fl w2 d2 where b: "record_version_flap wk_version set_worker_version (hb_version req) ?w ''worker'' w1 d1
      = (fl, w2, d2)" by (metis prod_cases3)
  have 2: "granules d2 = granules d" using b 1 by (auto simp: record_version_flap_def split: if_splits)
  obtain rc d3 where c: "(case ?a of None \<Rightarrow> (0, d2)
      | Some reported \<Rightarrow> reclaim_inactive_leases ?w reported now 60 d2) = (rc, d3)" by (metis surj_pair)
  let ?g3 = "upd_where (orphaned ?w ?a now) (release_row now) (granules d)"
  have 3: "granules d3 = ?g3 \<and> rc = row_count (orphaned ?w ?a now) (granules d)"
  proof (cases ?a)
    case None
    with c 2 show ?thesis by (auto simp: orphaned_def upd_where_none)
  next
    case (Some ids)
    with c reclaim_rows [of d2 ?w ids now] dist show ?thesis by (auto simp: 2)
  qed
  define d4 where "d4 = (if rc = 0 then d3 else log_event ''info'' ?w
      (''reclaimed {} orphaned lease(s) (heartbeat reconcile)'', [AInt (int rc)]) None None d3)"
  have 4: "granules d4 = ?g3" using 3 by (simp add: d4_def)
  obtain rn d5 where e: "renew_worker_leases ?w now d4 = (rn, d5)" by (metis surj_pair)
  have 5: "granules d5 = gs" "rn = row_count (renewable ?w now) ?g3"
    using renew_rows [of ?w now d4] by (simp_all add: e 4 gs_def)
  have unchanged: "gs = granules d" if "rc = 0" "rn = 0"
  proof -
    have "?g3 = granules d" using that(1) 3 by (intro upd_where_none) simp
    moreover have "gs = ?g3" unfolding gs_def using that(2) 5(2) by (intro upd_where_none) simp
    ultimately show ?thesis by simp
  qed
  have rev: "revoked_active_granules req d5 = (case ?a of None \<Rightarrow> [] | Some ids \<Rightarrow>
       filter (\<lambda>i. i \<notin> gr_id ` {g \<in> set gs. leased_to ?w g}) ids)"
    by (auto simp: revoked_active_granules_def 5(1) Let_def split: option.splits list.splits intro!: filter_cong)
  show "granules d' = gs"
    using assms(1) live 5(1) unchanged
    by (auto simp: heartbeat_def Let_def w a b c d4_def [symmetric] e consume_one_shot_signal_def discard_def split: if_splits)
  show "hr_revoked resp = (case ?a of None \<Rightarrow> [] | Some ids \<Rightarrow>
       filter (\<lambda>i. i \<notin> gr_id ` {g \<in> set gs. leased_to ?w g}) ids)"
    using assms(1) live
    by (auto simp: heartbeat_def Let_def w a b c d4_def [symmetric] e consume_one_shot_signal_def rev split: if_splits)
qed

text \<open>
  C13: The two-way reconciliation of a heartbeat that reports its active set: afterwards, a reported
  granule is in the reply's revoked list if and only if the orchestrator does not lease it to the
  worker; and every lease the worker keeps is either reported or younger than the minute of grace,
  and runs for at least half a lease more.
\<close>

theorem heartbeat_reconciles:
  assumes "heartbeat cfg now req d = Inr (resp, d')" and "distinct (map gr_id (granules d))"
    and "get_worker (hb_worker_id req) d = Some w" and "wk_removed_at w = None"
    and "hb_active_granule_ids req = Some ids"
  shows "(\<forall>i \<in> set ids. i \<in> set (hr_revoked resp) \<longleftrightarrow>
       \<not> (\<exists>g \<in> set (granules d'). gr_id g = i \<and> leased_to (hb_worker_id req) g))
    \<and> (\<forall>g \<in> set (granules d'). leased_to (hb_worker_id req) g \<longrightarrow>
         (gr_id g \<in> set ids \<or> now - seconds 60 \<le> gr_updated_at g)
         \<and> \<not> null_lt (gr_lease_expires_at g) (now + LEASE_DURATION div 2))"
proof
  note r = heartbeat_rows [OF assms(1-4)]
  show "\<forall>i \<in> set ids. i \<in> set (hr_revoked resp) \<longleftrightarrow>
       \<not> (\<exists>g \<in> set (granules d'). gr_id g = i \<and> leased_to (hb_worker_id req) g)"
    unfolding r(2) assms(5) r(1) by auto
  show "\<forall>g \<in> set (granules d'). leased_to (hb_worker_id req) g \<longrightarrow>
         (gr_id g \<in> set ids \<or> now - seconds 60 \<le> gr_updated_at g)
         \<and> \<not> null_lt (gr_lease_expires_at g) (now + LEASE_DURATION div 2)"
  proof (intro ballI impI)
    fix g assume "g \<in> set (granules d')" and leased: "leased_to (hb_worker_id req) g"
    then have "g \<in> set (upd_where (renewable (hb_worker_id req) now) (renew_row now)
        (upd_where (orphaned (hb_worker_id req) (Some ids) now) (release_row now) (granules d)))"
      by (simp only: r(1) assms(5))
    then have "\<exists>h \<in> set (upd_where (orphaned (hb_worker_id req) (Some ids) now) (release_row now) (granules d)).
        gr_id g = gr_id h \<and> gr_updated_at g = gr_updated_at h \<and> leased_to (hb_worker_id req) h
        \<and> \<not> null_lt (gr_lease_expires_at g) (now + LEASE_DURATION div 2)"
    proof (cases rule: in_upd_whereE)
      case (1 r)
      with leased show ?thesis
        by (intro bexI [of _ r]) (simp_all add: renew_row_def renewable_def LEASE_DURATION_def time_units)
    next
      case (2 r)
      with leased show ?thesis by (intro bexI [of _ r]) (simp_all add: renewable_def)
    qed
    then obtain h where h: "h \<in> set (upd_where (orphaned (hb_worker_id req) (Some ids) now) (release_row now) (granules d))"
        "gr_id g = gr_id h" "gr_updated_at g = gr_updated_at h" "leased_to (hb_worker_id req) h"
        "\<not> null_lt (gr_lease_expires_at g) (now + LEASE_DURATION div 2)"
      by blast
    from h(1,4) have "\<not> orphaned (hb_worker_id req) (Some ids) now h"
      by (auto elim!: in_upd_whereE simp: leased_to_def release_row_def)
    with h show "(gr_id g \<in> set ids \<or> now - seconds 60 \<le> gr_updated_at g)
         \<and> \<not> null_lt (gr_lease_expires_at g) (now + LEASE_DURATION div 2)"
      by (auto simp: orphaned_def)
  qed
qed

definition sample_worker :: "time option \<Rightarrow> worker" where
  "sample_worker upd = (new_worker \<lparr>wr_worker_id = ''w'', wr_version = ''1.0'', wr_capacity = 4,
     wr_public_url = None, wr_ca_pem = None\<rparr> 0)\<lparr>wk_update_requested_at := upd, wk_update_to_version := Some ''1.1''\<rparr>"

definition sample_beat :: "ident list option \<Rightarrow> worker_heartbeat" where
  "sample_beat ids = \<lparr>hb_worker_id = ''w'', hb_version = ''1.0'', hb_disk_used_gb = 0, hb_disk_total_gb = 0,
     hb_cpu_percent = 0, hb_mem_percent = 0, hb_monthly_egress_gb = 0, hb_pending_download = 0,
     hb_downloading = 0, hb_pending_processing = 0, hb_processing = 0, hb_pending_upload = 0,
     hb_uploading = 0, hb_download_concurrency = 1, hb_process_concurrency = 1, hb_paused = False,
     hb_active_granule_ids = ids\<rparr>"

definition sample_fleet :: "granule_state \<Rightarrow> time option \<Rightarrow> orch" where
  "sample_fleet st upd = (sample_orch st None)\<lparr>workers := [sample_worker upd]\<rparr>"

lemmas fleet_defs = sample_fleet_def sample_worker_def sample_beat_def new_worker_def sample_defs

lemma heartbeat_Inr:
  assumes "min_worker_version cfg = []" and "get_worker (hb_worker_id req) d = Some w"
  shows "\<exists>resp d'. heartbeat cfg now req d = Inr (resp, d')"
  using assms by (auto simp: heartbeat_def check_worker_version_def Let_def split: prod.splits)

theorem heartbeat_reconciles_witness:
  "\<exists>resp d'. heartbeat sample_settings 100000000 (sample_beat (Some [''b:x''])) (sample_fleet QUEUED None) = Inr (resp, d')
     \<and> ''b:x'' \<in> set (hr_revoked resp) \<and> row_count (leased_to ''w'') (granules d') = 0"
proof -
  let ?d = "sample_fleet QUEUED None" and ?req = "sample_beat (Some [''b:x''])"
  have w: "get_worker (hb_worker_id ?req) ?d = Some (sample_worker None)"
    by (simp add: get_defs get_row_def fleet_defs)
  obtain resp d' where h: "heartbeat sample_settings 100000000 ?req ?d = Inr (resp, d')"
    using heartbeat_Inr [OF _ w, of sample_settings 100000000] by (auto simp: sample_settings_def)
  have dist: "distinct (map gr_id (granules ?d))" and live: "wk_removed_at (sample_worker None) = None"
    and rep: "hb_active_granule_ids ?req = Some [''b:x'']" and id: "hb_worker_id ?req = ''w''"
    by (simp_all add: fleet_defs)
  note r = heartbeat_rows(1) [OF h dist w live] and rec = heartbeat_reconciles [OF h dist w live rep]
  have gs: "granules d' = [release_row 100000000 (sample_granule QUEUED)]"
    unfolding r rep id
    by (simp add: fleet_defs orphaned_def leased_to_def renewable_def release_row_def time_units)
  have "''b:x'' \<in> set (hr_revoked resp)"
    using rec by (simp add: gs release_row_def sample_granule_def)
  moreover have "row_count (leased_to ''w'') (granules d') = 0"
    by (simp add: gs release_row_def leased_to_def)
  ultimately show ?thesis using h by blast
qed

section \<open>One-shot signals are delivered once\<close>

lemma heartbeat_update_signal:
  assumes "heartbeat cfg now req d = Inr (resp, d')"
    and w: "get_worker (hb_worker_id req) d = Some w" and live: "wk_removed_at w = None"
  shows "hr_update_requested resp = (wk_update_requested_at w \<noteq> None)
     \<and> hr_update_to_version resp = (if wk_update_requested_at w \<noteq> None then wk_update_to_version w else None)
     \<and> (\<exists>w'. get_worker (hb_worker_id req) d' = Some w' \<and> wk_removed_at w' = None
           \<and> wk_update_requested_at w' = None
           \<and> wk_update_to_version w' = (if wk_update_requested_at w \<noteq> None then None else wk_update_to_version w))"
proof -
  let ?w = "hb_worker_id req" and ?a = "hb_active_granule_ids req"
  obtain live' w1 d1 where a: "apply_worker_heartbeat cfg req now w d = (live', w1, d1)" by (metis prod_cases3)
  have 1: "workers d1 = workers d \<and> wk_id w1 = wk_id w \<and> wk_removed_at w1 = wk_removed_at w
      \<and> wk_update_requested_at w1 = wk_update_requested_at w \<and> wk_update_to_version w1 = wk_update_to_version w"
    using a by (auto simp: apply_worker_heartbeat_def Let_def set_live_def split: if_splits)
  obtain fl w2 d2 where b: "record_version_flap wk_version set_worker_version (hb_version req) ?w ''worker'' w1 d1
      = (fl, w2, d2)" by (metis prod_cases3)
  have 2: "workers d2 = workers d \<and> wk_id w2 = wk_id w \<and> wk_removed_at w2 = wk_removed_at w
      \<and> wk_update_requested_at w2 = wk_update_requested_at w \<and> wk_update_to_version w2 = wk_update_to_version w"
    using b 1 by (auto simp: record_version_flap_def set_worker_version_def split: if_splits)
  obtain rc d3 where c: "(case ?a of None \<Rightarrow> (0, d2)
      | Some reported \<Rightarrow> reclaim_inactive_leases ?w reported now 60 d2) = (rc, d3)" by (metis surj_pair)
  have 3: "workers d3 = workers d"
    using c 2 by (auto simp: reclaim_inactive_leases_def reclaim_update_def Let_def split: option.splits if_splits)
  define d4 where "d4 = (if rc = 0 then d3 else log_event ''info'' ?w
      (''reclaimed {} orphaned lease(s) (heartbeat reconcile)'', [AInt (int rc)]) None None d3)"
  have 4: "workers d4 = workers d" using 3 by (simp add: d4_def)
  obtain rn d5 where e: "renew_worker_leases ?w now d4 = (rn, d5)" by (metis surj_pair)
  have 5: "workers d5 = workers d" using e 4 by (auto simp: renew_worker_leases_def)
  have id: "wk_id w = ?w" using w by (auto simp: get_worker_def dest: get_row_key)
  have put: "get_worker ?w (put_worker x y) = Some x" if "wk_id x = ?w" "workers y = workers d" for x y
    by (rule get_worker_put) (use w that in \<open>simp_all add: get_worker_def\<close>)
  have frames: "get_worker k (commit_and_publish n sc y) = get_worker k y"
      "get_worker k (log_event l s m g' b' y) = get_worker k y"
      "get_worker k (discard y z) = get_worker k y" for k n sc y l s m g' b' z
    by (simp_all add: get_worker_def discard_def)
  show ?thesis
    using assms(1) live w id 2
    by (auto simp: heartbeat_def Let_def w a b c d4_def [symmetric] e consume_one_shot_signal_def frames
        set_update_requested_def set_gc_requested_def put 5 split: if_splits)
qed

text \<open>
  An upgrade or restart signal reaches the worker exactly once, with the target it was asked
  for: the first heartbeat after the request delivers the signal and its version and clears
  both; the next one delivers neither.
\<close>

theorem update_signal_delivered_once:
  assumes "get_worker (hb_worker_id req) d = Some w" and "wk_removed_at w = None"
    and "wk_update_requested_at w = Some t"
    and "heartbeat cfg now req d = Inr (resp, d')"
    and "hb_worker_id req' = hb_worker_id req" and "heartbeat cfg now' req' d' = Inr (resp', d'')"
  shows "hr_update_requested resp \<and> hr_update_to_version resp = wk_update_to_version w
     \<and> \<not> hr_update_requested resp' \<and> hr_update_to_version resp' = None"
proof -
  from heartbeat_update_signal [OF assms(4,1,2)] assms(3) obtain w' where
    first: "hr_update_requested resp" "hr_update_to_version resp = wk_update_to_version w"
    and w': "get_worker (hb_worker_id req') d' = Some w'" "wk_removed_at w' = None" "wk_update_requested_at w' = None"
    by (auto simp: assms(5))
  from heartbeat_update_signal [OF assms(6) w'(1,2)] w'(3) first show ?thesis by simp
qed

theorem update_signal_delivered_once_witness:
  "\<exists>resp d' resp' d''. heartbeat sample_settings 5 (sample_beat None) (sample_fleet PENDING (Some 1)) = Inr (resp, d')
     \<and> heartbeat sample_settings 6 (sample_beat None) d' = Inr (resp', d'')
     \<and> hr_update_to_version resp = Some ''1.1'' \<and> \<not> hr_update_requested resp'"
proof -
  let ?d = "sample_fleet PENDING (Some 1)" and ?req = "sample_beat None"
  have w: "get_worker (hb_worker_id ?req) ?d = Some (sample_worker (Some 1))"
    and live: "wk_removed_at (sample_worker (Some 1)) = None"
    and upd: "wk_update_requested_at (sample_worker (Some 1)) = Some 1"
    by (simp_all add: get_defs get_row_def fleet_defs)
  have v: "min_worker_version sample_settings = []" by (simp add: sample_settings_def)
  obtain resp d' where h: "heartbeat sample_settings 5 ?req ?d = Inr (resp, d')"
    using heartbeat_Inr [OF v w] by blast
  obtain w' where w': "get_worker (hb_worker_id ?req) d' = Some w'"
    using heartbeat_update_signal [OF h w live] by blast
  obtain resp' d'' where h': "heartbeat sample_settings 6 ?req d' = Inr (resp', d'')"
    using heartbeat_Inr [OF v w'] by blast
  from update_signal_delivered_once [OF w live upd h refl h'] h h' show ?thesis
    by (auto simp: sample_worker_def)
qed

section \<open>The batched ingress is the single one, repeated\<close>

definition tables :: "orch \<Rightarrow> granule list \<times> gobject list \<times> stage_timing list \<times> batch list \<times> delivery_record list" where
  "tables d = (granules d, objects d, timings d, batches d, deliveries d)"

lemma tables_iff: "tables d = tables e \<longleftrightarrow> granules d = granules e \<and> objects d = objects e
    \<and> timings d = timings e \<and> batches d = batches e \<and> deliveries d = deliveries e"
  by (auto simp: tables_def)

lemma apply_to_session_tables:
  "tables d = tables e \<Longrightarrow> tables (apply_to_session now g r d) = tables (apply_to_session now g r e)"
  by (simp add: tables_iff apply_to_session_def Let_def split: option.splits)

lemma side_effects_tables [simp]: "tables (terminal_side_effects ev d) = tables d"
  by (auto simp: terminal_side_effects_def tables_iff split: option.splits granule_event.splits)

lemma commit_tables [simp]: "tables (commit_and_publish now sc d) = tables d"
  by (simp add: tables_iff)

definition accept_event :: "settings \<Rightarrow> time \<Rightarrow> granule_event \<Rightarrow> orch \<Rightarrow> orch" where
  "accept_event cfg now ev d = (case emit_event cfg now ev d of Inl e \<Rightarrow> d | Inr (st, d') \<Rightarrow> d')"

lemma batch_event_single:
  assumes "tables d = tables e"
  shows "tables (fst (batch_event cfg now ev (d, sc, rv))) = tables (accept_event cfg now ev e)"
proof -
  have g: "get_granule (event_granule ev) d = get_granule (event_granule ev) e"
    using assms by (simp add: get_granule_def tables_iff)
  show ?thesis
  proof (cases "get_granule (event_granule ev) e")
    case None
    with assms show ?thesis by (simp add: batch_event_def accept_event_def emit_event_def g get_or_404_def)
  next
    case (Some x)
    show ?thesis
    proof (cases "holds_lease ev x")
      case False
      with Some assms show ?thesis by (simp add: batch_event_def accept_event_def emit_event_def g get_or_404_def)
    next
      case True
      show ?thesis
      proof (cases "apply_event (snapshot_of x) (Wire ev) now (max_retries cfg)")
        case (Inl c)
        with Some True assms show ?thesis
          by (simp add: batch_event_def accept_event_def emit_event_def g get_or_404_def raise_409_def apply_transition_def)
      next
        case (Inr r)
        with Some True apply_to_session_tables [OF assms] show ?thesis
          by (simp add: batch_event_def accept_event_def emit_event_def g get_or_404_def raise_409_def apply_transition_def)
      qed
    qed
  qed
qed

text \<open>
  C12: The batched ingress of transition events is the single one, repeated: it leaves the
  granules, objects, timings, batches and receipts exactly as the events posted one by one in
  the same order would, where a refused event (404 or 409) changes nothing and stops nothing.
\<close>

theorem batch_matches_single_events:
  assumes "emit_events_batch cfg now evs d = Inr (revoked, d')"
  shows "tables d' = tables (fold (accept_event cfg now) evs d)"
proof -
  have "tables (fst (fold (batch_event cfg now) evs (a, sc, rv))) = tables (fold (accept_event cfg now) evs e)"
    if "tables a = tables e" for a e sc rv
    using that
  proof (induction evs arbitrary: a e sc rv)
    case (Cons ev evs)
    obtain a' sc' rv' where s: "batch_event cfg now ev (a, sc, rv) = (a', sc', rv')" by (metis prod_cases3)
    with batch_event_single [OF Cons.prems, of cfg now ev sc rv]
    have "tables a' = tables (accept_event cfg now ev e)" by simp
    from Cons.IH [OF this] s show ?case by simp
  qed simp
  from this [OF refl] assms show ?thesis
    by (auto simp: emit_events_batch_def split: if_splits prod.splits) (metis fst_conv)
qed

lemma emit_events_batch_Inr: "\<exists>rv d'. emit_events_batch cfg now evs d = Inr (rv, d')"
  by (cases evs) (auto simp: emit_events_batch_def split_beta)

theorem batch_matches_single_events_witness:
  "\<exists>rv d'. emit_events_batch sample_settings 0 [DownloadStarted ''b:g'' ''w'', ProcessStarted ''b:g'' ''w'' None]
        (sample_orch QUEUED None) = Inr (rv, d')
     \<and> map gr_state (granules d') = [PROCESSING]"
proof -
  let ?evs = "[DownloadStarted ''b:g'' ''w'', ProcessStarted ''b:g'' ''w'' None]"
  obtain rv d' where e: "emit_events_batch sample_settings 0 ?evs (sample_orch QUEUED None) = Inr (rv, d')"
    using emit_events_batch_Inr by blast
  have "map gr_state (granules (fold (accept_event sample_settings 0) ?evs (sample_orch QUEUED None))) = [PROCESSING]"
    by code_simp
  with batch_matches_single_events [OF e] e show ?thesis by (auto simp: tables_iff)
qed

section \<open>Deletions are counted once\<close>

lemma emit_delete:
  "emit_event cfg now (DeleteConfirmed gid w ks) d =
     (case get_granule gid d of
        None \<Rightarrow> Inl (HTTPException 404 (''granule not found'', []))
      | Some g \<Rightarrow> Inr (DELETED, commit_and_publish now [Some BATCHES] (apply_to_session now g (delete_confirmed now) d)))"
  by (simp add: emit_event_def holds_lease_def apply_transition_def get_or_404_def raise_409_def
      delete_confirmed_def TransitionResult_def terminal_side_effects_def split: option.splits)

lemma delete_session:
  assumes "distinct (map gr_id (granules d))" and "g \<in> set (granules d)"
  shows "gr_state g = DELETED \<Longrightarrow> apply_to_session now g (delete_confirmed now) d = d"
    and "gr_state g \<noteq> DELETED \<Longrightarrow>
       granules (apply_to_session now g (delete_confirmed now) d)
         = upd_where (\<lambda>x. gr_id x = gr_id g \<and> gr_state x \<noteq> DELETED) (flip_deleted (Some now)) (granules d)
       \<and> batches (apply_to_session now g (delete_confirmed now) d)
         = upd_where (\<lambda>b. bt_id b = gr_batch g) bump_delivered (batches d)"
proof -
  note one = row_count_key [OF assms, of "\<lambda>x. gr_state x \<noteq> DELETED"]
  have "upd_where (\<lambda>x. gr_id x = gr_id g \<and> gr_state x \<noteq> DELETED) f (granules d) = granules d"
    if "gr_state g = DELETED" for f
    using that distinct_key_eq [OF assms(1) _ assms(2)] by (intro upd_where_none) auto
  then show "gr_state g = DELETED \<Longrightarrow> apply_to_session now g (delete_confirmed now) d = d"
    using one by (simp add: apply_to_session_def delete_confirmed_def TransitionResult_def Let_def del: row_count_0)
  show "gr_state g \<noteq> DELETED \<Longrightarrow>
       granules (apply_to_session now g (delete_confirmed now) d)
         = upd_where (\<lambda>x. gr_id x = gr_id g \<and> gr_state x \<noteq> DELETED) (flip_deleted (Some now)) (granules d)
       \<and> batches (apply_to_session now g (delete_confirmed now) d)
         = upd_where (\<lambda>b. bt_id b = gr_batch g) bump_delivered (batches d)"
    using one by (simp add: apply_to_session_def delete_confirmed_def TransitionResult_def Let_def del: row_count_0)
qed

lemma emit_delete_effect:
  assumes dist: "distinct (map gr_id (granules d))" and g: "get_granule gid d = Some g"
    and e: "emit_event cfg now (DeleteConfirmed gid w ks) d = Inr (st, d1)"
  shows "st = DELETED" and "map gr_id (granules d1) = map gr_id (granules d)"
    and "gr_state g = DELETED \<Longrightarrow> tables d1 = tables d"
    and "gr_state g \<noteq> DELETED \<Longrightarrow> batches d1 = upd_where (\<lambda>b. bt_id b = gr_batch g) bump_delivered (batches d)"
    and "\<forall>h \<in> set (granules d1). gr_id h = gid \<longrightarrow> gr_state h = DELETED"
proof -
  have gin: "g \<in> set (granules d)" and id: "gr_id g = gid"
    using g by (auto simp: get_granule_def dest: get_row_key)
  let ?s = "apply_to_session now g (delete_confirmed now) d"
  have st: "st = DELETED" and d1: "d1 = commit_and_publish now [Some BATCHES] ?s"
    using e by (simp_all add: emit_delete g)
  show "st = DELETED" by (rule st)
  show "map gr_id (granules d1) = map gr_id (granules d)" by (simp add: d1)
  note s = delete_session [OF dist gin, of now]
  show "gr_state g = DELETED \<Longrightarrow> tables d1 = tables d" using s(1) by (simp add: d1)
  show "gr_state g \<noteq> DELETED \<Longrightarrow> batches d1 = upd_where (\<lambda>b. bt_id b = gr_batch g) bump_delivered (batches d)"
    using s(2) by (simp add: d1)
  show "\<forall>h \<in> set (granules d1). gr_id h = gid \<longrightarrow> gr_state h = DELETED"
  proof (cases "gr_state g = DELETED")
    case True
    then have "granules d1 = granules d" using s(1) by (simp add: d1)
    then show ?thesis using True id distinct_key_eq [OF dist _ gin] by auto
  next
    case False
    with s(2) have gs: "granules d1 = upd_where (\<lambda>x. gr_id x = gr_id g \<and> gr_state x \<noteq> DELETED) (flip_deleted (Some now)) (granules d)"
      by (simp add: d1)
    show ?thesis
    proof (intro ballI impI)
      fix h assume "h \<in> set (granules d1)" "gr_id h = gid"
      then show "gr_state h = DELETED" unfolding gs id by (elim in_upd_whereE) auto
    qed
  qed
qed

text \<open>
  A confirmed deletion counts once, however often it is sent: the first confirmation makes
  the granule \<open>DELETED\<close> and adds one to its batch's delivered counter, unless it was \<open>DELETED\<close>
  already; a repetition succeeds and changes no table.
\<close>

theorem confirmed_delete_counts_once:
  assumes "distinct (map gr_id (granules d))" and "get_granule gid d = Some g"
    and "emit_event cfg now (DeleteConfirmed gid w ks) d = Inr (st, d1)"
    and "emit_event cfg now' (DeleteConfirmed gid w' ks') d1 = Inr (st', d2)"
  shows "st = DELETED \<and> st' = DELETED
     \<and> batches d1 = (if gr_state g = DELETED then batches d
          else upd_where (\<lambda>b. bt_id b = gr_batch g) bump_delivered (batches d))
     \<and> (\<forall>h \<in> set (granules d1). gr_id h = gid \<longrightarrow> gr_state h = DELETED)
     \<and> tables d2 = tables d1"
proof -
  note one = emit_delete_effect [OF assms(1-3)]
  obtain g1 where g1: "get_granule gid d1 = Some g1"
    using assms(4) by (auto simp: emit_delete split: option.splits)
  have "g1 \<in> set (granules d1)" "gr_id g1 = gid"
    using g1 by (auto simp: get_granule_def dest: get_row_key)
  with one(5) have "gr_state g1 = DELETED" by blast
  moreover have "distinct (map gr_id (granules d1))" using one(2) assms(1) by simp
  ultimately show ?thesis
    using emit_delete_effect(1,3) [OF _ g1 assms(4)] one by (auto simp: tables_iff)
qed

theorem confirmed_delete_counts_once_witness:
  "\<exists>st d1 st' d2. emit_event sample_settings 9 (DeleteConfirmed ''b:g'' ''w'' []) (sample_orch ACKED (Some 8)) = Inr (st, d1)
     \<and> emit_event sample_settings 10 (DeleteConfirmed ''b:g'' ''w'' []) d1 = Inr (st', d2)
     \<and> map bt_delivered_count (batches d2) = [Some 1]"
proof -
  let ?d = "sample_orch ACKED (Some 8)" and ?ev = "DeleteConfirmed ''b:g'' ''w'' []"
  have g: "get_granule ''b:g'' ?d = Some (sample_granule ACKED)" and dist: "distinct (map gr_id (granules ?d))"
    by (simp_all add: get_defs get_row_def sample_defs)
  obtain st d1 where e1: "emit_event sample_settings 9 ?ev ?d = Inr (st, d1)"
    by (simp add: emit_delete g)
  have "''b:g'' \<in> set (map gr_id (granules d1))"
    unfolding emit_delete_effect(2) [OF dist g e1] by (simp add: sample_defs)
  then have "get_granule ''b:g'' d1 \<noteq> None" by (auto simp: get_granule_def simp del: not_None_eq)
  then obtain g1 where "get_granule ''b:g'' d1 = Some g1" by blast
  then obtain st' d2 where e2: "emit_event sample_settings 10 ?ev d1 = Inr (st', d2)"
    by (simp add: emit_delete)
  from confirmed_delete_counts_once [OF dist g e1 e2]
  have "batches d2 = upd_where (\<lambda>b. bt_id b = ''b'') bump_delivered (batches ?d)"
    by (simp add: tables_iff sample_granule_def)
  then have "map bt_delivered_count (batches d2) = [Some 1]" by (simp add: sample_defs bump_delivered_def)
  with e1 e2 show ?thesis
    by (intro exI [of _ st] exI [of _ d1] exI [of _ st'] exI [of _ d2] conjI)
qed

section \<open>What a worker may delete\<close>

text \<open>
  The poll for deletable granules is safe: when it offers a granule to a worker, every object of
  that granule that is still stored anywhere was confirmed by a receiver and has its receipt in
  the ledger, and the keys offered are exactly the worker's own stored objects of the granule.
\<close>

theorem deletable_is_delivered:
  assumes "db_inv dg d" and "(gid, keys) \<in> set (deletable w d)"
  shows "keys \<noteq> []
     \<and> (\<forall>x \<in> set (objects d). ob_granule x = gid \<and> ob_deleted_at x = None \<longrightarrow>
          ob_acked_at x \<noteq> None \<and> has_delivery_record d x)
     \<and> keys = map ob_key (filter (\<lambda>x. ob_granule x = gid \<and> ob_worker x = w \<and> ob_deleted_at x = None) (objects d))"
proof -
  let ?rows = "filter (\<lambda>x. ob_worker x = w \<and> ob_acked_at x \<noteq> None \<and> ob_deleted_at x = None
      \<and> fully_acked d (ob_granule x)) (objects d)"
  have gid: "gid \<in> ob_granule ` set ?rows" and keys: "keys = map ob_key (filter (\<lambda>x. ob_granule x = gid) ?rows)"
    using assms(2) by (auto simp: deletable_def Let_def)
  then have full: "fully_acked d gid" by auto
  then have acked: "\<forall>x \<in> set (objects d). ob_granule x = gid \<and> ob_deleted_at x = None \<longrightarrow> ob_acked_at x \<noteq> None"
    by (auto simp: fully_acked_def Let_def all_objects_acked_iff)
  have "receipts_ok dg d" using assms(1) by (simp add: db_inv_def)
  then have rec: "x \<in> set (objects d) \<Longrightarrow> ob_acked_at x \<noteq> None \<Longrightarrow> has_delivery_record d x" for x
    by (simp add: receipts_ok_def)
  have "filter (\<lambda>x. ob_granule x = gid) ?rows
      = filter (\<lambda>x. ob_granule x = gid \<and> ob_worker x = w \<and> ob_deleted_at x = None) (objects d)"
    using acked full by (auto intro!: filter_cong)
  moreover have "keys \<noteq> []" using gid by (auto simp: keys filter_empty_conv)
  ultimately show ?thesis using acked rec by (simp add: keys)
qed

theorem deletable_is_delivered_witness:
  "deletable ''w'' sample_delivered = [(''b:g'', [''k''])] \<and> has_delivery_record sample_delivered (sample_object (Some 9))"
proof -
  have obj: "objects sample_delivered = [sample_object (Some 9)]"
    by (simp add: sample_delivered_def sample_defs)
  have d: "deletable ''w'' sample_delivered = [(''b:g'', [''k''])]"
    by (simp add: deletable_def fully_acked_def all_objects_acked_def Let_def obj row_count_def)
      (simp add: sample_object_def)
  then have "(''b:g'', [''k'']) \<in> set (deletable ''w'' sample_delivered)" by simp
  from deletable_is_delivered [OF sample_delivered_inv this] d show ?thesis
    by (simp add: obj sample_object_def)
qed

end
