(* ===== verification/ReceiversApi.thy ===== *)
theory ReceiversApi
  imports WorkersApi
begin

text \<open>
  The receiver-facing endpoints, \<^verbatim>\<open>src/sathop/orchestrator/api/receivers.py\<close>: registration,
  heartbeat, the pull that soft-claims objects, the acknowledgements (single and batched) with
  the archive of receipts and the step \<open>UPLOADED\<close> to \<open>ACKED\<close>, the operator's actions, and the
  bundle of certificates. A negative \<^verbatim>\<open>LIMIT\<close> is no limit (SQLite).
\<close>

section \<open>Registration and heartbeat\<close>

record receiver_register =
  rr_receiver_id :: ident
  rr_version :: string
  rr_platform :: string

definition register_receiver :: "time \<Rightarrow> receiver_register \<Rightarrow> unit handler" where
  "register_receiver now req d =
     (case get_receiver (rr_receiver_id req) d of
        None \<Rightarrow>
          Inr ((), commit_and_publish now [Some RECEIVERS]
            (log_event ''info'' (rr_receiver_id req) (''receiver registered ({})'', [AStr (rr_platform req)]) None None
              (d\<lparr>receivers := receivers d @
                 [\<lparr>rc_id = rr_receiver_id req, rc_version = rr_version req, rc_platform = rr_platform req,
                   rc_telemetry = \<lparr>rt_last_seen = now, rt_disk_free_gb = 0, rt_queue_pulling = 0, rt_recent_pull_bps = 0\<rparr>,
                   rc_enabled = True, rc_restart_requested_at = None\<rparr>]\<rparr>)))
      | Some r \<Rightarrow>
          Inr ((), commit_and_publish now [Some RECEIVERS]
            (put_receiver (r\<lparr>rc_version := rr_version req, rc_platform := rr_platform req,
                             rc_telemetry := (rc_telemetry r)\<lparr>rt_last_seen := now\<rparr>\<rparr>) d)))"

record receiver_heartbeat =
  rh_receiver_id :: ident
  rh_version :: string
  rh_disk_free_gb :: rat
  rh_queue_pulling :: int
  rh_recent_pull_bps :: int

definition receiver_telemetry_of :: "receiver_heartbeat \<Rightarrow> time \<Rightarrow> receiver_telemetry" where
  "receiver_telemetry_of req now =
     \<lparr>rt_last_seen = now, rt_disk_free_gb = rh_disk_free_gb req, rt_queue_pulling = rh_queue_pulling req,
      rt_recent_pull_bps = rh_recent_pull_bps req\<rparr>"

definition receiver_heartbeat_handler :: "settings \<Rightarrow> time \<Rightarrow> receiver_heartbeat \<Rightarrow> bool handler" where
  "receiver_heartbeat_handler cfg now req d =
     and_then (get_or_404 (get_receiver (rh_receiver_id req) d) ''receiver not registered'') (\<lambda>r.
       let r1 = (if is_postgres cfg then r\<lparr>rc_telemetry := receiver_telemetry_of req now\<rparr> else r);
           d1 = (if is_postgres cfg then d
                 else update_receiver_telem (rh_receiver_id req) (receiver_telemetry_of req now) d);
           (flapped, r2, d2) =
             record_version_flap rc_version set_receiver_version (rh_version req) (rh_receiver_id req) ''receiver'' r1 d1;
           (restart, r3, d3) =
             consume_one_shot_signal rc_restart_requested_at set_restart_requested (rh_receiver_id req)
               (''restart signal delivered to receiver'', []) r2 d2;
           d4 = put_receiver r3 d3
       in Inr (restart,
               if flapped \<or> restart \<or> is_postgres cfg then commit_and_publish now [Some RECEIVERS] d4
               else discard d d4))"

section \<open>Pull\<close>

record pull_item =
  pi_granule :: ident
  pi_batch :: ident
  pi_object :: int
  pi_key :: string
  pi_url :: string
  pi_sha256 :: string
  pi_size :: int

definition pull_candidate :: "settings \<Rightarrow> time \<Rightarrow> ident \<Rightarrow> orch \<Rightarrow> gobject \<Rightarrow> bool" where
  "pull_candidate cfg now rid d x \<longleftrightarrow>
     object_pull_claimable cfg now x \<and>
     (case get_granule (ob_granule x) d of
        None \<Rightarrow> False
      | Some g \<Rightarrow> gr_state g = UPLOADED \<and>
          (case get_batch (gr_batch g) d of
             None \<Rightarrow> False
           | Some b \<Rightarrow> bt_target_receiver b = Some rid \<or> bt_target_receiver b = None))"

definition limit_rows :: "int \<Rightarrow> 'r list \<Rightarrow> 'r list" where
  "limit_rows n rs = (if n < 0 then rs else take (nat n) rs)"

definition pull_ids :: "settings \<Rightarrow> time \<Rightarrow> ident \<Rightarrow> int \<Rightarrow> orch \<Rightarrow> int list" where
  "pull_ids cfg now rid limit d =
     map ob_id (limit_rows limit (sort_key ob_id (filter (pull_candidate cfg now rid d) (objects d))))"

definition claim_object :: "ident \<Rightarrow> time \<Rightarrow> gobject \<Rightarrow> gobject" where
  "claim_object rid expires x = x\<lparr>ob_pull_lease_by := Some rid, ob_pull_lease_expires_at := Some expires\<rparr>"

definition pull_item_of :: "orch \<Rightarrow> gobject \<Rightarrow> pull_item" where
  "pull_item_of d x =
     \<lparr>pi_granule = ob_granule x,
      pi_batch = (case get_granule (ob_granule x) d of None \<Rightarrow> [] | Some g \<Rightarrow> gr_batch g),
      pi_object = ob_id x, pi_key = ob_key x, pi_url = ob_url x, pi_sha256 = ob_sha256 x, pi_size = ob_size x\<rparr>"

definition pull :: "settings \<Rightarrow> time \<Rightarrow> ident \<Rightarrow> int \<Rightarrow> pull_item list handler" where
  "pull cfg now rid limit d =
     (case get_receiver rid d of
        None \<Rightarrow> Inl (HTTPException 403 (''receiver not registered or disabled'', []))
      | Some r \<Rightarrow>
          if \<not> rc_enabled r then Inl (HTTPException 403 (''receiver not registered or disabled'', []))
          else
            let expires = now + seconds (pull_lease_sec cfg);
                ids = pull_ids cfg now rid limit d;
                d1 = d\<lparr>objects := upd_where (\<lambda>x. ob_id x \<in> set ids) (claim_object rid expires) (objects d)\<rparr>;
                rows = filter (\<lambda>x. ob_id x \<in> set ids) (objects d1)
            in if rows = [] then Inr ([], d)
               else Inr (map (pull_item_of d1) rows, commit_and_publish now [] d1))"

section \<open>Acknowledgements\<close>

record ack_report =
  ak_receiver_id :: ident
  ak_object_id :: int
  ak_sha256 :: string
  ak_success :: bool
  ak_error :: "string option"

definition upd_object :: "int \<Rightarrow> (gobject \<Rightarrow> gobject) \<Rightarrow> orch \<Rightarrow> orch" where
  "upd_object k f d = d\<lparr>objects := upd_where (\<lambda>x. ob_id x = k) f (objects d)\<rparr>"

text \<open>Returns whether the object is now exhausted.\<close>

definition record_pull_failure ::
  "settings \<Rightarrow> ident \<Rightarrow> gobject \<Rightarrow> string option \<Rightarrow> ident option \<Rightarrow> orch \<Rightarrow> bool \<times> orch" where
  "record_pull_failure cfg rid x err bid d =
     (if ob_acked_at x \<noteq> None then (False, d)
      else
        let count = coalesce (ob_failed_pulls x) 0 + 1;
            d1 = upd_object (ob_id x)
                   (\<lambda>x. x\<lparr>ob_failed_pulls := Some count, ob_pull_lease_by := None, ob_pull_lease_expires_at := None\<rparr>) d;
            exhausted = (count \<ge> max_pull_failures cfg)
        in (exhausted,
            log_event (if exhausted then ''error'' else ''warn'') rid
              (if exhausted then ''pull failed ({}/{}): {} -- giving up, no further offers''
               else ''pull failed ({}/{}): {}'', [AInt count, AInt (max_pull_failures cfg), AOpt err])
              (Some (ob_granule x)) bid d1))"

definition log_sha_mismatch :: "ident \<Rightarrow> gobject \<Rightarrow> ident option \<Rightarrow> orch \<Rightarrow> orch" where
  "log_sha_mismatch rid x bid d =
     log_event ''error'' rid (''sha256 mismatch object_id={}'', [AInt (ob_id x)]) (Some (ob_granule x)) bid d"

definition mark_acked :: "ident \<Rightarrow> gobject \<Rightarrow> ident option \<Rightarrow> time \<Rightarrow> orch \<Rightarrow> orch" where
  "mark_acked rid x bid now d =
     (if ob_acked_at x \<noteq> None then d
      else log_event ''info'' rid (''acked {}'', [AStr (ob_key x)]) (Some (ob_granule x)) bid
             (upd_object (ob_id x) (\<lambda>x. x\<lparr>ob_acked_at := Some now, ob_acked_by := Some rid\<rparr>) d))"

definition objects_of :: "ident \<Rightarrow> orch \<Rightarrow> gobject list" where
  "objects_of gid d = filter (\<lambda>x. ob_granule x = gid) (objects d)"

definition promote_acked :: "settings \<Rightarrow> time \<Rightarrow> ident \<Rightarrow> orch \<Rightarrow> orch" where
  "promote_acked cfg now gid d =
     (case get_granule gid d of
        None \<Rightarrow> d
      | Some g \<Rightarrow> apply_or_skip cfg g (ObjectAcked gid) now d)"

text \<open>The reply says whether the object will be retried and how many pulls failed, when the report is a failure.\<close>

definition ack :: "settings \<Rightarrow> digest \<Rightarrow> time \<Rightarrow> ack_report \<Rightarrow> (bool \<times> int option) option handler" where
  "ack cfg digest now req d =
     and_then (get_or_404 (get_object (ak_object_id req) d) ''object not found'') (\<lambda>x.
       let bid = map_option gr_batch (get_granule (ob_granule x) d)
       in if \<not> ak_success req then
            let (exhausted, d1) = record_pull_failure cfg (ak_receiver_id req) x (ak_error req) bid d;
                failed = (case get_object (ob_id x) d1 of None \<Rightarrow> None | Some y \<Rightarrow> ob_failed_pulls y)
            in Inr (Some (\<not> exhausted, failed), commit_and_publish now [] d1)
          else if ak_sha256 req \<noteq> ob_sha256 x then Inl (HTTPException 400 (''sha256 mismatch'', []))
          else
            let d1 = mark_acked (ak_receiver_id req) x bid now d;
                d2 = archive_confirmed digest None (Some [ob_id x]) d1;
                d3 = (if all_objects_acked (objects_of (ob_granule x) d2)
                      then promote_acked cfg now (ob_granule x) d2 else d2)
            in Inr (None, commit_and_publish now [Some BATCHES] d3))"

text \<open>One report of a batch, on the state and the granules with a newly confirmed object.\<close>

definition apply_ack :: "settings \<Rightarrow> time \<Rightarrow> ack_report \<Rightarrow> orch \<times> ident list \<Rightarrow> orch \<times> ident list" where
  "apply_ack cfg now a st =
     (case get_object (ak_object_id a) (fst st) of
        None \<Rightarrow> st
      | Some x \<Rightarrow>
          (let d = fst st; bid = map_option gr_batch (get_granule (ob_granule x) d)
           in if \<not> ak_success a then (snd (record_pull_failure cfg (ak_receiver_id a) x (ak_error a) bid d), snd st)
              else if ak_sha256 a \<noteq> ob_sha256 x then (log_sha_mismatch (ak_receiver_id a) x bid d, snd st)
              else (mark_acked (ak_receiver_id a) x bid now d, List.insert (ob_granule x) (snd st))))"

definition ack_batch :: "settings \<Rightarrow> digest \<Rightarrow> time \<Rightarrow> ack_report list \<Rightarrow> unit handler" where
  "ack_batch cfg digest now acks d =
     (if acks = [] then Inr ((), d)
      else
        let (d1, acked) = fold (apply_ack cfg now) acks (d, []);
            d3 = (if acked = [] then d1
                  else
                    let d2 = archive_confirmed digest None (Some (map ak_object_id acks)) d1;
                        complete = filter (\<lambda>gid. objects_of gid d2 \<noteq> [] \<and> all_objects_acked (objects_of gid d2)) acked
                    in fold (promote_acked cfg now) complete d2)
        in Inr ((), commit_and_publish now [Some BATCHES] d3))"

section \<open>Operator actions\<close>

definition request_restart :: "time \<Rightarrow> ident \<Rightarrow> unit handler" where
  "request_restart now k =
     signal_one_shot get_receiver ''receiver'' set_restart_requested put_receiver k RECEIVERS
       (''restart requested via UI'', []) now"

definition set_enabled :: "time \<Rightarrow> ident \<Rightarrow> bool \<Rightarrow> bool handler" where
  "set_enabled now k enabled d =
     and_then (get_or_404 (get_receiver k d) ''receiver not found'') (\<lambda>r.
       Inr (enabled, commit_and_publish now [Some RECEIVERS]
              (log_event ''info'' k ((if enabled then ''receiver enabled'' else ''receiver disabled''), []) None None
                 (put_receiver (r\<lparr>rc_enabled := enabled\<rparr>) d))))"

definition ca_bundle :: "orch \<Rightarrow> string option" where
  "ca_bundle d =
     (let pems = filter (\<lambda>p. p \<noteq> []) (map strip (List.map_filter wk_ca_pem (workers d)))
      in if pems = [] then None else Some (concat (map (\<lambda>p. p @ [CHR 0x0A]) pems)))"

definition forget_receiver :: "time \<Rightarrow> ident \<Rightarrow> unit handler" where
  "forget_receiver now k d =
     and_then (get_or_404 (get_receiver k d) ''receiver not found'') (\<lambda>r.
       if rc_enabled r then Inl (HTTPException 409 (''receiver is still enabled -- disable it first'', []))
       else Inr ((), evict_receiver k (commit_and_publish now [Some RECEIVERS]
              (log_event ''info'' k (''receiver forgotten (row deleted)'', []) None None
                 (d\<lparr>receivers := del_where (\<lambda>x. rc_id x = k) (receivers d)\<rparr>)))))"

section \<open>Integrity\<close>

text \<open>
  Between the confirmation of an object and the archive of its receipt, in the same transaction,
  the invariant holds but for the receipts of the objects in \<open>ks\<close>.
\<close>

definition unarchived_inv :: "digest \<Rightarrow> int set \<Rightarrow> orch \<Rightarrow> bool" where
  "unarchived_inv digest ks d \<longleftrightarrow> keys_ok d \<and> refs_ok d \<and> rows_ok d \<and> objects_ok d \<and> counters_ok d
     \<and> records_ok digest (deliveries d)
     \<and> (\<forall>x \<in> set (objects d). ob_acked_at x \<noteq> None \<longrightarrow> ob_id x \<in> ks \<or> has_delivery_record d x)"

lemma unarchived_empty: "unarchived_inv dg {} d \<longleftrightarrow> db_inv dg d"
  by (auto simp: unarchived_inv_def db_inv_def receipts_ok_def)

lemma unarchived_log [simp]: "unarchived_inv dg ks (log_event l s m g b d) \<longleftrightarrow> unarchived_inv dg ks d"
  by (simp add: unarchived_inv_def keys_ok_def refs_ok_def rows_ok_def objects_ok_def counters_ok_def
      has_delivery_record_def)

lemma unarchived_rewrite:
  assumes inv: "unarchived_inv dg ks d"
    and same: "\<And>x. ob_id (f x) = ob_id x" "\<And>x. ob_granule (f x) = ob_granule x"
      "\<And>x. ob_uploaded_at (f x) = ob_uploaded_at x"
    and ack: "\<And>x. ob_acked_at (f x) = ob_acked_at x \<or> k \<in> ks \<and> ob_acked_at (f x) \<noteq> None"
  shows "unarchived_inv dg ks (upd_object k f d)"
proof -
  let ?d = "upd_object k f d"
  have old: "\<exists>y \<in> set (objects d). ob_id x = ob_id y \<and> ob_granule x = ob_granule y
      \<and> ob_uploaded_at x = ob_uploaded_at y
      \<and> (ob_acked_at x = ob_acked_at y \<or> ob_id y \<in> ks \<and> ob_acked_at x \<noteq> None)"
    if "x \<in> set (objects ?d)" for x
  proof -
    from that have "x \<in> set (upd_where (\<lambda>x. ob_id x = k) f (objects d))" by (simp add: upd_object_def)
    then obtain y where y: "y \<in> set (objects d)" "x = (if ob_id y = k then f y else y)"
      by (auto simp: upd_where_def)
    show ?thesis
      using same [of y] ack [of y] y by (intro bexI [OF _ y(1)]) (cases "ob_id y = k"; auto)
  qed
  have "map ob_id (objects ?d) = map ob_id (objects d)"
    by (simp add: upd_object_def) (rule map_upd_where, rule same)
  moreover have "granules ?d = granules d" "batches ?d = batches d" "timings ?d = timings d"
    "deliveries ?d = deliveries d" by (simp_all add: upd_object_def)
  moreover have "\<forall>x \<in> set (objects ?d). 0 < ob_id x"
    using old inv by (fastforce simp: unarchived_inv_def keys_ok_def)
  moreover have "\<forall>x \<in> set (objects ?d). ob_granule x \<in> gr_id ` set (granules d)"
    using old inv unfolding unarchived_inv_def refs_ok_def by metis
  moreover have "objects_ok ?d"
    unfolding objects_ok_def
  proof (intro ballI impI)
    fix x h assume x: "x \<in> set (objects ?d)" and h: "h \<in> set (granules ?d)" "gr_id h = ob_granule x"
    obtain y where y: "y \<in> set (objects d)" "ob_granule x = ob_granule y"
        "ob_acked_at x = ob_acked_at y \<or> ob_acked_at x \<noteq> None" using old [OF x] by blast
    have "objects_ok d" using inv by (simp add: unarchived_inv_def)
    with y h have "gr_state h \<in> stored" "gr_state h = ACKED \<longrightarrow> ob_acked_at y \<noteq> None"
      by (auto simp: objects_ok_def upd_object_def)
    with y(3) show "gr_state h \<in> stored \<and> (gr_state h = ACKED \<longrightarrow> ob_acked_at x \<noteq> None)" by auto
  qed
  moreover have "ob_id x \<in> ks \<or> has_delivery_record ?d x"
    if x: "x \<in> set (objects ?d)" and a: "ob_acked_at x \<noteq> None" for x
  proof -
    obtain y where y: "y \<in> set (objects d)" "ob_id x = ob_id y" "ob_granule x = ob_granule y"
        "ob_uploaded_at x = ob_uploaded_at y" "ob_acked_at x = ob_acked_at y \<or> ob_id y \<in> ks"
      using old [OF x] by blast
    then have "ob_id y \<in> ks \<or> has_delivery_record d y" using inv a by (auto simp: unarchived_inv_def)
    with y show ?thesis by (simp add: has_delivery_record_def upd_object_def)
  qed
  ultimately show ?thesis
    using inv by (simp add: unarchived_inv_def keys_ok_def refs_ok_def rows_ok_def counters_ok_def)
qed

lemma record_pull_failure_unarchived:
  "unarchived_inv dg ks d \<Longrightarrow> unarchived_inv dg ks (snd (record_pull_failure cfg rid x e bid d))"
  by (auto simp: record_pull_failure_def Let_def intro!: unarchived_rewrite)

lemma mark_acked_unarchived:
  "unarchived_inv dg ks d \<Longrightarrow> ob_id x \<in> ks \<Longrightarrow> unarchived_inv dg ks (mark_acked rid x bid now d)"
  by (auto simp: mark_acked_def intro!: unarchived_rewrite)

lemma unarchived_mono: "unarchived_inv dg ks d \<Longrightarrow> ks \<subseteq> ks' \<Longrightarrow> unarchived_inv dg ks' d"
  by (auto simp: unarchived_inv_def)

lemma archive_restores:
  assumes "inj_digest dg" and "unarchived_inv dg ks d" and "ks \<subseteq> set ids"
  shows "db_inv dg (archive_confirmed dg None (Some ids) d)"
proof -
  note inv = assms(2) [unfolded unarchived_inv_def]
  let ?d = "archive_confirmed dg None (Some ids) d"
  have "records_ok dg (deliveries ?d)"
    using archive_ok(1) [OF assms(1)] inv by (simp add: keys_ok_def)
  moreover have "has_delivery_record ?d x" if x: "x \<in> set (objects d)" "ob_acked_at x \<noteq> None" for x
  proof (cases "ob_id x \<in> ks")
    case True
    with assms(3) have "ob_id x \<in> set ids" by blast
    with archive_receipts [OF assms(1) _ _ _ x, of None "Some ids"] inv show ?thesis by simp
  next
    case False
    with inv x have "has_delivery_record d x" by blast
    then show ?thesis using archive_keeps by (rule has_record_keeps)
  qed
  ultimately show ?thesis using inv by (simp add: db_inv_def inv_defs)
qed

lemma get_granule_id: "get_granule k d = Some g \<Longrightarrow> gr_id g = k"
  by (auto simp: get_granule_def dest: get_row_key)

lemma promote_acked_keeps:
  assumes "db_inv dg d" and "all_objects_acked (objects_of gid d)"
  shows "db_inv dg (promote_acked cfg now gid d) \<and> objects (promote_acked cfg now gid d) = objects d"
proof (cases "get_granule gid d")
  case None
  with assms show ?thesis by (simp add: promote_acked_def)
next
  case (Some g)
  have allowed: "transition_allowed d g (ObjectAcked gid)"
    using assms(2) get_granule_id [OF Some]
    by (auto simp: transition_allowed_def all_objects_acked_iff objects_of_def)
  have "objects (apply_or_skip cfg g (ObjectAcked gid) now d) = objects d"
    by (auto simp: apply_or_skip_def apply_transition_def apply_to_session_def TransitionResult_def split: sum.splits)
  with apply_or_skip_inv [OF assms(1) get_granule_in [OF Some] allowed] Some show ?thesis
    by (simp add: promote_acked_def)
qed

lemma get_object_id: "get_object k d = Some x \<Longrightarrow> ob_id x = k \<and> x \<in> set (objects d)"
  by (auto simp: get_object_def dest: get_row_key)

lemma pull_inv [step_intros]:
  "db_inv dg d \<Longrightarrow> pull cfg now rid limit d = Inr (items, d') \<Longrightarrow> db_inv dg d'"
  by (auto simp: pull_def Let_def claim_object_def [abs_def] split: option.splits if_splits
      intro: pull_claim.keeps_inv_objects)

lemma ack_inv [step_intros]:
  assumes "inj_digest dg" and "db_inv dg d" and "ack cfg dg now req d = Inr (r, d')"
  shows "db_inv dg d'"
proof -
  obtain x where x: "get_object (ak_object_id req) d = Some x" using assms(3) by (auto simp: ack_def)
  let ?bid = "map_option gr_batch (get_granule (ob_granule x) d)"
  have un: "unarchived_inv dg {} d" using assms(2) by (simp add: unarchived_empty)
  show ?thesis
  proof (cases "ak_success req")
    case False
    with assms(3) x have "d' = commit_and_publish now []
        (snd (record_pull_failure cfg (ak_receiver_id req) x (ak_error req) ?bid d))"
      by (auto simp: ack_def Let_def split: prod.splits)
    with record_pull_failure_unarchived [OF un] show ?thesis by (simp add: unarchived_empty)
  next
    case True
    let ?d1 = "mark_acked (ak_receiver_id req) x ?bid now d"
    let ?d2 = "archive_confirmed dg None (Some [ob_id x]) ?d1"
    have "unarchived_inv dg {ob_id x} ?d1"
      using mark_acked_unarchived [OF unarchived_mono [OF un]] by simp
    then have 2: "db_inv dg ?d2" by (rule archive_restores [OF assms(1)]) simp
    have "d' = commit_and_publish now [Some BATCHES]
        (if all_objects_acked (objects_of (ob_granule x) ?d2) then promote_acked cfg now (ob_granule x) ?d2 else ?d2)"
      using assms(3) x True by (auto simp: ack_def Let_def split: if_splits)
    with promote_acked_keeps [OF 2] 2 show ?thesis by (simp split: if_splits)
  qed
qed

lemma apply_ack_unarchived:
  assumes "unarchived_inv dg ks (fst st)" and "ak_object_id a \<in> ks"
  shows "unarchived_inv dg ks (fst (apply_ack cfg now a st))"
  using assms get_object_id [of "ak_object_id a" "fst st"]
  by (auto simp: apply_ack_def Let_def log_sha_mismatch_def split: option.splits
      intro!: record_pull_failure_unarchived mark_acked_unarchived)

text \<open>If no report confirmed anything, no object was acknowledged.\<close>

lemma apply_ack_grows: "snd st \<noteq> [] \<Longrightarrow> snd (apply_ack cfg now a st) \<noteq> []"
  by (auto simp: apply_ack_def Let_def List.insert_def split: option.splits)

lemma apply_acks_grow: "snd st \<noteq> [] \<Longrightarrow> snd (fold (apply_ack cfg now) as st) \<noteq> []"
  by (induction as arbitrary: st) (simp_all add: apply_ack_grows)

lemma apply_ack_only_failures:
  "snd (apply_ack cfg now a st) = [] \<Longrightarrow> unarchived_inv dg {} (fst st) \<Longrightarrow>
   unarchived_inv dg {} (fst (apply_ack cfg now a st))"
  by (auto simp: apply_ack_def Let_def log_sha_mismatch_def List.insert_def split: option.splits if_splits
      intro!: record_pull_failure_unarchived)

lemma apply_acks_only_failures:
  "snd (fold (apply_ack cfg now) as st) = [] \<Longrightarrow> unarchived_inv dg {} (fst st) \<Longrightarrow>
   unarchived_inv dg {} (fst (fold (apply_ack cfg now) as st))"
proof (induction as arbitrary: st)
  case (Cons a as)
  have "snd (apply_ack cfg now a st) = []"
    using apply_acks_grow [of "apply_ack cfg now a st" cfg now as] Cons.prems(1) by auto
  with Cons show ?case by (simp add: apply_ack_only_failures)
qed simp

lemma ack_batch_inv [step_intros]:
  assumes "inj_digest dg" and "db_inv dg d" and "ack_batch cfg dg now acks d = Inr (u, d')"
  shows "db_inv dg d'"
proof (cases "acks = []")
  case True
  with assms show ?thesis by (simp add: ack_batch_def)
next
  case False
  obtain d1 acked where f: "fold (apply_ack cfg now) acks (d, []) = (d1, acked)" by (metis surj_pair)
  let ?ks = "set (map ak_object_id acks)"
  have un: "unarchived_inv dg ?ks d"
    using unarchived_mono [of dg "{}" d ?ks] assms(2) by (simp add: unarchived_empty)
  have "unarchived_inv dg ?ks (fst (fold (apply_ack cfg now) acks (d, [])))"
    by (rule fold_invariant_P [where P = "\<lambda>st. unarchived_inv dg ?ks (fst st)"])
      (use un in \<open>auto intro!: apply_ack_unarchived\<close>)
  then have 1: "unarchived_inv dg ?ks d1" by (simp add: f)
  let ?d2 = "archive_confirmed dg None (Some (map ak_object_id acks)) d1"
  have 2: "db_inv dg ?d2" by (rule archive_restores [OF assms(1) 1]) simp
  let ?complete = "filter (\<lambda>gid. objects_of gid ?d2 \<noteq> [] \<and> all_objects_acked (objects_of gid ?d2)) acked"
  have "db_inv dg (fold (promote_acked cfg now) ?complete ?d2)
      \<and> objects (fold (promote_acked cfg now) ?complete ?d2) = objects ?d2"
    by (rule fold_invariant_P [where P = "\<lambda>e. db_inv dg e \<and> objects e = objects ?d2"])
      (use 2 promote_acked_keeps in \<open>auto simp: objects_of_def\<close>)
  then have 3: "db_inv dg (fold (promote_acked cfg now) ?complete ?d2)" by blast
  have "acked \<noteq> [] \<or> db_inv dg d1"
    using apply_acks_only_failures [of cfg now acks "(d, [])" dg] f assms(2) by (auto simp: unarchived_empty)
  with 3 assms(3) False f show ?thesis
    by (auto simp: ack_batch_def Let_def split: if_splits)
qed

lemma db_inv_receivers [simp]: "db_inv dg (d\<lparr>receivers := rs\<rparr>) \<longleftrightarrow> db_inv dg d"
  by (rule db_inv_cong) simp_all

lemma receiver_ops_inv [step_intros]:
  "db_inv dg d \<Longrightarrow> register_receiver now req d = Inr (u, d') \<Longrightarrow> db_inv dg d'"
  "db_inv dg d \<Longrightarrow> request_restart now k d = Inr (u, d') \<Longrightarrow> db_inv dg d'"
  "db_inv dg d \<Longrightarrow> set_enabled now k e d = Inr (e', d') \<Longrightarrow> db_inv dg d'"
  "db_inv dg d \<Longrightarrow> forget_receiver now k d = Inr (u, d') \<Longrightarrow> db_inv dg d'"
  by (auto simp: register_receiver_def request_restart_def set_enabled_def forget_receiver_def signal_one_shot_def
      request_one_shot_signal_def split: option.splits if_splits)

lemma receiver_heartbeat_inv [step_intros]:
  "db_inv dg d \<Longrightarrow> receiver_heartbeat_handler cfg now hb d = Inr (b, d') \<Longrightarrow> db_inv dg d'"
  by (auto simp: receiver_heartbeat_handler_def record_version_flap_def consume_one_shot_signal_def Let_def
      split: if_splits)

section \<open>Properties of the pull\<close>

lemma pull_ids_sound:
  assumes "distinct (map ob_id (objects d))" and "x \<in> set (objects d)" and "ob_id x \<in> set (pull_ids cfg now rid limit d)"
  shows "pull_candidate cfg now rid d x"
proof -
  have "set (limit_rows limit rs) \<subseteq> set rs" for rs :: "gobject list"
    by (auto simp: limit_rows_def dest: in_set_takeD)
  with assms(3) obtain y where "y \<in> set (objects d)" "pull_candidate cfg now rid d y" "ob_id y = ob_id x"
    unfolding pull_ids_def by fastforce
  with assms(1,2) show ?thesis by (metis distinct_key_eq)
qed

lemma pull_ids_known: "set (pull_ids cfg now rid limit d) \<subseteq> ob_id ` set (objects d)"
  by (auto simp: pull_ids_def limit_rows_def split: if_splits dest!: in_set_takeD)

lemma pull_rows:
  assumes "pull cfg now rid limit d = Inr (items, d')"
  shows "objects d' = upd_where (\<lambda>x. ob_id x \<in> set (pull_ids cfg now rid limit d))
           (claim_object rid (now + seconds (pull_lease_sec cfg))) (objects d)"
    and "set (map pi_object items) = set (pull_ids cfg now rid limit d)"
    and "granules d' = granules d" and "batches d' = batches d"
proof -
  let ?ids = "pull_ids cfg now rid limit d"
  let ?up = "upd_where (\<lambda>x. ob_id x \<in> set ?ids) (claim_object rid (now + seconds (pull_lease_sec cfg))) (objects d)"
  let ?rows = "filter (\<lambda>x. ob_id x \<in> set ?ids) ?up"
  note ids = pull_ids_known [of cfg now rid limit d]
  have keys: "map ob_id ?up = map ob_id (objects d)" by (rule map_upd_where) (simp add: claim_object_def)
  have "ob_id ` set ?rows = set ?ids \<inter> ob_id ` set ?up" by auto
  also have "\<dots> = set ?ids" using ids keys by (metis inf.absorb1 list.set_map)
  finally have rows: "ob_id ` set ?rows = set ?ids" .
  have none: "?rows = [] \<Longrightarrow> ?up = objects d" using rows by (auto intro!: upd_where_none)
  have res: "map pi_object items = map ob_id ?rows \<and> granules d' = granules d \<and> batches d' = batches d
      \<and> objects d' = (if ?rows = [] then objects d else ?up)"
    using assms by (auto simp: pull_def Let_def pull_item_of_def split: option.splits if_splits)
  then show "objects d' = ?up" "granules d' = granules d" "batches d' = batches d" using none by auto
  from res rows show "set (map pi_object items) = set ?ids" by simp
qed

text \<open>
  C4: A pull hands a receiver only objects that are neither confirmed nor deleted nor exhausted, of
  \<open>UPLOADED\<close> granules, in batches addressed to that receiver or to nobody; and while the claim
  lives, no later pull, by this receiver or another, hands out any of them again.
\<close>

theorem pulls_are_exclusive:
  assumes "distinct (map ob_id (objects d))"
    and "pull cfg now r limit d = Inr (items, d1)"
    and "pull cfg now' r' limit' d1 = Inr (items', d2)"
    and "now' \<le> now + seconds (pull_lease_sec cfg)"
  shows "(\<forall>x \<in> set (objects d). ob_id x \<in> set (map pi_object items) \<longrightarrow>
           object_is_pullable cfg x
           \<and> (\<exists>g b. get_granule (ob_granule x) d = Some g \<and> gr_state g = UPLOADED
                  \<and> get_batch (gr_batch g) d = Some b \<and> bt_target_receiver b \<in> {None, Some r}))
    \<and> set (map pi_object items) \<inter> set (map pi_object items') = {}"
proof -
  let ?ids = "pull_ids cfg now r limit d" and ?ids' = "pull_ids cfg now' r' limit' d1"
  note one = pull_rows [OF assms(2)] and two = pull_rows [OF assms(3)]
  have dist: "distinct (map ob_id (objects d1))"
    unfolding one(1) using assms(1) by (subst map_upd_where) (simp_all add: claim_object_def)
  have "k \<notin> set ?ids'" if k: "k \<in> set ?ids" for k
  proof
    assume k': "k \<in> set ?ids'"
    then have "k \<in> ob_id ` set (objects d1)" using pull_ids_known by blast
    then obtain x where x: "x \<in> set (objects d1)" "ob_id x = k" by auto
    from x k have "ob_pull_lease_by x = Some r" "ob_pull_lease_expires_at x = Some (now + seconds (pull_lease_sec cfg))"
      unfolding one(1) by (auto elim!: in_upd_whereE simp: claim_object_def)
    moreover from pull_ids_sound [OF dist x(1)] k' x(2) have "object_pull_claimable cfg now' x"
      by (simp add: pull_candidate_def)
    ultimately show False using assms(4) by (simp add: object_pull_claimable_def)
  qed
  moreover have "object_is_pullable cfg x \<and> (\<exists>g b. get_granule (ob_granule x) d = Some g \<and> gr_state g = UPLOADED
        \<and> get_batch (gr_batch g) d = Some b \<and> bt_target_receiver b \<in> {None, Some r})"
    if "x \<in> set (objects d)" "ob_id x \<in> set ?ids" for x
    using pull_ids_sound [OF assms(1) that]
    by (auto simp: pull_candidate_def object_pull_claimable_def split: option.splits)
  ultimately show ?thesis unfolding one(2) two(2) by blast
qed

definition sample_receiver :: receiver where
  "sample_receiver = \<lparr>rc_id = ''r'', rc_version = ''1'', rc_platform = [],
     rc_telemetry = \<lparr>rt_last_seen = 0, rt_disk_free_gb = 0, rt_queue_pulling = 0, rt_recent_pull_bps = 0\<rparr>,
     rc_enabled = True, rc_restart_requested_at = None\<rparr>"

definition sample_uploaded :: orch where
  "sample_uploaded = sample_orch UPLOADED None\<lparr>receivers := [sample_receiver]\<rparr>"

definition sample_ack :: "bool \<Rightarrow> ack_report" where
  "sample_ack ok = \<lparr>ak_receiver_id = ''r'', ak_object_id = 1, ak_sha256 = ''00'', ak_success = ok, ak_error = None\<rparr>"

lemmas delivery_defs = sample_uploaded_def sample_receiver_def sample_ack_def sample_settings_def sample_defs get_defs get_row_def

theorem pulls_are_exclusive_witness:
  "\<exists>items d1. pull sample_settings 9 ''r'' 5 sample_uploaded = Inr (items, d1) \<and> set (map pi_object items) = {1}
     \<and> (\<forall>items' d2. pull sample_settings 10 ''r'' 5 d1 = Inr (items', d2) \<longrightarrow> 1 \<notin> set (map pi_object items'))"
proof -
  have dist: "distinct (map ob_id (objects sample_uploaded))" by (simp add: delivery_defs)
  have ids: "pull_ids sample_settings 9 ''r'' 5 sample_uploaded = [1]"
    by (simp add: pull_ids_def pull_candidate_def limit_rows_def object_pull_claimable_def object_is_pullable_def
        object_is_pending_def delivery_defs)
  have "\<exists>items d1. pull sample_settings 9 ''r'' 5 sample_uploaded = Inr (items, d1)"
    by (simp add: pull_def Let_def delivery_defs)
  then obtain items d1 where p: "pull sample_settings 9 ''r'' 5 sample_uploaded = Inr (items, d1)" by blast
  with pull_rows(2) ids have s: "set (map pi_object items) = {1}" by fastforce
  have "1 \<notin> set (map pi_object items')" if "pull sample_settings 10 ''r'' 5 d1 = Inr (items', d2)" for items' d2
    using pulls_are_exclusive [OF dist p that] s by (simp add: sample_settings_def time_units)
  with p s show ?thesis by blast
qed

section \<open>Properties of the acknowledgement\<close>

lemma mark_acked_objects:
  "objects (mark_acked rid x bid now d) =
     (if ob_acked_at x \<noteq> None then objects d
      else upd_where (\<lambda>y. ob_id y = ob_id x) (\<lambda>y. y\<lparr>ob_acked_at := Some now, ob_acked_by := Some rid\<rparr>) (objects d))"
  by (simp add: mark_acked_def upd_object_def)

lemma mark_acked_frame [simp]:
  "granules (mark_acked rid x bid now d) = granules d" "batches (mark_acked rid x bid now d) = batches d"
  "deliveries (mark_acked rid x bid now d) = deliveries d" "bundles (mark_acked rid x bid now d) = bundles d"
  by (simp_all add: mark_acked_def upd_object_def)

lemma promote_acked_effect:
  assumes "get_granule gid d = Some g" and "gr_state g = UPLOADED"
  shows "objects (promote_acked cfg now gid d) = objects d \<and> deliveries (promote_acked cfg now gid d) = deliveries d
    \<and> (\<exists>g'. get_granule gid (promote_acked cfg now gid d) = Some g' \<and> gr_state g' = ACKED)"
  using assms get_granule_id [OF assms(1)]
  by (auto simp: promote_acked_def apply_or_skip_def apply_transition_def snapshot_of_def TransitionResult_def
      apply_to_session_def get_granule_def get_row_upd_where)

lemma ack_confirms:
  assumes "inj_digest dg" and "db_inv dg d"
    and "get_object (ak_object_id req) d = Some x" and "ak_success req" and "ak_sha256 req = ob_sha256 x"
    and "get_granule (ob_granule x) d = Some g" and "gr_state g = UPLOADED"
  shows "\<exists>d'. ack cfg dg now req d = Inr (None, d')
    \<and> (\<forall>y \<in> set (objects d'). ob_id y = ob_id x \<longrightarrow> ob_acked_at y \<noteq> None \<and> has_delivery_record d' y)
    \<and> (\<forall>y \<in> set (objects d). ob_id y \<noteq> ob_id x \<longrightarrow> y \<in> set (objects d'))
    \<and> (\<exists>g'. get_granule (ob_granule x) d' = Some g'
         \<and> gr_state g' = (if \<exists>y \<in> set (objects d). ob_granule y = ob_granule x \<and> ob_id y \<noteq> ob_id x \<and> ob_acked_at y = None
                          then UPLOADED else ACKED))
    \<and> (\<exists>y \<in> set (objects d'). ob_id y = ob_id x \<and> ob_sha256 y = ob_sha256 x)"
proof -
  let ?d1 = "mark_acked (ak_receiver_id req) x (Some (gr_batch g)) now d"
  let ?d2 = "archive_confirmed dg None (Some [ob_id x]) ?d1"
  let ?all = "all_objects_acked (objects_of (ob_granule x) ?d2)"
  let ?d3 = "if ?all then promote_acked cfg now (ob_granule x) ?d2 else ?d2"
  let ?d' = "commit_and_publish now [Some BATCHES] ?d3"
  have x: "x \<in> set (objects d)" using get_object_id [OF assms(3)] by simp
  have dist: "distinct (map ob_id (objects d))" using assms(2) by (simp add: db_inv_def keys_ok_def)
  have un: "unarchived_inv dg {ob_id x} ?d1"
    using mark_acked_unarchived [OF unarchived_mono [of dg "{}"]] assms(2) by (simp add: unarchived_empty)
  have db2: "db_inv dg ?d2" by (rule archive_restores [OF assms(1) un]) simp
  have g2: "get_granule (ob_granule x) ?d2 = Some g" using assms(6) by (simp add: get_granule_def)
  note prom = promote_acked_effect [OF g2 assms(7), of cfg now]
  have objs: "objects ?d' = objects ?d1" using prom by simp
  have "(ob_id y = ob_id x \<longrightarrow> ob_acked_at y \<noteq> None)" if "y \<in> set (objects ?d1)" for y
  proof -
    have "ob_acked_at y \<noteq> None" if "y \<in> set (objects d)" "ob_id y = ob_id x" "ob_acked_at x \<noteq> None"
      using that x dist by (metis distinct_key_eq)
    with that show ?thesis by (auto simp: mark_acked_objects split: if_splits elim!: in_upd_whereE)
  qed
  note acked = this
  have rec: "has_delivery_record ?d' y" if "y \<in> set (objects ?d1)" "ob_acked_at y \<noteq> None" for y
  proof -
    have "has_delivery_record ?d2 y" using db2 that by (auto simp: db_inv_def receipts_ok_def)
    then show ?thesis using prom by (simp add: has_delivery_record_def)
  qed
  have others: "y \<in> set (objects ?d1)" if "y \<in> set (objects d)" "ob_id y \<noteq> ob_id x" for y
    using that by (simp add: mark_acked_objects in_upd_where_unchanged)
  have prior: "y \<in> set (objects d)" if "y \<in> set (objects ?d1)" "ob_id y \<noteq> ob_id x" for y
    using that by (auto simp: mark_acked_objects split: if_splits elim!: in_upd_whereE)
  have "?all \<longleftrightarrow> (\<forall>y \<in> set (objects ?d1). ob_granule y = ob_granule x \<longrightarrow> ob_acked_at y \<noteq> None)"
    by (auto simp: all_objects_acked_iff objects_of_def)
  also have "\<dots> \<longleftrightarrow> (\<forall>y \<in> set (objects ?d1). ob_id y \<noteq> ob_id x \<longrightarrow> ob_granule y = ob_granule x \<longrightarrow> ob_acked_at y \<noteq> None)"
    using acked by metis
  also have "\<dots> \<longleftrightarrow> (\<forall>y \<in> set (objects d). ob_id y \<noteq> ob_id x \<longrightarrow> ob_granule y = ob_granule x \<longrightarrow> ob_acked_at y \<noteq> None)"
    using others prior by metis
  finally have all: "?all \<longleftrightarrow>
      \<not> (\<exists>y \<in> set (objects d). ob_granule y = ob_granule x \<and> ob_id y \<noteq> ob_id x \<and> ob_acked_at y = None)" by metis
  have "\<exists>g'. get_granule (ob_granule x) ?d' = Some g' \<and> gr_state g' = (if ?all then ACKED else UPLOADED)"
    using prom g2 assms(7) by (auto simp: get_granule_def)
  moreover have "(if ?all then ACKED else UPLOADED) =
      (if \<exists>y \<in> set (objects d). ob_granule y = ob_granule x \<and> ob_id y \<noteq> ob_id x \<and> ob_acked_at y = None
       then UPLOADED else ACKED)" (is "_ = ?target") unfolding all by simp
  ultimately have gran: "\<exists>g'. get_granule (ob_granule x) ?d' = Some g' \<and> gr_state g' = ?target" by (rule back_subst [where P = "\<lambda>s. \<exists>g'. get_granule (ob_granule x) ?d' = Some g' \<and> gr_state g' = s"])
  have "ack cfg dg now req d = Inr (None, ?d')"
    using assms(3-6) get_object_id [OF assms(3)] by (simp add: ack_def Let_def)
  moreover have "\<exists>y \<in> set (objects ?d1). ob_id y = ob_id x \<and> ob_sha256 y = ob_sha256 x"
    using x by (intro bexI [of _ "if ob_acked_at x = None then x\<lparr>ob_acked_at := Some now, ob_acked_by := Some (ak_receiver_id req)\<rparr> else x"])
      (auto simp: mark_acked_objects upd_where_def image_iff)
  ultimately show ?thesis using objs acked rec others gran by (intro exI [of _ ?d']) simp
qed

text \<open>
  C5: Acknowledging an object with its own checksum marks it confirmed and leaves a receipt for
  it in the ledger; no other object changes; and the \<open>UPLOADED\<close> granule becomes \<open>ACKED\<close> exactly when
  this was the last object of the granule still unconfirmed.
\<close>

theorem ack_delivers:
  assumes "inj_digest dg" and "db_inv dg d"
    and "get_object (ak_object_id req) d = Some x" and "ak_success req" and "ak_sha256 req = ob_sha256 x"
    and "get_granule (ob_granule x) d = Some g" and "gr_state g = UPLOADED"
  shows "\<exists>d'. ack cfg dg now req d = Inr (None, d')
    \<and> (\<forall>y \<in> set (objects d'). ob_id y = ob_id x \<longrightarrow> ob_acked_at y \<noteq> None \<and> has_delivery_record d' y)
    \<and> (\<forall>y \<in> set (objects d). ob_id y \<noteq> ob_id x \<longrightarrow> y \<in> set (objects d'))
    \<and> (\<exists>g'. get_granule (ob_granule x) d' = Some g'
         \<and> gr_state g' = (if \<exists>y \<in> set (objects d). ob_granule y = ob_granule x \<and> ob_id y \<noteq> ob_id x \<and> ob_acked_at y = None
                          then UPLOADED else ACKED))"
  using ack_confirms [OF assms] by blast

lemma sample_uploaded_inv: "db_inv dg sample_uploaded"
proof -
  have "db_inv dg (sample_orch UPLOADED None)"
    by (simp add: db_inv_def inv_defs records_ok_def granule_ok_def
        lease_ok_def tails_ok_def stored_def deleted_in_def row_count_def sample_defs)
  then show ?thesis by (simp add: sample_uploaded_def)
qed

theorem ack_delivers_witness:
  "\<exists>d'. ack sample_settings sample_digest 9 (sample_ack True) sample_uploaded = Inr (None, d')
     \<and> (\<exists>g'. get_granule ''b:g'' d' = Some g' \<and> gr_state g' = ACKED)"
  using ack_delivers [OF sample_digest_inj sample_uploaded_inv, of "sample_ack True" "sample_object None"
      "sample_granule UPLOADED" sample_settings 9]
  by (auto simp: delivery_defs)

lemma ack_counts_failure:
  assumes "distinct (map ob_id (objects d))"
    and "get_object (ak_object_id req) d = Some x" and "object_is_pending x" and "\<not> ak_success req"
  shows "\<exists>d' y n. ack cfg dg now req d = Inr (Some (n < max_pull_failures cfg, Some n), d')
    \<and> n = coalesce (ob_failed_pulls x) 0 + 1
    \<and> y = x\<lparr>ob_failed_pulls := Some n, ob_pull_lease_by := None, ob_pull_lease_expires_at := None\<rparr>
    \<and> objects d' = map (\<lambda>z. if ob_id z = ob_id x then y else z) (objects d)
    \<and> granules d' = granules d \<and> deliveries d' = deliveries d
    \<and> (if n < max_pull_failures cfg then \<forall>t. object_pull_claimable cfg t y else object_is_exhausted cfg y)"
proof -
  let ?n = "coalesce (ob_failed_pulls x) 0 + 1"
  let ?y = "x\<lparr>ob_failed_pulls := Some ?n, ob_pull_lease_by := None, ob_pull_lease_expires_at := None\<rparr>"
  let ?bid = "map_option gr_batch (get_granule (ob_granule x) d)"
  let ?d1 = "snd (record_pull_failure cfg (ak_receiver_id req) x (ak_error req) ?bid d)"
  have x: "ob_id x = ak_object_id req" "x \<in> set (objects d)" using get_object_id [OF assms(2)] by auto
  have un: "ob_acked_at x = None" "ob_deleted_at x = None" using assms(3) by (simp_all add: object_is_pending_def)
  have objs: "objects ?d1 = map (\<lambda>z. if ob_id z = ob_id x then ?y else z) (objects d)"
    using un distinct_key_eq [OF assms(1) _ x(2)]
    by (auto simp: record_pull_failure_def Let_def upd_object_def upd_where_def intro!: arg_cong [where f = "\<lambda>z. z\<lparr>ob_failed_pulls := _, ob_pull_lease_by := None, ob_pull_lease_expires_at := None\<rparr>"])
  have "get_object (ob_id x) ?d1 = Some ?y"
    using assms(2) x(1) un by (simp add: record_pull_failure_def Let_def upd_object_def get_object_def get_row_upd_where)
  then have "ack cfg dg now req d = Inr (Some (?n < max_pull_failures cfg, Some ?n), commit_and_publish now [] ?d1)"
    using assms(2,4) un by (simp add: ack_def Let_def record_pull_failure_def not_le)
  moreover have "granules ?d1 = granules d" "deliveries ?d1 = deliveries d"
    by (simp_all add: record_pull_failure_def Let_def upd_object_def)
  moreover have "if ?n < max_pull_failures cfg then \<forall>t. object_pull_claimable cfg t ?y else object_is_exhausted cfg ?y"
    using un by (simp add: object_pull_claimable_def object_is_pullable_def object_is_exhausted_def object_is_pending_def)
  ultimately show ?thesis
    using objs by (intro exI [of _ "commit_and_publish now [] ?d1"] exI [of _ ?y] exI [of _ ?n]) simp
qed

text \<open>
  C6: A failed pull of an unconfirmed, undeleted object counts one failure and takes the claim
  away: below the cap the object can be pulled again at once, by anyone; from the cap on it is
  exhausted and no pull offers it until the operator resets it. Nothing else changes in the tables.
\<close>

theorem failed_pull_failover:
  assumes "distinct (map ob_id (objects d))"
    and "get_object (ak_object_id req) d = Some x" and "object_is_pending x" and "\<not> ak_success req"
  shows "\<exists>d' y n. ack cfg dg now req d = Inr (Some (n < max_pull_failures cfg, Some n), d')
    \<and> n = coalesce (ob_failed_pulls x) 0 + 1
    \<and> y = x\<lparr>ob_failed_pulls := Some n, ob_pull_lease_by := None, ob_pull_lease_expires_at := None\<rparr>
    \<and> objects d' = map (\<lambda>z. if ob_id z = ob_id x then y else z) (objects d)
    \<and> granules d' = granules d \<and> deliveries d' = deliveries d
    \<and> (if n < max_pull_failures cfg then \<forall>t. object_pull_claimable cfg t y else object_is_exhausted cfg y)"
  by (rule ack_counts_failure [OF assms])

theorem failed_pull_failover_witness:
  "\<exists>d'. ack sample_settings sample_digest 9 (sample_ack False) sample_uploaded = Inr (Some (True, Some 1), d')"
proof -
  have "distinct (map ob_id (objects sample_uploaded))" by (simp add: delivery_defs)
  from failed_pull_failover [OF this, of "sample_ack False" "sample_object None" sample_settings sample_digest 9]
  show ?thesis by (auto simp: object_is_pending_def delivery_defs)
qed

end
