(* ===== verification/Manifest.thy ===== *)
theory Manifest
  imports Database Wire
begin

text \<open>
  The bundle manifest, the contract of a bundle's author with the orchestrator and the workers:
  \<^verbatim>\<open>src/sathop/shared/bundle_manifest.py\<close>, one parser per section over the parsed YAML value, and
  the check of a granule against a manifest, \<^verbatim>\<open>orchestrator/bundle_schema.py\<close>. The regular
  expressions that an author writes are compiled by a parameter: \<open>compile pat\<close> is the test that
  \<^verbatim>\<open>re.compile(pat).search\<close> performs, if the pattern compiles. The text that \<^verbatim>\<open>str(value)\<close>
  gives of an arbitrary value is the parameter \<open>py_str\<close>; the representations of such values in
  messages are left out.
\<close>

type_synonym compiler = "string \<Rightarrow> (string \<Rightarrow> bool) option"

definition value_err :: "string \<Rightarrow> arg list \<Rightarrow> value_error + 'a" where
  "value_err msg args = Inl (ValueError (msg, args))"

lemma value_err_not_Inr [simp]: "value_err m a \<noteq> Inr x"
  by (simp add: value_err_def)

section \<open>Sections of the manifest\<close>

text \<open>A non-empty string, else the error.\<close>

fun non_empty_str :: "pyval \<Rightarrow> bool" where
  "non_empty_str (PStr s) = (s \<noteq> [])"
| "non_empty_str _ = False"

fun str_or_none :: "pyval \<Rightarrow> bool" where
  "str_or_none PNone = True"
| "str_or_none (PStr s) = True"
| "str_or_none _ = False"

fun opt_str :: "pyval \<Rightarrow> string option" where
  "opt_str (PStr s) = Some s"
| "opt_str _ = None"

definition name_char :: "char \<Rightarrow> bool" where
  "name_char c \<longleftrightarrow> is_alnum c \<or> c \<in> set ''._-''"

definition ref_version_char :: "char \<Rightarrow> bool" where
  "ref_version_char c \<longleftrightarrow> is_alnum c \<or> c \<in> set ''._+-''"

definition RE_NAME :: "string \<Rightarrow> bool" where
  "RE_NAME s \<longleftrightarrow> s \<noteq> [] \<and> list_all name_char s"

definition RE_VERSION :: "string \<Rightarrow> bool" where
  "RE_VERSION s \<longleftrightarrow> s \<noteq> [] \<and> list_all ref_version_char s"

definition parse_meta :: "pydict \<Rightarrow> value_error + (string \<times> string \<times> string option)" where
  "parse_meta data =
     (let name = py_get data ''name''; version = py_get data ''version''; description = py_get data ''description''
      in if \<not> non_empty_str name then value_err ''manifest.name must be a non-empty string'' []
         else if \<not> RE_NAME (str_of name) then value_err ''manifest.name must match {}, got {!r}'' [AStr (str_of name)]
         else if \<not> non_empty_str version then value_err ''manifest.version must be a non-empty string'' []
         else if \<not> RE_VERSION (str_of version) then
           value_err ''manifest.version must match {}, got {!r}'' [AStr (str_of version)]
         else if \<not> str_or_none description then value_err ''manifest.description must be a string if present'' []
         else Inr (str_of name, str_of version, opt_str description))"

record execution_config =
  ex_entrypoint :: string
  ex_timeout_sec :: int
  ex_env :: "(string \<times> string) list"

fun positive_int :: "pyval \<Rightarrow> int option" where
  "positive_int (PInt n) = (if n \<le> 0 then None else Some n)"
| "positive_int _ = None"

fun env_entry :: "pyval \<times> pyval \<Rightarrow> value_error + (string \<times> string)" where
  "env_entry (PStr k, PStr v) = Inr (k, v)"
| "env_entry _ = value_err ''manifest.execution.env entries must be string->string, got {!r}={!r}'' []"

fun parse_execution :: "pyval \<Rightarrow> value_error + execution_config" where
  "parse_execution (PDict raw) =
     (let entrypoint = py_get raw ''entrypoint''
      in if \<not> non_empty_str entrypoint then
           value_err ''manifest.execution.entrypoint must be a non-empty string'' []
         else
           (case positive_int (py_get_default raw ''timeout_sec'' (PInt 900)) of
              None \<Rightarrow> value_err ''manifest.execution.timeout_sec must be a positive int, got {!r}'' []
            | Some timeout \<Rightarrow>
              (case py_get_default raw ''env'' (PDict []) of
                 PDict entries \<Rightarrow>
                   and_then (traverse env_entry entries) (\<lambda>env.
                     Inr \<lparr>ex_entrypoint = str_of entrypoint, ex_timeout_sec = timeout, ex_env = env\<rparr>)
               | _ \<Rightarrow> value_err ''manifest.execution.env must be a mapping'' [])))"
| "parse_execution _ = value_err ''manifest.execution must be a mapping'' []"

record outputs_config =
  ou_watch_dir :: string
  ou_extensions :: "string list"
  ou_object_key_template :: string

fun extension_entry :: "pyval \<Rightarrow> value_error + string" where
  "extension_entry (PStr e) =
     (if starts_with ''.'' e then Inr e
      else value_err ''manifest.outputs.extensions entries must be dot-prefixed strings, got {!r}'' [AStr e])"
| "extension_entry _ = value_err ''manifest.outputs.extensions entries must be dot-prefixed strings, got {!r}'' []"

definition default_template :: string where
  "default_template = ''{stem}{ext}''"

fun parse_outputs :: "pyval \<Rightarrow> value_error + outputs_config" where
  "parse_outputs (PDict raw) =
     (let watch_dir = py_get_default raw ''watch_dir'' (PStr ''output'')
      in if \<not> non_empty_str watch_dir then
           value_err ''manifest.outputs.watch_dir must be a non-empty string'' []
         else
           (case py_get_default raw ''extensions'' (PList []) of
              PList exts \<Rightarrow>
                and_then (traverse extension_entry exts) (\<lambda>extensions.
                  let template = py_get_default raw ''object_key_template'' (PStr default_template)
                  in if \<not> non_empty_str template then
                       value_err ''manifest.outputs.object_key_template must be a non-empty string'' []
                     else Inr \<lparr>ou_watch_dir = str_of watch_dir, ou_extensions = extensions,
                               ou_object_key_template = str_of template\<rparr>)
            | _ \<Rightarrow> value_err ''manifest.outputs.extensions must be a list if present'' []))"
| "parse_outputs _ = value_err ''manifest.outputs must be a mapping'' []"

record requirements_config =
  rq_python :: "string option"
  rq_pip :: "string list"
  rq_apt :: "string list"
  rq_credentials :: "string list"

definition string_list :: "pydict \<Rightarrow> string \<Rightarrow> value_error + string list" where
  "string_list raw key =
     (case py_get raw key of
        PNone \<Rightarrow> Inr []
      | PList vs \<Rightarrow> if list_all is_str vs then Inr (map str_of vs)
                   else value_err ''manifest.requirements.{} must be a list of strings'' [AStr key]
      | _ \<Rightarrow> value_err ''manifest.requirements.{} must be a list of strings'' [AStr key])"

fun parse_requirements :: "pyval \<Rightarrow> value_error + requirements_config" where
  "parse_requirements PNone = Inr \<lparr>rq_python = None, rq_pip = [], rq_apt = [], rq_credentials = []\<rparr>"
| "parse_requirements (PDict raw) =
     (let py = py_get raw ''python''
      in if \<not> str_or_none py then
           value_err ''manifest.requirements.python must be a string (PEP 440 specifier)'' []
         else
           and_then (string_list raw ''pip'') (\<lambda>pip.
           and_then (string_list raw ''apt'') (\<lambda>apt.
           and_then (string_list raw ''credentials'') (\<lambda>credentials.
             Inr \<lparr>rq_python = opt_str py, rq_pip = pip, rq_apt = apt, rq_credentials = credentials\<rparr>))))"
| "parse_requirements _ = value_err ''manifest.requirements must be a mapping if present'' []"

section \<open>The schema of the inputs\<close>

record input_slot =
  sl_name :: string
  sl_product :: string
  sl_filename_pattern :: "string option"
  sl_credential :: "string option"

record meta_field =
  mf_name :: string
  mf_pattern :: "string option"

record inputs_schema =
  is_slots :: "input_slot list"
  is_meta :: "meta_field list"

text \<open>An optional pattern: absent, or a string that compiles.\<close>

definition pattern_of :: "compiler \<Rightarrow> pyval \<Rightarrow> string \<Rightarrow> string \<Rightarrow> int \<Rightarrow> value_error + string option" where
  "pattern_of compile v not_string invalid idx =
     (case v of
        PNone \<Rightarrow> Inr None
      | PStr p \<Rightarrow> if compile p = None then value_err invalid [AInt idx] else Inr (Some p)
      | _ \<Rightarrow> value_err not_string [AInt idx])"

fun parse_slots :: "compiler \<Rightarrow> int \<Rightarrow> string list \<Rightarrow> pyval list \<Rightarrow> value_error + input_slot list" where
  "parse_slots compile idx seen [] = Inr []"
| "parse_slots compile idx seen (PDict s # rest) =
     (let name = py_get s ''name''; product = py_get s ''product''
      in if \<not> non_empty_str name then value_err ''inputs.slots[{}].name is required'' [AInt idx]
         else if \<not> non_empty_str product then value_err ''inputs.slots[{}].product is required'' [AInt idx]
         else if str_of name \<in> set seen then value_err ''duplicate slot name {!r}'' [AStr (str_of name)]
         else
           and_then (pattern_of compile (py_get s ''filename_pattern'')
               ''inputs.slots[{}].filename_pattern must be a string''
               ''inputs.slots[{}].filename_pattern invalid regex: {}'' idx) (\<lambda>fp.
             let credential = py_get s ''credential''
             in if \<not> str_or_none credential then
                  value_err ''inputs.slots[{}].credential must be a string'' [AInt idx]
                else
                  and_then (parse_slots compile (idx + 1) (seen @ [str_of name]) rest) (\<lambda>slots.
                    Inr (\<lparr>sl_name = str_of name, sl_product = str_of product, sl_filename_pattern = fp,
                          sl_credential = opt_str credential\<rparr> # slots))))"
| "parse_slots compile idx seen (_ # rest) = value_err ''inputs.slots[{}] must be a mapping'' [AInt idx]"

fun parse_meta_fields :: "compiler \<Rightarrow> int \<Rightarrow> pyval list \<Rightarrow> value_error + meta_field list" where
  "parse_meta_fields compile idx [] = Inr []"
| "parse_meta_fields compile idx (PDict m # rest) =
     (let name = py_get m ''name''
      in if \<not> non_empty_str name then value_err ''inputs.meta[{}].name is required'' [AInt idx]
         else
           and_then (pattern_of compile (py_get m ''pattern'')
               ''inputs.meta[{}].pattern must be a string'' ''inputs.meta[{}].pattern invalid regex: {}'' idx) (\<lambda>pat.
           and_then (parse_meta_fields compile (idx + 1) rest) (\<lambda>fields.
             Inr (\<lparr>mf_name = str_of name, mf_pattern = pat\<rparr> # fields))))"
| "parse_meta_fields compile idx (_ # rest) = value_err ''inputs.meta[{}] must be a mapping'' [AInt idx]"

text \<open>\<^verbatim>\<open>inputs.get("meta") or []\<close>, when it is a list.\<close>

fun list_or_empty :: "pyval \<Rightarrow> pyval list option" where
  "list_or_empty (PList ms) = Some ms"
| "list_or_empty v = (if truthy v then None else Some [])"

definition parse_inputs :: "compiler \<Rightarrow> pydict \<Rightarrow> value_error + inputs_schema" where
  "parse_inputs compile manifest =
     (case py_get manifest ''inputs'' of
        PDict inputs \<Rightarrow>
          (case py_get inputs ''slots'' of
             PList slots_raw \<Rightarrow>
               if slots_raw = [] then value_err ''manifest.inputs.slots must be a non-empty list'' []
               else
                 and_then (parse_slots compile 0 [] slots_raw) (\<lambda>slots.
                   case list_or_empty (py_get inputs ''meta'') of
                     None \<Rightarrow> value_err ''inputs.meta must be a list if present'' []
                   | Some ms \<Rightarrow>
                       and_then (parse_meta_fields compile 0 ms) (\<lambda>meta.
                         Inr \<lparr>is_slots = slots, is_meta = meta\<rparr>))
           | _ \<Rightarrow> value_err ''manifest.inputs.slots must be a non-empty list'' [])
      | _ \<Rightarrow> value_err ''manifest.inputs must be a mapping'' [])"

section \<open>Shared files and the whole manifest\<close>

fun shared_names :: "int \<Rightarrow> string list \<Rightarrow> pyval list \<Rightarrow> value_error + string list" where
  "shared_names idx seen [] = Inr []"
| "shared_names idx seen (item # rest) =
     (if \<not> non_empty_str item then value_err ''shared_files[{}] must be a non-empty string'' [AInt idx]
      else if \<not> is_safe_name (str_of item) then
        value_err ''shared_files[{}]={!r} must be a single safe segment'' [AInt idx, AStr (str_of item)]
      else if str_of item \<in> set seen then
        value_err ''shared_files has duplicate entry {!r}'' [AStr (str_of item)]
      else and_then (shared_names (idx + 1) (seen @ [str_of item]) rest) (\<lambda>names. Inr (str_of item # names)))"

definition parse_shared_files :: "pydict \<Rightarrow> value_error + string list" where
  "parse_shared_files manifest =
     (case py_get manifest ''shared_files'' of
        PNone \<Rightarrow> Inr []
      | PList raw \<Rightarrow> shared_names 0 [] raw
      | _ \<Rightarrow> value_err ''manifest.shared_files must be a list if present'' [])"

record bundle_manifest =
  bm_name :: string
  bm_version :: string
  bm_description :: "string option"
  bm_execution :: execution_config
  bm_outputs :: outputs_config
  bm_requirements :: requirements_config
  bm_inputs :: inputs_schema
  bm_shared_files :: "string list"

fun parse_manifest :: "compiler \<Rightarrow> pyval \<Rightarrow> value_error + bundle_manifest" where
  "parse_manifest compile (PDict data) =
     and_then (parse_meta data) (\<lambda>(name, version, description).
     and_then (parse_execution (py_get data ''execution'')) (\<lambda>execution.
     and_then (parse_outputs (py_get_default data ''outputs'' (PDict []))) (\<lambda>outputs.
     and_then (parse_requirements (py_get data ''requirements'')) (\<lambda>requirements.
     and_then (parse_inputs compile data) (\<lambda>inputs.
     and_then (parse_shared_files data) (\<lambda>shared.
       Inr \<lparr>bm_name = name, bm_version = version, bm_description = description,
            bm_execution = execution, bm_outputs = outputs, bm_requirements = requirements,
            bm_inputs = inputs, bm_shared_files = shared\<rparr>))))))"
| "parse_manifest compile _ = value_err ''manifest top level must be a mapping'' []"

section \<open>Validating a granule\<close>

record validation_result =
  vr_errors :: "fmt list"
  vr_warnings :: "fmt list"

definition search :: "compiler \<Rightarrow> string \<Rightarrow> string \<Rightarrow> bool" where
  "search compile pat s = (case compile pat of None \<Rightarrow> False | Some m \<Rightarrow> m s)"

definition pattern_ok :: "compiler \<Rightarrow> string option \<Rightarrow> string \<Rightarrow> bool" where
  "pattern_ok compile pat s = (case pat of None \<Rightarrow> True | Some p \<Rightarrow> search compile p s)"

definition slot_errors :: "compiler \<Rightarrow> string \<Rightarrow> input_spec list \<Rightarrow> input_slot \<Rightarrow> fmt list" where
  "slot_errors compile gid inputs slot =
     (case filter (\<lambda>i. in_product i = sl_product slot) inputs of
        [] \<Rightarrow> [(''granule {!r}: slot {!r} needs an input with product={!r}'',
               [AStr gid, AStr (sl_name slot), AStr (sl_product slot)])]
      | [got] \<Rightarrow>
          if pattern_ok compile (sl_filename_pattern slot) (in_filename got) then []
          else [(''granule {!r}: slot {!r} filename {!r} does not match pattern {!r}'',
                 [AStr gid, AStr (sl_name slot), AStr (in_filename got), AOpt (sl_filename_pattern slot)])]
      | got # others \<Rightarrow> [(''granule {!r}: slot {!r} (product={!r}) got {} inputs, expected 1'',
               [AStr gid, AStr (sl_name slot), AStr (sl_product slot), AInt (int (Suc (length others)))])])"

definition field_errors ::
  "compiler \<Rightarrow> (pyval \<Rightarrow> string) \<Rightarrow> string \<Rightarrow> (string \<times> pyval) list \<Rightarrow> meta_field \<Rightarrow> fmt list" where
  "field_errors compile py_str gid meta field =
     (case map_of meta (mf_name field) of
        None \<Rightarrow> [(''granule {!r}: missing required meta key {!r}'', [AStr gid, AStr (mf_name field)])]
      | Some v \<Rightarrow>
          if pattern_ok compile (mf_pattern field) (py_str v) then []
          else [(''granule {!r}: meta.{}={!r} does not match pattern {!r}'',
                 [AStr gid, AStr (mf_name field), AStr (py_str v), AOpt (mf_pattern field)])])"

definition validate_granule ::
  "compiler \<Rightarrow> (pyval \<Rightarrow> string) \<Rightarrow> inputs_schema \<Rightarrow> string \<Rightarrow> input_spec list \<Rightarrow> (string \<times> pyval) list
     \<Rightarrow> validation_result" where
  "validate_granule compile py_str schema gid inputs meta =
     (let declared = map sl_product (is_slots schema);
          extra = filter (\<lambda>p. p \<notin> set declared) (dedup (map in_product inputs));
          names = map mf_name (is_meta schema)
      in \<lparr>vr_errors = concat (map (slot_errors compile gid inputs) (is_slots schema))
             @ concat (map (field_errors compile py_str gid meta) (is_meta schema)),
          vr_warnings =
             map (\<lambda>p. (''granule {!r}: extra input(s) with product={!r} not declared in bundle schema ({} file(s))'',
                   [AStr gid, AStr p, AInt (int (row_count (\<lambda>i. in_product i = p) inputs))])) extra
             @ map (\<lambda>(k, v). (''granule {!r}: extra meta key {!r} not declared in bundle schema'', [AStr gid, AStr k]))
                 (filter (\<lambda>(k, v). k \<notin> set names) meta)\<rparr>)"

section \<open>Properties\<close>

lemma non_empty_str_iff: "non_empty_str v \<longleftrightarrow> (\<exists>s. v = PStr s \<and> s \<noteq> [])"
  by (cases v rule: non_empty_str.cases) auto

lemma parse_meta_ok:
  "parse_meta data = Inr (n, v, desc) \<Longrightarrow> RE_NAME n \<and> RE_VERSION v"
  by (auto simp: parse_meta_def Let_def split: if_splits)

lemma RE_VERSION_no_at: "RE_VERSION v \<Longrightarrow> v \<noteq> [] \<and> CHR ''@'' \<notin> set v"
  by (auto simp: RE_VERSION_def list_all_iff ref_version_char_def is_alnum_def is_digit_def is_alpha_def Let_def)

text \<open>
  What the parser guarantees of a manifest, as one predicate: legal identifiers, a positive
  timeout, dot-prefixed extensions, at least one input slot, slots named apart with a product and
  a pattern that compiles, shared files that are distinct safe segments.
\<close>

definition slot_ok :: "compiler \<Rightarrow> input_slot \<Rightarrow> bool" where
  "slot_ok compile s \<longleftrightarrow> sl_name s \<noteq> [] \<and> sl_product s \<noteq> []
     \<and> (case sl_filename_pattern s of None \<Rightarrow> True | Some p \<Rightarrow> compile p \<noteq> None)"

definition manifest_ok :: "compiler \<Rightarrow> bundle_manifest \<Rightarrow> bool" where
  "manifest_ok compile m \<longleftrightarrow>
     RE_NAME (bm_name m) \<and> RE_VERSION (bm_version m)
     \<and> ex_entrypoint (bm_execution m) \<noteq> [] \<and> 0 < ex_timeout_sec (bm_execution m)
     \<and> ou_watch_dir (bm_outputs m) \<noteq> [] \<and> ou_object_key_template (bm_outputs m) \<noteq> []
     \<and> list_all (starts_with ''.'') (ou_extensions (bm_outputs m))
     \<and> is_slots (bm_inputs m) \<noteq> [] \<and> distinct (map sl_name (is_slots (bm_inputs m)))
     \<and> list_all (slot_ok compile) (is_slots (bm_inputs m))
     \<and> distinct (bm_shared_files m) \<and> list_all is_safe_name (bm_shared_files m)"

lemma pattern_of_ok:
  "pattern_of compile v a b i = Inr p \<Longrightarrow> (case p of None \<Rightarrow> True | Some q \<Rightarrow> compile q \<noteq> None)"
  by (auto simp: pattern_of_def split: pyval.splits if_splits)

lemma parse_slots_ok:
  "parse_slots compile idx seen vs = Inr slots \<Longrightarrow>
     length slots = length vs \<and> list_all (slot_ok compile) slots \<and> distinct (map sl_name slots)
     \<and> set (map sl_name slots) \<inter> set seen = {}"
proof (induction compile idx seen vs arbitrary: slots rule: parse_slots.induct)
  case (2 compile idx seen s rest)
  then obtain fp slots' where fp: "pattern_of compile (py_get s ''filename_pattern'')
        ''inputs.slots[{}].filename_pattern must be a string''
        ''inputs.slots[{}].filename_pattern invalid regex: {}'' idx = Inr fp"
      and rest: "parse_slots compile (idx + 1) (seen @ [str_of (py_get s ''name'')]) rest = Inr slots'"
      and ne: "non_empty_str (py_get s ''name'')" "non_empty_str (py_get s ''product'')"
      and cred: "str_or_none (py_get s ''credential'')"
      and new: "str_of (py_get s ''name'') \<notin> set seen"
      and slots: "slots = \<lparr>sl_name = str_of (py_get s ''name''), sl_product = str_of (py_get s ''product''),
        sl_filename_pattern = fp, sl_credential = opt_str (py_get s ''credential'')\<rparr> # slots'"
    by (auto simp: Let_def split: if_splits)
  have "length slots' = length rest \<and> list_all (slot_ok compile) slots' \<and> distinct (map sl_name slots')
     \<and> set (map sl_name slots') \<inter> set (seen @ [str_of (py_get s ''name'')]) = {}"
    using "2.IH" [OF refl refl _ _ new refl _ rest] ne cred by blast
  moreover have "slot_ok compile (hd slots)"
    using pattern_of_ok [OF fp] ne by (auto simp: slots slot_ok_def non_empty_str_iff)
  ultimately show ?case using new by (auto simp: slots)
qed simp_all

lemma shared_names_ok:
  "shared_names idx seen vs = Inr names \<Longrightarrow>
     list_all is_safe_name names \<and> distinct names \<and> set names \<inter> set seen = {}"
  by (induction idx seen vs arbitrary: names rule: shared_names.induct) (auto split: if_splits)

lemma extension_entry_ok: "extension_entry v = Inr e \<Longrightarrow> starts_with ''.'' e"
  by (cases v rule: extension_entry.cases) (auto split: if_splits)

lemma traverse_all: "traverse f xs = Inr ys \<Longrightarrow> (\<And>x y. f x = Inr y \<Longrightarrow> P y) \<Longrightarrow> list_all P ys"
  by (induction xs arbitrary: ys) auto

lemma parse_execution_ok:
  "parse_execution v = Inr e \<Longrightarrow> ex_entrypoint e \<noteq> [] \<and> 0 < ex_timeout_sec e"
proof (induction v rule: parse_execution.induct)
  case (1 raw)
  have "positive_int x = Some n \<Longrightarrow> 0 < n" for x n
    by (cases x rule: positive_int.cases) (auto split: if_splits)
  with 1 show ?case
    by (auto simp: Let_def non_empty_str_iff split: if_splits option.splits pyval.splits)
qed simp_all

lemma parse_outputs_ok:
  "parse_outputs v = Inr o' \<Longrightarrow> ou_watch_dir o' \<noteq> [] \<and> ou_object_key_template o' \<noteq> []
     \<and> list_all (starts_with ''.'') (ou_extensions o')"
proof (induction v rule: parse_outputs.induct)
  case (1 raw)
  then show ?case
    by (auto simp: Let_def non_empty_str_iff split: if_splits pyval.splits
        intro: traverse_all extension_entry_ok)
qed simp_all

lemma parse_inputs_ok:
  "parse_inputs compile d = Inr s \<Longrightarrow>
     is_slots s \<noteq> [] \<and> distinct (map sl_name (is_slots s)) \<and> list_all (slot_ok compile) (is_slots s)"
  by (auto simp: parse_inputs_def Let_def split: pyval.splits if_splits option.splits dest!: parse_slots_ok)

lemma parse_shared_files_ok:
  "parse_shared_files d = Inr ns \<Longrightarrow> distinct ns \<and> list_all is_safe_name ns"
  by (auto simp: parse_shared_files_def split: pyval.splits dest: shared_names_ok)

text \<open>
  C16: Every manifest that is accepted is well formed, and its identifier works as a reference:
  the reference formatted from its name and version parses back to them.
\<close>

theorem parsed_manifest_ok:
  assumes "parse_manifest compile v = Inr m"
  shows "manifest_ok compile m
     \<and> parse_bundle_ref (format_bundle_ref (bm_name m) (bm_version m)) = Inr (bm_name m, bm_version m)"
proof -
  obtain data where v: "v = PDict data" using assms by (cases v) auto
  from assms obtain n ver desc ex ou rq ins sh where
    p: "parse_meta data = Inr (n, ver, desc)" "parse_execution (py_get data ''execution'') = Inr ex"
      "parse_outputs (py_get_default data ''outputs'' (PDict [])) = Inr ou"
      "parse_inputs compile data = Inr ins" "parse_shared_files data = Inr sh"
    and m: "m = \<lparr>bm_name = n, bm_version = ver, bm_description = desc, bm_execution = ex, bm_outputs = ou,
      bm_requirements = rq, bm_inputs = ins, bm_shared_files = sh\<rparr>"
    unfolding v by auto
  have "manifest_ok compile m"
    using parse_meta_ok [OF p(1)] parse_execution_ok [OF p(2)] parse_outputs_ok [OF p(3)]
      parse_inputs_ok [OF p(4)] parse_shared_files_ok [OF p(5)]
    by (simp add: m manifest_ok_def)
  moreover from this have "bm_name m \<noteq> []" "bm_version m \<noteq> [] \<and> CHR ''@'' \<notin> set (bm_version m)"
    using RE_VERSION_no_at by (auto simp: manifest_ok_def RE_NAME_def)
  ultimately show ?thesis by (simp add: bundle_ref_roundtrip_iff)
qed

definition py_field :: "string \<Rightarrow> pyval \<Rightarrow> pyval \<times> pyval" where
  "py_field k v = (PStr k, v)"

definition sample_manifest :: pyval where
  "sample_manifest = PDict [py_field ''name'' (PStr ''x''), py_field ''version'' (PStr ''1.0''),
     py_field ''execution'' (PDict [py_field ''entrypoint'' (PStr ''run.sh'')]),
     py_field ''outputs'' (PDict [py_field ''extensions'' (PList [PStr ''.tif''])]),
     py_field ''inputs'' (PDict [py_field ''slots'' (PList [PDict [py_field ''name'' (PStr ''a''),
        py_field ''product'' (PStr ''p''), py_field ''filename_pattern'' (PStr ''a+'')]])]),
     py_field ''shared_files'' (PList [PStr ''mask.bin''])]"

definition sample_compiler :: compiler where
  "sample_compiler p = (if p = ''('' then None else Some (contains p))"

definition sample_parsed :: bundle_manifest where
  "sample_parsed = \<lparr>bm_name = ''x'', bm_version = ''1.0'', bm_description = None,
     bm_execution = \<lparr>ex_entrypoint = ''run.sh'', ex_timeout_sec = 900, ex_env = []\<rparr>,
     bm_outputs = \<lparr>ou_watch_dir = ''output'', ou_extensions = [''.tif''], ou_object_key_template = ''{stem}{ext}''\<rparr>,
     bm_requirements = \<lparr>rq_python = None, rq_pip = [], rq_apt = [], rq_credentials = []\<rparr>,
     bm_inputs = \<lparr>is_slots = [\<lparr>sl_name = ''a'', sl_product = ''p'', sl_filename_pattern = Some ''a+'', sl_credential = None\<rparr>],
       is_meta = []\<rparr>,
     bm_shared_files = [''mask.bin'']\<rparr>"

theorem parsed_manifest_ok_witness: "manifest_ok sample_compiler sample_parsed"
proof -
  have "parse_manifest sample_compiler sample_manifest = Inr sample_parsed" by code_simp
  from parsed_manifest_ok [OF this] show ?thesis by blast
qed

text \<open>
  The specification of a granule that fits a schema: for every slot exactly one input of its
  product, named as the slot wants; for every declared meta field a value that matches.
\<close>

definition granule_fits ::
  "compiler \<Rightarrow> (pyval \<Rightarrow> string) \<Rightarrow> inputs_schema \<Rightarrow> input_spec list \<Rightarrow> (string \<times> pyval) list \<Rightarrow> bool" where
  "granule_fits compile py_str schema inputs meta \<longleftrightarrow>
     (\<forall>slot \<in> set (is_slots schema). \<exists>i. filter (\<lambda>i. in_product i = sl_product slot) inputs = [i]
        \<and> pattern_ok compile (sl_filename_pattern slot) (in_filename i))
     \<and> (\<forall>f \<in> set (is_meta schema). \<exists>v. map_of meta (mf_name f) = Some v
        \<and> pattern_ok compile (mf_pattern f) (py_str v))"

lemma slot_errors_Nil:
  "slot_errors compile gid inputs slot = [] \<longleftrightarrow>
     (\<exists>i. filter (\<lambda>i. in_product i = sl_product slot) inputs = [i]
        \<and> pattern_ok compile (sl_filename_pattern slot) (in_filename i))"
  by (auto simp: slot_errors_def split: list.splits)

lemma field_errors_Nil:
  "field_errors compile py_str gid meta f = [] \<longleftrightarrow>
     (\<exists>v. map_of meta (mf_name f) = Some v \<and> pattern_ok compile (mf_pattern f) (py_str v))"
  by (auto simp: field_errors_def split: option.splits)

text \<open>
  C17: Validation accepts a granule if and only if it fits the schema, and it warns, without
  refusing, exactly when the granule brings a product or a meta key that the bundle does not declare.
\<close>

theorem validate_granule_exact:
  "(vr_errors (validate_granule compile py_str schema gid inputs meta) = []
      \<longleftrightarrow> granule_fits compile py_str schema inputs meta)
   \<and> (vr_warnings (validate_granule compile py_str schema gid inputs meta) = []
      \<longleftrightarrow> set (map in_product inputs) \<subseteq> set (map sl_product (is_slots schema))
        \<and> set (map fst meta) \<subseteq> set (map mf_name (is_meta schema)))"
proof
  show "vr_errors (validate_granule compile py_str schema gid inputs meta) = []
      \<longleftrightarrow> granule_fits compile py_str schema inputs meta"
    by (simp add: validate_granule_def Let_def granule_fits_def slot_errors_Nil field_errors_Nil)
  show "vr_warnings (validate_granule compile py_str schema gid inputs meta) = []
      \<longleftrightarrow> set (map in_product inputs) \<subseteq> set (map sl_product (is_slots schema))
        \<and> set (map fst meta) \<subseteq> set (map mf_name (is_meta schema))"
    by (auto simp: validate_granule_def Let_def filter_empty_conv)
qed

end
