(* ===== verification/BatchesApi.thy ===== *)
theory BatchesApi
  imports ReceiversApi Manifest "HOL-Library.Char_ord" "HOL-Library.List_Lexorder"
begin

text \<open>
  The batch endpoints, \<^verbatim>\<open>src/sathop/orchestrator/api/batches.py\<close>: creating a batch and adding
  granules to one (with the validation against the bundle's schema), cancelling and retrying
  granules and batches, pausing, resetting exhausted objects, and deleting a batch.
  An exception that no handler catches is the server's answer 500, after the rollback.
\<close>

section \<open>Identifiers and requests\<close>

record granule_create =
  gc_granule_id :: string
  gc_inputs :: "input_spec list"
  gc_meta :: "(string \<times> pyval) list"

record batch_create =
  bc_batch_id :: "ident option"
  bc_name :: string
  bc_bundle_ref :: string
  bc_target_receiver :: "ident option"
  bc_execution_env :: "(string \<times> string) list"
  bc_credentials :: "(string \<times> credential) list"
  bc_granules :: "granule_create list"

definition internal_error :: http_error where
  "internal_error = HTTPException 500 (''Internal Server Error'', [])"

definition compose_gid :: "ident \<Rightarrow> string \<Rightarrow> ident" where
  "compose_gid batch_id user_gid = batch_id @ '':'' @ user_gid"

definition granule_in_batch_or_404 :: "ident \<Rightarrow> ident \<Rightarrow> orch \<Rightarrow> http_error + granule" where
  "granule_in_batch_or_404 batch_id granule_id d =
     and_then (get_or_404 (get_granule granule_id d) ''granule not found in batch'') (\<lambda>g.
       if gr_batch g \<noteq> batch_id then Inl (HTTPException 404 (''granule not found in batch'', [])) else Inr g)"

definition new_granule :: "ident \<Rightarrow> time \<Rightarrow> granule_create \<Rightarrow> granule" where
  "new_granule batch_id now g =
     \<lparr>gr_id = compose_gid batch_id (gc_granule_id g), gr_batch = batch_id, gr_state = PENDING,
      gr_inputs = gc_inputs g, gr_meta = gc_meta g, gr_leased_by = None, gr_lease_expires_at = None,
      gr_error = None, gr_stdout_tail = None, gr_stderr_tail = None, gr_retry_count = 0,
      gr_created_at = now, gr_updated_at = now\<rparr>"

section \<open>Validation\<close>

text \<open>The identifiers that occur twice, and the errors and warnings of all granules in order.\<close>

definition duplicates :: "string list \<Rightarrow> string list" where
  "duplicates xs = dedup (filter (\<lambda>x. row_count (\<lambda>y. y = x) xs > 1) xs)"

definition granule_results ::
  "compiler \<Rightarrow> (pyval \<Rightarrow> string) \<Rightarrow> inputs_schema \<Rightarrow> granule_create list \<Rightarrow> validation_result list" where
  "granule_results compile py_str schema gs =
     map (\<lambda>g. validate_granule compile py_str schema (gc_granule_id g) (gc_inputs g) (gc_meta g)) gs"

text \<open>The text of at most twenty errors (\<^verbatim>\<open>"\n".join(errors[:20])\<close>); how they are joined is not modelled.\<close>

definition first_errors :: "fmt list \<Rightarrow> fmt" where
  "first_errors errs =
     (''granule schema validation failed: '' @ concat (map fst (take 20 errs)), concat (map snd (take 20 errs)))"

definition validate_granules_for_bundle ::
  "compiler \<Rightarrow> (pyval \<Rightarrow> string) \<Rightarrow> string \<Rightarrow> granule_create list \<Rightarrow> orch \<Rightarrow> http_error + fmt list" where
  "validate_granules_for_bundle compile py_str bundle_ref gs d =
     (case parse_bundle_ref bundle_ref of
        Inl e \<Rightarrow> Inl internal_error
      | Inr (name, version) \<Rightarrow>
          (case get_bundle name version d of
             None \<Rightarrow> Inl (HTTPException 422 (''bundle {}@'' @ ''{} not registered'', [AStr name, AStr version]))
           | Some b \<Rightarrow>
               (case bn_manifest b of
                  PDict manifest \<Rightarrow>
                    (case parse_inputs compile manifest of
                       Inl e \<Rightarrow> Inl internal_error
                     | Inr schema \<Rightarrow>
                         let rs = granule_results compile py_str schema gs;
                             errs = concat (map vr_errors rs);
                             dups = duplicates (map gc_granule_id gs)
                         in if dups \<noteq> [] then
                              Inl (HTTPException 422 (''duplicate granule_id(s) within batch: '', map AStr (take 20 (sort dups))))
                            else if errs \<noteq> [] then Inl (HTTPException 422 (first_errors errs))
                            else Inr (concat (map vr_warnings rs)))
                | _ \<Rightarrow> Inl internal_error)))"

definition batch_granule_ids :: "ident \<Rightarrow> orch \<Rightarrow> ident list" where
  "batch_granule_ids batch_id d = map gr_id (filter (\<lambda>g. gr_batch g = batch_id) (granules d))"

definition log_warnings :: "fmt list \<Rightarrow> orch \<Rightarrow> orch" where
  "log_warnings ws d = fold (\<lambda>w. log_event ''warn'' ''orchestrator'' w None None) (take 20 ws) d"

section \<open>Creating\<close>

text \<open>
  \<^verbatim>\<open>secrets.token_urlsafe\<close> is the parameter \<open>token\<close>: its value at each of the ten attempts.
\<close>

definition choose_batch_id :: "(nat \<Rightarrow> ident) \<Rightarrow> ident option \<Rightarrow> orch \<Rightarrow> http_error + ident" where
  "choose_batch_id token req_id d =
     (case req_id of
        None \<Rightarrow>
          (case List.find (\<lambda>c. get_batch c d = None) (map token [0..<10]) of
             None \<Rightarrow> Inl (HTTPException 500 (''failed to generate unique batch_id'', []))
           | Some c \<Rightarrow> Inr c)
      | Some k \<Rightarrow> if get_batch k d \<noteq> None then Inl (HTTPException 409 (''batch_id already exists'', [])) else Inr k)"

definition check_bundle :: "string \<Rightarrow> orch \<Rightarrow> http_error + unit" where
  "check_bundle bundle_ref d =
     (case parse_bundle_ref bundle_ref of
        Inl (ValueError msg) \<Rightarrow> Inl (HTTPException 422 msg)
      | Inr (name, version) \<Rightarrow>
          (case get_bundle name version d of
             None \<Rightarrow> Inl (HTTPException 422 (''bundle {}@'' @ ''{} not registered -- upload it to /api/bundles first'',
                         [AStr name, AStr version]))
           | Some b \<Rightarrow>
               (case bn_manifest b of
                  PDict manifest \<Rightarrow>
                    (case parse_shared_files manifest of
                       Inl e \<Rightarrow> Inl internal_error
                     | Inr names \<Rightarrow>
                         let missing = filter (\<lambda>n. n \<notin> sf_name ` set (shared_files d)) names
                         in if missing \<noteq> [] then
                              Inl (HTTPException 422 (''bundle {}@'' @ ''{} references shared file(s) not in registry: {}'',
                                   AStr name # AStr version # map AStr missing))
                            else Inr ())
                | _ \<Rightarrow> Inl internal_error)))"

definition new_batch :: "batch_create \<Rightarrow> ident \<Rightarrow> time \<Rightarrow> batch" where
  "new_batch req batch_id now =
     \<lparr>bt_id = batch_id, bt_name = bc_name req, bt_bundle_ref = bc_bundle_ref req,
      bt_target_receiver = bc_target_receiver req, bt_status = ''running'', bt_created_at = now,
      bt_execution_env = bc_execution_env req, bt_credentials = bc_credentials req,
      bt_delivered_count = Some 0\<rparr>"

text \<open>
  Rows to be inserted whose primary key exists make the commit fail (\<^verbatim>\<open>IntegrityError\<close>).
\<close>

definition insert_granules :: "granule list \<Rightarrow> orch \<Rightarrow> http_error + orch" where
  "insert_granules gs d =
     (if list_ex (\<lambda>g. get_granule (gr_id g) d \<noteq> None) gs \<or> \<not> distinct (map gr_id gs) then Inl internal_error
      else Inr (d\<lparr>granules := granules d @ gs\<rparr>))"

definition create_batch ::
  "compiler \<Rightarrow> (pyval \<Rightarrow> string) \<Rightarrow> (nat \<Rightarrow> ident) \<Rightarrow> time \<Rightarrow> batch_create \<Rightarrow> batch handler" where
  "create_batch compile py_str token now req d =
     and_then (choose_batch_id token (bc_batch_id req) d) (\<lambda>batch_id.
     and_then (check_bundle (bc_bundle_ref req) d) (\<lambda>_.
     and_then (validate_granules_for_bundle compile py_str (bc_bundle_ref req) (bc_granules req) d) (\<lambda>warnings.
       let b = new_batch req batch_id now
       in and_then (insert_granules (map (new_granule batch_id now) (bc_granules req)) (d\<lparr>batches := batches d @ [b]\<rparr>)) (\<lambda>d1.
            Inr (b, commit_and_publish now [Some BATCHES]
                   (log_warnings warnings
                     (log_event ''info'' ''orchestrator'' (''created batch {} with {} granules'',
                        [AStr batch_id, AInt (int (length (bc_granules req)))]) None None d1)))))))"

definition add_granules ::
  "compiler \<Rightarrow> (pyval \<Rightarrow> string) \<Rightarrow> time \<Rightarrow> ident \<Rightarrow> granule_create list \<Rightarrow> (nat \<times> nat) handler" where
  "add_granules compile py_str now batch_id gs d =
     and_then (get_or_404 (get_batch batch_id d) ''batch not found'') (\<lambda>b.
     and_then (validate_granules_for_bundle compile py_str (bt_bundle_ref b) gs d) (\<lambda>warnings.
       let existing = filter (\<lambda>k. get_granule k d \<noteq> None) (map (\<lambda>g. compose_gid batch_id (gc_granule_id g)) gs);
           fresh = filter (\<lambda>g. compose_gid batch_id (gc_granule_id g) \<notin> set existing) gs;
           added = length fresh; skipped = length gs - length fresh
       in and_then (insert_granules (map (new_granule batch_id now) fresh) d) (\<lambda>d1.
            Inr ((added, skipped),
                 commit_and_publish now [if added = 0 then None else Some BATCHES] (log_warnings warnings d1)))))"

section \<open>Operator actions\<close>

definition reset_exhausted_objects :: "settings \<Rightarrow> time \<Rightarrow> ident \<Rightarrow> nat handler" where
  "reset_exhausted_objects cfg now batch_id d =
     and_then (get_or_404 (get_batch batch_id d) ''batch not found'') (\<lambda>b.
       let p = (\<lambda>x. ob_granule x \<in> set (batch_granule_ids batch_id d) \<and> object_is_exhausted cfg x);
           n = row_count p (objects d);
           d1 = d\<lparr>objects := upd_where p (\<lambda>x. x\<lparr>ob_failed_pulls := Some 0\<rparr>) (objects d)\<rparr>
       in Inr (n, commit_and_publish now [if n = 0 then None else Some BATCHES]
            (if n = 0 then d1
             else log_event ''info'' ''orchestrator'' (''reset {} exhausted-pull objects in batch {}'',
                    [AInt (int n), AStr batch_id]) None None d1)))"

definition retry_failed :: "settings \<Rightarrow> time \<Rightarrow> ident \<Rightarrow> bool \<Rightarrow> nat handler" where
  "retry_failed cfg now batch_id include_blacklisted d =
     and_then (get_or_404 (get_batch batch_id d) ''batch not found'') (\<lambda>b.
       let states = FAILED # (if include_blacklisted then [BLACKLISTED] else []);
           ids = map gr_id (filter (\<lambda>g. gr_batch g = batch_id \<and> gr_state g \<in> set states) (granules d));
           d1 = for_granules (\<lambda>g. apply_or_skip cfg g (RetryGranule (gr_id g)) now) ids d
       in Inr (length ids, commit_and_publish now [if ids = [] then None else Some BATCHES] d1))"

definition pause_batch :: "time \<Rightarrow> ident \<Rightarrow> string handler" where
  "pause_batch now batch_id d =
     and_then (get_or_404 (get_batch batch_id d) ''batch not found'') (\<lambda>b.
       Inr (''paused'',
            if bt_status b = ''paused'' then d
            else commit_and_publish now [Some BATCHES]
              (log_event ''warn'' ''admin'' (''paused batch {}'', [AStr batch_id]) None None
                (d\<lparr>batches := upd_where (\<lambda>x. bt_id x = batch_id) (\<lambda>x. x\<lparr>bt_status := ''paused''\<rparr>) (batches d)\<rparr>))))"

definition resume_batch :: "time \<Rightarrow> ident \<Rightarrow> string handler" where
  "resume_batch now batch_id d =
     and_then (get_or_404 (get_batch batch_id d) ''batch not found'') (\<lambda>b.
       Inr (''running'',
            if bt_status b = ''running'' then d
            else commit_and_publish now [Some BATCHES]
              (log_event ''info'' ''admin'' (''resumed batch {}'', [AStr batch_id]) None None
                (d\<lparr>batches := upd_where (\<lambda>x. bt_id x = batch_id) (\<lambda>x. x\<lparr>bt_status := ''running''\<rparr>) (batches d)\<rparr>))))"

definition cancel_granule :: "settings \<Rightarrow> time \<Rightarrow> ident \<Rightarrow> ident \<Rightarrow> granule_state handler" where
  "cancel_granule cfg now batch_id granule_id d =
     and_then (granule_in_batch_or_404 batch_id granule_id d) (\<lambda>g.
     and_then (raise_409 (\<lambda>g c. (''cannot cancel granule in state {!r}'', [AStr (state_value (gr_state g))]))
                 cfg g (CancelGranule granule_id) now d) (\<lambda>(r, d1).
       Inr (new_state r, commit_and_publish now [Some BATCHES]
              (log_event ''warn'' ''admin'' (''cancelled granule {}'', [AStr granule_id]) (Some granule_id) (Some batch_id)
                (evict_granule granule_id d1)))))"

definition retry_granule :: "settings \<Rightarrow> time \<Rightarrow> ident \<Rightarrow> ident \<Rightarrow> granule_state handler" where
  "retry_granule cfg now batch_id granule_id d =
     and_then (granule_in_batch_or_404 batch_id granule_id d) (\<lambda>g.
     and_then (raise_409 (\<lambda>g c. (''cannot retry granule in state {!r}'', [AStr (state_value (gr_state g))]))
                 cfg g (RetryGranule granule_id) now d) (\<lambda>(r, d1).
       Inr (new_state r, commit_and_publish now [Some BATCHES]
              (log_event ''info'' ''admin'' (''retried granule {}'', [AStr granule_id]) (Some granule_id) (Some batch_id) d1))))"

definition cancel_batch :: "settings \<Rightarrow> time \<Rightarrow> ident \<Rightarrow> nat handler" where
  "cancel_batch cfg now batch_id d =
     and_then (get_or_404 (get_batch batch_id d) ''batch not found'') (\<lambda>b.
       let ids = map gr_id (filter (\<lambda>g. gr_batch g = batch_id \<and> gr_state g \<in> set CANCELLABLE_STATES) (granules d));
           d1 = for_granules (\<lambda>g d. evict_granule (gr_id g) (apply_or_skip cfg g (CancelGranule (gr_id g)) now d)) ids d;
           d2 = (if ids = [] then d1
                 else log_event ''warn'' ''admin'' (''cancelled batch {}: {} granules blacklisted'',
                        [AStr batch_id, AInt (int (length ids))]) None None d1)
       in Inr (length ids, commit_and_publish now [if ids = [] then None else Some BATCHES] d2))"

section \<open>Deleting a batch\<close>

definition evict_events :: "ident list \<Rightarrow> orch \<Rightarrow> nat \<times> orch" where
  "evict_events gids d =
     (let p = (\<lambda>e. case ed_granule (me_draft e) of None \<Rightarrow> False | Some k \<Rightarrow> k \<in> set gids)
      in (row_count p (feed d), d\<lparr>feed := del_where p (feed d)\<rparr>))"

definition delete_batch :: "settings \<Rightarrow> digest \<Rightarrow> time \<Rightarrow> ident \<Rightarrow> bool \<Rightarrow> (reap_counts \<times> nat) handler" where
  "delete_batch cfg digest now batch_id force d =
     and_then (get_or_404 (get_batch batch_id d) ''batch not found'') (\<lambda>b.
       let busy = row_count (\<lambda>g. gr_batch g = batch_id \<and> gr_state g \<in> set LEASED_STATES) (granules d)
       in if \<not> force \<and> busy \<noteq> 0 then
            Inl (HTTPException 409 (''{} granules are mid-flight on workers; cancel the batch first or pass ?force=true'',
                 [AInt (int busy)]))
          else
            let ids = batch_granule_ids batch_id d;
                (counts, d1) = reap_granules digest ids d;
                (pg_events, d2) = (if ids \<noteq> [] \<and> is_postgres cfg then evict_events ids d1 else (0, d1));
                d3 = d2\<lparr>batches := del_where (\<lambda>x. bt_id x = batch_id) (batches d2)\<rparr>;
                d4 = commit_and_publish now [Some BATCHES]
                  (log_event ''warn'' ''admin'' (''deleted batch {} (force={}, {})'',
                     [AStr batch_id, AInt (if force then 1 else 0), AInt (int (n_granules counts))]) None None d3);
                (mem_events, d5) = (if ids \<noteq> [] \<and> \<not> is_postgres cfg then evict_events ids d4 else (0, d4));
                d6 = (if ids = [] then d5 else evict_granules ids d5)
            in Inr ((counts, pg_events + mem_events), d6))"

section \<open>Integrity\<close>

lemma insert_granules_inv:
  assumes "db_inv dg d" and "insert_granules gs d = Inr d'"
    and "\<And>g. g \<in> set gs \<Longrightarrow> granule_ok g \<and> gr_state g = PENDING \<and> gr_batch g \<in> bt_id ` set (batches d)"
  shows "db_inv dg d'"
proof -
  note inv = assms(1) [unfolded db_inv_def]
  have d': "d' = d\<lparr>granules := granules d @ gs\<rparr>" and dist: "distinct (map gr_id gs)"
    and fresh: "\<And>g. g \<in> set gs \<Longrightarrow> gr_id g \<notin> gr_id ` set (granules d)"
    using assms(2) by (auto simp: insert_granules_def list_ex_iff get_granule_def split: if_splits)
  have "row_count (deleted_in b) gs = 0" for b using assms(3) by (simp add: deleted_in_def)
  then have "counters_ok d'" using inv by (simp add: counters_ok_def d' del: row_count_0)
  moreover have "gr_id ` set (granules d) \<inter> gr_id ` set gs = {}" 
  proof (rule equals0I)
    fix k assume "k \<in> gr_id ` set (granules d) \<inter> gr_id ` set gs"
    then obtain g where "g \<in> set gs" "k = gr_id g" by blast
    with fresh [of g] \<open>k \<in> _\<close> show False by simp
  qed
  then have "keys_ok d'" using inv dist by (simp add: keys_ok_def d')
  moreover have "refs_ok d'" using inv assms(3) by (auto simp: refs_ok_def d')
  moreover have "rows_ok d'" using inv assms(3) by (auto simp: rows_ok_def d')
  moreover have "objects_ok d'"
    unfolding objects_ok_def
  proof (intro ballI impI)
    fix x g assume x: "x \<in> set (objects d')" and g: "g \<in> set (granules d')" "gr_id g = ob_granule x"
    have "ob_granule x \<in> gr_id ` set (granules d)" using inv x by (simp add: refs_ok_def d')
    then have "g \<notin> set gs" using fresh [of g] g(2) by auto
    with inv x g show "gr_state g \<in> stored \<and> (gr_state g = ACKED \<longrightarrow> ob_acked_at x \<noteq> None)"
      by (simp add: objects_ok_def d')
  qed
  moreover have "receipts_ok dg d'" using inv by (simp add: receipts_ok_def has_delivery_record_def d')
  ultimately show ?thesis by (simp add: db_inv_def)
qed

lemma new_granule_ok: "granule_ok (new_granule b now g) \<and> gr_state (new_granule b now g) = PENDING"
  by (simp add: new_granule_def granule_ok_def lease_ok_def tails_ok_def)

lemma new_batch_inv:
  assumes "db_inv dg d" and "get_batch k d = None"
  shows "db_inv dg (d\<lparr>batches := batches d @ [new_batch req k now]\<rparr>)"
proof -
  note inv = assms(1) [unfolded db_inv_def]
  have k: "k \<notin> bt_id ` set (batches d)" using assms(2) by (simp add: get_batch_def)
  have "row_count (deleted_in k) (granules d) = 0"
    unfolding row_count_0 using inv k by (auto simp: deleted_in_def refs_ok_def)
  with inv k show ?thesis
    by (auto simp: db_inv_def inv_defs has_delivery_record_def new_batch_def)
qed

lemma log_warnings_frame [simp]:
  "batches (log_warnings ws d) = batches d" "granules (log_warnings ws d) = granules d"
  "objects (log_warnings ws d) = objects d" "timings (log_warnings ws d) = timings d"
  "deliveries (log_warnings ws d) = deliveries d"
  by (simp_all add: log_warnings_def fold_keeps)

lemma log_warnings_inv [simp]: "db_inv dg (log_warnings ws d) \<longleftrightarrow> db_inv dg d"
  by (rule db_inv_cong) simp_all

lemma chosen_fresh: "choose_batch_id token r d = Inr k \<Longrightarrow> get_batch k d = None"
  by (auto simp: choose_batch_id_def find_Some_iff split: option.splits if_splits)

lemma create_batch_inv [step_intros]:
  assumes "db_inv dg d" and "create_batch compile py_str token now req d = Inr (b, d')"
  shows "db_inv dg d'"
proof -
  obtain k d1 where k: "choose_batch_id token (bc_batch_id req) d = Inr k"
    and d1: "insert_granules (map (new_granule k now) (bc_granules req)) (d\<lparr>batches := batches d @ [new_batch req k now]\<rparr>) = Inr d1"
    and inv: "db_inv dg d' \<longleftrightarrow> db_inv dg d1"
    using assms(2) by (auto simp: create_batch_def Let_def)
  have "db_inv dg d1"
    by (rule insert_granules_inv [OF new_batch_inv [OF assms(1) chosen_fresh [OF k]] d1])
      (use new_granule_ok in \<open>auto simp: new_granule_def new_batch_def\<close>)
  then show ?thesis by (simp add: inv)
qed

lemma add_granules_inv [step_intros]:
  assumes "db_inv dg d" and "add_granules compile py_str now k gs d = Inr (r, d')"
  shows "db_inv dg d'"
proof -
  obtain b d1 hs where b: "get_batch k d = Some b"
    and d1: "insert_granules (map (new_granule k now) hs) d = Inr d1"
    and inv: "db_inv dg d' \<longleftrightarrow> db_inv dg d1"
    using assms(2) by (auto simp: add_granules_def Let_def)
  have "k \<in> bt_id ` set (batches d)" using b by (auto simp: get_batch_def dest!: get_row_Some)
  then have "db_inv dg d1"
    by (intro insert_granules_inv [OF assms(1) d1]) (use new_granule_ok in \<open>auto simp: new_granule_def\<close>)
  then show ?thesis by (simp add: inv)
qed

lemma operator_events_allowed [intro, simp]:
  "transition_allowed d g (CancelGranule k)" "transition_allowed d g (RetryGranule k)"
  by (simp_all add: transition_allowed_def)

lemma applied_inv:
  "apply_transition cfg g e now d = Inr (r, d') \<Longrightarrow> get_granule k d = Some g \<Longrightarrow> db_inv dg d
     \<Longrightarrow> transition_allowed d g e \<Longrightarrow> db_inv dg d'"
  using transition_keeps_inv get_granule_in by blast

lemma status_inv: "db_inv dg d \<Longrightarrow> db_inv dg (d\<lparr>batches := upd_where p (\<lambda>x. x\<lparr>bt_status := s\<rparr>) (batches d)\<rparr>)"
proof -
  assume inv: "db_inv dg d"
  let ?f = "\<lambda>x. x\<lparr>bt_status := s\<rparr>"
  have "map bt_id (upd_where p ?f (batches d)) = map bt_id (batches d)" by (rule map_upd_where) simp
  moreover from this have "bt_id ` set (upd_where p ?f (batches d)) = bt_id ` set (batches d)" by (metis list.set_map)
  moreover have "\<exists>x \<in> set (batches d). bt_id y = bt_id x \<and> bt_delivered_count y = bt_delivered_count x"
    if "y \<in> set (upd_where p ?f (batches d))" for y
    using that by (rule in_upd_whereE) auto
  then have "counters_ok (d\<lparr>batches := upd_where p ?f (batches d)\<rparr>)"
    using inv by (fastforce simp: db_inv_def counters_ok_def)
  ultimately show ?thesis
    using inv by (simp add: db_inv_def inv_defs has_delivery_record_def)
qed

lemma batch_ops_inv [step_intros]:
  "db_inv dg d \<Longrightarrow> reset_exhausted_objects cfg now k d = Inr (n, d') \<Longrightarrow> db_inv dg d'"
  "db_inv dg d \<Longrightarrow> pause_batch now k d = Inr (s, d') \<Longrightarrow> db_inv dg d'"
  "db_inv dg d \<Longrightarrow> resume_batch now k d = Inr (s, d') \<Longrightarrow> db_inv dg d'"
  "db_inv dg d \<Longrightarrow> cancel_granule cfg now k gid d = Inr (st, d') \<Longrightarrow> db_inv dg d'"
  "db_inv dg d \<Longrightarrow> retry_granule cfg now k gid d = Inr (st, d') \<Longrightarrow> db_inv dg d'"
  "db_inv dg d \<Longrightarrow> retry_failed cfg now k i d = Inr (n, d') \<Longrightarrow> db_inv dg d'"
  "db_inv dg d \<Longrightarrow> cancel_batch cfg now k d = Inr (n, d') \<Longrightarrow> db_inv dg d'"
  by (auto simp: reset_exhausted_objects_def pause_batch_def resume_batch_def cancel_granule_def retry_granule_def
      retry_failed_def cancel_batch_def granule_in_batch_or_404_def Let_def split: if_splits
      intro: reset_pulls.keeps_inv_objects status_inv
      intro!: for_granules_inv [where P = "db_inv dg"] apply_or_skip_inv)
    (erule (2) applied_inv, simp)+

lemma drop_batch_inv:
  assumes "db_inv dg d" and "\<And>g. g \<in> set (granules d) \<Longrightarrow> gr_batch g \<noteq> k"
  shows "db_inv dg (d\<lparr>batches := del_where (\<lambda>x. bt_id x = k) (batches d)\<rparr>)"
proof -
  let ?d = "d\<lparr>batches := del_where (\<lambda>x. bt_id x = k) (batches d)\<rparr>"
  note inv = assms(1) [unfolded db_inv_def]
  have bs: "set (batches ?d) = {b \<in> set (batches d). bt_id b \<noteq> k}" by (simp add: del_where_def)
  have "bt_id ` set (batches ?d) = bt_id ` set (batches d) - {k}" unfolding bs by blast
  then have "refs_ok ?d" using inv assms(2) by (auto simp: refs_ok_def)
  moreover have "keys_ok ?d" using inv by (simp add: keys_ok_def distinct_del_where)
  moreover have "counters_ok ?d" using inv by (simp add: counters_ok_def del_where_def)
  ultimately show ?thesis
    using inv by (simp add: db_inv_def rows_ok_def objects_ok_def receipts_ok_def has_delivery_record_def)
qed

lemma evict_events_frame [simp]:
  "granules (snd (evict_events ks d)) = granules d" "objects (snd (evict_events ks d)) = objects d"
  "timings (snd (evict_events ks d)) = timings d" "batches (snd (evict_events ks d)) = batches d"
  "deliveries (snd (evict_events ks d)) = deliveries d"
  by (simp_all add: evict_events_def Let_def)

lemma delete_batch_tables:
  assumes "delete_batch cfg dg now k force d = Inr (r, d')"
  shows "let e = snd (reap_granules dg (batch_granule_ids k d) d) in
     granules d' = granules e \<and> objects d' = objects e \<and> timings d' = timings e \<and> deliveries d' = deliveries e
     \<and> batches d' = del_where (\<lambda>x. bt_id x = k) (batches e) \<and> fst r = fst (reap_granules dg (batch_granule_ids k d) d)"
  using assms
  by (auto simp: delete_batch_def Let_def split: if_splits prod.splits)
    (simp_all add: evict_events_def Let_def)

lemma in_batch_ids:
  "distinct (map gr_id (granules d)) \<Longrightarrow> g \<in> set (granules d) \<Longrightarrow>
     gr_id g \<in> set (batch_granule_ids k d) \<longleftrightarrow> gr_batch g = k"
  by (auto simp: batch_granule_ids_def dest: distinct_key_eq)

lemma delete_batch_inv [step_intros]:
  assumes "inj_digest dg" and "db_inv dg d" and "delete_batch cfg dg now k force d = Inr (r, d')"
  shows "db_inv dg d'"
proof -
  let ?e = "snd (reap_granules dg (batch_granule_ids k d) d)"
  have dist: "distinct (map gr_id (granules d))" using assms(2) by (simp add: db_inv_def keys_ok_def)
  note t = delete_batch_tables [OF assms(3), unfolded Let_def]
  have "db_inv dg ?e" by (rule reap_keeps_inv [OF assms(1,2)])
  then have "db_inv dg (?e\<lparr>batches := del_where (\<lambda>x. bt_id x = k) (batches ?e)\<rparr>)"
  proof (rule drop_batch_inv)
    fix g assume "g \<in> set (granules ?e)"
    then show "gr_batch g \<noteq> k"
      using reap_granules_reaped(1) [of "batch_granule_ids k d" d dg] in_batch_ids [OF dist] by (auto simp: reaped_def)
  qed
  then show ?thesis by (rule iffD1 [OF db_inv_cong, rotated 5]) (simp_all add: t)
qed

section \<open>Properties of identifiers and of adding\<close>

text \<open>
  Within a batch, and between batches whose identifiers have no colon, composed granule
  identifiers are unique; but a batch identifier is not checked for colons, and two batches one of
  which extends the other past a colon can compose the same identifier.
\<close>

theorem composed_ids_unique:
  "(compose_gid b u = compose_gid b u' \<longleftrightarrow> u = u')
   \<and> (CHR '':'' \<in> set b \<or> CHR '':'' \<in> set b' \<or> (compose_gid b u = compose_gid b' u' \<longleftrightarrow> b = b' \<and> u = u'))
   \<and> (\<exists>c c' v v'. c \<noteq> c' \<and> compose_gid c v = compose_gid c' v')"
proof -
  have "b = b' \<and> u = u'" if "CHR '':'' \<notin> set b" "CHR '':'' \<notin> set b'" "compose_gid b u = compose_gid b' u'"
  proof -
    have cut: "takeWhile (\<lambda>c. c \<noteq> CHR '':'') (compose_gid x y) = x" if "CHR '':'' \<notin> set x" for x y
      using that by (induction x) (auto simp: compose_gid_def)
    from cut [OF that(1), of u] cut [OF that(2), of u'] that(3) have "b = b'" by simp
    with that(3) show ?thesis by (simp add: compose_gid_def)
  qed
  moreover have "compose_gid ''a'' ''b:c'' = compose_gid ''a:b'' ''c''" "''a'' \<noteq> ''a:b''"
    by (simp_all add: compose_gid_def)
  then have "\<exists>c c' v v'. c \<noteq> c' \<and> compose_gid c v = compose_gid c' v'" by blast
  moreover have "compose_gid b u = compose_gid b u' \<longleftrightarrow> u = u'" by (simp add: compose_gid_def)
  ultimately show ?thesis by blast
qed

lemma add_granules_effect:
  assumes "add_granules compile py_str now k gs d = Inr ((added, skipped), d')"
  shows "let fresh = filter (\<lambda>g. compose_gid k (gc_granule_id g) \<notin> gr_id ` set (granules d)) gs in
      granules d' = granules d @ map (new_granule k now) fresh \<and> added = length fresh
      \<and> added + skipped = length gs \<and> objects d' = objects d \<and> timings d' = timings d \<and> batches d' = batches d
      \<and> deliveries d' = deliveries d \<and> bundles d' = bundles d"
proof -
  have fresh: "filter (\<lambda>g. compose_gid k (gc_granule_id g)
        \<notin> set (filter (\<lambda>i. get_granule i d \<noteq> None) (map (\<lambda>g. compose_gid k (gc_granule_id g)) gs))) gs
      = filter (\<lambda>g. compose_gid k (gc_granule_id g) \<notin> gr_id ` set (granules d)) gs"
    by (rule filter_cong) (auto simp: get_granule_def)
  have "bundles (log_warnings ws e) = bundles e" for ws e by (simp add: log_warnings_def fold_keeps)
  with assms show ?thesis
    unfolding add_granules_def Let_def fresh by (auto simp: insert_granules_def split: if_splits)
qed

text \<open>
  Adding granules to a batch appends one fresh \<open>PENDING\<close> granule for each submitted identifier that
  does not exist yet and changes nothing else; submitting the same list again adds nothing, skips
  every granule and leaves the tables as they are.
\<close>

theorem add_granules_idempotent:
  assumes "add_granules compile py_str now k gs d = Inr ((added, skipped), d')"
  shows "granules d' = granules d @ map (new_granule k now)
           (filter (\<lambda>g. compose_gid k (gc_granule_id g) \<notin> gr_id ` set (granules d)) gs)
    \<and> added = length (granules d') - length (granules d) \<and> added + skipped = length gs
    \<and> (\<exists>d''. add_granules compile py_str now' k gs d' = Inr ((0, length gs), d'') \<and> tables d'' = tables d')"
proof -
  note e = add_granules_effect [OF assms, unfolded Let_def]
  let ?new = "map (new_granule k now) (filter (\<lambda>g. compose_gid k (gc_granule_id g) \<notin> gr_id ` set (granules d)) gs)"
  have all: "compose_gid k (gc_granule_id g) \<in> gr_id ` set (granules d')" if "g \<in> set gs" for g
  proof (cases "compose_gid k (gc_granule_id g) \<in> gr_id ` set (granules d)")
    case True
    with e show ?thesis by auto
  next
    case False
    with that e have "new_granule k now g \<in> set (granules d')" by auto
    then have "gr_id (new_granule k now g) \<in> gr_id ` set (granules d')" by (rule imageI)
    then show ?thesis by (simp add: new_granule_def)
  qed
  obtain b ws where b: "get_batch k d = Some b"
    and v: "validate_granules_for_bundle compile py_str (bt_bundle_ref b) gs d = Inr ws"
    using assms by (auto simp: add_granules_def)
  have "get_batch k d' = Some b" using b e by (simp add: get_batch_def)
  moreover have "validate_granules_for_bundle compile py_str (bt_bundle_ref b) gs d' = Inr ws"
  proof -
    have gb: "get_bundle n v d' = get_bundle n v d" for n v using e by (simp add: get_bundle_def)
    show ?thesis using v unfolding validate_granules_for_bundle_def gb .
  qed
  moreover have none: "filter (\<lambda>g. compose_gid k (gc_granule_id g)
        \<notin> set (filter (\<lambda>i. get_granule i d' \<noteq> None) (map (\<lambda>g. compose_gid k (gc_granule_id g)) gs))) gs = []"
    using all by (auto simp: filter_empty_conv get_granule_def)
  ultimately have "add_granules compile py_str now' k gs d'
      = Inr ((0, length gs), commit_and_publish now' [None] (log_warnings ws d'))"
    unfolding add_granules_def Let_def none by (simp add: insert_granules_def get_or_404_def)
  moreover have "tables (log_warnings ws d') = tables d'" by (simp add: tables_iff)
  ultimately show ?thesis using e by auto
qed

definition sample_registry :: orch where
  "sample_registry = empty_orch\<lparr>batches := [sample_batch\<lparr>bt_bundle_ref := ''orch:x@1.0''\<rparr>],
     bundles := [\<lparr>bn_name = ''x'', bn_version = ''1.0'', bn_sha256 = ''00'', bn_size = 9, bn_manifest = sample_manifest,
       bn_description = None, bn_uploaded_at = 0\<rparr>]\<rparr>"

definition sample_submission :: "granule_create list" where
  "sample_submission = [\<lparr>gc_granule_id = ''g'', gc_inputs = [\<lparr>in_url = [], in_filename = ''a+'', in_product = ''p'',
     in_size = None, in_checksum = None, in_credential = None\<rparr>], gc_meta = []\<rparr>]"

lemma sample_submission_valid:
  "validate_granules_for_bundle sample_compiler (\<lambda>v. []) ''orch:x@1.0'' sample_submission sample_registry = Inr []"
  by code_simp

theorem add_granules_idempotent_witness:
  "\<exists>d' d''. add_granules sample_compiler (\<lambda>v. []) 5 ''b'' sample_submission sample_registry = Inr ((1, 0), d')
     \<and> map gr_id (granules d') = [''b:g'']
     \<and> add_granules sample_compiler (\<lambda>v. []) 6 ''b'' sample_submission d' = Inr ((0, 1), d'') \<and> tables d'' = tables d'"
proof -
  have b: "get_batch ''b'' sample_registry = Some (sample_batch\<lparr>bt_bundle_ref := ''orch:x@1.0''\<rparr>)"
    and gs: "granules sample_registry = []"
    by (simp_all add: sample_registry_def sample_defs get_defs get_row_def)
  have one: "length sample_submission = 1" "distinct (map (gr_id \<circ> new_granule ''b'' 5) sample_submission)"
    by (simp_all add: sample_submission_def)
  obtain d' where a: "add_granules sample_compiler (\<lambda>v. []) 5 ''b'' sample_submission sample_registry = Inr ((1, 0), d')"
    using sample_submission_valid
    by (simp add: add_granules_def b get_or_404_def Let_def insert_granules_def get_granule_def gs one list_ex_iff)
  note e = add_granules_idempotent [OF a, of 6]
  from conjunct1 [OF e] have "granules d' = map (new_granule ''b'' 5) sample_submission" unfolding gs by simp
  then have "map gr_id (granules d') = [''b:g'']"
    by (simp add: sample_submission_def new_granule_def compose_gid_def)
  moreover obtain d'' where "add_granules sample_compiler (\<lambda>v. []) 6 ''b'' sample_submission d' = Inr ((0, 1), d'')
      \<and> tables d'' = tables d'" using e unfolding one(1) by blast
  ultimately show ?thesis using a by (intro exI [of _ d'] exI [of _ d''] conjI) simp_all
qed

section \<open>Properties of cancelling and retrying\<close>

definition cancelled_row :: "time \<Rightarrow> granule \<Rightarrow> granule" where
  "cancelled_row now g = g\<lparr>gr_state := BLACKLISTED, gr_leased_by := None, gr_lease_expires_at := None, gr_updated_at := now\<rparr>"

definition retried_row :: "time \<Rightarrow> granule \<Rightarrow> granule" where
  "retried_row now g = g\<lparr>gr_state := PENDING, gr_retry_count := 0, gr_error := None, gr_leased_by := None,
     gr_lease_expires_at := None, gr_updated_at := now\<rparr>"

interpretation cancel: bulk_transition cfg now CancelGranule "\<lambda>g. gr_state g \<in> set CANCELLABLE_STATES" "cancelled_row now"
  for cfg now
  by unfold_locales (simp_all add: snapshot_of_def TransitionResult_def transition_row_def cancelled_row_def)

interpretation retry: bulk_transition cfg now RetryGranule "\<lambda>g. gr_state g \<in> set RETRYABLE_STATES" "retried_row now"
  for cfg now
  by unfold_locales (simp_all add: snapshot_of_def TransitionResult_def transition_row_def retried_row_def)

text \<open>A loop that skips conflicts is a loop without errors.\<close>

lemma for_granules_for_each:
  "for_each (\<lambda>k d. Inr (case get_granule k d of None \<Rightarrow> d | Some g \<Rightarrow> body g d)) ids d = Inr (for_granules body ids d)"
  by (induction ids arbitrary: d) (simp_all add: for_granules_def)

lemma for_granules_cancel:
  assumes dist: "distinct (map gr_id (granules d))"
    and q: "\<And>g. g \<in> set (granules d) \<Longrightarrow> q g \<Longrightarrow> gr_state g \<in> set CANCELLABLE_STATES"
  shows "let d' = for_granules (\<lambda>g d. evict_granule (gr_id g) (apply_or_skip cfg g (CancelGranule (gr_id g)) now d))
      (map gr_id (filter q (granules d))) d
    in granules d' = upd_where q (cancelled_row now) (granules d) \<and> granules_only d d'"
proof -
  let ?body = "\<lambda>k d. Inr (case get_granule k d of None \<Rightarrow> d
      | Some g \<Rightarrow> evict_granule (gr_id g) (apply_or_skip cfg g (CancelGranule (gr_id g)) now d)) :: unit + orch"
  have "\<exists>d'. for_each ?body (map gr_id (filter q (granules d))) d = Inr d'
      \<and> granules d' = upd_where q (cancelled_row now) (granules d) \<and> granules_only d d'"
  proof (rule cancel.loop_over_selection [where P = granules_only and q = q and
        b = "\<lambda>k d. evict_granule k (d\<lparr>granules := upd_where (\<lambda>x. gr_id x = k) (cancelled_row now) (granules d)\<rparr>)"])
    fix g :: granule and d :: orch
    assume g: "gr_state g \<in> set CANCELLABLE_STATES" "g \<in> set (granules d)" "distinct (map gr_id (granules d))"
    from cancel.one_row [OF g, of cfg now] get_row_unique [OF g(3,2)]
    show "?body (gr_id g) d
          = Inr (evict_granule (gr_id g) (d\<lparr>granules := upd_where (\<lambda>x. gr_id x = gr_id g) (cancelled_row now) (granules d)\<rparr>))
        \<and> granules (evict_granule (gr_id g) (d\<lparr>granules := upd_where (\<lambda>x. gr_id x = gr_id g) (cancelled_row now) (granules d)\<rparr>))
          = upd_where (\<lambda>x. gr_id x = gr_id g) (cancelled_row now) (granules d)
        \<and> granules_only d (evict_granule (gr_id g) (d\<lparr>granules := upd_where (\<lambda>x. gr_id x = gr_id g) (cancelled_row now) (granules d)\<rparr>))"
      by (auto simp: get_granule_def apply_or_skip_def)
  qed (use dist q in \<open>auto simp: granules_only_refl intro: granules_only_trans\<close>)
  then show ?thesis by (simp add: for_granules_for_each)
qed

lemma for_granules_retry:
  assumes dist: "distinct (map gr_id (granules d))"
    and q: "\<And>g. g \<in> set (granules d) \<Longrightarrow> q g \<Longrightarrow> gr_state g \<in> set RETRYABLE_STATES"
  shows "let d' = for_granules (\<lambda>g. apply_or_skip cfg g (RetryGranule (gr_id g)) now) (map gr_id (filter q (granules d))) d
    in granules d' = upd_where q (retried_row now) (granules d) \<and> granules_only d d'"
proof -
  let ?body = "\<lambda>k d. Inr (case get_granule k d of None \<Rightarrow> d
      | Some g \<Rightarrow> apply_or_skip cfg g (RetryGranule (gr_id g)) now d) :: unit + orch"
  have "\<exists>d'. for_each ?body (map gr_id (filter q (granules d))) d = Inr d'
      \<and> granules d' = upd_where q (retried_row now) (granules d) \<and> granules_only d d'"
  proof (rule retry.loop_over_selection [where P = granules_only and q = q and
        b = "\<lambda>k d. d\<lparr>granules := upd_where (\<lambda>x. gr_id x = k) (retried_row now) (granules d)\<rparr>"])
    fix g :: granule and d :: orch
    assume g: "gr_state g \<in> set RETRYABLE_STATES" "g \<in> set (granules d)" "distinct (map gr_id (granules d))"
    from retry.one_row [OF g, of cfg now] get_row_unique [OF g(3,2)]
    show "?body (gr_id g) d = Inr (d\<lparr>granules := upd_where (\<lambda>x. gr_id x = gr_id g) (retried_row now) (granules d)\<rparr>)
        \<and> granules (d\<lparr>granules := upd_where (\<lambda>x. gr_id x = gr_id g) (retried_row now) (granules d)\<rparr>)
          = upd_where (\<lambda>x. gr_id x = gr_id g) (retried_row now) (granules d)
        \<and> granules_only d (d\<lparr>granules := upd_where (\<lambda>x. gr_id x = gr_id g) (retried_row now) (granules d)\<rparr>)"
      by (auto simp: get_granule_def apply_or_skip_def)
  qed (use dist q in \<open>auto simp: granules_only_refl intro: granules_only_trans\<close>)
  then show ?thesis by (simp add: for_granules_for_each)
qed

lemma cancel_batch_effect:
  assumes "distinct (map gr_id (granules d))" and "cancel_batch cfg now k d = Inr (n, d')"
  shows "granules d' = upd_where (\<lambda>g. gr_batch g = k \<and> gr_state g \<in> set CANCELLABLE_STATES) (cancelled_row now) (granules d)
    \<and> n = row_count (\<lambda>g. gr_batch g = k \<and> gr_state g \<in> set CANCELLABLE_STATES) (granules d)
    \<and> objects d' = objects d \<and> batches d' = batches d"
proof -
  let ?q = "\<lambda>g. gr_batch g = k \<and> gr_state g \<in> set CANCELLABLE_STATES"
  let ?d1 = "for_granules (\<lambda>g d. evict_granule (gr_id g) (apply_or_skip cfg g (CancelGranule (gr_id g)) now d))
      (map gr_id (filter ?q (granules d))) d"
  have f: "granules ?d1 = upd_where ?q (cancelled_row now) (granules d)" "granules_only d ?d1"
    using for_granules_cancel [OF assms(1), of ?q cfg now] by (simp_all add: Let_def)
  have "granules d' = granules ?d1 \<and> objects d' = objects ?d1 \<and> batches d' = batches ?d1
      \<and> n = length (map gr_id (filter ?q (granules d)))"
    using assms(2) by (auto simp: cancel_batch_def Let_def)
  then show ?thesis using f(1) granules_only_frame(4,6) [OF f(2)] by (simp add: row_count_def)
qed

lemma retry_failed_effect:
  assumes "distinct (map gr_id (granules d))" and "retry_failed cfg now k bl d = Inr (n, d')"
  shows "let q = (\<lambda>g. gr_batch g = k \<and> gr_state g \<in> set (FAILED # (if bl then [BLACKLISTED] else [])))
    in granules d' = upd_where q (retried_row now) (granules d) \<and> n = row_count q (granules d)
    \<and> objects d' = objects d \<and> batches d' = batches d \<and> timings d' = timings d \<and> deliveries d' = deliveries d"
proof -
  let ?q = "\<lambda>g. gr_batch g = k \<and> gr_state g \<in> set (FAILED # (if bl then [BLACKLISTED] else []))"
  let ?d1 = "for_granules (\<lambda>g. apply_or_skip cfg g (RetryGranule (gr_id g)) now) (map gr_id (filter ?q (granules d))) d"
  have "gr_state g \<in> set RETRYABLE_STATES" if "g \<in> set (granules d)" "?q g" for g
    using that by (auto simp: retryable_states_set split: if_splits)
  note f = for_granules_retry [OF assms(1) this, where cfg = cfg and now = now, unfolded Let_def]
  have "granules d' = granules ?d1 \<and> objects d' = objects ?d1 \<and> batches d' = batches ?d1
      \<and> timings d' = timings ?d1 \<and> deliveries d' = deliveries ?d1 \<and> n = length (map gr_id (filter ?q (granules d)))"
    using assms(2) unfolding retry_failed_def Let_def by auto
  then show ?thesis
    unfolding Let_def using conjunct1 [OF f] granules_only_frame(4-7) [OF conjunct2 [OF f]] by (simp add: row_count_def)
qed

text \<open>
  Cancelling a batch blacklists exactly its granules that are waiting or in flight, and takes
  their leases; retrying it afterwards gives every one of them, and those blacklisted before, a
  fresh start (\<open>PENDING\<close>, no lease, no error, a full retry budget). Uploaded and delivered granules,
  other batches and all objects are never touched.
\<close>

theorem cancel_then_retry:
  assumes "distinct (map gr_id (granules d))"
    and "cancel_batch cfg now k d = Inr (n, d1)" and "retry_failed cfg now' k True d1 = Inr (m, d2)"
  shows "granules d1 = map (\<lambda>g. if gr_batch g = k \<and> gr_state g \<in> set CANCELLABLE_STATES then cancelled_row now g else g) (granules d)
    \<and> n = row_count (\<lambda>g. gr_batch g = k \<and> gr_state g \<in> set CANCELLABLE_STATES) (granules d)
    \<and> granules d2 = map (\<lambda>g. if gr_batch g = k \<and> gr_state g \<in> set CANCELLABLE_STATES \<union> set RETRYABLE_STATES
         then retried_row now' g else g) (granules d)
    \<and> objects d2 = objects d \<and> batches d2 = batches d"
proof -
  let ?q = "\<lambda>g. gr_batch g = k \<and> gr_state g \<in> set CANCELLABLE_STATES"
  let ?r = "\<lambda>g. gr_batch g = k \<and> gr_state g \<in> set (FAILED # (if True then [BLACKLISTED] else []))"
  note c = cancel_batch_effect [OF assms(1,2)]
  have "map gr_id (granules d1) = map gr_id (granules d)"
    using c by (simp add: map_upd_where cancelled_row_def)
  with assms(1) have "distinct (map gr_id (granules d1))" by simp
  note r = retry_failed_effect [OF this assms(3), unfolded Let_def]
  have "upd_where ?r (retried_row now') (upd_where ?q (cancelled_row now) gs)
      = map (\<lambda>g. if gr_batch g = k \<and> gr_state g \<in> set CANCELLABLE_STATES \<union> set RETRYABLE_STATES
          then retried_row now' g else g) gs" for gs
    by (auto simp: upd_where_def cancelled_row_def retried_row_def cancellable_states_set retryable_states_set)
  with c r show ?thesis by (auto simp: upd_where_def)
qed

theorem cancel_then_retry_witness:
  "\<exists>d1 d2. cancel_batch sample_settings 5 ''b'' (sample_orch PROCESSING None) = Inr (1, d1)
     \<and> retry_failed sample_settings 6 ''b'' True d1 = Inr (1, d2) \<and> map gr_state (granules d2) = [PENDING]"
proof -
  let ?d = "sample_orch PROCESSING None"
  have dist: "distinct (map gr_id (granules ?d))" by (simp add: sample_defs)
  have p [simp]: "PROCESSING \<in> set CANCELLABLE_STATES" by (simp add: cancellable_states_set)
  have b: "get_batch ''b'' ?d = Some sample_batch" by (simp add: sample_defs get_defs get_row_def)
  then obtain n d1 where c: "cancel_batch sample_settings 5 ''b'' ?d = Inr (n, d1)"
    by (simp add: cancel_batch_def Let_def get_or_404_def)
  note ce = cancel_batch_effect [OF dist c]
  have "get_batch ''b'' d1 = Some sample_batch" using b ce by (simp add: get_batch_def)
  then obtain m d2 where r: "retry_failed sample_settings 6 ''b'' True d1 = Inr (m, d2)"
    by (simp add: retry_failed_def Let_def get_or_404_def)
  have "n = 1" using ce by (simp add: sample_defs row_count_def cancellable_states_set)
  moreover have "distinct (map gr_id (granules d1))" using ce by (simp add: sample_defs cancelled_row_def)
  note re = retry_failed_effect [OF this r, unfolded Let_def]
  have "m = 1" using ce re by (simp add: sample_defs row_count_def cancellable_states_set upd_where_def cancelled_row_def)
  moreover have "map gr_state (granules d2) = [PENDING]"
    using cancel_then_retry [OF dist c r] by (simp add: sample_defs retried_row_def)
  ultimately show ?thesis using c r by (intro exI [of _ d1] exI [of _ d2]) simp
qed

text \<open>
  Retrying only the failed granules of a batch, without the blacklisted ones, never does anything:
  no granule is ever \<open>FAILED\<close>.
\<close>

theorem retry_failed_only_is_noop:
  assumes "db_inv dg d" and "retry_failed cfg now k False d = Inr (n, d')"
  shows "n = 0 \<and> tables d' = tables d"
proof -
  let ?q = "\<lambda>g. gr_batch g = k \<and> gr_state g \<in> set (FAILED # (if False then [BLACKLISTED] else []))"
  have dist: "distinct (map gr_id (granules d))" and none: "\<And>g. g \<in> set (granules d) \<Longrightarrow> \<not> ?q g"
    using assms(1) by (auto simp: db_inv_def keys_ok_def rows_ok_def granule_ok_def)
  from none have "upd_where ?q (retried_row now) (granules d) = granules d" "row_count ?q (granules d) = 0"
    by (auto intro!: upd_where_none)
  with retry_failed_effect [OF dist assms(2), unfolded Let_def] show ?thesis by (simp add: tables_iff)
qed

theorem retry_failed_only_is_noop_witness:
  "\<exists>d'. retry_failed sample_settings 6 ''b'' False sample_delivered = Inr (0, d') \<and> tables d' = tables sample_delivered"
proof -
  have "get_batch ''b'' sample_delivered = Some sample_batch"
    by (simp add: sample_delivered_def sample_defs get_defs get_row_def)
  then obtain n d' where r: "retry_failed sample_settings 6 ''b'' False sample_delivered = Inr (n, d')"
    by (simp add: retry_failed_def Let_def get_or_404_def)
  from retry_failed_only_is_noop [OF sample_delivered_inv this] r show ?thesis by blast
qed

section \<open>Properties of deletion\<close>

text \<open>
  Deleting a batch removes the batch, its granules and their objects and timings, and nothing of
  any other batch; every receipt stays, and every confirmed object that is removed has one. Without
  force it is refused while some granule of the batch is in flight.
\<close>

theorem delete_batch_exact:
  assumes "inj_digest dg" and "db_inv dg d" and "delete_batch cfg dg now k force d = Inr ((c, ev), d')"
  shows "granules d' = filter (\<lambda>g. gr_batch g \<noteq> k) (granules d)
    \<and> objects d' = filter (\<lambda>x. \<forall>g \<in> set (granules d). gr_id g = ob_granule x \<longrightarrow> gr_batch g \<noteq> k) (objects d)
    \<and> batches d' = filter (\<lambda>b. bt_id b \<noteq> k) (batches d)
    \<and> set (deliveries d) \<subseteq> set (deliveries d')
    \<and> (\<forall>x \<in> set (objects d). ob_acked_at x \<noteq> None \<longrightarrow> has_delivery_record d' x)
    \<and> (force \<or> (\<forall>g \<in> set (granules d). gr_batch g = k \<longrightarrow> gr_state g \<notin> set LEASED_STATES))"
proof -
  let ?ids = "batch_granule_ids k d"
  let ?e = "snd (reap_granules dg ?ids d)"
  note t = delete_batch_tables [OF assms(3), unfolded Let_def]
  note r = reap_granules_reaped(1) [of ?ids d dg, unfolded reaped_def]
  have dist: "distinct (map gr_id (granules d))" using assms(2) by (simp add: db_inv_def keys_ok_def)
  have "granules d' = filter (\<lambda>g. gr_id g \<notin> set ?ids) (granules d)" using t r by (simp add: del_where_def)
  also have "\<dots> = filter (\<lambda>g. gr_batch g \<noteq> k) (granules d)"
    by (rule filter_cong) (simp_all add: in_batch_ids [OF dist])
  finally have gs: "granules d' = filter (\<lambda>g. gr_batch g \<noteq> k) (granules d)" .
  have "objects d' = filter (\<lambda>x. ob_granule x \<notin> set ?ids) (objects d)" using t r by (simp add: del_where_def)
  also have "\<dots> = filter (\<lambda>x. \<forall>g \<in> set (granules d). gr_id g = ob_granule x \<longrightarrow> gr_batch g \<noteq> k) (objects d)"
    by (rule filter_cong) (force simp: batch_granule_ids_def)+
  finally have os: "objects d' = filter (\<lambda>x. \<forall>g \<in> set (granules d). gr_id g = ob_granule x \<longrightarrow> gr_batch g \<noteq> k) (objects d)" .
  have bs: "batches d' = filter (\<lambda>b. bt_id b \<noteq> k) (batches d)" using t r by (simp add: del_where_def)
  have keep: "set (deliveries d) \<subseteq> set (deliveries d')" using t reap_granules_deliveries [of d dg ?ids] by simp
  moreover have "has_delivery_record d' x" if "x \<in> set (objects d)" "ob_acked_at x \<noteq> None" for x
    using that assms(2) keep by (auto simp: db_inv_def receipts_ok_def intro: has_record_keeps)
  moreover have "force \<or> (\<forall>g \<in> set (granules d). gr_batch g = k \<longrightarrow> gr_state g \<notin> set LEASED_STATES)"
  proof (cases force)
    case False
    with assms(3) have "row_count (\<lambda>g. gr_batch g = k \<and> gr_state g \<in> set LEASED_STATES) (granules d) = 0"
      by (simp add: delete_batch_def Let_def del: row_count_0 split: if_splits)
    then show ?thesis by simp
  qed simp
  ultimately show ?thesis using gs os bs by blast
qed

theorem delete_batch_exact_witness:
  "\<exists>r d'. delete_batch sample_settings sample_digest 9 ''b'' False sample_delivered = Inr (r, d')
     \<and> granules d' = [] \<and> has_delivery_record d' (sample_object (Some 9))"
proof -
  have b: "get_batch ''b'' sample_delivered = Some sample_batch"
    and g: "granules sample_delivered = [sample_granule ACKED]" and o: "objects sample_delivered = [sample_object (Some 9)]"
    by (simp_all add: sample_delivered_def sample_defs get_defs get_row_def)
  have "row_count (\<lambda>g. gr_batch g = ''b'' \<and> gr_state g \<in> set LEASED_STATES) (granules sample_delivered) = 0"
    unfolding g by (simp add: sample_granule_def)
  then have "\<exists>p. delete_batch sample_settings sample_digest 9 ''b'' False sample_delivered = Inr p"
    using b by (simp add: delete_batch_def Let_def get_or_404_def case_prod_beta del: row_count_0)
  then obtain c ev d' where del: "delete_batch sample_settings sample_digest 9 ''b'' False sample_delivered = Inr ((c, ev), d')"
    by (metis surj_pair)
  from delete_batch_exact [OF sample_digest_inj sample_delivered_inv this]
  have "granules d' = []" "has_delivery_record d' (sample_object (Some 9))"
    unfolding g o by (simp_all add: sample_granule_def sample_object_def)
  with del show ?thesis by blast
qed

end
