(* ===== verification/AdminApi.thy ===== *)
theory AdminApi
  imports BatchesApi
begin

text \<open>
  The operator's endpoints, \<^verbatim>\<open>src/sathop/orchestrator/api/admin.py\<close>: requeueing what can no longer
  be delivered, resetting pull failures, the garbage collection of bundles, the fleet-wide
  reporting detail, the self-upgrade, and the hourly cache of the newest release.
  The network (GitHub), the process table and the blob directory are parameters.
\<close>

section \<open>Undeliverable granules\<close>

definition undeliverable :: "settings \<Rightarrow> orch \<Rightarrow> granule \<Rightarrow> bool" where
  "undeliverable cfg d g \<longleftrightarrow>
     gr_state g = UPLOADED \<and> \<not> list_ex (\<lambda>x. ob_granule x = gr_id g \<and> object_is_pullable cfg x) (objects d)"

text \<open>\<^verbatim>\<open>if batch_id:\<close> is false of no batch and of the empty identifier.\<close>

fun in_scope :: "ident option \<Rightarrow> ident \<Rightarrow> bool" where
  "in_scope None b = True"
| "in_scope (Some k) b = (k = [] \<or> b = k)"

definition requeue_one :: "settings \<Rightarrow> time \<Rightarrow> ident \<Rightarrow> orch \<Rightarrow> http_error + orch" where
  "requeue_one cfg now gid d =
     (case get_granule gid d of
        None \<Rightarrow> Inr d
      | Some g \<Rightarrow>
          and_then (raise_409 (\<lambda>g c. conflict_text c) cfg g (RequeueGranule gid) now d) (\<lambda>(r, d1).
            Inr (evict_granule gid (d1\<lparr>objects := del_where (\<lambda>x. ob_granule x = gid) (objects d1)\<rparr>))))"

definition requeue_undeliverable :: "settings \<Rightarrow> time \<Rightarrow> ident option \<Rightarrow> nat handler" where
  "requeue_undeliverable cfg now batch_id d =
     (let ids = map gr_id (filter (\<lambda>g. undeliverable cfg d g \<and> in_scope batch_id (gr_batch g)) (granules d))
      in and_then (for_each (requeue_one cfg now) ids d) (\<lambda>d1.
           Inr (length ids, commit_and_publish now [if ids = [] then None else Some BATCHES]
             (if ids = [] then d1
              else log_event ''info'' ''admin'' (''re-queued {} undeliverable granule(s)'', [AInt (int (length ids))])
                     None None d1))))"

definition reset_pull_failures :: "settings \<Rightarrow> time \<Rightarrow> ident option \<Rightarrow> nat handler" where
  "reset_pull_failures cfg now batch_id d =
     (let scoped = (\<lambda>x. case batch_id of None \<Rightarrow> True
                      | Some k \<Rightarrow> k = [] \<or> ob_granule x \<in> set (batch_granule_ids k d));
          p = (\<lambda>x. object_is_exhausted cfg x \<and> scoped x);
          n = row_count p (objects d);
          d1 = d\<lparr>objects := upd_where p (\<lambda>x. x\<lparr>ob_failed_pulls := Some 0\<rparr>) (objects d)\<rparr>
      in Inr (n, commit_and_publish now [if n = 0 then None else Some BATCHES]
           (if n = 0 then d1
            else log_event ''info'' ''admin'' (''reset pull-failure counter on {} exhausted object(s)'', [AInt (int n)])
                   None None d1)))"

section \<open>Garbage collection of bundles\<close>

definition gc_candidates :: "time \<Rightarrow> orch \<Rightarrow> bundle_row list" where
  "gc_candidates threshold d =
     filter (\<lambda>b. row_count (\<lambda>t. bt_bundle_ref t = format_bundle_ref (bn_name b) (bn_version b)) (batches d) = 0
               \<and> bn_uploaded_at b < threshold) (bundles d)"

datatype gc_reply =
    GcError string
  | GcDryRun "bundle_row list" int
  | GcDeleted "bundle_row list" int nat

definition bundle_key :: "bundle_row \<Rightarrow> string \<times> string" where
  "bundle_key b = (bn_name b, bn_version b)"

text \<open>\<open>blobs\<close> are the archives present in the storage directory, named by their digest.\<close>

definition gc_apply :: "time \<Rightarrow> bundle_row list \<Rightarrow> orch \<times> string list \<Rightarrow> gc_reply \<times> orch \<times> string list" where
  "gc_apply now candidates st =
     (let d = fst st; blobs = snd st;
          freed = sum_list (map bn_size candidates);
          d1 = d\<lparr>bundles := del_where (\<lambda>b. bundle_key b \<in> set (map bundle_key candidates)) (bundles d)\<rparr>;
          orphans = filter (\<lambda>sha. row_count (\<lambda>b. bn_sha256 b = sha) (bundles d1) = 0) (dedup (map bn_sha256 candidates));
          d2 = (if candidates = [] then d1
                else log_event ''info'' ''bundles'' (''GC deleted {} bundle(s) ({} bytes)'',
                       [AInt (int (length candidates)), AInt freed]) None None d1)
      in (GcDeleted candidates freed (row_count (\<lambda>sha. sha \<in> set blobs) orphans),
          commit_and_publish now [if candidates = [] then None else Some BUNDLES] d2,
          filter (\<lambda>f. f \<notin> set orphans) blobs))"

definition gc_bundles :: "time \<Rightarrow> bool \<Rightarrow> int \<Rightarrow> orch \<times> string list \<Rightarrow> gc_reply \<times> orch \<times> string list" where
  "gc_bundles now dry_run age_days st =
     (if age_days < 0 then (GcError ''age_days must be >= 0'', st)
      else
        let candidates = gc_candidates (now - days age_days) (fst st)
        in if dry_run then (GcDryRun candidates (sum_list (map bn_size candidates)), st)
           else gc_apply now candidates st)"

section \<open>Settings, upgrade and restart\<close>

definition set_worker_detail_setting :: "time \<Rightarrow> string \<Rightarrow> string handler" where
  "set_worker_detail_setting now detail d =
     (if detail \<notin> {''verbose'', ''fast''} then Inl (HTTPException 422 (''detail'', []))
      else Inr (detail, commit_and_publish now [Some WORKERS]
             (log_event ''info'' ''operator'' (''fleet reporting detail set to {}'', [AStr detail]) None None
               (set_setting WORKER_DETAIL_KEY detail d))))"

text \<open>
  \<open>head\<close> is the answer of the release server for a version (an error text, or nothing); the
  pending version is the file that the supervisor consumes.
\<close>

definition upgrade_orchestrator ::
  "(string \<Rightarrow> string option) \<Rightarrow> time \<Rightarrow> string \<Rightarrow> orch \<Rightarrow> http_error + (string \<times> orch)" where
  "upgrade_orchestrator head now version d =
     (case normalize_version version of
        Inl (ValueError msg) \<Rightarrow> Inl (HTTPException 422 msg)
      | Inr v \<Rightarrow>
          (case head v of
             Some e \<Rightarrow> Inl (HTTPException 502 (''release v{} not downloadable: {}'', [AStr v, AStr e]))
           | None \<Rightarrow> Inr (v, commit_and_publish now [Some EVENTS]
                       (log_event ''info'' ''orchestrator'' (''upgrade to v{} requested via UI'', [AStr v]) None None d))))"

definition restart_orchestrator :: "time \<Rightarrow> unit handler" where
  "restart_orchestrator now d =
     Inr ((), commit_and_publish now [Some EVENTS]
       (log_event ''info'' ''orchestrator'' (''restart requested via UI'', []) None None d))"

definition shutdown_target_pid :: "int \<Rightarrow> bool \<Rightarrow> int \<Rightarrow> int \<Rightarrow> int" where
  "shutdown_target_pid orch_workers postgres pid ppid =
     (if \<not> (orch_workers > 1 \<and> postgres) then pid else if ppid > 1 then ppid else pid)"

section \<open>The newest release, once an hour\<close>

definition normalize_channel :: "string \<Rightarrow> string" where
  "normalize_channel channel = (if channel = ''edge'' then ''edge'' else ''stable'')"

record release_info =
  ri_tag :: string
  ri_html_url :: string

record latest_result =
  lr_info :: release_info
  lr_stale :: bool
  lr_error :: "string option"

record latest_cache =
  lc_bucketed :: "(string \<times> (int \<times> latest_result)) list"
  lc_good :: "(string \<times> release_info) list"

definition cached_latest :: "string \<Rightarrow> int \<Rightarrow> latest_cache \<Rightarrow> latest_result option" where
  "cached_latest channel bucket c =
     (case map_of (lc_bucketed c) channel of
        None \<Rightarrow> None
      | Some (b, r) \<Rightarrow> if b = bucket then Some r else None)"

record latest_request =
  lq_channel :: string
  lq_force :: bool
  lq_bucket :: int

text \<open>
  \<open>fetch\<close> is GitHub's answer for a channel at this moment, and \<open>releases\<close> the page shown when nothing is
  known. The reply is the result, and whether GitHub was asked.
\<close>

definition latest_version ::
  "string \<Rightarrow> string \<Rightarrow> (string \<Rightarrow> string + release_info) \<Rightarrow> latest_request \<Rightarrow> latest_cache
     \<Rightarrow> latest_result \<times> bool \<times> latest_cache" where
  "latest_version default_channel releases fetch req c =
     (let ch = normalize_channel (if lq_channel req = [] then default_channel else lq_channel req);
          bucket = lq_bucket req
      in case (if lq_force req then None else cached_latest ch bucket c) of
           Some r \<Rightarrow> (r, False, c)
         | None \<Rightarrow>
             (case fetch ch of
                Inl e \<Rightarrow>
                  (let r = (case map_of (lc_good c) ch of
                              Some good \<Rightarrow> \<lparr>lr_info = good, lr_stale = True, lr_error = Some e\<rparr>
                            | None \<Rightarrow> \<lparr>lr_info = \<lparr>ri_tag = [], ri_html_url = releases\<rparr>, lr_stale = False, lr_error = Some e\<rparr>)
                   in (r, True, c\<lparr>lc_bucketed := AList.update ch (bucket, r) (lc_bucketed c)\<rparr>))
              | Inr data \<Rightarrow>
                  (let r = \<lparr>lr_info = data, lr_stale = False, lr_error = None\<rparr>
                   in (r, True, c\<lparr>lc_bucketed := AList.update ch (bucket, r) (lc_bucketed c),
                                  lc_good := AList.update ch data (lc_good c)\<rparr>))))"

section \<open>Integrity\<close>

definition requeued_row :: "time \<Rightarrow> granule \<Rightarrow> granule" where
  "requeued_row now g = g\<lparr>gr_state := PENDING, gr_retry_count := 0, gr_error := None, gr_leased_by := None,
     gr_lease_expires_at := None, gr_updated_at := now\<rparr>"

interpretation requeue: bulk_transition cfg now RequeueGranule "\<lambda>g. gr_state g = UPLOADED" "requeued_row now"
  for cfg now
  by unfold_locales (simp_all add: snapshot_of_def TransitionResult_def transition_row_def requeued_row_def)

lemma requeue_one_row:
  assumes "gr_state g = UPLOADED" and "g \<in> set (granules d)" and "distinct (map gr_id (granules d))"
  shows "requeue_one cfg now (gr_id g) d = Inr (evict_granule (gr_id g)
     (d\<lparr>granules := upd_where (\<lambda>x. gr_id x = gr_id g) (requeued_row now) (granules d),
        objects := del_where (\<lambda>x. ob_granule x = gr_id g) (objects d)\<rparr>))"
  using requeue.one_row [OF assms, of cfg now] get_row_unique [OF assms(3,2)]
  by (auto simp: requeue_one_def get_granule_def raise_409_def)

lemma requeue_loop:
  assumes "distinct ids" and "distinct (map gr_id (granules d))"
    and "\<And>i. i \<in> set ids \<Longrightarrow> \<exists>g \<in> set (granules d). gr_id g = i \<and> gr_state g = UPLOADED"
  shows "\<exists>d'. for_each (requeue_one cfg now) ids d = Inr d'
     \<and> granules d' = upd_where (\<lambda>g. gr_id g \<in> set ids) (requeued_row now) (granules d)
     \<and> objects d' = del_where (\<lambda>x. ob_granule x \<in> set ids) (objects d)
     \<and> timings d' = timings d \<and> batches d' = batches d \<and> deliveries d' = deliveries d"
  using assms
proof (induction ids arbitrary: d)
  case Nil
  then show ?case by (simp add: upd_where_def del_where_def)
next
  case (Cons i ids)
  obtain g where g: "g \<in> set (granules d)" "gr_id g = i" "gr_state g = UPLOADED" using Cons.prems(3) [of i] by auto
  let ?gs = "upd_where (\<lambda>x. gr_id x = i) (requeued_row now) (granules d)"
  let ?d = "evict_granule i (d\<lparr>granules := ?gs, objects := del_where (\<lambda>x. ob_granule x = i) (objects d)\<rparr>)"
  have one: "requeue_one cfg now i d = Inr ?d" using requeue_one_row [OF g(3,1) Cons.prems(2)] g(2) by simp
  have "map gr_id ?gs = map gr_id (granules d)" by (rule map_upd_where) (simp add: requeued_row_def)
  moreover have "\<exists>g \<in> set ?gs. gr_id g = j \<and> gr_state g = UPLOADED" if j: "j \<in> set ids" for j
  proof -
    obtain h where "h \<in> set (granules d)" "gr_id h = j" "gr_state h = UPLOADED" using Cons.prems(3) [of j] j by auto
    moreover have "j \<noteq> i" using j Cons.prems(1) by auto
    ultimately show ?thesis by (blast intro: in_upd_where_unchanged)
  qed
  ultimately obtain d' where d': "for_each (requeue_one cfg now) ids ?d = Inr d'"
      "granules d' = upd_where (\<lambda>g. gr_id g \<in> set ids) (requeued_row now) ?gs"
      "objects d' = del_where (\<lambda>x. ob_granule x \<in> set ids) (del_where (\<lambda>x. ob_granule x = i) (objects d))"
      "timings d' = timings d" "batches d' = batches d" "deliveries d' = deliveries d"
    using Cons.IH [of ?d] Cons.prems(1,2) by auto
  have "upd_where (\<lambda>g. gr_id g \<in> set ids) (requeued_row now) ?gs
      = upd_where (\<lambda>g. gr_id g = i \<or> gr_id g \<in> set ids) (requeued_row now) (granules d)"
    by (rule upd_where_compose) (use Cons.prems(1) in \<open>auto simp: requeued_row_def\<close>)
  with d' one show ?case by (simp add: del_where_def conj_commute)
qed

lemma requeue_effect:
  assumes dist: "distinct (map gr_id (granules d))"
  shows "let q = (\<lambda>g. undeliverable cfg d g \<and> in_scope b (gr_batch g)); ids = map gr_id (filter q (granules d))
     in \<exists>d'. requeue_undeliverable cfg now b d = Inr (row_count q (granules d), d')
       \<and> granules d' = upd_where q (requeued_row now) (granules d)
       \<and> objects d' = del_where (\<lambda>x. ob_granule x \<in> set ids) (objects d)
       \<and> timings d' = timings d \<and> batches d' = batches d \<and> deliveries d' = deliveries d"
proof -
  let ?q = "\<lambda>g. undeliverable cfg d g \<and> in_scope b (gr_batch g)"
  let ?ids = "map gr_id (filter ?q (granules d))"
  have "distinct ?ids" using dist by (rule distinct_map_filter)
  moreover have "\<exists>g \<in> set (granules d). gr_id g = i \<and> gr_state g = UPLOADED" if "i \<in> set ?ids" for i
    using that by (auto simp: undeliverable_def)
  ultimately obtain d1 where d1: "for_each (requeue_one cfg now) ?ids d = Inr d1"
      "granules d1 = upd_where (\<lambda>g. gr_id g \<in> set ?ids) (requeued_row now) (granules d)"
      "objects d1 = del_where (\<lambda>x. ob_granule x \<in> set ?ids) (objects d)"
      "timings d1 = timings d" "batches d1 = batches d" "deliveries d1 = deliveries d"
    using requeue_loop [OF _ dist] by blast
  have "upd_where (\<lambda>g. gr_id g \<in> set ?ids) (requeued_row now) (granules d) = upd_where ?q (requeued_row now) (granules d)"
    by (rule upd_where_by_key [OF dist])
  then have gs: "granules d1 = upd_where ?q (requeued_row now) (granules d)" using d1(2) by simp
  show ?thesis
    unfolding Let_def requeue_undeliverable_def d1(1)
    using gs d1(3-6) by (simp add: row_count_def)
qed

lemma requeued_inv:
  assumes inv: "db_inv dg d"
    and q: "\<And>g. g \<in> set (granules d) \<Longrightarrow> q g \<Longrightarrow> gr_state g = UPLOADED"
    and ids: "\<And>g. g \<in> set (granules d) \<Longrightarrow> q g \<Longrightarrow> gr_id g \<in> set ids"
  shows "db_inv dg (d\<lparr>granules := upd_where q (requeued_row now) (granules d),
                      objects := del_where (\<lambda>x. ob_granule x \<in> set ids) (objects d)\<rparr>)"
proof -
  let ?gs = "upd_where q (requeued_row now) (granules d)"
  let ?d = "d\<lparr>granules := ?gs, objects := del_where (\<lambda>x. ob_granule x \<in> set ids) (objects d)\<rparr>"
  note inv' = inv [unfolded db_inv_def]
  have "map gr_id ?gs = map gr_id (granules d)" by (rule map_upd_where) (simp add: requeued_row_def)
  then have gids: "gr_id ` set ?gs = gr_id ` set (granules d)" and dist: "distinct (map gr_id ?gs)"
    using inv' by (metis list.set_map, simp add: keys_ok_def)
  have "keys_ok ?d" using inv' dist by (simp add: keys_ok_def distinct_del_where)
  moreover have "map (\<lambda>g. (gr_id g, gr_batch g)) ?gs = map (\<lambda>g. (gr_id g, gr_batch g)) (granules d)"
    by (rule map_upd_where) (simp add: requeued_row_def)
  then have "(\<lambda>g. (gr_id g, gr_batch g)) ` set ?gs = (\<lambda>g. (gr_id g, gr_batch g)) ` set (granules d)"
    by (metis list.set_map)
  then have "refs_ok ?d"
    using inv' unfolding refs_ok_def by (auto simp: gids requeued_row_def simp del: image_iff elim!: in_upd_whereE)
  moreover have "rows_ok ?d"
    using inv' unfolding rows_ok_def
    by (auto simp: requeued_row_def granule_ok_def lease_ok_def tails_ok_def elim!: in_upd_whereE)
  moreover have "objects_ok ?d"
    unfolding objects_ok_def
  proof (intro ballI impI)
    fix x h assume x: "x \<in> set (objects ?d)" and h: "h \<in> set (granules ?d)" "gr_id h = ob_granule x"
    from h(1) have "h \<in> set ?gs" by simp
    then show "gr_state h \<in> stored \<and> (gr_state h = ACKED \<longrightarrow> ob_acked_at x \<noteq> None)"
    proof (cases rule: in_upd_whereE)
      case (1 r)
      with ids [of r] x h(2) show ?thesis by (simp add: requeued_row_def)
    next
      case (2 r)
      with inv' x h(2) show ?thesis by (auto simp: objects_ok_def)
    qed
  qed
  moreover have "receipts_ok dg ?d" using inv' by (simp add: receipts_ok_def has_delivery_record_def)
  moreover have "row_count (deleted_in b) ?gs = row_count (deleted_in b) (granules d)" for b
    using q by (intro row_count_upd_where_same) (auto simp: deleted_in_def requeued_row_def)
  then have "counters_ok ?d" using inv' by (simp add: counters_ok_def)
  ultimately show ?thesis by (simp add: db_inv_def)
qed

lemma requeue_inv [step_intros]:
  assumes "db_inv dg d" and "requeue_undeliverable cfg now b d = Inr (n, d')"
  shows "db_inv dg d'"
proof -
  let ?q = "\<lambda>g. undeliverable cfg d g \<and> in_scope b (gr_batch g)"
  let ?ids = "map gr_id (filter ?q (granules d))"
  have dist: "distinct (map gr_id (granules d))" using assms(1) by (simp add: db_inv_def keys_ok_def)
  let ?e = "d\<lparr>granules := upd_where ?q (requeued_row now) (granules d),
              objects := del_where (\<lambda>x. ob_granule x \<in> set ?ids) (objects d)\<rparr>"
  have "db_inv dg ?e" by (rule requeued_inv [OF assms(1)]) (auto simp: undeliverable_def)
  then show ?thesis
    using requeue_effect [OF dist, of cfg b now, unfolded Let_def] assms(2)
    by (intro iffD1 [OF db_inv_cong [of ?e d' dg]]) auto
qed

lemma db_inv_bundles [simp]: "db_inv dg (d\<lparr>bundles := bs\<rparr>) \<longleftrightarrow> db_inv dg d"
  "db_inv dg (set_setting k v d) \<longleftrightarrow> db_inv dg d"
  by (rule db_inv_cong; simp add: set_setting_def)+

lemma admin_ops_inv [step_intros]:
  "db_inv dg d \<Longrightarrow> reset_pull_failures cfg now b d = Inr (n, d') \<Longrightarrow> db_inv dg d'"
  "db_inv dg d \<Longrightarrow> set_worker_detail_setting now s d = Inr (s', d') \<Longrightarrow> db_inv dg d'"
  "db_inv dg d \<Longrightarrow> upgrade_orchestrator head now v d = Inr (v', d') \<Longrightarrow> db_inv dg d'"
  "db_inv dg d \<Longrightarrow> restart_orchestrator now d = Inr (u, d') \<Longrightarrow> db_inv dg d'"
  by (auto simp: reset_pull_failures_def set_worker_detail_setting_def upgrade_orchestrator_def restart_orchestrator_def
      Let_def intro: reset_pulls.keeps_inv_objects split: if_splits sum.splits value_error.splits option.splits)

lemma gc_bundles_inv [step_intros]:
  "db_inv dg (fst st) \<Longrightarrow> gc_bundles now dry a st = (r, st') \<Longrightarrow> db_inv dg (fst st')"
  by (auto simp: gc_bundles_def gc_apply_def Let_def split: if_splits)

section \<open>Properties\<close>

text \<open>
  Requeueing never conflicts. It resets exactly the \<open>UPLOADED\<close> granules in scope that have no object
  left to pull, drops exactly their object rows, and leaves a granule that can still deliver, every
  receipt and every batch counter as they are; it reports the number of granules reset.
\<close>

theorem requeue_undeliverable_exact:
  assumes "db_inv dg d"
  shows "\<exists>d'. requeue_undeliverable cfg now b d
       = Inr (row_count (\<lambda>g. undeliverable cfg d g \<and> in_scope b (gr_batch g)) (granules d), d')
    \<and> granules d' = map (\<lambda>g. if undeliverable cfg d g \<and> in_scope b (gr_batch g) then requeued_row now g else g) (granules d)
    \<and> (\<forall>x. x \<in> set (objects d') \<longleftrightarrow> x \<in> set (objects d)
         \<and> \<not> (\<exists>g \<in> set (granules d). gr_id g = ob_granule x \<and> undeliverable cfg d g \<and> in_scope b (gr_batch g)))
    \<and> (\<forall>x \<in> set (objects d). object_is_pullable cfg x \<longrightarrow> x \<in> set (objects d'))
    \<and> deliveries d' = deliveries d \<and> batches d' = batches d"
proof -
  have dist: "distinct (map gr_id (granules d))" using assms by (simp add: db_inv_def keys_ok_def)
  let ?q = "\<lambda>g. undeliverable cfg d g \<and> in_scope b (gr_batch g)"
  obtain d' where d': "requeue_undeliverable cfg now b d = Inr (row_count ?q (granules d), d')"
      "granules d' = upd_where ?q (requeued_row now) (granules d)"
      "objects d' = del_where (\<lambda>x. ob_granule x \<in> set (map gr_id (filter ?q (granules d)))) (objects d)"
      "batches d' = batches d" "deliveries d' = deliveries d"
    using requeue_effect [OF dist, of cfg b now, unfolded Let_def] by blast
  have objs: "x \<in> set (objects d') \<longleftrightarrow> x \<in> set (objects d)
      \<and> \<not> (\<exists>g \<in> set (granules d). gr_id g = ob_granule x \<and> ?q g)" for x
    unfolding d'(3) by (force simp: del_where_def)
  moreover have "x \<in> set (objects d')" if "x \<in> set (objects d)" "object_is_pullable cfg x" for x
    unfolding objs using that by (auto simp: undeliverable_def list_ex_iff)
  ultimately show ?thesis
    using d' by (intro exI [of _ d']) (simp add: upd_where_def)
qed

theorem requeue_undeliverable_exact_witness:
  "\<exists>d'. requeue_undeliverable (sample_settings\<lparr>max_pull_failures := 0\<rparr>) 9 None sample_uploaded = Inr (1, d')
     \<and> map gr_state (granules d') = [PENDING]"
proof -
  let ?cfg = "sample_settings\<lparr>max_pull_failures := 0\<rparr>"
  have g: "granules sample_uploaded = [sample_granule UPLOADED]" by (simp add: sample_uploaded_def sample_orch_def)
  have "undeliverable ?cfg sample_uploaded (sample_granule UPLOADED)"
    by (simp add: undeliverable_def object_is_pullable_def delivery_defs)
  with requeue_undeliverable_exact [OF sample_uploaded_inv, of ?cfg 9 None] show ?thesis
    by (auto simp: g row_count_def requeued_row_def)
qed

text \<open>
  The garbage collection of bundles is safe: a bundle that some batch refers to, or that is
  younger than the age, stays registered, no archive of a registered bundle is removed, a dry run
  changes nothing, and no other table changes.
\<close>

theorem gc_bundles_safe:
  assumes "distinct (map bundle_key (bundles d))" and "gc_bundles now dry_run age_days (d, blobs) = (reply, d', blobs')"
  shows "(\<forall>b \<in> set (bundles d). b \<in> set (bundles d')
        \<or> bn_uploaded_at b < now - days age_days
          \<and> (\<forall>t \<in> set (batches d). bt_bundle_ref t \<noteq> format_bundle_ref (bn_name b) (bn_version b)))
     \<and> set (bundles d') \<subseteq> set (bundles d)
     \<and> (\<forall>b \<in> set (bundles d'). bn_sha256 b \<in> set blobs \<longrightarrow> bn_sha256 b \<in> set blobs')
     \<and> (dry_run \<longrightarrow> d' = d \<and> blobs' = blobs) \<and> tables d' = tables d"
proof (cases "age_days < 0 \<or> dry_run")
  case True
  with assms(2) have "d' = d" "blobs' = blobs" by (auto simp: gc_bundles_def Let_def split: if_splits)
  then show ?thesis by simp
next
  case False
  let ?cs = "gc_candidates (now - days age_days) d"
  from False assms(2) have d': "bundles d' = del_where (\<lambda>b. bundle_key b \<in> set (map bundle_key ?cs)) (bundles d)"
      and blobs': "blobs' = filter (\<lambda>f. f \<notin> set (filter (\<lambda>sha. row_count (\<lambda>b. bn_sha256 b = sha) (bundles d') = 0)
        (dedup (map bn_sha256 ?cs)))) blobs"
      and same: "tables d' = tables d"
    by (auto simp: gc_bundles_def gc_apply_def Let_def tables_iff simp del: row_count_0)
  have "bn_uploaded_at b < now - days age_days
        \<and> (\<forall>t \<in> set (batches d). bt_bundle_ref t \<noteq> format_bundle_ref (bn_name b) (bn_version b))"
    if b: "b \<in> set (bundles d)" and gone: "b \<notin> set (bundles d')" for b
  proof -
    from gone b obtain c where c: "c \<in> set ?cs" "bundle_key c = bundle_key b" unfolding d' by auto
    from c(1) have "c \<in> set (bundles d)" by (simp add: gc_candidates_def)
    with c b assms(1) have "c = b" by (metis distinct_key_eq)
    with c(1) show ?thesis by (auto simp: gc_candidates_def)
  qed
  moreover have "set (bundles d') \<subseteq> set (bundles d)" unfolding d' by auto
  moreover have "bn_sha256 b \<in> set blobs'" if "b \<in> set (bundles d')" "bn_sha256 b \<in> set blobs" for b
    unfolding blobs' using that by auto
  ultimately show ?thesis using same False by blast
qed

theorem gc_bundles_safe_witness:
  "\<exists>reply d'. gc_bundles (days 40) False 30 (sample_registry, [''00'', ''11'']) = (reply, d', [''00'', ''11''])
     \<and> length (bundles d') = 1"
proof -
  let ?d = sample_registry
  obtain reply d' bl where r: "gc_bundles (days 40) False 30 (?d, [''00'', ''11'']) = (reply, d', bl)"
    by (metis surj_pair)
  have dist: "distinct (map bundle_key (bundles ?d))" by (simp add: sample_registry_def)
  have none: "gc_candidates t ?d = []" for t
    by (simp add: gc_candidates_def sample_registry_def sample_defs format_bundle_ref_def BUNDLE_REF_PREFIX_def row_count_def)
  from r none have "bl = [''00'', ''11'']" "bundles d' = bundles ?d"
    by (auto simp: gc_bundles_def gc_apply_def Let_def del_where_def)
  moreover note gc_bundles_safe [OF dist r]
  ultimately show ?thesis using r by (auto simp: sample_registry_def)
qed

section \<open>One question an hour\<close>

text \<open>A request, counting the questions asked for channel \<open>ch\<close>.\<close>

definition asks :: "string \<Rightarrow> string \<Rightarrow> ((string \<Rightarrow> string + release_info) \<times> latest_request)
    \<Rightarrow> nat \<times> latest_cache \<Rightarrow> nat \<times> latest_cache" where
  "asks default_channel ch rq st =
     (let (r, asked, c) = latest_version default_channel [] (fst rq) (snd rq) (snd st);
          mine = (normalize_channel (if lq_channel (snd rq) = [] then default_channel else lq_channel (snd rq)) = ch)
      in (fst st + (if asked \<and> mine then 1 else 0), c))"

lemma cached_latest_update:
  "cached_latest ch b (c\<lparr>lc_bucketed := AList.update k (b', r) (lc_bucketed c)\<rparr>)
     = (if k = ch then (if b' = b then Some r else None) else cached_latest ch b c)"
  "cached_latest ch b (c\<lparr>lc_bucketed := bs, lc_good := g\<rparr>) = cached_latest ch b (c\<lparr>lc_bucketed := bs\<rparr>)"
  by (simp_all add: cached_latest_def update_conv')

lemma asks_step:
  assumes "\<not> lq_force (snd rq)" and "lq_bucket (snd rq) = b" and "asks dflt ch rq (n, c) = (n', c')"
  shows "if cached_latest ch b c \<noteq> None then n' = n \<and> cached_latest ch b c' \<noteq> None
    else n' = n \<or> n' = n + 1 \<and> cached_latest ch b c' \<noteq> None"
  using assms
  by (auto simp: asks_def latest_version_def Let_def cached_latest_update split: option.splits sum.splits if_splits prod.splits)

lemma asks_none:
  assumes "\<And>rq. rq \<in> set rqs \<Longrightarrow> \<not> lq_force (snd rq) \<and> lq_bucket (snd rq) = b" and "cached_latest ch b c \<noteq> None"
  shows "fst (fold (asks dflt ch) rqs (n, c)) = n"
  using assms
proof (induction rqs arbitrary: c)
  case (Cons rq rqs)
  obtain n' c' where s: "asks dflt ch rq (n, c) = (n', c')" by fastforce
  with asks_step [OF _ _ s, of b] Cons.prems(1) [of rq] Cons.prems(2)
  have "n' = n" "cached_latest ch b c' \<noteq> None" by simp_all
  with Cons.IH [of c'] Cons.prems(1) s show ?case by simp
qed simp

text \<open>
  Within a clock hour the automatic requests for a release channel ask GitHub at most once,
  whatever GitHub answers (an outage is remembered like a release) and whichever channels are asked
  in between.
\<close>

theorem one_fetch_per_hour:
  assumes "\<forall>rq \<in> set rqs. \<not> lq_force (snd rq) \<and> lq_bucket (snd rq) = b"
  shows "fst (fold (asks default_channel ch) rqs (0, c)) \<le> 1"
  using assms
proof (induction rqs arbitrary: c)
  case (Cons rq rqs)
  obtain n' c' where s: "asks default_channel ch rq (0, c) = (n', c')" by fastforce
  from asks_step [OF _ _ s, of b] Cons.prems have "n' = 0 \<or> n' = 1 \<and> cached_latest ch b c' \<noteq> None"
    by (simp split: if_splits)
  then show ?case
  proof
    assume "n' = 0"
    with Cons s show ?thesis by simp
  next
    assume n': "n' = 1 \<and> cached_latest ch b c' \<noteq> None"
    then have "fst (fold (asks default_channel ch) rqs (n', c')) = n'"
      by (intro asks_none [where b = b]) (use Cons.prems in auto)
    with n' s show ?thesis by simp
  qed
qed simp

theorem one_fetch_per_hour_witness:
  "let rq = (\<lambda>ch. Inl ''503'', \<lparr>lq_channel = [], lq_force = False, lq_bucket = 7\<rparr>)
   in fst (fold (asks ''stable'' ''stable'') [rq, rq, rq] (0, \<lparr>lc_bucketed = [], lc_good = []\<rparr>)) \<le> 1"
  unfolding Let_def by (rule one_fetch_per_hour [where b = 7]) simp

end
