(* ===== verification/Background.thy ===== *)
theory Background
  imports AdminApi
begin

text \<open>
  The periodic tasks of \<^verbatim>\<open>src/sathop/orchestrator/background.py\<close> besides the lease sweeper (which
  is with the leases) and the rollout (which has its own theory): the reconciliation of delivered
  granules whose worker is gone, and the retention sweep.
\<close>

section \<open>Orphaned granules\<close>

definition live_worker_ids :: "settings \<Rightarrow> time \<Rightarrow> orch \<Rightarrow> ident list" where
  "live_worker_ids cfg now d =
     (let registered = filter (\<lambda>w. wk_removed_at w = None) (workers d);
          cutoff = now - seconds (acked_orphan_grace_sec cfg)
      in if 0 < acked_orphan_grace_sec cfg then
           if is_postgres cfg then map wk_id (filter (\<lambda>w. cutoff \<le> wt_last_seen (wk_telemetry w)) registered)
           else filter (\<lambda>k. case get_worker_telem k d of None \<Rightarrow> False | Some t \<Rightarrow> cutoff \<le> wt_last_seen t)
                  (map wk_id registered)
         else map wk_id registered)"

definition acked_orphan :: "ident list \<Rightarrow> orch \<Rightarrow> granule \<Rightarrow> bool" where
  "acked_orphan live_ids d g \<longleftrightarrow>
     gr_state g = ACKED
     \<and> \<not> list_ex (\<lambda>x. ob_granule x = gr_id g \<and> ob_deleted_at x = None \<and> ob_worker x \<in> set live_ids) (objects d)"

definition reconcile_one :: "settings \<Rightarrow> time \<Rightarrow> granule \<Rightarrow> orch \<Rightarrow> orch" where
  "reconcile_one cfg now g d =
     evict_granule (gr_id g) (apply_or_skip cfg g (ReconcileOrphanDeleted (gr_id g)) now d)"

definition sweep_orphaned_acked :: "settings \<Rightarrow> time \<Rightarrow> time \<Rightarrow> orch \<Rightarrow> nat \<times> orch" where
  "sweep_orphaned_acked cfg started_at now d =
     (let grace = acked_orphan_grace_sec cfg
      in if 0 < grace \<and> now - started_at < seconds grace then (0, d)
         else
           let ids = map gr_id (filter (acked_orphan (live_worker_ids cfg now d) d) (granules d))
           in if ids = [] then (0, d)
              else (length ids, commit_and_publish now [Some BATCHES]
                     (log_event ''warn'' ''scheduler'' (''reconciled {} orphaned acked granule(s) -> deleted (owner gone)'',
                        [AInt (int (length ids))]) None None (for_granules (reconcile_one cfg now) ids d))))"

section \<open>Retention\<close>

record retention_counts =
  rn_events :: nat
  rn_objects :: nat
  rn_timings :: nat
  rn_granules :: nat
  rn_workers :: nat

definition prune_events :: "bool \<Rightarrow> time \<Rightarrow> mem_event list \<Rightarrow> mem_event list" where
  "prune_events postgres cutoff es =
     (if postgres then filter (\<lambda>e. \<not> me_ts e < cutoff) es else dropWhile (\<lambda>e. me_ts e < cutoff) es)"

definition prune_rows :: "digest \<Rightarrow> time \<Rightarrow> orch \<Rightarrow> retention_counts \<times> orch" where
  "prune_rows digest cutoff d =
     (let po = (\<lambda>x. null_lt (ob_deleted_at x) cutoff);
          n = row_count po (objects d);
          d1 = d\<lparr>objects := del_where po (objects d)\<rparr>;
          doomed = map gr_id (filter (\<lambda>g. gr_state g = DELETED \<and> gr_updated_at g < cutoff) (granules d1));
          (c, d2) = reap_granules digest doomed d1;
          pw = (\<lambda>w. null_lt (wk_removed_at w) cutoff)
      in (\<lparr>rn_events = 0, rn_objects = n + n_objects c, rn_timings = n_timings c, rn_granules = n_granules c,
           rn_workers = row_count pw (workers d2)\<rparr>,
          d2\<lparr>workers := del_where pw (workers d2)\<rparr>))"

definition retention_scopes :: "retention_counts \<Rightarrow> scope list" where
  "retention_scopes out =
     (if rn_events out \<noteq> 0 then [EVENTS] else [])
     @ (if rn_granules out \<noteq> 0 \<or> rn_objects out \<noteq> 0 then [BATCHES] else [])
     @ (if rn_workers out \<noteq> 0 then [WORKERS] else [])"

definition sweep_retention ::
  "settings \<Rightarrow> digest \<Rightarrow> time \<Rightarrow> int option \<Rightarrow> int option \<Rightarrow> orch \<Rightarrow> retention_counts \<times> orch" where
  "sweep_retention cfg digest now events_days deleted_days d =
     (let ev_days = coalesce events_days (retain_events_days cfg);
          del_days = coalesce deleted_days (retain_deleted_days cfg);
          kept = (if ev_days > 0 then prune_events (is_postgres cfg) (now - days ev_days) (feed d) else feed d);
          d1 = d\<lparr>feed := kept\<rparr>;
          (c, d2) = (if del_days > 0 then prune_rows digest (now - days del_days) d1
                     else (\<lparr>rn_events = 0, rn_objects = 0, rn_timings = 0, rn_granules = 0, rn_workers = 0\<rparr>, d1));
          out = c\<lparr>rn_events := length (feed d) - length kept\<rparr>
      in (out, d2\<lparr>outbox := outbox d2 @ retention_scopes out\<rparr>))"

section \<open>Integrity\<close>

lemma db_inv_frames [simp]:
  "db_inv dg (d\<lparr>feed := es\<rparr>) \<longleftrightarrow> db_inv dg d" "db_inv dg (d\<lparr>outbox := ss\<rparr>) \<longleftrightarrow> db_inv dg d"
  "db_inv dg (d\<lparr>workers := ws\<rparr>) \<longleftrightarrow> db_inv dg d" "db_inv dg (d\<lparr>rollouts := rs\<rparr>) \<longleftrightarrow> db_inv dg d"
  by (rule db_inv_cong; simp)+

lemma sweep_orphaned_inv [step_intros]:
  "db_inv dg d \<Longrightarrow> sweep_orphaned_acked cfg t0 now d = (n, d') \<Longrightarrow> db_inv dg d'"
  by (auto simp: sweep_orphaned_acked_def Let_def reconcile_one_def [abs_def] transition_allowed_def split: if_splits
      intro!: for_granules_inv [where P = "db_inv dg"] apply_or_skip_inv)

lemma prune_rows_inv:
  assumes "inj_digest dg" and "db_inv dg d"
  shows "db_inv dg (snd (prune_rows dg cutoff d))"
  using reap_keeps_inv [OF assms(1) drop_objects_inv [OF assms(2)]]
  by (simp add: prune_rows_def Let_def case_prod_beta)

lemma sweep_retention_inv [step_intros]:
  "inj_digest dg \<Longrightarrow> db_inv dg d \<Longrightarrow> sweep_retention cfg dg now e a d = (out, d') \<Longrightarrow> db_inv dg d'"
  by (auto simp: sweep_retention_def Let_def case_prod_beta prune_rows_inv)

section \<open>Properties of the retention sweep\<close>

text \<open>
  Retention only forgets what is old and done: a granule goes only when it was \<open>DELETED\<close> and last
  changed before the cut-off, a worker only when it was removed before the cut-off; batches and
  receipts stay; every object that was confirmed has its receipt afterwards; and with the number of
  days not positive no row goes at all.
\<close>

theorem retention_forgets_safely:
  assumes "inj_digest dg" and "db_inv dg d" and "sweep_retention cfg dg now events_days deleted_days d = (out, d')"
  shows "(let n = coalesce deleted_days (retain_deleted_days cfg); cutoff = now - days n
     in (\<forall>g \<in> set (granules d). g \<in> set (granules d') \<or> 0 < n \<and> gr_state g = DELETED \<and> gr_updated_at g < cutoff)
      \<and> (\<forall>w \<in> set (workers d). w \<in> set (workers d') \<or> 0 < n \<and> null_lt (wk_removed_at w) cutoff)
      \<and> (n \<le> 0 \<longrightarrow> tables d' = tables d \<and> workers d' = workers d))
    \<and> set (granules d') \<subseteq> set (granules d) \<and> batches d' = batches d
    \<and> set (deliveries d) \<subseteq> set (deliveries d')
    \<and> (\<forall>x \<in> set (objects d). ob_acked_at x \<noteq> None \<longrightarrow> has_delivery_record d' x)"
proof -
  let ?n = "coalesce deleted_days (retain_deleted_days cfg)" and ?cut = "now - days (coalesce deleted_days (retain_deleted_days cfg))"
  let ?old = "\<lambda>g. gr_state g = DELETED \<and> gr_updated_at g < ?cut"
  have dist: "distinct (map gr_id (granules d))" using assms(2) by (simp add: db_inv_def keys_ok_def)
  have core: "(\<forall>g \<in> set (granules d). g \<in> set (granules d') \<or> 0 < ?n \<and> ?old g)
      \<and> (\<forall>w \<in> set (workers d). w \<in> set (workers d') \<or> 0 < ?n \<and> null_lt (wk_removed_at w) ?cut)
      \<and> (?n \<le> 0 \<longrightarrow> tables d' = tables d \<and> workers d' = workers d)
      \<and> set (granules d') \<subseteq> set (granules d) \<and> batches d' = batches d \<and> set (deliveries d) \<subseteq> set (deliveries d')"
  proof (cases "0 < ?n")
    case False
    with assms(3) show ?thesis by (auto simp: sweep_retention_def Let_def tables_iff split: if_splits)
  next
    case True
    obtain es where es: "granules d' = granules (snd (prune_rows dg ?cut (d\<lparr>feed := es\<rparr>)))
        \<and> workers d' = workers (snd (prune_rows dg ?cut (d\<lparr>feed := es\<rparr>)))
        \<and> batches d' = batches (snd (prune_rows dg ?cut (d\<lparr>feed := es\<rparr>)))
        \<and> deliveries d' = deliveries (snd (prune_rows dg ?cut (d\<lparr>feed := es\<rparr>)))"
      using True assms(3) by (auto simp: sweep_retention_def Let_def case_prod_beta)
    let ?d1 = "d\<lparr>feed := es, objects := del_where (\<lambda>x. null_lt (ob_deleted_at x) ?cut) (objects d)\<rparr>"
    let ?ids = "map gr_id (filter ?old (granules d))"
    let ?d2 = "snd (reap_granules dg ?ids ?d1)"
    have d': "granules d' = granules ?d2" "workers d' = del_where (\<lambda>w. null_lt (wk_removed_at w) ?cut) (workers ?d2)"
      "batches d' = batches ?d2" "deliveries d' = deliveries ?d2"
      using es by (simp_all add: prune_rows_def Let_def case_prod_beta)
    note r = reap_granules_reaped(1) [of ?ids ?d1 dg, unfolded reaped_def]
    have gs: "granules d' = del_where (\<lambda>g. gr_id g \<in> set ?ids) (granules d)" using d' r by simp
    have "?old g" if g: "g \<in> set (granules d)" and gone: "g \<notin> set (granules d')" for g
    proof -
      from g gone obtain h where h: "h \<in> set (granules d)" "?old h" "gr_id h = gr_id g" unfolding gs by auto
      with dist g have "h = g" by (metis distinct_key_eq)
      with h(2) show ?thesis by simp
    qed
    moreover have "set (granules d') \<subseteq> set (granules d)" unfolding gs by auto
    moreover have "set (deliveries d) \<subseteq> set (deliveries d')"
      using d'(4) reap_granules_deliveries [of ?d1 dg ?ids] by simp
    moreover have "workers d' = del_where (\<lambda>w. null_lt (wk_removed_at w) ?cut) (workers d)" using d'(2) r by simp
    then have "set (workers d') = {w \<in> set (workers d). \<not> null_lt (wk_removed_at w) ?cut}" by (simp only: set_del_where)
    then have "w \<in> set (workers d') \<or> null_lt (wk_removed_at w) ?cut" if "w \<in> set (workers d)" for w
      using that by blast
    moreover have "batches d' = batches d" using d'(3) r by simp
    moreover have "\<not> ?n \<le> 0" using True by simp
    ultimately show ?thesis using True by blast
  qed
  have "has_delivery_record d' x" if "x \<in> set (objects d)" "ob_acked_at x \<noteq> None" for x
    using that assms(2) core by (auto simp: db_inv_def receipts_ok_def intro: has_record_keeps)
  with core show ?thesis unfolding Let_def by blast
qed

theorem retention_forgets_safely_witness:
  "has_delivery_record (snd (sweep_retention sample_settings sample_digest (days 90) None None sample_delivered)) (sample_object (Some 9))"
proof -
  obtain out d' where r: "sweep_retention sample_settings sample_digest (days 90) None None sample_delivered = (out, d')"
    by fastforce
  have "sample_object (Some 9) \<in> set (objects sample_delivered)"
    by (simp add: sample_delivered_def sample_orch_def)
  moreover have "ob_acked_at (sample_object (Some 9)) \<noteq> None" by (simp add: sample_object_def)
  ultimately show ?thesis
    using retention_forgets_safely [OF sample_digest_inj sample_delivered_inv r] r by simp
qed

section \<open>Properties of the reconciliation of orphans\<close>

lemma reconcile_one_row:
  assumes "g \<in> set (granules d)" and "gr_state g = ACKED" and "distinct (map gr_id (granules d))"
  shows "tables (reconcile_one cfg now g d) =
     (upd_where (\<lambda>x. gr_id x = gr_id g) (flip_deleted (Some now)) (granules d),
      upd_where (\<lambda>x. ob_granule x = gr_id g) (\<lambda>x. x\<lparr>ob_deleted_at := Some now\<rparr>) (objects d), timings d,
      upd_where (\<lambda>b. bt_id b = gr_batch g) bump_delivered (batches d), deliveries d)"
proof -
  let ?p = "\<lambda>x. gr_id x = gr_id g \<and> gr_state x \<noteq> DELETED"
  have one: "row_count ?p (granules d) = 1"
    using assms(2) row_count_key [OF assms(3,1), of "\<lambda>x. gr_state x \<noteq> DELETED"] by simp
  have eq: "upd_where ?p f (granules d) = upd_where (\<lambda>x. gr_id x = gr_id g) f (granules d)" for f
  proof (rule upd_where_cong)
    fix r assume r: "r \<in> set (granules d)"
    have "gr_state r = ACKED" if "gr_id r = gr_id g"
      using distinct_key_eq [OF assms(3) r assms(1) that] assms(2) by simp
    then show "?p r \<longleftrightarrow> gr_id r = gr_id g" by auto
  qed simp
  have "apply_event (snapshot_of g) (ReconcileOrphanDeleted (gr_id g)) now (max_retries cfg) = Inr (delete_confirmed now)"
    using assms(2) by (simp add: snapshot_of_def)
  then show ?thesis
    by (simp add: reconcile_one_def apply_or_skip_def apply_transition_def apply_to_session_def Let_def one eq
        delete_confirmed_def TransitionResult_def tables_def)
qed

text \<open>The whole loop: each batch's counter grows by the number of its granules in the list.\<close>

lemma reconcile_loop:
  assumes "distinct ids" and "distinct (map gr_id (granules d))"
    and "\<And>i. i \<in> set ids \<Longrightarrow> \<exists>g \<in> set (granules d). gr_id g = i \<and> gr_state g = ACKED"
  shows "tables (for_granules (reconcile_one cfg now) ids d) =
     (upd_where (\<lambda>g. gr_id g \<in> set ids) (flip_deleted (Some now)) (granules d),
      upd_where (\<lambda>x. ob_granule x \<in> set ids) (\<lambda>x. x\<lparr>ob_deleted_at := Some now\<rparr>) (objects d), timings d,
      map (\<lambda>b. (bump_delivered ^^ row_count (\<lambda>g. gr_id g \<in> set ids \<and> gr_batch g = bt_id b) (granules d)) b) (batches d),
      deliveries d)"
  using assms
proof (induction ids arbitrary: d)
  case Nil
  have "row_count (\<lambda>g. gr_id g \<in> set [] \<and> gr_batch g = bt_id b) (granules d) = 0" for b by simp
  then show ?case by (simp add: for_granules_def tables_def upd_where_def row_count_def)
next
  case (Cons i ids)
  obtain g where g: "g \<in> set (granules d)" "gr_id g = i" "gr_state g = ACKED" using Cons.prems(3) [of i] by auto
  let ?d = "reconcile_one cfg now g d"
  let ?gs = "upd_where (\<lambda>x. gr_id x = i) (flip_deleted (Some now)) (granules d)"
  have t: "granules ?d = ?gs"
      "objects ?d = upd_where (\<lambda>x. ob_granule x = i) (\<lambda>x. x\<lparr>ob_deleted_at := Some now\<rparr>) (objects d)"
      "timings ?d = timings d" "batches ?d = upd_where (\<lambda>b. bt_id b = gr_batch g) bump_delivered (batches d)"
      "deliveries ?d = deliveries d"
    using reconcile_one_row [OF g(1,3) Cons.prems(2), of cfg now] g(2) by (simp_all add: tables_def)
  have "map gr_id ?gs = map gr_id (granules d)" by (rule map_upd_where) simp
  moreover have "\<exists>g \<in> set ?gs. gr_id g = j \<and> gr_state g = ACKED" if j: "j \<in> set ids" for j
  proof -
    obtain h where "h \<in> set (granules d)" "gr_id h = j" "gr_state h = ACKED" using Cons.prems(3) [of j] j by auto
    moreover have "j \<noteq> i" using j Cons.prems(1) by auto
    ultimately show ?thesis by (blast intro: in_upd_where_unchanged)
  qed
  ultimately have IH: "tables (for_granules (reconcile_one cfg now) ids ?d) =
     (upd_where (\<lambda>g. gr_id g \<in> set ids) (flip_deleted (Some now)) ?gs,
      upd_where (\<lambda>x. ob_granule x \<in> set ids) (\<lambda>x. x\<lparr>ob_deleted_at := Some now\<rparr>) (objects ?d), timings d,
      map (\<lambda>b. (bump_delivered ^^ row_count (\<lambda>g. gr_id g \<in> set ids \<and> gr_batch g = bt_id b) ?gs) b) (batches ?d),
      deliveries d)"
    using Cons.IH [of ?d] Cons.prems(1,2) t by simp
  have gs: "upd_where (\<lambda>g. gr_id g \<in> set ids) (flip_deleted (Some now)) ?gs
      = upd_where (\<lambda>g. gr_id g \<in> set (i # ids)) (flip_deleted (Some now)) (granules d)"
    using upd_where_compose [of "\<lambda>g. gr_id g = i" "\<lambda>g. gr_id g \<in> set ids" "flip_deleted (Some now)" "granules d"]
      Cons.prems(1) by simp
  have os: "upd_where (\<lambda>x. ob_granule x \<in> set ids) (\<lambda>x. x\<lparr>ob_deleted_at := Some now\<rparr>) (objects ?d)
      = upd_where (\<lambda>x. ob_granule x \<in> set (i # ids)) (\<lambda>x. x\<lparr>ob_deleted_at := Some now\<rparr>) (objects d)"
    unfolding t(2) by (auto simp: upd_where_def)
  have cnt: "row_count (\<lambda>h. gr_id h \<in> set (i # ids) \<and> gr_batch h = k) (granules d)
      = (if k = gr_batch g then 1 else 0) + row_count (\<lambda>h. gr_id h \<in> set ids \<and> gr_batch h = k) ?gs" for k
  proof -
    have "row_count (\<lambda>h. gr_id h \<in> set ids \<and> gr_batch h = k) ?gs
        = row_count (\<lambda>h. gr_id h \<in> set ids \<and> gr_batch h = k) (granules d)"
      by (rule row_count_upd_where_same) simp
    moreover have "row_count (\<lambda>h. gr_id h = gr_id g \<and> gr_batch h = k) (granules d) = (if k = gr_batch g then 1 else 0)"
      using row_count_key [OF Cons.prems(2) g(1), of "\<lambda>h. gr_batch h = k"] by auto
    moreover have "row_count (\<lambda>h. gr_id h = gr_id g \<and> gr_batch h = k \<or> gr_id h \<in> set ids \<and> gr_batch h = k) (granules d)
        = row_count (\<lambda>h. gr_id h = gr_id g \<and> gr_batch h = k) (granules d)
        + row_count (\<lambda>h. gr_id h \<in> set ids \<and> gr_batch h = k) (granules d)"
      by (rule row_count_disjoint) (use Cons.prems(1) g(2) in auto)
    moreover have "row_count (\<lambda>h. gr_id h \<in> set (i # ids) \<and> gr_batch h = k) (granules d)
        = row_count (\<lambda>h. gr_id h = gr_id g \<and> gr_batch h = k \<or> gr_id h \<in> set ids \<and> gr_batch h = k) (granules d)"
      by (rule row_count_cong) (use g(2) in auto)
    ultimately show ?thesis by (simp del: row_count_0)
  qed
  have bs: "map (\<lambda>b. (bump_delivered ^^ row_count (\<lambda>h. gr_id h \<in> set ids \<and> gr_batch h = bt_id b) ?gs) b) (batches ?d)
      = map (\<lambda>b. (bump_delivered ^^ row_count (\<lambda>h. gr_id h \<in> set (i # ids) \<and> gr_batch h = bt_id b) (granules d)) b) (batches d)"
    unfolding t(4) upd_where_def cnt by (auto simp: funpow_swap1)
  have "for_granules (reconcile_one cfg now) (i # ids) d = for_granules (reconcile_one cfg now) ids ?d"
    using get_row_unique [OF Cons.prems(2) g(1)] g(2) by (simp add: for_granules_def get_granule_def)
  then show ?case using IH unfolding gs os bs by simp
qed

lemma selected_by_key:
  assumes "distinct (map key rs)" and "r \<in> set rs"
  shows "key r \<in> set (map key (filter p rs)) \<longleftrightarrow> p r"
proof
  assume "key r \<in> set (map key (filter p rs))"
  then obtain x where "x \<in> set rs" "p x" "key x = key r" by auto
  with assms show "p r" by (metis distinct_key_eq)
qed (use assms(2) in auto)

text \<open>
  The reconciliation deletes exactly the delivered granules that no live worker stores an object of
  any more, and counts each of them once on its batch; it marks their objects as deleted, touches
  no other granule and no receipt; and within the grace period after a start it does nothing.
\<close>

theorem reconcile_orphans_exact:
  assumes "distinct (map gr_id (granules d))" and "sweep_orphaned_acked cfg started_at now d = (n, d')"
  shows "if 0 < acked_orphan_grace_sec cfg \<and> now - started_at < seconds (acked_orphan_grace_sec cfg)
    then n = 0 \<and> d' = d
    else let q = acked_orphan (live_worker_ids cfg now d) d
      in n = row_count q (granules d)
       \<and> granules d' = map (\<lambda>g. if q g then g\<lparr>gr_state := DELETED, gr_updated_at := now\<rparr> else g) (granules d)
       \<and> (\<forall>b \<in> set (batches d). \<exists>b' \<in> set (batches d'). bt_id b' = bt_id b
            \<and> coalesce (bt_delivered_count b') 0
              = coalesce (bt_delivered_count b) 0 + int (row_count (\<lambda>g. q g \<and> gr_batch g = bt_id b) (granules d)))
       \<and> objects d' = map (\<lambda>x. if \<exists>g \<in> set (granules d). q g \<and> gr_id g = ob_granule x
            then x\<lparr>ob_deleted_at := Some now\<rparr> else x) (objects d)
       \<and> deliveries d' = deliveries d"
proof (cases "0 < acked_orphan_grace_sec cfg \<and> now - started_at < seconds (acked_orphan_grace_sec cfg)")
  case True
  with assms(2) show ?thesis by (simp add: sweep_orphaned_acked_def Let_def)
next
  case False
  let ?q = "acked_orphan (live_worker_ids cfg now d) d"
  let ?ids = "map gr_id (filter ?q (granules d))"
  let ?e = "for_granules (reconcile_one cfg now) ?ids d"
  have sel: "gr_id g \<in> set ?ids \<longleftrightarrow> ?q g" if "g \<in> set (granules d)" for g
    by (rule selected_by_key [OF assms(1) that])
  have "distinct ?ids" using assms(1) by (rule distinct_map_filter)
  moreover have "\<exists>g \<in> set (granules d). gr_id g = i \<and> gr_state g = ACKED" if "i \<in> set ?ids" for i
    using that by (auto simp: acked_orphan_def)
  ultimately have t: "tables ?e =
     (upd_where (\<lambda>g. gr_id g \<in> set ?ids) (flip_deleted (Some now)) (granules d),
      upd_where (\<lambda>x. ob_granule x \<in> set ?ids) (\<lambda>x. x\<lparr>ob_deleted_at := Some now\<rparr>) (objects d), timings d,
      map (\<lambda>b. (bump_delivered ^^ row_count (\<lambda>g. gr_id g \<in> set ?ids \<and> gr_batch g = bt_id b) (granules d)) b) (batches d),
      deliveries d)"
    by (rule reconcile_loop [OF _ assms(1)])
  have n: "n = length ?ids" and d': "tables d' = tables ?e"
    using False assms(2) by (auto simp: sweep_orphaned_acked_def Let_def for_granules_def tables_iff split: if_splits)
  have gs: "granules d' = map (\<lambda>g. if ?q g then g\<lparr>gr_state := DELETED, gr_updated_at := now\<rparr> else g) (granules d)"
    using t d' sel by (simp add: tables_def upd_where_def flip_deleted_def)
  have os: "objects d' = map (\<lambda>x. if \<exists>g \<in> set (granules d). ?q g \<and> gr_id g = ob_granule x
            then x\<lparr>ob_deleted_at := Some now\<rparr> else x) (objects d)"
  proof -
    have "objects d' = upd_where (\<lambda>x. ob_granule x \<in> set ?ids) (\<lambda>x. x\<lparr>ob_deleted_at := Some now\<rparr>) (objects d)"
      using t d' by (simp add: tables_def)
    moreover have "(\<lambda>x::gobject. if ob_granule x \<in> set ?ids then x\<lparr>ob_deleted_at := Some now\<rparr> else x)
        = (\<lambda>x. if \<exists>g \<in> set (granules d). ?q g \<and> gr_id g = ob_granule x then x\<lparr>ob_deleted_at := Some now\<rparr> else x)"
      by (rule ext) (rule if_cong, force+)
    ultimately show ?thesis by (simp only: upd_where_def)
  qed
  have bump: "bt_id ((bump_delivered ^^ m) b) = bt_id b
      \<and> coalesce (bt_delivered_count ((bump_delivered ^^ m) b)) 0 = coalesce (bt_delivered_count b) 0 + int m" for m b
    by (induction m) (auto simp: bump_delivered_def)
  have same: "row_count (\<lambda>g. gr_id g \<in> set ?ids \<and> gr_batch g = k) (granules d) = row_count (\<lambda>g. ?q g \<and> gr_batch g = k) (granules d)" for k
    by (rule row_count_cong) (use sel in auto)
  have bs: "batches d' = map (\<lambda>b. (bump_delivered ^^ row_count (\<lambda>g. ?q g \<and> gr_batch g = bt_id b) (granules d)) b) (batches d)"
    using t d' unfolding same by (simp add: tables_def)
  have "\<exists>b' \<in> set (batches d'). bt_id b' = bt_id b
      \<and> coalesce (bt_delivered_count b') 0
        = coalesce (bt_delivered_count b) 0 + int (row_count (\<lambda>g. ?q g \<and> gr_batch g = bt_id b) (granules d))"
    if "b \<in> set (batches d)" for b
  proof (rule bexI)
    show "(bump_delivered ^^ row_count (\<lambda>g. ?q g \<and> gr_batch g = bt_id b) (granules d)) b \<in> set (batches d')"
      using that unfolding bs by simp
  qed (rule bump)
  moreover have "deliveries d' = deliveries d" using t d' by (simp add: tables_def)
  moreover have "n = row_count ?q (granules d)" using n by (simp add: row_count_def)
  ultimately show ?thesis
    unfolding Let_def using False gs os by (simp only: if_False) blast
qed

text \<open>An acknowledged granule whose worker is not registered any more.\<close>

theorem reconcile_orphans_exact_witness:
  "map gr_state (granules (snd (sweep_orphaned_acked sample_settings 0 (seconds 900000) (sample_orch ACKED (Some 9))))) = [DELETED]"
proof -
  let ?d = "sample_orch ACKED (Some 9)" and ?now = "seconds 900000"
  have "distinct (map gr_id (granules ?d))" by (simp add: sample_defs)
  moreover obtain n d' where r: "sweep_orphaned_acked sample_settings 0 ?now ?d = (n, d')" by fastforce
  moreover have "\<not> (0 < acked_orphan_grace_sec sample_settings \<and> ?now - 0 < seconds (acked_orphan_grace_sec sample_settings))"
    by (simp add: sample_settings_def seconds_def)
  ultimately have "granules d' = map (\<lambda>g. if acked_orphan (live_worker_ids sample_settings ?now ?d) ?d g
      then g\<lparr>gr_state := DELETED, gr_updated_at := ?now\<rparr> else g) (granules ?d)"
    using reconcile_orphans_exact [of ?d sample_settings 0 ?now n d'] unfolding Let_def by (simp only: if_False)
  moreover have "acked_orphan (live_worker_ids sample_settings ?now ?d) ?d (sample_granule ACKED)"
    by (simp add: acked_orphan_def live_worker_ids_def Let_def sample_settings_def sample_defs)
  ultimately show ?thesis using r by (simp add: sample_orch_def)
qed

end
