(* ===== verification/Rollout.thy ===== *)
theory Rollout
  imports Background Float64
begin

text \<open>
  The staged rollout of a version over the fleet: the state machine that the background leader
  advances (\<^verbatim>\<open>src/sathop/orchestrator/background.py\<close>) and the operator's endpoints
  (\<^verbatim>\<open>src/sathop/orchestrator/api/rollout.py\<close>). A rollout goes from pending over the canary, batch
  and fleet waves to done; a wave that misses its deadline halts it; the operator aborts a rollout
  or resumes a halted one.
\<close>

section \<open>The active rollout and its candidates\<close>

definition WAVE_LABELS :: "string list" where
  "WAVE_LABELS = [''canary'', ''batch'', ''fleet'']"

text \<open>\<^verbatim>\<open>ORDER BY id DESC LIMIT 1\<close> over the rollouts in some phases.\<close>

definition latest_rollout :: "(rollout \<Rightarrow> bool) \<Rightarrow> orch \<Rightarrow> rollout option" where
  "latest_rollout p d =
     (case rev (sort_key ro_id (filter p (rollouts d))) of [] \<Rightarrow> None | r # _ \<Rightarrow> Some r)"

definition active_rollout :: "orch \<Rightarrow> rollout option" where
  "active_rollout d = latest_rollout (\<lambda>r. ro_phase r \<in> {''pending'', ''running''}) d"

definition eligible :: "string \<Rightarrow> worker \<Rightarrow> bool" where
  "eligible target w \<longleftrightarrow>
     wk_removed_at w = None \<and> wk_operator_paused w \<noteq> Some True \<and> wk_version w \<noteq> target"

definition eligible_worker_ids :: "orch \<Rightarrow> string \<Rightarrow> ident list" where
  "eligible_worker_ids d target = sort (map wk_id (filter (eligible target) (workers d)))"

text \<open>The product of an integer and a float, rounded to a float of either sign, and its ceiling.\<close>

definition float_times :: "int \<Rightarrow> rat \<Rightarrow> rat" where
  "float_times n x =
     (let y = of_int n * x in if y = 0 then 0 else if y < 0 then - f64 (- y) else f64 y)"

definition wave_size :: "int \<Rightarrow> int \<Rightarrow> rollout \<Rightarrow> int" where
  "wave_size wave_index eligible_n r =
     (if eligible_n = 0 then 0
      else if wave_index = 0 then min (ro_canary_count r) eligible_n
      else if wave_index = 1 then min eligible_n (max 1 \<lceil>float_times eligible_n (ro_batch_pct r)\<rceil>)
      else eligible_n)"

text \<open>Python's \<^verbatim>\<open>xs[:n]\<close>: a negative bound counts from the end.\<close>

definition slice_to :: "int \<Rightarrow> 'a list \<Rightarrow> 'a list" where
  "slice_to n xs = (if 0 \<le> n then take (nat n) xs else take (nat (int (length xs) + n)) xs)"

section \<open>The members of a wave\<close>

datatype membership = Confirmed | Waiting | Excused

definition member_status :: "rollout \<Rightarrow> orch \<Rightarrow> ident \<Rightarrow> membership" where
  "member_status r d k =
     (case get_worker k d of
        None \<Rightarrow> Excused
      | Some w \<Rightarrow>
          if wk_removed_at w \<noteq> None \<or> wk_operator_paused w = Some True then Excused
          else if wk_version w = ro_target_version r then Confirmed
          else Waiting)"

record breakdown =
  bd_confirmed :: "ident list"
  bd_pending :: "ident list"
  bd_excused :: "ident list"

definition rollout_member_breakdown :: "rollout \<Rightarrow> orch \<Rightarrow> breakdown" where
  "rollout_member_breakdown r d =
     (let ids = ro_member_ids r; st = member_status r d
      in \<lparr>bd_confirmed = filter (\<lambda>k. st k = Confirmed) ids,
          bd_pending = filter (\<lambda>k. st k = Waiting) ids,
          bd_excused = filter (\<lambda>k. st k = Excused) ids\<rparr>)"

section \<open>One tick of the leader\<close>

definition put_rollout :: "rollout \<Rightarrow> orch \<Rightarrow> orch" where
  "put_rollout r d = d\<lparr>rollouts := upd_where (\<lambda>x. ro_id x = ro_id r) (\<lambda>_. r) (rollouts d)\<rparr>"

definition finish_rollout :: "time \<Rightarrow> rollout \<Rightarrow> rollout" where
  "finish_rollout now r = r\<lparr>ro_phase := ''done'', ro_finished_at := Some now, ro_updated_at := now\<rparr>"

definition stamp_members :: "time \<Rightarrow> string \<Rightarrow> ident list \<Rightarrow> orch \<Rightarrow> orch" where
  "stamp_members now target members d =
     d\<lparr>workers := upd_where (\<lambda>w. wk_id w \<in> set members) (stamp_update now (Some target)) (workers d)\<rparr>"

definition run_wave :: "time \<Rightarrow> int \<Rightarrow> ident list \<Rightarrow> rollout \<Rightarrow> rollout" where
  "run_wave now wave_index members r =
     r\<lparr>ro_phase := ''running'', ro_wave_index := wave_index, ro_member_ids := members,
       ro_wave_started_at := Some now, ro_wave_deadline_at := Some (now + seconds (ro_wave_timeout_sec r)),
       ro_updated_at := now\<rparr>"

definition enter_wave :: "rollout \<Rightarrow> int \<Rightarrow> time \<Rightarrow> orch \<Rightarrow> orch" where
  "enter_wave r wave_index now d =
     (let el = eligible_worker_ids d (ro_target_version r);
          size = wave_size wave_index (int (length el)) r
      in if size = 0 then
           log_event ''info'' ''operator''
             (''rollout v{} complete (no workers left to upgrade)'', [AStr (ro_target_version r)]) None None
             (put_rollout (finish_rollout now r) d)
         else
           let members = slice_to size el
           in log_event ''info'' ''operator''
                (''rollout v{}: {} wave -> {} worker(s)'',
                 [AStr (ro_target_version r), AStr (WAVE_LABELS ! nat wave_index), AInt (int (length members))]) None None
                (put_rollout (run_wave now wave_index members r)
                   (stamp_members now (ro_target_version r) members d)))"

definition timeout_reason :: "rollout \<Rightarrow> ident list \<Rightarrow> fmt" where
  "timeout_reason r pending =
     (''{} wave timed out; unconfirmed: {, }'', AStr (WAVE_LABELS ! nat (ro_wave_index r)) # map AStr pending)"

definition halt_rollout :: "time \<Rightarrow> ident list \<Rightarrow> rollout \<Rightarrow> rollout" where
  "halt_rollout now pending r =
     r\<lparr>ro_phase := ''halted'', ro_updated_at := now, ro_halt_reason := Some (timeout_reason r pending)\<rparr>"

definition advance_rollout :: "time \<Rightarrow> orch \<Rightarrow> bool \<times> orch" where
  "advance_rollout now d =
     (case active_rollout d of
        None \<Rightarrow> (False, d)
      | Some r \<Rightarrow>
          if ro_phase r = ''pending'' then
            (True, commit_and_publish now [Some WORKERS, Some ROLLOUT] (enter_wave r 0 now d))
          else
            let pending = bd_pending (rollout_member_breakdown r d)
            in if pending = [] then
                 (True, commit_and_publish now [Some WORKERS, Some ROLLOUT]
                    (if ro_wave_index r \<ge> 2 then
                       log_event ''info'' ''operator'' (''rollout v{} complete'', [AStr (ro_target_version r)]) None None
                         (put_rollout (finish_rollout now r) d)
                     else enter_wave r (ro_wave_index r + 1) now d))
               else if (case ro_wave_deadline_at r of None \<Rightarrow> False | Some t \<Rightarrow> t \<le> now) then
                 (True, commit_and_publish now [Some ROLLOUT]
                    (log_event ''warn'' ''operator''
                       (''rollout v{} HALTED - {}'', AStr (ro_target_version r) # snd (timeout_reason r pending)) None None
                       (put_rollout (halt_rollout now pending r) d)))
               else (False, d))"

section \<open>The operator's endpoints\<close>

record rollout_start =
  rs_target_version :: "string option"
  rs_channel :: "string option"
  rs_canary_count :: "int option"
  rs_batch_pct :: "rat option"
  rs_wave_timeout_sec :: "int option"

record rollout_report =
  st_active :: bool
  st_id :: "int option"
  st_target_version :: "string option"
  st_channel :: "string option"
  st_phase :: "string option"
  st_wave :: "string option"
  st_wave_index :: "int option"
  st_members :: "(nat \<times> nat \<times> nat) option"
  st_pending_ids :: "ident list"
  st_wave_deadline_at :: "time option"
  st_halt_reason :: "fmt option"
  st_started_at :: "time option"
  st_finished_at :: "time option"

definition ACTIVE_PHASES :: "string list" where
  "ACTIVE_PHASES = [''pending'', ''running'', ''halted'']"

definition status_of :: "rollout \<Rightarrow> breakdown \<Rightarrow> rollout_report" where
  "status_of r b =
     \<lparr>st_active = (ro_phase r \<in> set ACTIVE_PHASES), st_id = Some (ro_id r),
      st_target_version = Some (ro_target_version r), st_channel = ro_channel r, st_phase = Some (ro_phase r),
      st_wave = (if 0 \<le> ro_wave_index r \<and> ro_wave_index r < int (length WAVE_LABELS)
                 then Some (WAVE_LABELS ! nat (ro_wave_index r)) else None),
      st_wave_index = Some (ro_wave_index r),
      st_members = Some (length (bd_confirmed b), length (bd_pending b), length (bd_excused b)),
      st_pending_ids = bd_pending b, st_wave_deadline_at = ro_wave_deadline_at r,
      st_halt_reason = ro_halt_reason r, st_started_at = Some (ro_started_at r), st_finished_at = ro_finished_at r\<rparr>"

definition inactive_status :: rollout_report where
  "inactive_status =
     \<lparr>st_active = False, st_id = None, st_target_version = None, st_channel = None, st_phase = None,
      st_wave = None, st_wave_index = None, st_members = None, st_pending_ids = [], st_wave_deadline_at = None,
      st_halt_reason = None, st_started_at = None, st_finished_at = None\<rparr>"

text \<open>The rollout that the operator sees as active: a halted one still is.\<close>

definition open_rollout :: "orch \<Rightarrow> rollout option" where
  "open_rollout d = latest_rollout (\<lambda>r. ro_phase r \<in> set ACTIVE_PHASES) d"

text \<open>
  The release server answers \<open>fetch\<close> (the newest release of a channel, or an error text) and \<open>head\<close>
  (nothing, or why the version cannot be downloaded); \<open>current\<close> is the orchestrator's own version.
\<close>

definition resolve_target ::
  "(string \<Rightarrow> string + release_info) \<Rightarrow> string \<Rightarrow> rollout_start \<Rightarrow> http_error + string \<times> string option" where
  "resolve_target fetch default_channel body =
     (case rs_target_version body of
        Some (c # cs) \<Rightarrow>
          (case normalize_version (c # cs) of
             Inl (ValueError e) \<Rightarrow> Inl (HTTPException 422 e)
           | Inr v \<Rightarrow> Inr (v, None))
      | _ \<Rightarrow>
          let ch = normalize_channel (case rs_channel body of Some (c # cs) \<Rightarrow> c # cs | _ \<Rightarrow> default_channel)
          in case fetch ch of
               Inl e \<Rightarrow> Inl (HTTPException 502 (''could not resolve the {} channel: {}'', [AStr ch, AStr e]))
             | Inr data \<Rightarrow>
                 (case normalize_version (ri_tag data) of
                    Inl _ \<Rightarrow> Inl (HTTPException 502 (''the {} channel has no usable release (got {!r})'', [AStr ch, AStr (ri_tag data)]))
                  | Inr v \<Rightarrow> Inr (v, Some ch)))"

text \<open>Python's \<^verbatim>\<open>a or b\<close> on an optional number.\<close>

definition or_else :: "int option \<Rightarrow> int \<Rightarrow> int" where
  "or_else a b = (case a of None \<Rightarrow> b | Some n \<Rightarrow> if n = 0 then b else n)"

definition new_rollout :: "settings \<Rightarrow> time \<Rightarrow> int \<Rightarrow> string \<Rightarrow> string option \<Rightarrow> rollout_start \<Rightarrow> rollout" where
  "new_rollout cfg now k target channel body =
     \<lparr>ro_id = k, ro_target_version = target, ro_channel = channel, ro_phase = ''pending'', ro_wave_index = -1,
      ro_member_ids = [], ro_wave_started_at = None, ro_wave_deadline_at = None,
      ro_canary_count = or_else (rs_canary_count body) (rollout_canary_count cfg),
      ro_batch_pct = coalesce (rs_batch_pct body) (rollout_batch_pct cfg),
      ro_wave_timeout_sec = or_else (rs_wave_timeout_sec body) (rollout_wave_timeout_sec cfg),
      ro_halt_reason = None, ro_started_by = Some ''ui'', ro_started_at = now, ro_updated_at = now, ro_finished_at = None\<rparr>"

definition no_members :: breakdown where
  "no_members = \<lparr>bd_confirmed = [], bd_pending = [], bd_excused = []\<rparr>"

definition start_rollout ::
  "settings \<Rightarrow> (string \<Rightarrow> string + release_info) \<Rightarrow> (string \<Rightarrow> string option) \<Rightarrow> string \<Rightarrow> string \<Rightarrow> time
     \<Rightarrow> rollout_start \<Rightarrow> rollout_report handler" where
  "start_rollout cfg fetch head default_channel current now body d =
     and_then (resolve_target fetch default_channel body) (\<lambda>(target, channel).
       if version_less (parse_version current) (parse_version target) then
         Inl (HTTPException 409 (''orchestrator is on v{}; upgrade it to v{} before rolling out workers'', [AStr current, AStr target]))
       else case head target of
         Some e \<Rightarrow> Inl (HTTPException 502 (''release v{} not downloadable: {}'', [AStr target, AStr e]))
       | None \<Rightarrow>
           if open_rollout d \<noteq> None then
             Inl (HTTPException 409 (''a rollout is already in progress; abort it first'', []))
           else
             let r = new_rollout cfg now (next_id ro_id (rollouts d)) target channel body
             in Inr (status_of r no_members, commit_and_publish now [Some ROLLOUT]
                  (log_event ''info'' ''operator''
                     (''rollout to v{} started (canary={}, batch_pct={}, timeout={}s)'',
                      [AStr target, AInt (ro_canary_count r), AFloat (quotient_of (ro_batch_pct r)), AInt (ro_wave_timeout_sec r)]) None None
                     (d\<lparr>rollouts := rollouts d @ [r]\<rparr>))))"

definition rollout_status :: "orch \<Rightarrow> rollout_report" where
  "rollout_status d =
     (case latest_rollout (\<lambda>_. True) d of
        None \<Rightarrow> inactive_status
      | Some r \<Rightarrow> status_of r (rollout_member_breakdown r d))"

definition abort_rollout :: "time \<Rightarrow> rollout_report handler" where
  "abort_rollout now d =
     and_then (get_or_404 (open_rollout d) ''no active rollout to abort'') (\<lambda>r.
       let r' = r\<lparr>ro_phase := ''aborted'', ro_finished_at := Some now, ro_updated_at := now\<rparr>;
           d' = commit_and_publish now [Some ROLLOUT]
             (log_event ''warn'' ''operator'' (''rollout v{} aborted via UI'', [AStr (ro_target_version r)]) None None
               (put_rollout r' d))
       in Inr (status_of r' (rollout_member_breakdown r' d'), d'))"

definition resume_rollout :: "time \<Rightarrow> rollout_report handler" where
  "resume_rollout now d =
     and_then (get_or_404 (latest_rollout (\<lambda>r. ro_phase r = ''halted'') d) ''no halted rollout to resume'') (\<lambda>r.
       let b = rollout_member_breakdown r d;
           r' = r\<lparr>ro_phase := ''running'', ro_wave_deadline_at := Some (now + seconds (ro_wave_timeout_sec r)),
                  ro_halt_reason := None, ro_updated_at := now\<rparr>
       in Inr (status_of r' b, commit_and_publish now [Some WORKERS, Some ROLLOUT]
            (log_event ''info'' ''operator'' (''rollout v{} resumed ({} pending re-stamped)'',
               [AStr (ro_target_version r), AInt (int (length (bd_pending b)))]) None None
              (put_rollout r' (stamp_members now (ro_target_version r) (bd_pending b) d)))))"

section \<open>The latest rollout of a phase\<close>

lemma latest_rollout_None: "latest_rollout p d = None \<longleftrightarrow> (\<forall>r \<in> set (rollouts d). \<not> p r)"
proof -
  have "latest_rollout p d = None \<longleftrightarrow> sort_key ro_id (filter p (rollouts d)) = []"
    by (simp add: latest_rollout_def split: list.splits)
  also have "\<dots> \<longleftrightarrow> filter p (rollouts d) = []"
    by (metis set_empty set_sort)
  finally show ?thesis by (simp add: filter_empty_conv)
qed

lemma latest_rollout_Some:
  assumes "latest_rollout p d = Some r"
  shows "r \<in> set (rollouts d)" and "p r"
proof -
  have "r \<in> set (rev (sort_key ro_id (filter p (rollouts d))))"
    using assms by (cases "rev (sort_key ro_id (filter p (rollouts d)))") (simp_all add: latest_rollout_def)
  then show "r \<in> set (rollouts d)" and "p r" by simp_all
qed

lemma latest_rollout_cong: "rollouts d' = rollouts d \<Longrightarrow> latest_rollout p d' = latest_rollout p d"
  by (simp add: latest_rollout_def)

lemma latest_rollout_single: "filter p (rollouts d) = [r] \<Longrightarrow> latest_rollout p d = Some r"
  by (simp add: latest_rollout_def)

lemma stamp_members_frame [simp]: "rollouts (stamp_members now t ms d) = rollouts d"
  by (simp add: stamp_members_def)

lemma put_rollout_frame [simp]: "workers (put_rollout r d) = workers d"
  by (simp add: put_rollout_def)

lemma enter_wave_cases:
  obtains "rollouts (enter_wave r i now d) = rollouts (put_rollout (finish_rollout now r) d)"
    "workers (enter_wave r i now d) = workers d"
  | ms where "rollouts (enter_wave r i now d) = rollouts (put_rollout (run_wave now i ms r) d)"
    "workers (enter_wave r i now d)
       = upd_where (\<lambda>w. wk_id w \<in> set ms) (stamp_update now (Some (ro_target_version r))) (workers d)"
    "ms = slice_to (wave_size i (int (length (eligible_worker_ids d (ro_target_version r)))) r)
            (eligible_worker_ids d (ro_target_version r))"
proof (cases "wave_size i (int (length (eligible_worker_ids d (ro_target_version r)))) r = 0")
  case True
  then show ?thesis by (intro that(1)) (simp_all add: enter_wave_def Let_def)
next
  case False
  then show ?thesis
    by (intro that(2) [OF _ _ refl]) (simp_all add: enter_wave_def Let_def put_rollout_def stamp_members_def)
qed

section \<open>At most one rollout is open\<close>

definition is_open :: "rollout \<Rightarrow> bool" where
  "is_open r \<longleftrightarrow> ro_phase r \<in> set ACTIVE_PHASES"

definition rollout_ok :: "rollout \<Rightarrow> bool" where
  "rollout_ok r \<longleftrightarrow>
     ro_phase r \<in> {''pending'', ''running'', ''halted'', ''done'', ''aborted''}
   \<and> (ro_phase r = ''pending'' \<longrightarrow> ro_wave_index r = -1 \<and> ro_member_ids r = [] \<and> ro_wave_deadline_at r = None)
   \<and> (ro_phase r \<in> {''running'', ''halted''} \<longrightarrow>
        0 \<le> ro_wave_index r \<and> ro_wave_index r \<le> 2 \<and> ro_wave_deadline_at r \<noteq> None)
   \<and> (ro_finished_at r \<noteq> None \<longleftrightarrow> ro_phase r \<in> {''done'', ''aborted''})
   \<and> (ro_phase r = ''halted'' \<longrightarrow> ro_halt_reason r \<noteq> None)
   \<and> (ro_phase r \<in> {''pending'', ''running'', ''done''} \<longrightarrow> ro_halt_reason r = None)"

definition rollouts_ok :: "orch \<Rightarrow> bool" where
  "rollouts_ok d \<longleftrightarrow>
     distinct (map ro_id (rollouts d)) \<and> row_count is_open (rollouts d) \<le> 1
   \<and> (\<forall>r \<in> set (rollouts d). rollout_ok r)"

lemma rollouts_ok_cong: "rollouts d' = rollouts d \<Longrightarrow> rollouts_ok d' \<longleftrightarrow> rollouts_ok d"
  by (simp add: rollouts_ok_def)

lemma put_rollout_ok:
  assumes "rollouts_ok d" and "r \<in> set (rollouts d)" and "ro_id r' = ro_id r" and "rollout_ok r'"
    and "is_open r' \<Longrightarrow> is_open r"
  shows "rollouts_ok (put_rollout r' d)"
proof -
  have key: "x = r" if "x \<in> set (rollouts d)" "ro_id x = ro_id r'" for x
    using assms(1-3) that unfolding rollouts_ok_def by (metis distinct_key_eq)
  have "row_count (\<lambda>x. if ro_id x = ro_id r' then is_open r' else is_open x) (rollouts d) \<le> row_count is_open (rollouts d)"
    by (rule row_count_mono) (use key assms(5) in \<open>auto split: if_splits\<close>)
  then have "row_count is_open (rollouts (put_rollout r' d)) \<le> row_count is_open (rollouts d)"
    by (simp add: put_rollout_def row_count_upd_where)
  moreover have "map ro_id (rollouts (put_rollout r' d)) = map ro_id (rollouts d)"
    by (auto simp: put_rollout_def upd_where_def)
  ultimately show ?thesis
    using assms(1,4) by (auto simp: rollouts_ok_def put_rollout_def set_upd_where)
qed

lemma filter_put_open:
  assumes "rollouts_ok d" and "r \<in> set (rollouts d)" and "is_open r" and "ro_id r' = ro_id r" and "\<And>x. p x \<Longrightarrow> is_open x"
  shows "filter p (rollouts (put_rollout r' d)) = (if p r' then [r'] else [])"
proof -
  obtain xs ys where rs: "rollouts d = xs @ r # ys" using assms(2) by (meson split_list)
  have "row_count is_open xs = 0" and "row_count is_open ys = 0"
    using assms(1,3) by (simp_all add: rollouts_ok_def rs row_count_Cons del: row_count_0)
  then have none: "\<not> p x" if "x \<in> set xs \<union> set ys" for x
    using that assms(5) [of x] by (auto simp del: Un_iff)
  have "distinct (map ro_id (xs @ r # ys))" using assms(1) unfolding rollouts_ok_def rs by blast
  then have ids: "ro_id x \<noteq> ro_id r'" if "x \<in> set xs \<union> set ys" for x
    using that unfolding assms(4) by (auto simp: image_iff)
  have "upd_where (\<lambda>x. ro_id x = ro_id r') (\<lambda>_. r') xs = xs" "upd_where (\<lambda>x. ro_id x = ro_id r') (\<lambda>_. r') ys = ys"
    using ids by (intro upd_where_none; blast)+
  then have "rollouts (put_rollout r' d) = xs @ r' # ys"
    using assms(4) by (simp add: put_rollout_def rs upd_where_def)
  moreover have "filter p xs = []" "filter p ys = []" using none unfolding filter_empty_conv by blast+
  ultimately show ?thesis by simp
qed

lemma active_is_open:
  assumes "active_rollout d = Some r"
  shows "r \<in> set (rollouts d)" and "is_open r" and "ro_phase r = ''pending'' \<or> ro_phase r = ''running''"
  using latest_rollout_Some [OF assms [unfolded active_rollout_def]] by (auto simp: is_open_def ACTIVE_PHASES_def)

lemma active_after_put:
  assumes "rollouts_ok d" and "active_rollout d = Some r" and "ro_id r' = ro_id r"
    and "rollouts d' = rollouts (put_rollout r' d)"
  shows "active_rollout d' = (if ro_phase r' = ''pending'' \<or> ro_phase r' = ''running'' then Some r' else None)"
proof -
  let ?p = "\<lambda>r. ro_phase r \<in> {''pending'', ''running''}"
  have "filter ?p (rollouts d') = (if ?p r' then [r'] else [])"
    unfolding assms(4) by (rule filter_put_open [OF assms(1) active_is_open(1,2) [OF assms(2)] assms(3)])
      (auto simp: is_open_def ACTIVE_PHASES_def)
  then show ?thesis by (auto simp: active_rollout_def latest_rollout_def)
qed

section \<open>What a tick and an operator do to the row\<close>

text \<open>A tick ends the rollout, halts it, or moves it to the next wave with a new deadline.\<close>

definition ticked :: "time \<Rightarrow> rollout \<Rightarrow> rollout \<Rightarrow> bool" where
  "ticked now r r' \<longleftrightarrow>
     r' = finish_rollout now r
   \<or> ro_phase r = ''running'' \<and> (\<exists>ks. ks \<noteq> [] \<and> r' = halt_rollout now ks r)
   \<or> ro_wave_index r < 2 \<and> (\<exists>ms. r' = run_wave now (ro_wave_index r + 1) ms r)"

lemmas row_updates = finish_rollout_def halt_rollout_def run_wave_def

lemma ticked_ok:
  assumes "rollout_ok r" and "is_open r" and "ticked now r r'" and "ro_phase r \<noteq> ''halted''"
  shows "rollout_ok r'" and "ro_id r' = ro_id r"
proof -
  have ph: "ro_phase r = ''pending'' \<or> ro_phase r = ''running''" and idx: "0 \<le> ro_wave_index r + 1"
    and none: "ro_finished_at r = None" "ro_halt_reason r = None"
    using assms(1,2,4) by (auto simp: rollout_ok_def is_open_def ACTIVE_PHASES_def)
  have wave: "0 \<le> ro_wave_index r \<and> ro_wave_index r \<le> 2 \<and> ro_wave_deadline_at r \<noteq> None" if "ro_phase r = ''running''"
    using that assms(1) by (simp add: rollout_ok_def)
  from assms(3) consider "r' = finish_rollout now r" | ks where "ro_phase r = ''running''" "r' = halt_rollout now ks r"
    | ms where "ro_wave_index r < 2" "r' = run_wave now (ro_wave_index r + 1) ms r"
    unfolding ticked_def by blast
  then have "rollout_ok r' \<and> ro_id r' = ro_id r"
    by cases (use none idx wave in \<open>simp_all add: rollout_ok_def row_updates\<close>)
  then show "rollout_ok r'" and "ro_id r' = ro_id r" by blast+
qed

lemma advance_idle: "active_rollout d = None \<Longrightarrow> advance_rollout now d = (False, d)"
  by (simp add: advance_rollout_def)

lemma enter_wave_ticked:
  assumes "i = ro_wave_index r + 1" and "ro_wave_index r < 2"
  obtains r' where "rollouts (enter_wave r i now d) = rollouts (put_rollout r' d)" and "ticked now r r'"
proof (cases rule: enter_wave_cases [of r i now d])
  case 1
  then show ?thesis by (intro that [of "finish_rollout now r"]) (simp_all add: ticked_def)
next
  case (2 ms)
  then show ?thesis using assms by (intro that [of "run_wave now i ms r"]) (auto simp: ticked_def)
qed

lemma advance_cases:
  assumes "rollouts_ok d" and "advance_rollout now d = (b, d')" and "active_rollout d = Some r"
  obtains "\<not> b" "d' = d" "ro_phase r = ''running''" "\<And>t. ro_wave_deadline_at r = Some t \<Longrightarrow> now < t"
  | r' where "b" "rollouts d' = rollouts (put_rollout r' d)" "ticked now r r'"
proof -
  have ok: "rollout_ok r" using assms(1) active_is_open(1) [OF assms(3)] by (simp add: rollouts_ok_def)
  let ?pend = "bd_pending (rollout_member_breakdown r d)"
  note finish = that
  have adv: "thesis" if i: "ro_wave_index r < 2" and b: "b"
      and rs: "rollouts d' = rollouts (enter_wave r (ro_wave_index r + 1) now d)"
    by (rule enter_wave_ticked [OF refl i, of now d]) (rule finish(2) [OF b], simp_all add: rs)
  consider "ro_phase r = ''pending''" | "ro_phase r = ''running''" "?pend = []"
    | "ro_phase r = ''running''" "?pend \<noteq> []" using active_is_open(3) [OF assms(3)] by blast
  then show thesis
  proof cases
    case 1
    then have "ro_wave_index r = -1" using ok by (simp add: rollout_ok_def)
    then show ?thesis using 1 assms(2,3) by (intro adv) (auto simp: advance_rollout_def)
  next
    case 2
    then have i: "0 \<le> ro_wave_index r" "ro_wave_index r \<le> 2" using ok by (simp_all add: rollout_ok_def)
    show ?thesis
    proof (cases "2 \<le> ro_wave_index r")
      case True
      with 2 assms(2,3) show ?thesis
        by (intro finish(2) [of "finish_rollout now r"]) (auto simp: advance_rollout_def ticked_def)
    next
      case False
      with 2 i assms(2,3) show ?thesis by (intro adv) (auto simp: advance_rollout_def)
    qed
  next
    case 3
    show ?thesis
    proof (cases "\<exists>t. ro_wave_deadline_at r = Some t \<and> t \<le> now")
      case True
      with 3 assms(2,3) show ?thesis
        by (intro finish(2) [of "halt_rollout now ?pend r"]) (auto simp: advance_rollout_def ticked_def Let_def)
    next
      case False
      with 3 assms(2,3) show ?thesis
        by (intro finish(1)) (auto simp: advance_rollout_def Let_def not_le split: option.splits)
    qed
  qed
qed

lemma advance_ok [step_intros]:
  assumes "rollouts_ok d" and "advance_rollout now d = (b, d')"
  shows "rollouts_ok d'"
proof (cases "active_rollout d")
  case None
  then show ?thesis using assms advance_idle [OF None, of now] by simp
next
  case (Some r)
  note act = active_is_open [OF Some]
  show ?thesis
  proof (rule advance_cases [OF assms Some])
    fix r' assume r': "rollouts d' = rollouts (put_rollout r' d)" "ticked now r r'"
    have "rollout_ok r" using act(1) assms(1) by (simp add: rollouts_ok_def)
    from ticked_ok [OF this act(2) r'(2)] act(3) have "rollout_ok r'" "ro_id r' = ro_id r" by auto
    from put_rollout_ok [OF assms(1) act(1) this(2,1) act(2)] r'(1) show ?thesis by (simp add: rollouts_ok_def)
  qed (use assms(1) in simp)
qed

lemma open_None: "open_rollout d = None \<longleftrightarrow> row_count is_open (rollouts d) = 0"
  by (simp add: open_rollout_def latest_rollout_None is_open_def)

lemma start_ok [step_intros]:
  assumes "rollouts_ok d" and "start_rollout cfg fetch rel ch cur now body d = Inr (st, d')"
  shows "rollouts_ok d'"
proof -
  obtain target channel where no: "open_rollout d = None"
    and d': "rollouts d' = rollouts d @ [new_rollout cfg now (next_id ro_id (rollouts d)) target channel body]"
    using assms(2) by (auto simp: start_rollout_def Let_def and_then_def split: sum.splits prod.splits if_splits option.splits)
  let ?r = "new_rollout cfg now (next_id ro_id (rollouts d)) target channel body"
  have "rollout_ok ?r" and "is_open ?r" by (simp_all add: new_rollout_def rollout_ok_def is_open_def ACTIVE_PHASES_def)
  moreover have "ro_id ?r \<notin> ro_id ` set (rollouts d)" by (simp add: new_rollout_def next_id_fresh)
  ultimately show ?thesis
    using assms(1) no by (auto simp: rollouts_ok_def d' open_None row_count_Cons simp del: row_count_0)
qed

lemma abort_ok [step_intros]:
  assumes "rollouts_ok d" and "abort_rollout now d = Inr (st, d')"
  shows "rollouts_ok d'"
proof -
  obtain r where r: "open_rollout d = Some r"
    and d': "rollouts d' = rollouts (put_rollout (r\<lparr>ro_phase := ''aborted'', ro_finished_at := Some now, ro_updated_at := now\<rparr>) d)"
    using assms(2) by (auto simp: abort_rollout_def Let_def and_then_def split: sum.splits)
  note o = latest_rollout_Some [OF r [unfolded open_rollout_def]]
  then have "rollout_ok r" "is_open r" using assms(1) by (auto simp: rollouts_ok_def is_open_def)
  then have "rollouts_ok (put_rollout (r\<lparr>ro_phase := ''aborted'', ro_finished_at := Some now, ro_updated_at := now\<rparr>) d)"
    by (intro put_rollout_ok [OF assms(1) o(1)]) (auto simp: rollout_ok_def)
  then show ?thesis using d' by (simp add: rollouts_ok_def)
qed

lemma resume_ok [step_intros]:
  assumes "rollouts_ok d" and "resume_rollout now d = Inr (st, d')"
  shows "rollouts_ok d'"
proof -
  obtain r where r: "latest_rollout (\<lambda>r. ro_phase r = ''halted'') d = Some r"
    and d': "rollouts d' = rollouts (put_rollout (r\<lparr>ro_phase := ''running'',
       ro_wave_deadline_at := Some (now + seconds (ro_wave_timeout_sec r)), ro_halt_reason := None, ro_updated_at := now\<rparr>) d)"
    using assms(2) by (auto simp: resume_rollout_def Let_def and_then_def put_rollout_def stamp_members_def split: sum.splits)
  note o = latest_rollout_Some [OF r]
  then have ok: "rollout_ok r" "is_open r" using assms(1) by (auto simp: rollouts_ok_def is_open_def ACTIVE_PHASES_def)
  then have "rollouts_ok (put_rollout (r\<lparr>ro_phase := ''running'',
       ro_wave_deadline_at := Some (now + seconds (ro_wave_timeout_sec r)), ro_halt_reason := None, ro_updated_at := now\<rparr>) d)"
    using o(2) by (intro put_rollout_ok [OF assms(1) o(1)]) (auto simp: rollout_ok_def)
  then show ?thesis using d' by (simp add: rollouts_ok_def)
qed

section \<open>Every run of ticks and operator actions\<close>

text \<open>
  One step of the rollout subsystem: a call of one of its operations, or anything else, which may
  change the fleet in any way but not the table of rollouts.
\<close>

inductive rollout_step :: "orch \<Rightarrow> orch \<Rightarrow> bool" where
  step_advance: "advance_rollout now d = (b, d') \<Longrightarrow> rollout_step d d'"
| step_start: "start_rollout cfg fetch rel ch cur now body d = Inr (st, d') \<Longrightarrow> rollout_step d d'"
| step_abort: "abort_rollout now d = Inr (st, d') \<Longrightarrow> rollout_step d d'"
| step_resume: "resume_rollout now d = Inr (st, d') \<Longrightarrow> rollout_step d d'"
| step_other: "rollouts d' = rollouts d \<Longrightarrow> rollout_step d d'"

lemma rollout_step_ok: "rollout_step d d' \<Longrightarrow> rollouts_ok d \<Longrightarrow> rollouts_ok d'"
  by (erule rollout_step.cases) (blast intro: advance_ok start_ok abort_ok resume_ok dest: rollouts_ok_cong)+

definition no_rollouts :: "orch \<Rightarrow> bool" where
  "no_rollouts d \<longleftrightarrow> rollouts d = []"

lemma no_rollouts_ok: "no_rollouts d \<Longrightarrow> rollouts_ok d"
  by (simp add: rollouts_ok_def no_rollouts_def)

interpretation staged: invariant_system no_rollouts rollout_step rollouts_ok
  by unfold_locales (fact no_rollouts_ok, erule (1) rollout_step_ok [rotated])

text \<open>
  C9: However ticks, starts, aborts, resumes and changes of the fleet interleave, at most one rollout is
  open at a time, identifiers are not reused while their row lives, and every row is in a phase with
  the fields of that phase: a pending one has no members yet, a running or halted one a wave index
  between 0 and 2 and a deadline, a halted one its reason, and exactly an ended one its end.
\<close>

theorem one_rollout_at_a_time:
  assumes "reach no_rollouts rollout_step d"
  shows "row_count (\<lambda>r. ro_phase r \<in> set ACTIVE_PHASES) (rollouts d) \<le> 1
    \<and> distinct (map ro_id (rollouts d))
    \<and> (\<forall>r \<in> set (rollouts d). rollout_ok r)"
  using staged.reachable_inv [OF assms] by (simp add: rollouts_ok_def is_open_def [abs_def])

definition sample_start :: rollout_start where
  "sample_start = \<lparr>rs_target_version = Some ''1.1'', rs_channel = None, rs_canary_count = None, rs_batch_pct = None,
     rs_wave_timeout_sec = None\<rparr>"

definition sample_rollout :: rollout where
  "sample_rollout = new_rollout sample_settings 5 1 ''1.1'' None sample_start"

lemma sample_started:
  "\<exists>st d. start_rollout sample_settings (\<lambda>_. Inl []) (\<lambda>_. None) ''stable'' ''1.1'' 5 sample_start (sample_fleet PENDING None)
     = Inr (st, d) \<and> rollouts d = [sample_rollout] \<and> workers d = workers (sample_fleet PENDING None)"
proof -
  have "normalize_version ''1.1'' = Inr ''1.1''" by code_simp
  then have "resolve_target (\<lambda>_. Inl []) ''stable'' sample_start = Inr (''1.1'', None)"
    by (simp add: resolve_target_def sample_start_def)
  moreover have "\<not> version_less (parse_version ''1.1'') (parse_version ''1.1'')" by (cases "parse_version ''1.1''") simp
  moreover have "open_rollout (sample_fleet PENDING None) = None" and "rollouts (sample_fleet PENDING None) = []"
    by (simp_all add: open_None fleet_defs)
  ultimately show ?thesis
    by (simp add: start_rollout_def and_then_def Let_def sample_rollout_def next_id_def)
qed

theorem one_rollout_at_a_time_witness:
  "\<exists>d::orch. rollouts d = [sample_rollout] \<and> rollout_ok sample_rollout"
proof -
  have "reach no_rollouts rollout_step (sample_fleet PENDING None)"
    by (rule reach_init) (simp add: no_rollouts_def fleet_defs)
  moreover obtain st d where "start_rollout sample_settings (\<lambda>_. Inl []) (\<lambda>_. None) ''stable'' ''1.1'' 5 sample_start
      (sample_fleet PENDING None) = Inr (st, d)" and d: "rollouts d = [sample_rollout]"
    using sample_started by blast
  ultimately have "reach no_rollouts rollout_step d" by (blast intro: reach_step step_start)
  from one_rollout_at_a_time [OF this] d show ?thesis by - (rule exI [of _ d], simp)
qed

section \<open>The gate\<close>

lemma set_slice_to: "set (slice_to n xs) \<subseteq> set xs"
  by (auto simp: slice_to_def dest: in_set_takeD)

lemma eligible_ids: "k \<in> set (eligible_worker_ids d t) \<longleftrightarrow> (\<exists>w \<in> set (workers d). wk_id w = k \<and> eligible t w)"
  by (auto simp: eligible_worker_ids_def)

lemma no_pending_iff:
  "bd_pending (rollout_member_breakdown r d) = [] \<longleftrightarrow> (\<forall>k \<in> set (ro_member_ids r). member_status r d k \<noteq> Waiting)"
  by (auto simp: rollout_member_breakdown_def Let_def filter_empty_conv)

definition stamped :: "time \<Rightarrow> string \<Rightarrow> ident list \<Rightarrow> orch \<Rightarrow> worker list" where
  "stamped now target ms d = upd_where (\<lambda>w. wk_id w \<in> set ms) (stamp_update now (Some target)) (workers d)"

lemma stamped_none [simp]: "stamped now t [] d = workers d"
  by (simp add: stamped_def upd_where_def)

lemma enter_wave_stamps:
  "\<exists>ms. workers (enter_wave r i now d) = stamped now (ro_target_version r) ms d
     \<and> set ms \<subseteq> set (eligible_worker_ids d (ro_target_version r))"
proof (cases rule: enter_wave_cases [of r i now d])
  case 1
  then show ?thesis by (intro exI [of _ "[]"]) simp
next
  case (2 ms)
  then show ?thesis using set_slice_to by (intro exI [of _ ms]) (simp add: stamped_def)
qed

text \<open>
  C10: The gate of a staged rollout. A tick signals an upgrade only when the active rollout has just been
  started or no member of its current wave is still on another version (each has confirmed, or is
  gone, removed or paused); the workers it signals are registered, not paused and not on the target;
  while members are pending it signals nobody, and it then either waits, before the deadline, or
  halts the rollout, from the deadline on.
\<close>

theorem waves_are_gated:
  assumes "advance_rollout now d = (changed, d')" and "active_rollout d = Some r" and "rollouts_ok d"
  shows "\<exists>ms. workers d' = stamped now (ro_target_version r) ms d
     \<and> (\<forall>k \<in> set ms. \<exists>w \<in> set (workers d). wk_id w = k \<and> wk_removed_at w = None
          \<and> wk_operator_paused w \<noteq> Some True \<and> wk_version w \<noteq> ro_target_version r)
     \<and> (ms \<noteq> [] \<longrightarrow> ro_phase r = ''pending'' \<or> (\<forall>k \<in> set (ro_member_ids r). member_status r d k \<noteq> Waiting))
     \<and> (ro_phase r = ''running'' \<and> (\<exists>k \<in> set (ro_member_ids r). member_status r d k = Waiting) \<longrightarrow>
          (case ro_wave_deadline_at r of
             Some t \<Rightarrow> if t \<le> now then changed \<and> active_rollout d' = None \<and> (\<exists>r' \<in> set (rollouts d'). ro_id r' = ro_id r \<and> ro_phase r' = ''halted'')
                       else \<not> changed \<and> d' = d
           | None \<Rightarrow> False))"
proof (cases "ro_phase r = ''running'' \<and> bd_pending (rollout_member_breakdown r d) \<noteq> []")
  case True
  note act = active_is_open [OF assms(2)]
  have "rollout_ok r" using act(1) assms(3) by (simp add: rollouts_ok_def)
  with True obtain t where t: "ro_wave_deadline_at r = Some t" by (auto simp: rollout_ok_def)
  let ?h = "halt_rollout now (bd_pending (rollout_member_breakdown r d)) r"
  show ?thesis
  proof (cases "t \<le> now")
    case late: True
    then have ch: "changed" and w: "workers d' = workers d" and r: "rollouts d' = rollouts (put_rollout ?h d)"
      using True t assms(1,2) by (auto simp: advance_rollout_def Let_def)
    have "active_rollout d' = None"
      using active_after_put [OF assms(3,2) _ r] by (simp add: halt_rollout_def)
    moreover have "?h \<in> set (rollouts d')"
      using in_upd_where_changed [OF act(1), of "\<lambda>x. ro_id x = ro_id r" "\<lambda>_. ?h"]
      unfolding r put_rollout_def by (simp add: halt_rollout_def)
    moreover have "ro_id ?h = ro_id r" and "ro_phase ?h = ''halted''" by (simp_all add: halt_rollout_def)
    ultimately show ?thesis using late t ch w by (intro exI [of _ "[]"]) auto
  next
    case False
    then have "\<not> changed \<and> d' = d" using True t assms(1,2) by (auto simp: advance_rollout_def Let_def)
    then show ?thesis using False t by (intro exI [of _ "[]"]) auto
  qed
next
  case False
  then have gate: "ro_phase r = ''pending'' \<or> (\<forall>k \<in> set (ro_member_ids r). member_status r d k \<noteq> Waiting)"
    and nw: "\<not> (ro_phase r = ''running'' \<and> (\<exists>k \<in> set (ro_member_ids r). member_status r d k = Waiting))"
    using active_is_open(3) [OF assms(2)] no_pending_iff by auto
  have "\<exists>ms. workers d' = stamped now (ro_target_version r) ms d \<and> set ms \<subseteq> set (eligible_worker_ids d (ro_target_version r))"
  proof -
    have "workers d' = workers d \<or> (\<exists>i. workers d' = workers (enter_wave r i now d))"
      using assms(1,2) False by (auto simp: advance_rollout_def Let_def split: if_splits)
    then show ?thesis using enter_wave_stamps [of r _ now d] stamped_none by (metis empty_subsetI set_empty)
  qed
  then obtain ms where "workers d' = stamped now (ro_target_version r) ms d"
    "set ms \<subseteq> set (eligible_worker_ids d (ro_target_version r))" by blast
  then show ?thesis using gate nw eligible_ids unfolding eligible_def by (intro exI [of _ ms]) blast
qed

lemma sample_rollout_fields:
  "ro_phase sample_rollout = ''pending''" "rollout_ok sample_rollout" "ro_wave_timeout_sec sample_rollout = 600"
  "ro_wave_deadline_at sample_rollout = None" "ro_target_version sample_rollout = ''1.1''" "ro_canary_count sample_rollout = 1"
  by (simp_all add: sample_rollout_def new_rollout_def rollout_ok_def sample_start_def sample_settings_def or_else_def)

lemma sample_rollouts_ok: "rollouts d = [sample_rollout] \<Longrightarrow> rollouts_ok d \<and> active_rollout d = Some sample_rollout"
  using latest_rollout_single [of _ d sample_rollout] sample_rollout_fields
  by (simp add: rollouts_ok_def row_count_def active_rollout_def)

theorem waves_are_gated_witness:
  "\<exists>ms. workers (snd (advance_rollout 7 ((sample_fleet PENDING None)\<lparr>rollouts := [sample_rollout]\<rparr>)))
     = stamped 7 ''1.1'' ms ((sample_fleet PENDING None)\<lparr>rollouts := [sample_rollout]\<rparr>)"
proof -
  let ?d = "(sample_fleet PENDING None)\<lparr>rollouts := [sample_rollout]\<rparr>"
  obtain c d' where a: "advance_rollout 7 ?d = (c, d')" by fastforce
  from waves_are_gated [OF a conjunct2 [OF sample_rollouts_ok] conjunct1 [OF sample_rollouts_ok]] a sample_rollout_fields(5)
  show ?thesis by auto
qed

section \<open>A rollout ends\<close>

text \<open>
  The ticks of a leader, each on the fleet as the heartbeats and the operators have left it by
  then; the result counts the ticks that reported a change.
\<close>

fun rollout_ticks :: "(time \<times> worker list) list \<Rightarrow> orch \<Rightarrow> nat \<times> orch" where
  "rollout_ticks [] d = (0, d)"
| "rollout_ticks ((now, ws) # ts) d =
     (let (changed, d1) = advance_rollout now (d\<lparr>workers := ws\<rparr>);
          (n, d2) = rollout_ticks ts d1
      in ((if changed then Suc n else n), d2))"

text \<open>The waves that an active rollout still has before it: the measure of its run.\<close>

definition waves_left :: "orch \<Rightarrow> nat" where
  "waves_left d = (case active_rollout d of None \<Rightarrow> 0 | Some r \<Rightarrow> nat (3 - ro_wave_index r))"

lemma active_workers [simp]: "active_rollout (d\<lparr>workers := ws\<rparr>) = active_rollout d"
  by (simp add: active_rollout_def latest_rollout_def)

lemma rollouts_ok_workers [simp]: "rollouts_ok (d\<lparr>workers := ws\<rparr>) = rollouts_ok d"
  by (simp add: rollouts_ok_def)

lemma active_index:
  assumes "rollouts_ok d" and "active_rollout d = Some r"
  shows "-1 \<le> ro_wave_index r" and "ro_wave_index r \<le> 2"
proof -
  have "rollout_ok r" using assms(1) active_is_open(1) [OF assms(2)] by (simp add: rollouts_ok_def)
  then show "-1 \<le> ro_wave_index r" and "ro_wave_index r \<le> 2"
    using active_is_open(3) [OF assms(2)] by (auto simp: rollout_ok_def)
qed

lemma advance_decreases:
  assumes "rollouts_ok d" and "advance_rollout now d = (True, d')"
  shows "waves_left d' < waves_left d"
    and "active_rollout d' = Some r' \<Longrightarrow> \<exists>r. active_rollout d = Some r \<and> ro_wave_timeout_sec r' = ro_wave_timeout_sec r
           \<and> ro_wave_deadline_at r' = Some (now + seconds (ro_wave_timeout_sec r))"
proof -
  obtain r where act: "active_rollout d = Some r"
    using assms(2) advance_idle [of d now] by (cases "active_rollout d") auto
  obtain r' where d': "rollouts d' = rollouts (put_rollout r' d)" "ticked now r r'"
    by (rule advance_cases [OF assms act]) blast+
  have "rollout_ok r" using assms(1) active_is_open(1) [OF act] by (simp add: rollouts_ok_def)
  then have "ro_id r' = ro_id r" using ticked_ok(2) [OF _ active_is_open(2) [OF act] d'(2)] active_is_open(3) [OF act] by auto
  note after = active_after_put [OF assms(1) act this d'(1)]
  have "waves_left d' < waves_left d
      \<and> (active_rollout d' = Some q \<longrightarrow> ro_wave_timeout_sec q = ro_wave_timeout_sec r
           \<and> ro_wave_deadline_at q = Some (now + seconds (ro_wave_timeout_sec r)))" for q
    using d'(2) active_index [OF assms(1) act] act after
    unfolding ticked_def by (elim disjE exE conjE) (simp_all add: waves_left_def row_updates split: if_splits, auto)
  then show "waves_left d' < waves_left d"
    and "active_rollout d' = Some r' \<Longrightarrow> \<exists>r. active_rollout d = Some r \<and> ro_wave_timeout_sec r' = ro_wave_timeout_sec r
           \<and> ro_wave_deadline_at r' = Some (now + seconds (ro_wave_timeout_sec r))" for r'
    using act by blast+
qed

lemma waves_left_workers [simp]: "waves_left (d\<lparr>workers := ws\<rparr>) = waves_left d"
  by (simp add: waves_left_def)

lemma ticks_bounded: "rollouts_ok d \<Longrightarrow> fst (rollout_ticks ts d) \<le> waves_left d"
proof (induction ts arbitrary: d)
  case (Cons t ts)
  obtain now ws where t: "t = (now, ws)" by fastforce
  let ?d = "d\<lparr>workers := ws\<rparr>"
  obtain b d1 where a: "advance_rollout now ?d = (b, d1)" by fastforce
  have ok: "rollouts_ok ?d" using Cons.prems by simp
  have IH: "fst (rollout_ticks ts d1) \<le> waves_left d1" by (rule Cons.IH [OF advance_ok [OF ok a]])
  show ?case
  proof (cases b)
    case True
    then show ?thesis using IH a advance_decreases(1) [OF ok] by (fastforce simp: t case_prod_beta)
  next
    case False
    have "waves_left d1 = waves_left d"
    proof (cases "active_rollout ?d")
      case None
      then show ?thesis using a advance_idle [OF None, of now] by auto
    next
      case (Some r)
      show ?thesis by (rule advance_cases [OF ok a Some]) (use False in auto)
    qed
    then show ?thesis using IH a False by (simp add: t case_prod_beta)
  qed
qed simp

text \<open>Ticks from time \<open>t\<close> on, each at least \<open>gap\<close> seconds after the one before.\<close>

fun spaced :: "time \<Rightarrow> int \<Rightarrow> (time \<times> worker list) list \<Rightarrow> bool" where
  "spaced t gap [] = True"
| "spaced t gap ((now, ws) # ts) = (t \<le> now \<and> spaced (now + seconds gap) gap ts)"

lemma idle_ticks: "active_rollout d = None \<Longrightarrow> active_rollout (snd (rollout_ticks ts d)) = None"
proof (induction ts arbitrary: d)
  case (Cons t ts)
  then show ?case by (cases t) (simp add: advance_idle case_prod_beta)
qed simp

lemma late_tick_changes:
  assumes "rollouts_ok d" and "active_rollout d = Some r" and "\<forall>t. ro_wave_deadline_at r = Some t \<longrightarrow> t \<le> now"
  shows "\<exists>d'. advance_rollout now d = (True, d')"
proof -
  obtain b d' where a: "advance_rollout now d = (b, d')" by fastforce
  have "rollout_ok r" using assms(1) active_is_open(1) [OF assms(2)] by (simp add: rollouts_ok_def)
  have b
  proof (rule advance_cases [OF assms(1) a assms(2)])
    assume "ro_phase r = ''running''" and early: "\<And>t. ro_wave_deadline_at r = Some t \<Longrightarrow> now < t"
    with \<open>rollout_ok r\<close> obtain t where "ro_wave_deadline_at r = Some t" by (auto simp: rollout_ok_def)
    with early assms(3) show ?thesis by fastforce
  qed
  with a show ?thesis by simp
qed

lemma spaced_ticks_settle:
  assumes "rollouts_ok d" and "waves_left d \<le> length ts" and "spaced t0 gap ts"
    and "\<And>r. active_rollout d = Some r \<Longrightarrow> ro_wave_timeout_sec r = gap \<and> (\<forall>t. ro_wave_deadline_at r = Some t \<longrightarrow> t \<le> t0)"
  shows "active_rollout (snd (rollout_ticks ts d)) = None"
  using assms
proof (induction ts arbitrary: d t0)
  case Nil
  show ?case
  proof (cases "active_rollout d")
    case (Some r)
    then show ?thesis using Nil.prems(2) active_index [OF Nil.prems(1) Some] by (simp add: waves_left_def)
  qed simp
next
  case (Cons t ts)
  obtain now ws where t: "t = (now, ws)" by fastforce
  let ?d = "d\<lparr>workers := ws\<rparr>"
  show ?case
  proof (cases "active_rollout d")
    case None
    then show ?thesis by (rule idle_ticks)
  next
    case (Some r)
    have ok: "rollouts_ok ?d" and act: "active_rollout ?d = Some r" using Cons.prems(1) Some by simp_all
    have "t0 \<le> now" and sp: "spaced (now + seconds gap) gap ts" using Cons.prems(3) by (simp_all add: t)
    with Cons.prems(4) [OF Some] obtain d1 where a: "advance_rollout now ?d = (True, d1)"
      using late_tick_changes [OF ok act, of now] by force
    have "waves_left d1 \<le> length ts" using advance_decreases(1) [OF ok a] Cons.prems(2) by simp
    moreover have "ro_wave_timeout_sec q = gap \<and> (\<forall>t. ro_wave_deadline_at q = Some t \<longrightarrow> t \<le> now + seconds gap)"
      if "active_rollout d1 = Some q" for q
      using advance_decreases(2) [OF ok a that] act Cons.prems(4) [OF Some] by auto
    ultimately have "active_rollout (snd (rollout_ticks ts d1)) = None"
      using advance_ok [OF ok a] sp by (intro Cons.IH) auto
    then show ?thesis by (simp add: t a case_prod_beta)
  qed
qed

text \<open>
  C11: A staged rollout ends by itself. Whatever the fleet does between the ticks, at most four ticks change
  it (one wave each, or the end); and if the ticks come after the deadline of the current wave and then at
  least one wave timeout apart, the rollout is not active any more (done or halted) after four of them.
\<close>

theorem rollout_settles:
  assumes "rollouts_ok d" and "active_rollout d = Some r"
  shows "fst (rollout_ticks ts d) \<le> 4
    \<and> ((\<forall>t. ro_wave_deadline_at r = Some t \<longrightarrow> t \<le> t0) \<and> spaced t0 (ro_wave_timeout_sec r) ts \<and> 4 \<le> length ts
        \<longrightarrow> active_rollout (snd (rollout_ticks ts d)) = None)"
proof -
  have four: "waves_left d \<le> 4" using active_index [OF assms] assms(2) by (simp add: waves_left_def)
  then have "fst (rollout_ticks ts d) \<le> 4" using ticks_bounded [OF assms(1), of ts] by simp
  moreover have "active_rollout (snd (rollout_ticks ts d)) = None"
    if "\<forall>t. ro_wave_deadline_at r = Some t \<longrightarrow> t \<le> t0" "spaced t0 (ro_wave_timeout_sec r) ts" "4 \<le> length ts"
    using four that assms(2) by (intro spaced_ticks_settle [OF assms(1) _ that(2)]) auto
  ultimately show ?thesis by blast
qed

theorem rollout_settles_witness:
  "\<forall>ws. active_rollout (snd (rollout_ticks [(0, ws), (seconds 600, ws), (seconds 1200, ws), (seconds 1800, ws)]
     (empty_orch\<lparr>rollouts := [sample_rollout]\<rparr>))) = None"
proof
  fix ws :: "worker list"
  let ?d = "empty_orch\<lparr>rollouts := [sample_rollout]\<rparr>"
  note f = sample_rollout_fields
  have "rollouts_ok ?d" and "active_rollout ?d = Some sample_rollout" using sample_rollouts_ok [of ?d] by simp_all
  moreover have "spaced 0 (ro_wave_timeout_sec sample_rollout) [(0, ws), (seconds 600, ws), (seconds 1200, ws), (seconds 1800, ws)]"
    by (simp add: f(3) seconds_def)
  ultimately show "active_rollout (snd (rollout_ticks [(0, ws), (seconds 600, ws), (seconds 1200, ws), (seconds 1800, ws)] ?d)) = None"
    using rollout_settles [of ?d sample_rollout "[(0, ws), (seconds 600, ws), (seconds 1200, ws), (seconds 1800, ws)]" 0] f(4)
    by simp
qed

section \<open>The size of a wave\<close>

text \<open>
  With a positive canary count every wave takes at least one and at most all of the eligible workers,
  whatever the fraction configured for the batch wave, and the fleet wave takes all of them; the slice
  of that size has exactly that many members.
\<close>

theorem wave_size_bounds:
  assumes "1 \<le> ro_canary_count r" and "xs \<noteq> []"
  shows "1 \<le> wave_size i (int (length xs)) r \<and> wave_size i (int (length xs)) r \<le> int (length xs)
    \<and> int (length (slice_to (wave_size i (int (length xs)) r) xs)) = wave_size i (int (length xs)) r
    \<and> (i \<noteq> 0 \<and> i \<noteq> 1 \<longrightarrow> slice_to (wave_size i (int (length xs)) r) xs = xs)"
proof -
  have "1 \<le> int (length xs)" using assms(2) by (cases xs) auto
  with assms(1) have "1 \<le> wave_size i (int (length xs)) r \<and> wave_size i (int (length xs)) r \<le> int (length xs)"
    by (auto simp: wave_size_def)
  moreover have "int (length (slice_to n xs)) = n" if "1 \<le> n" "n \<le> int (length xs)" for n
    using that by (simp add: slice_to_def)
  moreover have "slice_to (wave_size i (int (length xs)) r) xs = xs" if "i \<noteq> 0 \<and> i \<noteq> 1"
    using that assms(2) by (simp add: wave_size_def slice_to_def)
  ultimately show ?thesis by blast
qed

theorem wave_size_bounds_witness:
  "wave_size 0 3 sample_rollout = 1 \<and> slice_to (wave_size 2 3 sample_rollout) [''a'', ''b'', ''c''] = [''a'', ''b'', ''c'']"
proof -
  have "1 \<le> ro_canary_count sample_rollout" by (simp add: sample_rollout_fields)
  from wave_size_bounds [OF this, of "[''a'', ''b'', ''c'']" 2] show ?thesis
    by (simp add: wave_size_def sample_rollout_fields)
qed

text \<open>
  The count comes from the request unchecked. A negative one makes the slice of the canary wave count
  from the end: with \<open>-1\<close> the canary wave of three workers signals two of them.
\<close>

lemma negative_canary_floods:
  "ro_canary_count r = -1 \<Longrightarrow> slice_to (wave_size 0 3 r) [''a'', ''b'', ''c''] = [''a'', ''b'']"
  by (simp add: wave_size_def slice_to_def)

end
