(* ===== verification/System.thy ===== *)
theory System
  imports Rollout
begin

text \<open>
  The orchestrator as one transition system: a step is a call of a handler of the routers, a run of
  a background task or a restart of the process. The theorems are about every state that such a
  run reaches, whatever the order of the calls.
\<close>

section \<open>What every operation keeps besides the integrity of the tables\<close>

text \<open>The receipts \<open>R\<close> are in the ledger, and the table of rollouts is \<open>rs\<close>.\<close>

definition kept :: "delivery_record set \<Rightarrow> rollout list \<Rightarrow> orch \<Rightarrow> bool" where
  "kept R rs d \<longleftrightarrow> R \<subseteq> set (deliveries d) \<and> rollouts d = rs"

lemma kept_cong: "deliveries d' = deliveries d \<Longrightarrow> rollouts d' = rollouts d \<Longrightarrow> kept R rs d' = kept R rs d"
  by (simp add: kept_def)

lemma kept_updates [simp]:
  "kept R rs (d\<lparr>workers := ws\<rparr>) = kept R rs d" "kept R rs (d\<lparr>receivers := cs\<rparr>) = kept R rs d"
  "kept R rs (d\<lparr>granules := gs\<rparr>) = kept R rs d" "kept R rs (d\<lparr>objects := os\<rparr>) = kept R rs d"
  "kept R rs (d\<lparr>timings := ts\<rparr>) = kept R rs d" "kept R rs (d\<lparr>batches := bs\<rparr>) = kept R rs d"
  "kept R rs (d\<lparr>bundles := ns\<rparr>) = kept R rs d" "kept R rs (d\<lparr>feed := es\<rparr>) = kept R rs d"
  "kept R rs (d\<lparr>outbox := ss\<rparr>) = kept R rs d" "kept R rs (d\<lparr>worker_telem := wt\<rparr>) = kept R rs d"
  "kept R rs (d\<lparr>receiver_telem := rt\<rparr>) = kept R rs d" "kept R rs (set_setting k v d) = kept R rs d"
  by (simp_all add: kept_def set_setting_def)

lemma kept_calls [simp]:
  "kept R rs (log_event l s m g b d) = kept R rs d" "kept R rs (commit_and_publish n sc d) = kept R rs d"
  "kept R rs (evict_granule k d) = kept R rs d" "kept R rs (evict_granules ks d) = kept R rs d"
  "kept R rs (put_worker w d) = kept R rs d" "kept R rs (put_receiver rc d) = kept R rs d"
  "kept R rs (update_worker_telem k wt d) = kept R rs d" "kept R rs (apply_to_session n gr res d) = kept R rs d"
  "kept R rs (update_receiver_telem k rt d) = kept R rs d" "kept R rs (evict_worker k d) = kept R rs d"
  "kept R rs (evict_receiver k d) = kept R rs d" "kept R rs (discard d e) = kept R rs d"
  by (rule kept_cong; simp add: discard_def update_receiver_telem_def evict_worker_def evict_receiver_def)+

lemma kept_folds [simp]:
  "kept R rs (fold (\<lambda>w. log_event l s (m w) g b) ws d) = kept R rs d"
  "kept R rs (fold evict_worker ks d) = kept R rs d" "kept R rs (snd (evict_events ks d)) = kept R rs d"
  "kept R rs (log_warnings ms d) = kept R rs d"
proof -
  show log: "kept R rs (fold (\<lambda>w. log_event l s (m w) g b) ws d) = kept R rs d" for l s m g b and ws :: "'w list" and d
    by (induction ws arbitrary: d) simp_all
  show "kept R rs (fold evict_worker ks d) = kept R rs d" by (induction ks arbitrary: d) simp_all
  show "kept R rs (snd (evict_events ks d)) = kept R rs d" by (simp add: evict_events_def Let_def)
  show "kept R rs (log_warnings ms d) = kept R rs d" by (simp add: log_warnings_def log)
qed

lemma kept_apply:
  "apply_transition cfg g e now d = Inr (r, d') \<Longrightarrow> kept R rs d \<Longrightarrow> kept R rs d'"
  by (auto simp: apply_transition_def split: sum.splits)

lemma kept_apply_or_skip: "kept R rs d \<Longrightarrow> kept R rs (apply_or_skip cfg g e now d)"
  by (auto simp: apply_or_skip_def split: sum.splits intro: kept_apply)

lemma kept_raise: "raise_409 tx cfg g e now d = Inr (r, d') \<Longrightarrow> kept R rs d \<Longrightarrow> kept R rs d'"
  by (auto simp: raise_409_def split: sum.splits intro: kept_apply)

lemma kept_for_granules:
  "(\<And>g d. kept R rs d \<Longrightarrow> kept R rs (body g d)) \<Longrightarrow> kept R rs d \<Longrightarrow> kept R rs (for_granules body gids d)"
  by (rule for_granules_inv)

lemma kept_archive: "kept R rs d \<Longrightarrow> kept R rs (archive_confirmed dg gs os d)"
  using archive_keeps [of d dg gs os] by (auto simp: kept_def)

lemma kept_reap: "kept R rs d \<Longrightarrow> kept R rs (snd (reap_granules dg ids d))"
proof -
  have "rollouts (snd (fold (reap_chunk dg) cs st)) = rollouts (snd st)" for cs st
    by (rule fold_keeps) (simp add: reap_chunk_def Let_def case_prod_beta)
  then show "kept R rs d \<Longrightarrow> kept R rs (snd (reap_granules dg ids d))"
    using reap_granules_deliveries [of d dg ids] by (auto simp: kept_def reap_granules_def)
qed

lemma kept_revoke: "revoke_worker_leases cfg w now d = Inr (n, d') \<Longrightarrow> kept R rs d \<Longrightarrow> kept R rs d'"
  unfolding revoke_worker_leases_def
  by (auto simp: revoke_one_def Let_def split: option.splits sum.splits if_splits
      elim!: for_each_inv [where P = "kept R rs", rotated]) (metis kept_apply)

lemma kept_effects [simp]: "kept R rs (terminal_side_effects ev d) = kept R rs d"
  by (auto simp: terminal_side_effects_def split: option.splits granule_event.splits)

section \<open>The handlers\<close>

lemma raised [simp]:
  "(if c then Inl e else m) = Inr y \<longleftrightarrow> \<not> c \<and> m = Inr y" "(if c then m else Inl e) = Inr y \<longleftrightarrow> c \<and> m = Inr y"
  by auto

lemma kept_if [simp]: "kept R rs (if c then d1 else d2) = (if c then kept R rs d1 else kept R rs d2)"
  by simp

lemma register_keeps: "register cfg now req d = Inr (x, d') \<Longrightarrow> kept R rs d \<Longrightarrow> kept R rs d'"
  by (auto simp: register_def Let_def split: option.splits dest: kept_revoke [where R = R and rs = rs])

lemma lease_keeps: "lease cfg pick now req d = Inr (x, d') \<Longrightarrow> kept R rs d \<Longrightarrow> kept R rs d'"
  by (auto simp: lease_def claim_pending_granules_def Let_def split: if_splits)

lemma emit_event_keeps: "emit_event cfg now ev d = Inr (x, d') \<Longrightarrow> kept R rs d \<Longrightarrow> kept R rs d'"
  by (auto simp: emit_event_def dest: kept_apply [where R = R and rs = rs])

lemma revoke_all_keeps: "revoke_all_leases cfg now k d = Inr (x, d') \<Longrightarrow> kept R rs d \<Longrightarrow> kept R rs d'"
  by (auto simp: revoke_all_leases_def Let_def dest: kept_revoke [where R = R and rs = rs])

lemma remove_worker_keeps: "remove_worker cfg now k force purge d = Inr (x, d') \<Longrightarrow> kept R rs d \<Longrightarrow> kept R rs d'"
  by (auto simp: remove_worker_def split: if_split_asm dest: kept_revoke [where R = R and rs = rs])

lemma operator_handlers_keep:
  "set_concurrency_bulk now body ids d = Inr (x1, d') \<Longrightarrow> kept R rs d \<Longrightarrow> kept R rs d'"
  "set_concurrency now k body d = Inr (x2, d') \<Longrightarrow> kept R rs d \<Longrightarrow> kept R rs d'"
  "request_update now k v d = Inr (x3, d') \<Longrightarrow> kept R rs d \<Longrightarrow> kept R rs d'"
  "request_update_all now v d = Inr (x4, d') \<Longrightarrow> kept R rs d \<Longrightarrow> kept R rs d'"
  "request_remove_all now d = Inr (x5, d') \<Longrightarrow> kept R rs d \<Longrightarrow> kept R rs d'"
  "set_paused now k p d = Inr (x6, d') \<Longrightarrow> kept R rs d \<Longrightarrow> kept R rs d'"
  "request_gc now k d = Inr (x7, d') \<Longrightarrow> kept R rs d \<Longrightarrow> kept R rs d'"
  by (auto simp: set_concurrency_bulk_def set_concurrency_def request_update_def request_update_all_def
      request_remove_all_def set_paused_def request_gc_def signal_one_shot_def request_one_shot_signal_def
      Let_def split: if_splits)

lemma heartbeat_parts_keep:
  "apply_worker_heartbeat cfg hb now w d = (c1, w1, d1) \<Longrightarrow> kept R rs d1 = kept R rs d"
  "record_version_flap ver upd v k role (w :: worker) d = (c2, w1, d1) \<Longrightarrow> kept R rs d1 = kept R rs d"
  "reclaim_inactive_leases k ids now grace d = (n, d1) \<Longrightarrow> kept R rs d1 = kept R rs d"
  "renew_worker_leases k now d = (n, d1) \<Longrightarrow> kept R rs d1 = kept R rs d"
  by (auto simp: apply_worker_heartbeat_def record_version_flap_def reclaim_inactive_leases_def reclaim_update_def
      renew_worker_leases_def Let_def split: if_split_asm)

lemma heartbeat_keeps:
  assumes "heartbeat cfg now hb d = Inr (x, d')" and "kept R rs d"
  shows "kept R rs d'"
proof -
  obtain w where w: "get_worker (hb_worker_id hb) d = Some w" using assms(1) by (auto simp: heartbeat_def)
  obtain live w1 d1 where a: "apply_worker_heartbeat cfg hb now w d = (live, w1, d1)" by (metis prod_cases3)
  obtain fl w2 d2 where b: "record_version_flap wk_version set_worker_version (hb_version hb) (hb_worker_id hb) ''worker'' w1 d1
      = (fl, w2, d2)" by (metis prod_cases3)
  obtain rc d3 where c: "(case hb_active_granule_ids hb of None \<Rightarrow> (0, d2)
      | Some reported \<Rightarrow> reclaim_inactive_leases (hb_worker_id hb) reported now 60 d2) = (rc, d3)" by (metis surj_pair)
  define d4 where "d4 = (if rc = 0 then d3 else log_event ''info'' (hb_worker_id hb)
      (''reclaimed {} orphaned lease(s) (heartbeat reconcile)'', [AInt (int rc)]) None None d3)"
  obtain rn d5 where e: "renew_worker_leases (hb_worker_id hb) now d4 = (rn, d5)" by (metis surj_pair)
  have "kept R rs d3" using heartbeat_parts_keep(1) [OF a] heartbeat_parts_keep(2) [OF b] assms(2) c
    by (auto split: option.splits dest: heartbeat_parts_keep(3) [where R = R and rs = rs])
  then have "kept R rs d5" using heartbeat_parts_keep(4) [OF e] by (simp add: d4_def)
  then show ?thesis
    using assms by (auto simp: heartbeat_def Let_def w a b c d4_def [symmetric] e consume_one_shot_signal_def split: if_splits)
qed

lemma events_batch_keeps:
  assumes "emit_events_batch cfg now evs d = Inr (x, d')" and "kept R rs d"
  shows "kept R rs d'"
proof -
  have "kept R rs (fst (batch_event cfg now ev st))" if "kept R rs (fst st)" for ev st
    using that by (cases st) (auto simp: batch_event_def split: option.splits sum.splits dest: kept_apply)
  then have "kept R rs (fst (fold (batch_event cfg now) evs (d, [], [])))"
    by (intro fold_invariant_P [where P = "\<lambda>st. kept R rs (fst st)"]) (simp_all add: assms(2))
  with assms show ?thesis
    by (auto simp: emit_events_batch_def split: if_splits prod.splits)
qed

lemma receiver_handlers_keep:
  "register_receiver now rreq d = Inr (x1, d') \<Longrightarrow> kept R rs d \<Longrightarrow> kept R rs d'"
  "request_restart now k d = Inr (x2, d') \<Longrightarrow> kept R rs d \<Longrightarrow> kept R rs d'"
  "set_enabled now k e d = Inr (x3, d') \<Longrightarrow> kept R rs d \<Longrightarrow> kept R rs d'"
  "forget_receiver now k d = Inr (x4, d') \<Longrightarrow> kept R rs d \<Longrightarrow> kept R rs d'"
  "receiver_heartbeat_handler cfg now hb d = Inr (x5, d') \<Longrightarrow> kept R rs d \<Longrightarrow> kept R rs d'"
  "pull cfg now rid limit d = Inr (x6, d') \<Longrightarrow> kept R rs d \<Longrightarrow> kept R rs d'"
  by (auto simp: register_receiver_def request_restart_def set_enabled_def forget_receiver_def signal_one_shot_def
      request_one_shot_signal_def receiver_heartbeat_handler_def record_version_flap_def consume_one_shot_signal_def
      pull_def Let_def split: option.splits if_splits)

lemma ack_parts_keep:
  "kept R rs d \<Longrightarrow> kept R rs (snd (record_pull_failure cfg rid x err bid d))"
  "kept R rs d \<Longrightarrow> kept R rs (mark_acked rid x bid now d)"
  "kept R rs d \<Longrightarrow> kept R rs (promote_acked cfg now gid d)"
  "kept R rs d \<Longrightarrow> kept R rs (log_sha_mismatch rid x bid d)"
  by (auto simp: record_pull_failure_def mark_acked_def promote_acked_def log_sha_mismatch_def upd_object_def Let_def
      split: option.splits intro: kept_apply_or_skip)

lemma ack_keeps:
  assumes "ack cfg dg now req d = Inr (x, d')" and "kept R rs d"
  shows "kept R rs d'"
proof -
  have "kept R rs (promote_acked cfg now g (archive_confirmed dg None ks (mark_acked rid o' bid now d)))" for g ks rid o' bid
    by (intro ack_parts_keep kept_archive assms(2))
  moreover have "kept R rs (archive_confirmed dg None ks (mark_acked rid o' bid now d))" for ks rid o' bid
    by (intro ack_parts_keep kept_archive assms(2))
  ultimately show ?thesis
    using assms ack_parts_keep(1) by (auto simp: ack_def Let_def case_prod_beta split: if_split_asm)
qed

lemma ack_batch_keeps:
  assumes "ack_batch cfg dg now acks d = Inr (x, d')" and "kept R rs d"
  shows "kept R rs d'"
proof -
  have "kept R rs (fst (apply_ack cfg now a st))" if "kept R rs (fst st)" for a st
    using that by (auto simp: apply_ack_def Let_def split: option.splits intro!: ack_parts_keep)
  then have all: "kept R rs (fst (fold (apply_ack cfg now) acks (d, [])))"
    by (intro fold_invariant_P [where P = "\<lambda>st. kept R rs (fst st)"]) (simp_all add: assms(2))
  then have "kept R rs (fold (promote_acked cfg now) gs (archive_confirmed dg None ks (fst (fold (apply_ack cfg now) acks (d, [])))))" for gs ks
    by (intro fold_invariant_P [where P = "kept R rs"] kept_archive ack_parts_keep)
  with all assms show ?thesis by (auto simp: ack_batch_def Let_def case_prod_beta split: if_split_asm)
qed

lemma batch_handlers_keep:
  "reset_exhausted_objects cfg now k d = Inr (x3, d') \<Longrightarrow> kept R rs d \<Longrightarrow> kept R rs d'"
  "pause_batch now k d = Inr (x4, d') \<Longrightarrow> kept R rs d \<Longrightarrow> kept R rs d'"
  "resume_batch now k d = Inr (x5, d') \<Longrightarrow> kept R rs d \<Longrightarrow> kept R rs d'"
  "retry_failed cfg now k i d = Inr (x8, d') \<Longrightarrow> kept R rs d \<Longrightarrow> kept R rs d'"
  "cancel_batch cfg now k d = Inr (x9, d') \<Longrightarrow> kept R rs d \<Longrightarrow> kept R rs d'"
  by (auto simp: reset_exhausted_objects_def pause_batch_def resume_batch_def retry_failed_def cancel_batch_def
      Let_def split: if_splits intro!: kept_for_granules kept_apply_or_skip)

lemma granule_handlers_keep:
  "cancel_granule cfg now k gid d = Inr (x6, d') \<Longrightarrow> kept R rs d \<Longrightarrow> kept R rs d'"
  "retry_granule cfg now k gid d = Inr (x7, d') \<Longrightarrow> kept R rs d \<Longrightarrow> kept R rs d'"
  by (auto simp: cancel_granule_def retry_granule_def granule_in_batch_or_404_def Let_def split: if_splits
      dest!: kept_apply [where R = R and rs = rs])

lemma insert_keeps: "insert_granules gs d = Inr d' \<Longrightarrow> kept R rs d' = kept R rs d"
  by (auto simp: insert_granules_def split: if_splits)

lemma create_batch_keeps: "create_batch compile py_str token now req d = Inr (x, d') \<Longrightarrow> kept R rs d \<Longrightarrow> kept R rs d'"
  by (auto simp: create_batch_def Let_def dest!: insert_keeps [where R = R and rs = rs])

lemma add_granules_keeps: "add_granules compile py_str now k gs d = Inr (x, d') \<Longrightarrow> kept R rs d \<Longrightarrow> kept R rs d'"
  by (auto simp: add_granules_def Let_def dest!: insert_keeps [where R = R and rs = rs])

lemma delete_batch_keeps: "delete_batch cfg dg now k force d = Inr (x, d') \<Longrightarrow> kept R rs d \<Longrightarrow> kept R rs d'"
  by (auto simp: delete_batch_def Let_def case_prod_beta split: if_splits intro: kept_reap)

section \<open>The administration and the background tasks\<close>

lemma requeue_keeps:
  assumes "requeue_undeliverable cfg now b d = Inr (x, d')" and "kept R rs d"
  shows "kept R rs d'"
proof -
  have "kept R rs e'" if "requeue_one cfg now gid e = Inr e'" "kept R rs e" for gid e e'
    using that by (auto simp: requeue_one_def Let_def split: option.splits if_splits dest!: kept_apply [where R = R and rs = rs])
  then have "kept R rs e" if "for_each (requeue_one cfg now) ids d = Inr e" for ids e
    using for_each_inv [where P = "kept R rs", OF _ that] assms(2) by blast
  with assms show ?thesis
    by (auto simp: requeue_undeliverable_def Let_def split: if_splits)
qed

lemma admin_keeps:
  "reset_pull_failures cfg now b d = Inr (x1, d') \<Longrightarrow> kept R rs d \<Longrightarrow> kept R rs d'"
  "set_worker_detail_setting now s d = Inr (x2, d') \<Longrightarrow> kept R rs d \<Longrightarrow> kept R rs d'"
  "upgrade_orchestrator rel now v d = Inr (x3, d') \<Longrightarrow> kept R rs d \<Longrightarrow> kept R rs d'"
  "restart_orchestrator now d = Inr (x4, d') \<Longrightarrow> kept R rs d \<Longrightarrow> kept R rs d'"
  "gc_bundles now dry a (d, fs) = (x5, st') \<Longrightarrow> kept R rs d \<Longrightarrow> kept R rs (fst st')"
  by (auto simp: reset_pull_failures_def set_worker_detail_setting_def upgrade_orchestrator_def restart_orchestrator_def
      gc_bundles_def gc_apply_def Let_def split: if_splits sum.splits value_error.splits option.splits)

lemma sweeps_keep:
  "kept R rs d \<Longrightarrow> kept R rs (snd (sweep_expired_leases now d))"
  "kept R rs d \<Longrightarrow> kept R rs (snd (sweep_orphaned_acked cfg t0 now d))"
  "kept R rs d \<Longrightarrow> kept R rs (snd (sweep_retention cfg dg now e a d))"
  by (auto simp: sweep_expired_leases_def sweep_update_def sweep_orphaned_acked_def reconcile_one_def sweep_retention_def
      prune_rows_def Let_def case_prod_beta intro!: kept_for_granules kept_apply_or_skip kept_reap)

section \<open>The transition system\<close>

text \<open>
  One step: a handler that answers, a background task, the rollout, or a restart of the process, which
  forgets what was only in memory. A handler that raises leaves the state as it is. The parameters of a step
  are free (settings, clock, request, what the release server answers, the order in which SQL picks the claimed
  rows): the relation allows every value of them.
\<close>

definition restarted :: "orch \<Rightarrow> orch" where
  "restarted d = d\<lparr>pending_events := [], feed := [], next_event_id := 1,
     progress := \<lparr>by_granule = [], latest_by_batch = []\<rparr>, worker_telem := [], receiver_telem := [], outbox := []\<rparr>"

inductive orch_step :: "digest \<Rightarrow> orch \<Rightarrow> orch \<Rightarrow> bool" for dg :: digest where
  "register cfg now req d = Inr (x, d') \<Longrightarrow> orch_step dg d d'"
| "heartbeat cfg now hb d = Inr (x, d') \<Longrightarrow> orch_step dg d d'"
| "picks pick \<Longrightarrow> lease cfg pick now req d = Inr (x, d') \<Longrightarrow> orch_step dg d d'"
| "emit_event cfg now ev d = Inr (x, d') \<Longrightarrow> orch_step dg d d'"
| "emit_events_batch cfg now evs d = Inr (x, d') \<Longrightarrow> orch_step dg d d'"
| "set_concurrency_bulk now body ids d = Inr (x, d') \<Longrightarrow> orch_step dg d d'"
| "set_concurrency now k body d = Inr (x, d') \<Longrightarrow> orch_step dg d d'"
| "request_update now k v d = Inr (x, d') \<Longrightarrow> orch_step dg d d'"
| "request_update_all now v d = Inr (x, d') \<Longrightarrow> orch_step dg d d'"
| "request_remove_all now d = Inr (x, d') \<Longrightarrow> orch_step dg d d'"
| "set_paused now k p d = Inr (x, d') \<Longrightarrow> orch_step dg d d'"
| "request_gc now k d = Inr (x, d') \<Longrightarrow> orch_step dg d d'"
| "revoke_all_leases cfg now k d = Inr (x, d') \<Longrightarrow> orch_step dg d d'"
| "remove_worker cfg now k force purge d = Inr (x, d') \<Longrightarrow> orch_step dg d d'"
| "register_receiver now rreq d = Inr (x, d') \<Longrightarrow> orch_step dg d d'"
| "receiver_heartbeat_handler cfg now rhb d = Inr (x, d') \<Longrightarrow> orch_step dg d d'"
| "request_restart now k d = Inr (x, d') \<Longrightarrow> orch_step dg d d'"
| "set_enabled now k e d = Inr (x, d') \<Longrightarrow> orch_step dg d d'"
| "forget_receiver now k d = Inr (x, d') \<Longrightarrow> orch_step dg d d'"
| "pull cfg now rid limit d = Inr (x, d') \<Longrightarrow> orch_step dg d d'"
| "ack cfg dg now rep d = Inr (x, d') \<Longrightarrow> orch_step dg d d'"
| "ack_batch cfg dg now reps d = Inr (x, d') \<Longrightarrow> orch_step dg d d'"
| orch_create: "create_batch compile py_str token now breq d = Inr (x, d') \<Longrightarrow> orch_step dg d d'"
| "add_granules compile py_str now k gs d = Inr (x, d') \<Longrightarrow> orch_step dg d d'"
| "reset_exhausted_objects cfg now k d = Inr (x, d') \<Longrightarrow> orch_step dg d d'"
| "pause_batch now k d = Inr (x, d') \<Longrightarrow> orch_step dg d d'"
| "resume_batch now k d = Inr (x, d') \<Longrightarrow> orch_step dg d d'"
| "cancel_granule cfg now k gid d = Inr (x, d') \<Longrightarrow> orch_step dg d d'"
| "retry_granule cfg now k gid d = Inr (x, d') \<Longrightarrow> orch_step dg d d'"
| "retry_failed cfg now k i d = Inr (x, d') \<Longrightarrow> orch_step dg d d'"
| "cancel_batch cfg now k d = Inr (x, d') \<Longrightarrow> orch_step dg d d'"
| "delete_batch cfg dg now k force d = Inr (x, d') \<Longrightarrow> orch_step dg d d'"
| "requeue_undeliverable cfg now b d = Inr (x, d') \<Longrightarrow> orch_step dg d d'"
| "reset_pull_failures cfg now b d = Inr (x, d') \<Longrightarrow> orch_step dg d d'"
| "set_worker_detail_setting now s d = Inr (x, d') \<Longrightarrow> orch_step dg d d'"
| "upgrade_orchestrator rel now v d = Inr (x, d') \<Longrightarrow> orch_step dg d d'"
| "restart_orchestrator now d = Inr (x, d') \<Longrightarrow> orch_step dg d d'"
| orch_gc: "gc_bundles now dry age (d, fs) = (x, (d', fs')) \<Longrightarrow> orch_step dg d d'"
| orch_sweep: "sweep_expired_leases now d = (n, d') \<Longrightarrow> orch_step dg d d'"
| orch_orphans: "sweep_orphaned_acked cfg t0 now d = (n, d') \<Longrightarrow> orch_step dg d d'"
| orch_retention: "sweep_retention cfg dg now e a d = (out, d') \<Longrightarrow> orch_step dg d d'"
| orch_rollout: "advance_rollout now d = (b, d') \<Longrightarrow> orch_step dg d d'"
| orch_start: "start_rollout cfg fetch rel ch cur now body d = Inr (x, d') \<Longrightarrow> orch_step dg d d'"
| orch_abort: "abort_rollout now d = Inr (x, d') \<Longrightarrow> orch_step dg d d'"
| orch_resume: "resume_rollout now d = Inr (x, d') \<Longrightarrow> orch_step dg d d'"
| orch_registry: "orch_step dg d (d\<lparr>bundles := ns, shared_files := fs\<rparr>)"
| orch_restart: "orch_step dg d (restarted d)"

definition booted :: "digest \<Rightarrow> orch \<Rightarrow> bool" where
  "booted dg d \<longleftrightarrow> inj_digest dg \<and> d = empty_orch"

definition orch_inv :: "digest \<Rightarrow> orch \<Rightarrow> bool" where
  "orch_inv dg d \<longleftrightarrow> inj_digest dg \<and> db_inv dg d \<and> rollouts_ok d"

definition has_receipt :: "delivery_record \<Rightarrow> orch \<Rightarrow> bool" where
  "has_receipt r d \<longleftrightarrow> r \<in> set (deliveries d)"

section \<open>The rollout and a restart leave the pipeline alone\<close>

lemma enter_wave_tables [simp]:
  "granules (enter_wave r i now d) = granules d" "objects (enter_wave r i now d) = objects d"
  "timings (enter_wave r i now d) = timings d" "batches (enter_wave r i now d) = batches d"
  "deliveries (enter_wave r i now d) = deliveries d"
  by (simp_all add: enter_wave_def put_rollout_def stamp_members_def Let_def)

lemma put_rollout_tables [simp]:
  "granules (put_rollout r d) = granules d" "objects (put_rollout r d) = objects d"
  "timings (put_rollout r d) = timings d" "batches (put_rollout r d) = batches d"
  "deliveries (put_rollout r d) = deliveries d"
  by (simp_all add: put_rollout_def)

lemma db_inv_rollout [simp]:
  "db_inv dg (enter_wave r i now d) = db_inv dg d" "db_inv dg (put_rollout r d) = db_inv dg d"
  "db_inv dg (stamp_members now v ms d) = db_inv dg d" "db_inv dg (restarted d) = db_inv dg d"
  "db_inv dg (d\<lparr>bundles := ns, shared_files := fs\<rparr>) = db_inv dg d"
  by (rule db_inv_cong; simp add: stamp_members_def restarted_def)+

lemma advance_tables:
  "advance_rollout now d = (b, d') \<Longrightarrow> db_inv dg d' = db_inv dg d \<and> deliveries d' = deliveries d"
  by (auto simp: advance_rollout_def Let_def split: option.splits if_splits)

lemma rollout_handlers_inv [step_intros]:
  "db_inv dg d \<Longrightarrow> start_rollout cfg fetch rel ch cur now body d = Inr (x1, d') \<Longrightarrow> db_inv dg d'"
  "db_inv dg d \<Longrightarrow> abort_rollout now d = Inr (x2, d') \<Longrightarrow> db_inv dg d'"
  "db_inv dg d \<Longrightarrow> resume_rollout now d = Inr (x3, d') \<Longrightarrow> db_inv dg d'"
  by (auto simp: start_rollout_def abort_rollout_def resume_rollout_def Let_def split: option.splits)

lemma rollout_handlers_ledger:
  "start_rollout cfg fetch rel ch cur now body d = Inr (x1, d') \<Longrightarrow> deliveries d' = deliveries d"
  "abort_rollout now d = Inr (x2, d') \<Longrightarrow> deliveries d' = deliveries d"
  "resume_rollout now d = Inr (x3, d') \<Longrightarrow> deliveries d' = deliveries d"
  by (auto simp: start_rollout_def abort_rollout_def resume_rollout_def stamp_members_def Let_def split: option.splits)

section \<open>Every step keeps the invariant and the receipts\<close>

lemmas handlers_keep = register_keeps heartbeat_keeps lease_keeps emit_event_keeps events_batch_keeps revoke_all_keeps
  remove_worker_keeps operator_handlers_keep receiver_handlers_keep ack_keeps ack_batch_keeps batch_handlers_keep
  granule_handlers_keep create_batch_keeps add_granules_keeps delete_batch_keeps requeue_keeps admin_keeps

lemma step_keeps_db:
  assumes "orch_step dg d d'" and "inj_digest dg" and "db_inv dg d"
  shows "db_inv dg d'"
  using assms(1)
proof cases
  case (orch_gc now dry age fs x fs')
  then show ?thesis using gc_bundles_inv [of dg "(d, fs)"] assms(3) by auto
next
  case (orch_sweep now n)
  then show ?thesis using sweep_expired_keeps_inv [OF assms(3), of now] by simp
next
  case (orch_rollout now b)
  then show ?thesis using advance_tables assms(3) by blast
next
  case (orch_registry ns fs)
  then show ?thesis using assms(3) by simp
next
  case orch_restart
  then show ?thesis using assms(3) by simp
qed (insert assms(2,3), (erule (2) step_intros | erule (1) step_intros | erule (1) step_intros [rotated])+)

lemma step_keeps_rest:
  assumes "orch_step dg d d'" and "rollouts_ok d"
  shows "rollouts_ok d' \<and> set (deliveries d) \<subseteq> set (deliveries d')"
proof -
  have by_kept: "?thesis" if "kept (set (deliveries d)) (rollouts d) d'"
    using that rollouts_ok_cong [of d' d] assms(2) by (simp add: kept_def)
  have self: "kept (set (deliveries d)) (rollouts d) d" by (simp add: kept_def)
  from assms(1) show ?thesis
  proof cases
    case (orch_gc now dry age fs x fs')
    then show ?thesis using admin_keeps(5) [OF orch_gc self] by (intro by_kept) simp
  next
    case (orch_sweep now n)
    then show ?thesis using sweeps_keep(1) [OF self, of now] by (intro by_kept) simp
  next
    case (orch_orphans cfg t0 now n)
    then show ?thesis using sweeps_keep(2) [OF self, of cfg t0 now] by (intro by_kept) simp
  next
    case (orch_retention cfg now e a out)
    then show ?thesis using sweeps_keep(3) [OF self, of cfg dg now e a] by (intro by_kept) simp
  next
    case (orch_rollout now b)
    then show ?thesis using advance_ok [OF assms(2) orch_rollout] advance_tables [OF orch_rollout] by simp
  next
    case (orch_start cfg fetch rel ch cur now body x)
    then show ?thesis using start_ok [OF assms(2) orch_start] rollout_handlers_ledger(1) [OF orch_start] by simp
  next
    case (orch_abort now x)
    then show ?thesis using abort_ok [OF assms(2) orch_abort] rollout_handlers_ledger(2) [OF orch_abort] by simp
  next
    case (orch_resume now x)
    then show ?thesis using resume_ok [OF assms(2) orch_resume] rollout_handlers_ledger(3) [OF orch_resume] by simp
  next
    case (orch_registry ns fs)
    then show ?thesis using assms(2) by (intro by_kept) (simp add: kept_def)
  next
    case orch_restart
    then show ?thesis using assms(2) by (intro by_kept) (simp add: kept_def restarted_def)
  qed (rule by_kept, erule handlers_keep, rule self)+
qed

interpretation orchestrator: stable_system "booted dg" "orch_step dg" "orch_inv dg" has_receipt
proof
  fix s assume "booted dg s"
  then show "orch_inv dg s" by (simp add: booted_def orch_inv_def db_inv_empty rollouts_ok_def) (simp add: empty_orch_def)
next
  fix s t assume "orch_inv dg s" "orch_step dg s t"
  then show "orch_inv dg t" using step_keeps_db step_keeps_rest by (auto simp: orch_inv_def)
next
  fix s k t assume "orch_inv dg s" "has_receipt k s" "orch_step dg s t"
  then show "has_receipt k t" using step_keeps_rest by (auto simp: orch_inv_def has_receipt_def)
qed

section \<open>Every reachable state\<close>

text \<open>
  C1: In every state the orchestrator can reach from an empty database, by any interleaving of the calls of
  its agents and operators, its background tasks and restarts: granule and object identifiers are unique
  and refer to existing rows; a granule is leased exactly by the rules of its state and never \<open>FAILED\<close>; only
  a granule that has uploaded has objects, and every object of an \<open>ACKED\<close> one is confirmed; every confirmed
  object has its receipt in the ledger; a batch counts at least its deleted granules as delivered; and at most
  one rollout is open.
\<close>

theorem reachable_states_are_sound:
  assumes "reach (booted dg) (orch_step dg) d"
  shows "distinct (map gr_id (granules d)) \<and> distinct (map ob_id (objects d)) \<and> refs_ok d
    \<and> (\<forall>g \<in> set (granules d). lease_ok g \<and> tails_ok g \<and> gr_state g \<noteq> FAILED \<and> 0 \<le> gr_retry_count g)
    \<and> (\<forall>x \<in> set (objects d). \<forall>g \<in> set (granules d). gr_id g = ob_granule x \<longrightarrow>
         gr_state g \<in> {UPLOADED, ACKED, DELETED} \<and> (gr_state g = ACKED \<longrightarrow> ob_acked_at x \<noteq> None))
    \<and> (\<forall>x \<in> set (objects d). ob_acked_at x \<noteq> None \<longrightarrow> has_delivery_record d x)
    \<and> (\<forall>b \<in> set (batches d). int (row_count (\<lambda>g. gr_batch g = bt_id b \<and> gr_state g = DELETED) (granules d))
         \<le> coalesce (bt_delivered_count b) 0)
    \<and> row_count is_open (rollouts d) \<le> 1"
  using orchestrator.reachable_inv [OF assms]
  unfolding orch_inv_def db_inv_def keys_ok_def rows_ok_def granule_ok_def objects_ok_def receipts_ok_def counters_ok_def
    rollouts_ok_def deleted_in_def stored_def
  by blast

definition sample_creation :: batch_create where
  "sample_creation = \<lparr>bc_batch_id = Some ''b'', bc_name = ''n'', bc_bundle_ref = ''orch:x@1.0'', bc_target_receiver = None,
     bc_execution_env = [], bc_credentials = [], bc_granules = sample_submission\<rparr>"

definition sample_library :: orch where
  "sample_library = empty_orch\<lparr>bundles := bundles sample_registry,
     shared_files := [\<lparr>sf_name = ''mask.bin'', sf_sha256 = ''00'', sf_size = 1, sf_description = None, sf_uploaded_at = 0\<rparr>]\<rparr>"

lemma sample_batch_created:
  "\<exists>b d. create_batch sample_compiler (\<lambda>v. []) (\<lambda>n. []) 5 sample_creation sample_library = Inr (b, d)
     \<and> map gr_id (granules d) = [''b:g'']"
proof -
  have "validate_granules_for_bundle sample_compiler (\<lambda>v. []) ''orch:x@1.0'' sample_submission sample_library = Inr []"
  proof -
    have "get_bundle n v sample_library = get_bundle n v sample_registry" for n v
      by (simp add: get_bundle_def sample_library_def)
    then show ?thesis using sample_submission_valid unfolding validate_granules_for_bundle_def by (simp only:)
  qed
  moreover have "check_bundle ''orch:x@1.0'' sample_library = Inr ()" by code_simp
  moreover have "choose_batch_id (\<lambda>n. []) (Some ''b'') sample_library = Inr ''b''"
    and "granules sample_library = []"
    by (simp_all add: choose_batch_id_def get_batch_def get_row_def sample_library_def empty_orch_def)
  ultimately show ?thesis
    by (simp add: create_batch_def sample_creation_def insert_granules_def get_granule_def get_row_def
        sample_submission_def new_granule_def compose_gid_def Let_def)
qed

theorem reachable_states_are_sound_witness:
  "\<exists>d::orch. map gr_id (granules d) = [''b:g''] \<and> (\<forall>g \<in> set (granules d). lease_ok g \<and> gr_state g \<noteq> FAILED)"
proof -
  have "reach (booted sample_digest) (orch_step sample_digest) empty_orch"
    by (rule reach_init) (simp add: booted_def sample_digest_inj)
  then have 1: "reach (booted sample_digest) (orch_step sample_digest) sample_library"
    unfolding sample_library_def by (rule reach_step) (rule orch_registry)
  obtain b d where "create_batch sample_compiler (\<lambda>v. []) (\<lambda>n. []) 5 sample_creation sample_library = Inr (b, d)"
      and ids: "map gr_id (granules d) = [''b:g'']"
    using sample_batch_created by (elim exE conjE)
  then have "reach (booted sample_digest) (orch_step sample_digest) d"
    by (intro reach_step [OF 1] orch_create)
  from reachable_states_are_sound [OF this] ids show ?thesis by - (rule exI [of _ d], simp)
qed

text \<open>
  C2: A receipt that the ledger has got stays there, unchanged, in every continuation of the run: no operation deletes or rewrites one, not even the retention sweep, the deletion of
  its batch or a restart.
\<close>

theorem receipts_are_permanent:
  assumes "db_inv dg d" and "inj_digest dg" and "rollouts_ok d" and "(orch_step dg)\<^sup>*\<^sup>* d d'" and "r \<in> set (deliveries d)"
  shows "r \<in> set (deliveries d')"
  using orchestrator.stable_run [OF assms(4), of r] assms(1-3,5) by (simp add: has_receipt_def orch_inv_def)

theorem receipts_are_permanent_witness:
  "set (deliveries sample_delivered) \<subseteq> set (deliveries (restarted sample_delivered))"
proof
  fix r assume "r \<in> set (deliveries sample_delivered)"
  moreover have "rollouts_ok sample_delivered"
    by (simp add: rollouts_ok_def sample_delivered_def sample_defs)
  moreover have "(orch_step sample_digest)\<^sup>*\<^sup>* sample_delivered (restarted sample_delivered)"
    by (rule r_into_rtranclp) (rule orch_restart)
  ultimately show "r \<in> set (deliveries (restarted sample_delivered))"
    using receipts_are_permanent [OF sample_delivered_inv sample_digest_inj] by blast
qed

end
