(* ===== verification/FlushBuffer.thy ===== *)
theory FlushBuffer
  imports Prelude StateMachine "HOL-Library.Sublist" "HOL-Library.Multiset"
begin

text \<open>
  The coalescing buffer of \<^verbatim>\<open>src/sathop/shared/flush_buffer.py\<close>, through which a worker posts its
  transition events and progress and a receiver its acknowledgements, and the bookkeeping that
  \<^verbatim>\<open>worker/event_buffer.py\<close> adds to it. A flush is two steps, because producers run while the post is awaited:
  the batch leaves the queue, and later the post has succeeded, failed or been cancelled.
\<close>

section \<open>The buffer\<close>

record 'a buffer_config =
  bf_max_batch :: nat
  bf_max_buffer :: nat
  bf_wake_on :: "('a \<Rightarrow> bool) option"

record 'a flush_buffer =
  fb_queue :: "'a list"
  fb_posting :: "'a list"
  fb_wake :: bool

definition new_buffer :: "'a flush_buffer" where
  "new_buffer = \<lparr>fb_queue = [], fb_posting = [], fb_wake = False\<rparr>"

definition enqueue :: "'a buffer_config \<Rightarrow> 'a \<Rightarrow> 'a flush_buffer \<Rightarrow> 'a flush_buffer" where
  "enqueue cfg item b =
     (let q = fb_queue b @ [item]
      in b\<lparr>fb_queue := q,
           fb_wake := (fb_wake b \<or> (case bf_wake_on cfg of None \<Rightarrow> False | Some p \<Rightarrow> p item)
                        \<or> bf_max_batch cfg \<le> length q)\<rparr>)"

text \<open>\<^verbatim>\<open>_flush\<close> up to the await of the post.\<close>

definition begin_flush :: "'a buffer_config \<Rightarrow> 'a flush_buffer \<Rightarrow> 'a flush_buffer" where
  "begin_flush cfg b =
     (if fb_queue b = [] then b
      else b\<lparr>fb_posting := take (bf_max_batch cfg) (fb_queue b), fb_queue := drop (bf_max_batch cfg) (fb_queue b)\<rparr>)"

text \<open>The handler of \<^verbatim>\<open>except Exception\<close>: the batch goes back to the front, the oldest surplus is dropped.\<close>

definition shed :: "'a buffer_config \<Rightarrow> 'a list \<Rightarrow> 'a list" where
  "shed cfg q = drop (length q - bf_max_buffer cfg) q"

definition flush_failed :: "'a buffer_config \<Rightarrow> 'a flush_buffer \<Rightarrow> 'a flush_buffer" where
  "flush_failed cfg b = b\<lparr>fb_queue := shed cfg (fb_posting b @ fb_queue b), fb_posting := []\<rparr>"

definition flush_done :: "'a flush_buffer \<Rightarrow> 'a flush_buffer" where
  "flush_done b = b\<lparr>fb_posting := []\<rparr>"

text \<open>
  \<^verbatim>\<open>asyncio.CancelledError\<close> is not an \<^verbatim>\<open>Exception\<close>: a cancellation during the post passes the handler
  by, and the batch, already cut out of the queue, is nowhere any more.
\<close>

definition flush_cancelled :: "'a flush_buffer \<Rightarrow> 'a flush_buffer" where
  "flush_cancelled b = b\<lparr>fb_posting := []\<rparr>"

text \<open>
  The drain of \<^verbatim>\<open>loop\<close> on cancellation, when no producer runs any more: whole flushes, the \<open>k\<close>-th of
  which succeeds if \<open>up k\<close>, until the queue is empty or has not shrunk. The result is what was
  posted and what is left.
\<close>

definition flush_once :: "'a buffer_config \<Rightarrow> bool \<Rightarrow> 'a list \<Rightarrow> 'a list \<times> 'a list" where
  "flush_once cfg ok q =
     (if ok then (take (bf_max_batch cfg) q, drop (bf_max_batch cfg) q) else ([], shed cfg q))"

function drain :: "'a buffer_config \<Rightarrow> (nat \<Rightarrow> bool) \<Rightarrow> nat \<Rightarrow> 'a list \<Rightarrow> 'a list \<times> 'a list" where
  "drain cfg up k q =
     (if q = [] then ([], [])
      else let (posted, q1) = flush_once cfg (up k) q
           in if length q \<le> length q1 then (posted, q1)
              else let (more_posted, q2) = drain cfg up (Suc k) q1 in (posted @ more_posted, q2))"
  by pat_completeness auto
termination by (relation "measure (\<lambda>(cfg, up, k, q). length q)") auto

declare drain.simps [simp del]

section \<open>The buffer as a transition system\<close>

text \<open>
  Where the task that runs \<^verbatim>\<open>loop\<close> is: in the loop, in the drain that follows a cancellation (with the length of the
  queue before the flush under way), or over.
\<close>

datatype flush_phase = Looping | Draining nat | Ended

text \<open>
  The buffer with its histories: what was produced; what was confirmed (the post returned); what the orchestrator
  received, in the order in which it did; what of it was received without a confirmation (the answer was lost, or the
  post was cancelled after it had been applied); what an outage made the buffer shed; and what was cut out of the
  queue when a cancellation hit its post.
\<close>

record 'a buffer_run =
  br_buffer :: "'a flush_buffer"
  br_flushing :: bool
  br_phase :: flush_phase
  br_produced :: "'a list"
  br_confirmed :: "'a list"
  br_received :: "'a list"
  br_extra :: "'a list"
  br_shed :: "'a list"
  br_cut :: "'a list"

text \<open>What the buffer still owes, in the order in which it will be posted: its abstraction is a plain queue.\<close>

definition owed :: "'a flush_buffer \<Rightarrow> 'a list" where
  "owed b = fb_posting b @ fb_queue b"

text \<open>A flush that returns in the drain ends it when the queue has not shrunk.\<close>

definition after_flush :: "nat \<Rightarrow> flush_phase \<Rightarrow> flush_phase" where
  "after_flush left ph = (case ph of Draining before \<Rightarrow> if before \<le> left then Ended else ph | _ \<Rightarrow> ph)"

text \<open>
  The steps: a producer enqueues, at any time; the loop wakes and flushes; the post returns, fails (\<open>applied\<close> says
  whether the orchestrator had applied it), or is cancelled; a cancellation arrives between two flushes; the drain
  goes on with the next flush, or ends with an empty queue. A second cancellation, which only an await can
  receive, ends the drain.
\<close>

inductive buffer_step :: "'a buffer_config \<Rightarrow> 'a buffer_run \<Rightarrow> 'a buffer_run \<Rightarrow> bool" for cfg :: "'a buffer_config" where
  buf_enqueue: "buffer_step cfg r
     (r\<lparr>br_buffer := enqueue cfg x (br_buffer r), br_produced := br_produced r @ [x]\<rparr>)"
| buf_begin: "\<not> br_flushing r \<Longrightarrow> br_phase r = Looping \<Longrightarrow>
     buffer_step cfg r
       (r\<lparr>br_buffer := begin_flush cfg ((br_buffer r)\<lparr>fb_wake := False\<rparr>), br_flushing := fb_queue (br_buffer r) \<noteq> []\<rparr>)"
| buf_done: "br_flushing r \<Longrightarrow>
     buffer_step cfg r
       (r\<lparr>br_buffer := flush_done (br_buffer r), br_flushing := False,
          br_phase := after_flush (length (fb_queue (br_buffer r))) (br_phase r),
          br_confirmed := br_confirmed r @ fb_posting (br_buffer r),
          br_received := br_received r @ fb_posting (br_buffer r)\<rparr>)"
| buf_failed: "br_flushing r \<Longrightarrow> sent = (if applied then fb_posting (br_buffer r) else []) \<Longrightarrow>
     buffer_step cfg r
       (r\<lparr>br_buffer := flush_failed cfg (br_buffer r), br_flushing := False,
          br_phase := after_flush (length (fb_queue (flush_failed cfg (br_buffer r)))) (br_phase r),
          br_received := br_received r @ sent, br_extra := br_extra r @ sent,
          br_shed := br_shed r @ take (length (owed (br_buffer r)) - bf_max_buffer cfg) (owed (br_buffer r))\<rparr>)"
| buf_cancel_post: "br_flushing r \<Longrightarrow> sent = (if applied then fb_posting (br_buffer r) else []) \<Longrightarrow>
     buffer_step cfg r
       (r\<lparr>br_buffer := flush_cancelled (br_buffer r), br_flushing := False,
          br_phase := (if br_phase r = Looping then Draining 0 else Ended),
          br_received := br_received r @ sent, br_extra := br_extra r @ sent,
          br_cut := br_cut r @ fb_posting (br_buffer r)\<rparr>)"
| buf_cancel_wait: "\<not> br_flushing r \<Longrightarrow> br_phase r = Looping \<Longrightarrow> buffer_step cfg r (r\<lparr>br_phase := Draining 0\<rparr>)"
| buf_drain: "\<not> br_flushing r \<Longrightarrow> br_phase r = Draining n \<Longrightarrow>
     buffer_step cfg r
       (r\<lparr>br_buffer := begin_flush cfg (br_buffer r), br_flushing := fb_queue (br_buffer r) \<noteq> [],
          br_phase := (if fb_queue (br_buffer r) = [] then Ended else Draining (length (fb_queue (br_buffer r))))\<rparr>)"

definition fresh_run :: "'a buffer_run \<Rightarrow> bool" where
  "fresh_run r \<longleftrightarrow> r = \<lparr>br_buffer = new_buffer, br_flushing = False, br_phase = Looping, br_produced = [], br_confirmed = [],
     br_received = [], br_extra = [], br_shed = [], br_cut = []\<rparr>"

section \<open>A buffer refines a queue\<close>

lemma owed_enqueue [simp]: "owed (enqueue cfg x b) = owed b @ [x]"
  by (simp add: owed_def enqueue_def Let_def)

lemma owed_begin [simp]: "fb_posting b = [] \<Longrightarrow> owed (begin_flush cfg b) = owed b"
  by (simp add: owed_def begin_flush_def)

lemma owed_wake [simp]: "owed (b\<lparr>fb_wake := w\<rparr>) = owed b"
  by (simp add: owed_def)

lemma owed_done: "fb_posting b @ owed (flush_done b) = owed b"
  by (simp add: owed_def flush_done_def)

lemma owed_cancelled: "fb_posting b @ owed (flush_cancelled b) = owed b"
  by (simp add: owed_def flush_cancelled_def)

lemma owed_failed [simp]: "owed (flush_failed cfg b) = shed cfg (owed b)"
  by (simp add: owed_def flush_failed_def)

lemma posting_simps [simp]:
  "fb_posting (enqueue cfg x b) = fb_posting b" "fb_posting (flush_done b) = []"
  "fb_posting (flush_failed cfg b) = []" "fb_posting (flush_cancelled b) = []"
  "fb_queue b = [] \<Longrightarrow> fb_posting (begin_flush cfg b) = fb_posting b"
  by (simp_all add: enqueue_def flush_done_def flush_failed_def flush_cancelled_def begin_flush_def Let_def)

lemma shed_split: "take (length q - bf_max_buffer cfg) q @ shed cfg q = q"
  by (simp add: shed_def)

lemma length_shed: "length (shed cfg q) = min (length q) (bf_max_buffer cfg)"
  by (simp add: shed_def min_def)

lemma shed_mset: "mset (take (length q - bf_max_buffer cfg) q) + mset (shed cfg q) = mset q"
  by (metis mset_append shed_split)

definition in_order :: "'a buffer_run \<Rightarrow> bool" where
  "in_order r \<longleftrightarrow> subseq (br_confirmed r @ owed (br_buffer r)) (br_produced r)
     \<and> mset (br_produced r) = mset (br_confirmed r) + mset (owed (br_buffer r)) + mset (br_shed r) + mset (br_cut r)"

definition books_ok :: "'a buffer_run \<Rightarrow> bool" where
  "books_ok r \<longleftrightarrow> subseq (br_confirmed r) (br_received r)
     \<and> mset (br_received r) = mset (br_confirmed r) + mset (br_extra r)
     \<and> set (br_received r) \<subseteq> set (br_produced r)
     \<and> (br_cut r \<noteq> [] \<longrightarrow> br_phase r \<noteq> Looping)
     \<and> (\<not> br_flushing r \<longrightarrow> fb_posting (br_buffer r) = [])"

lemma in_order_subset: "in_order r \<Longrightarrow> set (owed (br_buffer r)) \<subseteq> set (br_produced r)"
  unfolding in_order_def by (metis set_append set_mset_mset set_mset_union sup_ge2 sup.coboundedI1)

text \<open>A batch that leaves the buffer at its front, for good: to the confirmed items, or to those that were cut.\<close>

lemma owed_split: "owed b = fb_posting b @ fb_queue b"
  by (simp add: owed_def)

lemma drop_batch:
  assumes "subseq (xs @ p @ q) zs"
  shows "subseq (xs @ q) zs"
proof -
  have "subseq (xs @ q) (xs @ p @ q)" by (intro list_emb_append_mono) auto
  then show ?thesis using assms by (rule subseq_order.trans)
qed

lemma step_in_order:
  assumes "buffer_step cfg r r'" and "in_order r" and "books_ok r"
  shows "in_order r'"
  using assms(1)
proof cases
  case (buf_enqueue x)
  have "subseq ((br_confirmed r @ owed (br_buffer r)) @ [x]) (br_produced r @ [x])"
    using assms(2) by (intro list_emb_append_mono) (auto simp: in_order_def)
  with buf_enqueue assms(2) show ?thesis by (simp add: in_order_def)
next
  case buf_done
  with assms(2) show ?thesis by (simp add: in_order_def owed_split flush_done_def)
next
  case (buf_failed sent applied)
  have "subseq (br_confirmed r @ shed cfg (owed (br_buffer r))) (br_confirmed r @ owed (br_buffer r))"
    unfolding shed_def by (intro list_emb_append_mono suffix_imp_subseq suffix_drop) simp
  with assms(2) have "subseq (br_confirmed r @ shed cfg (owed (br_buffer r))) (br_produced r)"
    by (meson in_order_def subseq_order.trans)
  then show ?thesis
    using assms(2) buf_failed shed_mset [of "owed (br_buffer r)" cfg] by (simp add: in_order_def ac_simps)
next
  case (buf_cancel_post sent applied)
  with assms(2) drop_batch [of "br_confirmed r" "fb_posting (br_buffer r)" "fb_queue (br_buffer r)" "br_produced r"]
  show ?thesis by (simp add: in_order_def owed_split flush_cancelled_def ac_simps)
qed (use assms(2,3) in \<open>simp_all add: in_order_def books_ok_def\<close>)

lemma step_books_ok:
  assumes "buffer_step cfg r r'" and "in_order r" and "books_ok r"
  shows "books_ok r'"
proof -
  have posting: "set (fb_posting (br_buffer r)) \<subseteq> set (br_produced r)"
    using in_order_subset [OF assms(2)] by (auto simp: owed_def)
  have more: "subseq (br_confirmed r) (br_received r @ ys)" for ys
    using assms(3) by (auto simp: books_ok_def intro: subseq_order.trans)
  show ?thesis
    using assms(1)
  proof cases
    case buf_done
    have "subseq (br_confirmed r @ fb_posting (br_buffer r)) (br_received r @ fb_posting (br_buffer r))"
      using assms(3) by (intro list_emb_append_mono) (auto simp: books_ok_def)
    with buf_done assms(3) posting show ?thesis by (auto simp: books_ok_def after_flush_def split: flush_phase.splits)
  next
    case (buf_failed sent applied)
    with assms(3) posting more show ?thesis by (auto simp: books_ok_def after_flush_def split: flush_phase.splits)
  next
    case (buf_cancel_post sent applied)
    with assms(3) posting more show ?thesis by (auto simp: books_ok_def)
  qed (use assms(3) in \<open>auto simp: books_ok_def\<close>)
qed

interpretation buffer: invariant_system fresh_run "buffer_step cfg" "\<lambda>r. in_order r \<and> books_ok r"
  for cfg :: "'a buffer_config"
proof unfold_locales
  fix r :: "'a buffer_run" assume "fresh_run r"
  then show "in_order r \<and> books_ok r"
    by (simp add: fresh_run_def in_order_def books_ok_def new_buffer_def owed_def)
next
  fix r r' :: "'a buffer_run" assume "in_order r \<and> books_ok r" and "buffer_step cfg r r'"
  then show "in_order r' \<and> books_ok r'" by (blast intro: step_in_order step_books_ok)
qed

text \<open>
  C30: The buffer refines a queue, through failures, lost answers and cancellations. Whatever the interleaving of producers,
  flushes and cancellations: what was confirmed, followed by what the buffer still owes, is a part of the production, in its
  order; every produced item is confirmed, owed, shed or cut, exactly once; the orchestrator has received what was
  confirmed, in that order, and beyond it only the batches that it applied without a confirmation, which are what
  may reach it twice; without such batches it has received exactly what was confirmed. A batch is cut only by a cancellation,
  and a failed post leaves a backlog within the bound. As long as nothing was shed or cut, confirmed and owed together
  are exactly what was produced.
\<close>

theorem buffer_refines_queue:
  assumes "reach fresh_run (buffer_step cfg) r"
  shows "subseq (br_confirmed r @ owed (br_buffer r)) (br_produced r)
    \<and> mset (br_produced r) = mset (br_confirmed r) + mset (owed (br_buffer r)) + mset (br_shed r) + mset (br_cut r)
    \<and> subseq (br_confirmed r) (br_received r)
    \<and> mset (br_received r) = mset (br_confirmed r) + mset (br_extra r)
    \<and> set (br_received r) \<subseteq> set (br_produced r)
    \<and> (br_extra r = [] \<longrightarrow> br_received r = br_confirmed r)
    \<and> (br_cut r \<noteq> [] \<longrightarrow> br_phase r \<noteq> Looping)
    \<and> length (owed (flush_failed cfg (br_buffer r))) \<le> bf_max_buffer cfg
    \<and> (br_shed r = [] \<and> br_cut r = [] \<longrightarrow> br_confirmed r @ owed (br_buffer r) = br_produced r)"
proof -
  have inv: "in_order r" "books_ok r" using buffer.reachable_inv [OF assms] by simp_all
  have "br_confirmed r @ owed (br_buffer r) = br_produced r" if "br_shed r = []" "br_cut r = []"
  proof -
    have "length (br_produced r) = length (br_confirmed r @ owed (br_buffer r))"
      using inv(1) that unfolding in_order_def by (metis add.right_neutral mset.simps(1) mset_append size_mset)
    with inv(1) show ?thesis unfolding in_order_def using subseq_same_length by metis
  qed
  moreover have "br_received r = br_confirmed r" if "br_extra r = []"
  proof -
    have "length (br_received r) = length (br_confirmed r)"
      using inv(2) that unfolding books_ok_def by (metis add.right_neutral mset.simps(1) size_mset)
    with inv(2) show ?thesis unfolding books_ok_def using subseq_same_length by metis
  qed
  ultimately show ?thesis using inv by (simp add: in_order_def books_ok_def length_shed)
qed

text \<open>
  A small run: the post of the first item fails, although it was applied, and is repeated; the post of the
  second is cancelled; the drain posts the third.
\<close>

abbreviation sample_buffer :: "nat buffer_config" where
  "sample_buffer \<equiv> \<lparr>bf_max_batch = 1, bf_max_buffer = 8, bf_wake_on = None\<rparr>"

definition sample_run :: "nat buffer_run" where
  "sample_run = \<lparr>br_buffer = \<lparr>fb_queue = [], fb_posting = [], fb_wake = False\<rparr>, br_flushing = False, br_phase = Draining 1,
     br_produced = [1, 2, 3], br_confirmed = [1, 3], br_received = [1, 1, 3], br_extra = [1], br_shed = [], br_cut = [2]\<rparr>"

lemma sample_run_reachable: "reach fresh_run (buffer_step sample_buffer) sample_run"
proof -
  let ?step = "buffer_step sample_buffer" and ?b = "\<lambda>q p w. \<lparr>fb_queue = q, fb_posting = p, fb_wake = w\<rparr>"
  let ?r = "\<lambda>q p w fl ph ps cs rs es ct. \<lparr>br_buffer = ?b q p w, br_flushing = fl, br_phase = ph, br_produced = ps,
     br_confirmed = cs, br_received = rs, br_extra = es, br_shed = [] :: nat list, br_cut = ct\<rparr>"
  note step_simps = enqueue_def begin_flush_def flush_failed_def flush_done_def flush_cancelled_def shed_def owed_def
    after_flush_def Let_def
  have 0: "reach fresh_run ?step (?r [] [] False False Looping [] [] [] [] [])"
    by (rule reach_init) (simp add: fresh_run_def new_buffer_def)
  have 1: "reach fresh_run ?step (?r [1] [] True False Looping [1] [] [] [] [])"
    using reach_step [OF 0 buf_enqueue [where x = 1]] by (simp add: step_simps)
  have 2: "reach fresh_run ?step (?r [1, 2] [] True False Looping [1, 2] [] [] [] [])"
    using reach_step [OF 1 buf_enqueue [where x = 2]] by (simp add: step_simps)
  have 3: "reach fresh_run ?step (?r [1, 2, 3] [] True False Looping [1, 2, 3] [] [] [] [])"
    using reach_step [OF 2 buf_enqueue [where x = 3]] by (simp add: step_simps)
  have 4: "reach fresh_run ?step (?r [2, 3] [1] False True Looping [1, 2, 3] [] [] [] [])"
    using reach_step [OF 3 buf_begin] by (simp add: step_simps)
  have 5: "reach fresh_run ?step (?r [1, 2, 3] [] False False Looping [1, 2, 3] [] [1] [1] [])"
    using reach_step [OF 4 buf_failed [where applied = True]] by (simp add: step_simps)
  have 6: "reach fresh_run ?step (?r [2, 3] [1] False True Looping [1, 2, 3] [] [1] [1] [])"
    using reach_step [OF 5 buf_begin] by (simp add: step_simps)
  have 7: "reach fresh_run ?step (?r [2, 3] [] False False Looping [1, 2, 3] [1] [1, 1] [1] [])"
    using reach_step [OF 6 buf_done] by (simp add: step_simps)
  have 8: "reach fresh_run ?step (?r [3] [2] False True Looping [1, 2, 3] [1] [1, 1] [1] [])"
    using reach_step [OF 7 buf_begin] by (simp add: step_simps)
  have 9: "reach fresh_run ?step (?r [3] [] False False (Draining 0) [1, 2, 3] [1] [1, 1] [1] [2])"
    using reach_step [OF 8 buf_cancel_post [where applied = False]] by (simp add: step_simps)
  have 10: "reach fresh_run ?step (?r [] [3] False True (Draining 1) [1, 2, 3] [1] [1, 1] [1] [2])"
    using reach_step [OF 9 buf_drain] by (simp add: step_simps)
  show ?thesis
    using reach_step [OF 10 buf_done] by (simp add: step_simps sample_run_def)
qed

theorem buffer_refines_queue_witness:
  "reach fresh_run (buffer_step sample_buffer) sample_run
   \<and> br_produced sample_run = [1, 2, 3] \<and> br_received sample_run = [1, 1, 3] \<and> br_cut sample_run = [2]
   \<and> subseq (br_confirmed sample_run @ owed (br_buffer sample_run)) (br_produced sample_run)
   \<and> mset (br_received sample_run) = mset (br_confirmed sample_run) + mset (br_extra sample_run)"
proof -
  have "br_produced sample_run = [1, 2, 3]" "br_received sample_run = [1, 1, 3]" "br_cut sample_run = [2]"
    by (simp_all add: sample_run_def)
  with buffer_refines_queue [OF sample_run_reachable] sample_run_reachable show ?thesis by blast
qed

section \<open>The drain\<close>

lemma flush_once_parts: "flush_once cfg ok q = (p, q') \<Longrightarrow> subseq (p @ q') q"
  by (auto simp: flush_once_def shed_def intro: suffix_imp_subseq suffix_drop split: if_splits)

lemma drain_all_up:
  assumes "\<And>i. k \<le> i \<Longrightarrow> up i" and "0 < bf_max_batch cfg"
  shows "drain cfg up k q = (q, [])"
  using assms
proof (induction cfg up k q rule: drain.induct)
  case (1 cfg up k q)
  show ?case
  proof (cases "q = []")
    case False
    have "drain cfg up (Suc k) (drop (bf_max_batch cfg) q) = (drop (bf_max_batch cfg) q, [])"
      if "\<not> length q \<le> length (drop (bf_max_batch cfg) q)"
      using 1(2,3) False that by (intro 1(1) [OF False]) (auto simp: flush_once_def)
    moreover have "length q - bf_max_batch cfg < length q" using False 1(3) by (intro diff_less) auto
    then have "\<not> length q \<le> length (drop (bf_max_batch cfg) q)" by simp
    ultimately show ?thesis using False 1(2) by (subst drain.simps) (simp add: flush_once_def)
  qed (simp add: drain.simps)
qed

lemma drain_all_down:
  assumes "\<And>i. k \<le> i \<Longrightarrow> \<not> up i" and "length q \<le> bf_max_buffer cfg"
  shows "drain cfg up k q = ([], q)"
  using assms by (subst drain.simps) (auto simp: flush_once_def shed_def)

lemma drain_order: "drain cfg up k q = (p, q') \<Longrightarrow> subseq (p @ q') q"
proof (induction cfg up k q arbitrary: p q' rule: drain.induct)
  case (1 cfg up k q)
  obtain p1 q1 where f: "flush_once cfg (up k) q = (p1, q1)" by fastforce
  note sub = flush_once_parts [OF f]
  show ?case
  proof (cases "q = [] \<or> length q \<le> length q1")
    case True
    then show ?thesis using 1(2) f sub by (auto simp: drain.simps [of cfg up k q] split: if_splits)
  next
    case False
    obtain p2 q2 where d: "drain cfg up (Suc k) q1 = (p2, q2)" by fastforce
    have "subseq (p2 @ q2) q1" using False by (intro 1(1) [OF _ f [symmetric] refl _ d]) auto
    then have "subseq (p1 @ p2 @ q2) (p1 @ q1)" by (intro list_emb_append_mono) auto
    moreover have "p = p1 @ p2" "q' = q2" using 1(2) False f d by (simp_all add: drain.simps [of cfg up k q])
    ultimately show ?thesis using sub by (metis append_assoc subseq_order.trans)
  qed
qed

text \<open>
  The drain on shutdown always ends. It posts a prefix of the backlog in order: all of it when the
  orchestrator answers, nothing when it does not, and then it gives up with the backlog intact.
\<close>

theorem drain_flushes_backlog:
  assumes "0 < bf_max_batch cfg"
  shows "drain cfg (\<lambda>i. True) 0 q = (q, [])
    \<and> (length q \<le> bf_max_buffer cfg \<longrightarrow> drain cfg (\<lambda>i. False) 0 q = ([], q))
    \<and> subseq (fst (drain cfg up k q) @ snd (drain cfg up k q)) q"
  using drain_all_up [of 0 "\<lambda>i. True" cfg q] drain_all_down [of 0 "\<lambda>i. False" q cfg] drain_order [of cfg up k q] assms
  by simp

theorem drain_flushes_backlog_witness:
  "drain sample_buffer (\<lambda>i. True) 0 [1, 2, 3] = ([1, 2, 3], [])"
  using drain_flushes_backlog [of sample_buffer] by simp

text \<open>
  The documented guarantee of the shutdown, that what a producer enqueued last still lands, has a hole:
  when the cancellation arrives while a batch is being posted, that batch is neither received nor put back, and
  even a drain against an orchestrator that answers delivers only what had stayed in the queue.
\<close>

theorem cancelled_post_is_lost:
  assumes "0 < bf_max_batch cfg" and "fb_posting b = []" and "fb_queue b = x # xs" and "x \<notin> set xs"
  shows "x \<notin> set (fst (drain cfg (\<lambda>i. True) 0 (fb_queue (flush_cancelled (begin_flush cfg b)))))
    \<and> owed (flush_cancelled (begin_flush cfg b)) = drop (bf_max_batch cfg) (owed b)"
proof -
  have q: "fb_queue (flush_cancelled (begin_flush cfg b)) = drop (bf_max_batch cfg) (x # xs)"
    using assms(3) by (simp add: flush_cancelled_def begin_flush_def)
  moreover have "x \<notin> set (drop (bf_max_batch cfg) (x # xs))"
    using assms(1,4) by (cases "bf_max_batch cfg") (auto dest: in_set_dropD)
  ultimately show ?thesis
    using assms drain_all_up [of 0 "\<lambda>i. True" cfg "drop (bf_max_batch cfg) (x # xs)"]
    by (simp add: owed_def flush_cancelled_def begin_flush_def)
qed

theorem cancelled_post_is_lost_witness:
  "\<not> 1 \<in> set (fst (drain sample_buffer (\<lambda>i. True) 0
     (fb_queue (flush_cancelled (begin_flush sample_buffer \<lparr>fb_queue = [1, 2], fb_posting = [], fb_wake = True\<rparr>)))))"
  using cancelled_post_is_lost [of sample_buffer "\<lparr>fb_queue = [1, 2], fb_posting = [], fb_wake = True\<rparr>" 1 "[2]"] by simp

end
