(* ===== verification/ReceiverAgent.thy ===== *)
theory ReceiverAgent
  imports ReceiversApi FlushBuffer Float64 "HOL-Library.Word" "HOL-Library.Sublist"
begin

text \<open>
  The receiver agent: how it downloads one object, whole or in segments (\<^verbatim>\<open>src/sathop/receiver/puller.py\<close>),
  how the outcome becomes an acknowledgement, and the bounded queue between the producer that claims objects
  and the workers that pull them (\<^verbatim>\<open>src/sathop/receiver/runtime.py\<close>). The network is a parameter: a function
  that says how each request is answered. \<^verbatim>\<open>sha256_file\<close> is the parameter \<open>sha\<close>.
\<close>

section \<open>Throughput statistics\<close>

record pull_stats =
  ps_window :: rat
  ps_in_flight :: int
  ps_events :: "(rat \<times> int) list"

definition stats_begin :: "pull_stats \<Rightarrow> pull_stats" where
  "stats_begin s = s\<lparr>ps_in_flight := ps_in_flight s + 1\<rparr>"

definition stats_end :: "rat \<Rightarrow> int \<Rightarrow> pull_stats \<Rightarrow> pull_stats" where
  "stats_end now bytes_pulled s =
     s\<lparr>ps_in_flight := ps_in_flight s - 1,
       ps_events := ps_events s @ (if bytes_pulled > 0 then [(now, bytes_pulled)] else [])\<rparr>"

definition recent_bps :: "rat \<Rightarrow> pull_stats \<Rightarrow> int \<times> pull_stats" where
  "recent_bps now s =
     (let es = dropWhile (\<lambda>e. fst e < now - ps_window s) (ps_events s)
      in (if es = [] then 0 else \<lfloor>f64 (of_int (sum_list (map snd es)) / ps_window s)\<rfloor>, s\<lparr>ps_events := es\<rparr>))"

section \<open>Byte ranges\<close>

definition byte_ranges :: "int \<Rightarrow> int \<Rightarrow> value_error + (int \<times> int) list" where
  "byte_ranges sz n =
     (if sz < 0 then Inl (ValueError (''size must be nonnegative'', []))
      else if sz = 0 then Inr []
      else
        let m = max 1 (min n sz); seg = sz div m
        in Inr (map (\<lambda>i. (i * seg, if i < m - 1 then (i + 1) * seg - 1 else sz - 1)) [0..m - 1]))"

section \<open>One ranged request\<close>

type_synonym byte = "8 word"

datatype net_error =
    RequestError
  | HTTPStatusError nat
  | CertVerifyError
  | SegmentNotSupportedError
  | ShortStream
  | OtherError

text \<open>
  The answer to a request: no response at all, or a status, the headers \<^verbatim>\<open>Content-Range\<close> and
  \<^verbatim>\<open>Content-Encoding\<close>, the chunks of the body and how the body ends (an error, or nothing).
\<close>

datatype answer =
    NoAnswer net_error
  | Answer nat string string "byte list list" "net_error option"

definition is_success :: "nat \<Rightarrow> bool" where
  "is_success status \<longleftrightarrow> 200 \<le> status \<and> status < 300"

text \<open>
  A certificate failure is a \<^verbatim>\<open>RequestError\<close> of httpx, and a \<^verbatim>\<open>ShortStream\<close> the \<^verbatim>\<open>RuntimeError\<close> of
  \<^verbatim>\<open>fetch_segment\<close>.
\<close>

fun is_transient_segment_error :: "net_error \<Rightarrow> bool" where
  "is_transient_segment_error SegmentNotSupportedError = False"
| "is_transient_segment_error RequestError = True"
| "is_transient_segment_error CertVerifyError = True"
| "is_transient_segment_error (HTTPStatusError s) = (500 \<le> s \<and> s < 600)"
| "is_transient_segment_error ShortStream = True"
| "is_transient_segment_error OtherError = False"

fun accept_chunks :: "nat \<Rightarrow> nat \<Rightarrow> byte list list \<Rightarrow> net_error option \<Rightarrow> byte list list \<times> net_error option" where
  "accept_chunks pos stop [] e = ([], e)"
| "accept_chunks pos stop (c # cs) e =
     (if pos + length c > stop + 1 then ([], Some SegmentNotSupportedError)
      else let (ds, e') = accept_chunks (pos + length c) stop cs e in (c # ds, e'))"

definition valid_range_headers :: "nat \<Rightarrow> nat \<Rightarrow> nat option \<Rightarrow> nat \<Rightarrow> string \<Rightarrow> string \<Rightarrow> bool" where
  "valid_range_headers pos stop expected_size status cr enc \<longleftrightarrow>
     (case parse_content_range cr of
        None \<Rightarrow> False
      | Some rng \<Rightarrow>
          status = 206 \<and> cr_start rng = pos \<and> cr_end rng = stop
          \<and> (case expected_size of None \<Rightarrow> True | Some n \<Rightarrow> cr_total rng = Some n)
          \<and> map lower enc = ''identity'')"

definition stream_range :: "nat \<Rightarrow> nat \<Rightarrow> nat option \<Rightarrow> answer \<Rightarrow> byte list list \<times> net_error option" where
  "stream_range pos stop expected_size ans =
     (case ans of
        NoAnswer e \<Rightarrow> ([], Some e)
      | Answer status cr enc chunks e \<Rightarrow>
          if \<not> is_success status then ([], Some (HTTPStatusError status))
          else if \<not> valid_range_headers pos stop expected_size status cr enc then ([], Some SegmentNotSupportedError)
          else accept_chunks pos stop chunks e)"

section \<open>A segment, with retries that resume\<close>

definition SEGMENT_MAX_RETRIES :: nat where
  "SEGMENT_MAX_RETRIES = 3"

text \<open>The writes \<^verbatim>\<open>f.seek(pos); f.write(chunk)\<close> of one stream, from position \<open>pos\<close> on.\<close>

fun writes_of :: "nat \<Rightarrow> byte list list \<Rightarrow> (nat \<times> byte list) list" where
  "writes_of pos [] = []"
| "writes_of pos (c # cs) = (pos, c) # writes_of (pos + length c) cs"

text \<open>
  \<open>fetch_from answers expected end k pos\<close> is the loop of \<^verbatim>\<open>fetch_segment\<close> from attempt \<open>k\<close> at position \<open>pos\<close>:
  the error it ends with, if any, and the writes it has made. \<open>answers k pos\<close> is the answer to the
  request of attempt \<open>k\<close>, which asks for the bytes from \<open>pos\<close> on.
\<close>

function fetch_from :: "(nat \<Rightarrow> nat \<Rightarrow> answer) \<Rightarrow> nat option \<Rightarrow> nat \<Rightarrow> nat \<Rightarrow> nat \<Rightarrow> net_error option \<times> (nat \<times> byte list) list" where
  "fetch_from answers expected stop k pos =
     (let (chunks, err) = stream_range pos stop expected (answers k pos);
          pos' = pos + length (concat chunks); ws = writes_of pos chunks;
          err' = (case err of None \<Rightarrow> if pos' = stop + 1 then None else Some ShortStream | Some e \<Rightarrow> Some e)
      in case err' of
           None \<Rightarrow> (None, ws)
         | Some e \<Rightarrow>
             if k \<ge> SEGMENT_MAX_RETRIES \<or> \<not> is_transient_segment_error e then (Some e, ws)
             else let (r, more_ws) = fetch_from answers expected stop (Suc k) pos' in (r, ws @ more_ws))"
  by pat_completeness auto
termination
  by (relation "measure (\<lambda>(answers, expected, stop, k, pos). SEGMENT_MAX_RETRIES - k)") auto

declare fetch_from.simps [simp del]

definition fetch_segment ::
  "(nat \<Rightarrow> nat \<Rightarrow> answer) \<Rightarrow> nat option \<Rightarrow> nat \<Rightarrow> nat \<Rightarrow> net_error option \<times> (nat \<times> byte list) list" where
  "fetch_segment answers expected start stop = fetch_from answers expected stop 0 start"

section \<open>A whole object\<close>

text \<open>A write beyond the end of the file fills the gap with zeros; an empty write changes nothing.\<close>

definition write_at :: "nat \<times> byte list \<Rightarrow> byte list \<Rightarrow> byte list" where
  "write_at w f =
     (if snd w = [] then f
      else take (fst w) f @ replicate (fst w - length f) 0 @ snd w @ drop (fst w + length (snd w)) f)"

definition run_segment ::
  "(int \<Rightarrow> nat \<Rightarrow> nat \<Rightarrow> answer) \<Rightarrow> int \<Rightarrow> int \<times> int \<Rightarrow> net_error option \<times> (nat \<times> byte list) list" where
  "run_segment answers expected_size r =
     fetch_segment (answers (fst r)) (Some (nat expected_size)) (nat (fst r)) (nat (snd r))"

text \<open>
  \<^verbatim>\<open>pull_segmented\<close>: the segments share one file of the expected size, and their writes interleave: \<open>schedule\<close>
  merges the writes of the segments, and \<open>raised\<close> picks the error that reaches the caller when
  segments fail. The temporary file is renamed to the destination only at the end.
\<close>

definition pull_segmented ::
  "(byte list \<Rightarrow> string) \<Rightarrow> ((nat \<times> byte list) list list \<Rightarrow> (nat \<times> byte list) list) \<Rightarrow> (net_error list \<Rightarrow> net_error)
     \<Rightarrow> (int \<Rightarrow> nat \<Rightarrow> nat \<Rightarrow> answer) \<Rightarrow> int \<Rightarrow> int \<Rightarrow> net_error + (string \<times> int \<times> byte list)" where
  "pull_segmented sha schedule raised answers expected_size segments =
     (case byte_ranges expected_size segments of
        Inl e \<Rightarrow> Inl OtherError
      | Inr ranges \<Rightarrow>
          let rs = map (run_segment answers expected_size) ranges;
              errs = List.map_filter fst rs
          in if errs \<noteq> [] then Inl (raised errs)
             else
               let f = fold write_at (schedule (map snd rs)) (replicate (nat expected_size) 0)
               in Inr (sha f, int (length f), f))"

definition pull_single :: "(byte list \<Rightarrow> string) \<Rightarrow> answer \<Rightarrow> net_error + (string \<times> int \<times> byte list)" where
  "pull_single sha ans =
     (case ans of
        NoAnswer e \<Rightarrow> Inl e
      | Answer status cr enc chunks e \<Rightarrow>
          if \<not> is_success status then Inl (HTTPStatusError status)
          else (case e of
                  Some err \<Rightarrow> Inl err
                | None \<Rightarrow> let f = concat chunks in Inr (sha f, int (length f), f)))"

section \<open>One item, from the pull to its acknowledgement\<close>

record agent_settings =
  as_receiver_id :: ident
  as_pull_segments :: int
  as_pull_segment_min_bytes :: int
  as_tls_verify :: bool
  as_tls_trust_orch :: bool
  as_concurrent_pulls :: nat

text \<open>
  The network as one pull sees it: the answers to the ranged requests of a segment (by its start, the attempt
  and the position) and to the plain request, before and after a refresh of the trusted certificates; how the
  writes of the segments interleave and whose error is raised; the outcome of that refresh, and
  how \<^verbatim>\<open>describe_exc\<close> renders an error.
\<close>

record network =
  nw_ranged :: "bool \<Rightarrow> int \<Rightarrow> nat \<Rightarrow> nat \<Rightarrow> answer"
  nw_plain :: "bool \<Rightarrow> answer"
  nw_schedule :: "(nat \<times> byte list) list list \<Rightarrow> (nat \<times> byte list) list"
  nw_raised :: "net_error list \<Rightarrow> net_error"
  nw_refresh :: "net_error option"
  nw_describe :: "net_error \<Rightarrow> string"

definition pull_object ::
  "agent_settings \<Rightarrow> (byte list \<Rightarrow> string) \<Rightarrow> network \<Rightarrow> bool \<Rightarrow> int \<Rightarrow> net_error + (string \<times> int \<times> byte list)" where
  "pull_object cfg sha nw refreshed expected_size =
     (if as_pull_segments cfg > 1 \<and> expected_size \<ge> as_pull_segment_min_bytes cfg \<and> expected_size > 0 then
        (case pull_segmented sha (nw_schedule nw) (nw_raised nw) (nw_ranged nw refreshed) expected_size (as_pull_segments cfg) of
           Inr r \<Rightarrow> Inr r
         | Inl e \<Rightarrow> if e = SegmentNotSupportedError then pull_single sha (nw_plain nw refreshed) else Inl e)
      else pull_single sha (nw_plain nw refreshed))"

definition pull_with_trust_retry ::
  "agent_settings \<Rightarrow> (byte list \<Rightarrow> string) \<Rightarrow> network \<Rightarrow> int \<Rightarrow> net_error + (string \<times> int \<times> byte list)" where
  "pull_with_trust_retry cfg sha nw expected_size =
     (case pull_object cfg sha nw False expected_size of
        Inr r \<Rightarrow> Inr r
      | Inl e \<Rightarrow>
          if \<not> (e = CertVerifyError \<and> as_tls_trust_orch cfg \<and> as_tls_verify cfg) then Inl e
          else (case nw_refresh nw of Some e' \<Rightarrow> Inl e' | None \<Rightarrow> pull_object cfg sha nw True expected_size))"

datatype log_kind = LogOk | LogMismatch | LogTransport

record pull_outcome =
  po_success :: bool
  po_sha :: string
  po_pulled_bytes :: int
  po_error :: "string option"
  po_log_kind :: log_kind

definition show_int :: "int \<Rightarrow> string" where
  "show_int i = (if i < 0 then ''-'' @ show_nat (nat (- i)) else show_nat (nat i))"

definition outcome_ok :: "string \<Rightarrow> int \<Rightarrow> pull_outcome" where
  "outcome_ok h n = \<lparr>po_success = True, po_sha = h, po_pulled_bytes = n, po_error = None, po_log_kind = LogOk\<rparr>"

definition outcome_mismatch :: "pull_item \<Rightarrow> string \<Rightarrow> int \<Rightarrow> pull_outcome" where
  "outcome_mismatch it h n =
     \<lparr>po_success = False, po_sha = h, po_pulled_bytes = 0,
      po_error = Some (''sha/size mismatch '' @ h @ ''/'' @ show_int n @ '' vs '' @ pi_sha256 it @ ''/'' @ show_int (pi_size it)),
      po_log_kind = LogMismatch\<rparr>"

definition transport_error :: "(net_error \<Rightarrow> string) \<Rightarrow> net_error \<Rightarrow> pull_outcome" where
  "transport_error describe e =
     \<lparr>po_success = False, po_sha = [], po_pulled_bytes = 0, po_error = Some (describe e), po_log_kind = LogTransport\<rparr>"

text \<open>The files of the storage directory, by object key.\<close>

type_synonym storage = "string \<Rightarrow> byte list option"

definition pull_one ::
  "agent_settings \<Rightarrow> (byte list \<Rightarrow> string) \<Rightarrow> network \<Rightarrow> pull_item \<Rightarrow> storage \<Rightarrow> pull_outcome \<times> storage" where
  "pull_one cfg sha nw it st =
     (case pull_with_trust_retry cfg sha nw (pi_size it) of
        Inl e \<Rightarrow> (transport_error (nw_describe nw) e, st)
      | Inr (h, n, f) \<Rightarrow>
          if h = pi_sha256 it \<and> n = pi_size it then (outcome_ok h n, st(pi_key it \<mapsto> f))
          else (outcome_mismatch it h n, st(pi_key it := None)))"

definition ack_outcome :: "ident \<Rightarrow> pull_item \<Rightarrow> pull_outcome \<Rightarrow> ack_report" where
  "ack_outcome rid it out =
     \<lparr>ak_receiver_id = rid, ak_object_id = pi_object it, ak_sha256 = po_sha out, ak_success = po_success out,
      ak_error = po_error out\<rparr>"

text \<open>One item on the storage, the statistics and the buffer of acknowledgements.\<close>

definition fetch_one ::
  "agent_settings \<Rightarrow> ack_report buffer_config \<Rightarrow> (byte list \<Rightarrow> string) \<Rightarrow> network \<Rightarrow> rat \<Rightarrow> pull_item
     \<Rightarrow> storage \<times> pull_stats \<times> ack_report flush_buffer \<Rightarrow> storage \<times> pull_stats \<times> ack_report flush_buffer" where
  "fetch_one cfg bcfg sha nw now it s =
     (case s of (st, stats, acks) \<Rightarrow>
        let stats1 = stats_begin stats; (out, st1) = pull_one cfg sha nw it st;
            acks1 = enqueue bcfg (ack_outcome (as_receiver_id cfg) it out) acks
        in (st1, stats_end now (po_pulled_bytes out) stats1, acks1))"

section \<open>The queue between the producer and the workers\<close>

text \<open>\<open>pl_asked\<close> is the limit of the request under way at the orchestrator, if there is one.\<close>

record pull_loop =
  pl_queue :: "pull_item list"
  pl_busy :: "pull_item list"
  pl_inflight :: "int set"
  pl_asked :: "int option"
  pl_draining :: bool

definition queue_maxsize :: "agent_settings \<Rightarrow> nat" where
  "queue_maxsize cfg = as_concurrent_pulls cfg * 2"

definition free_slots :: "agent_settings \<Rightarrow> pull_loop \<Rightarrow> int" where
  "free_slots cfg p = int (queue_maxsize cfg) - int (card (pl_inflight p))"

definition ask :: "agent_settings \<Rightarrow> pull_loop \<Rightarrow> pull_loop" where
  "ask cfg p =
     (if pl_draining p \<or> free_slots cfg p \<le> 0 \<or> pl_asked p \<noteq> None then p
      else p\<lparr>pl_asked := Some (free_slots cfg p)\<rparr>)"

definition pull_failed :: "pull_loop \<Rightarrow> pull_loop" where
  "pull_failed p = p\<lparr>pl_asked := None\<rparr>"

definition produce :: "pull_item list \<Rightarrow> pull_loop \<Rightarrow> pull_loop" where
  "produce items p =
     (let new = filter (\<lambda>it. pi_object it \<notin> pl_inflight p) items
      in p\<lparr>pl_asked := None, pl_inflight := pl_inflight p \<union> pi_object ` set new, pl_queue := pl_queue p @ new\<rparr>)"

definition take_item :: "pull_loop \<Rightarrow> pull_loop" where
  "take_item p =
     (case pl_queue p of [] \<Rightarrow> p | it # its \<Rightarrow> p\<lparr>pl_queue := its, pl_busy := pl_busy p @ [it]\<rparr>)"

definition finish_item :: "pull_item \<Rightarrow> pull_loop \<Rightarrow> pull_loop" where
  "finish_item it p = p\<lparr>pl_busy := remove1 it (pl_busy p), pl_inflight := pl_inflight p - {pi_object it}\<rparr>"

definition start_drain :: "pull_loop \<Rightarrow> pull_loop" where
  "start_drain p = p\<lparr>pl_draining := True\<rparr>"

text \<open>
  The steps of the loop: the producer asks for the free slots; the orchestrator answers with at most as many
  items, each object once, or not at all; an idle worker takes the next item; a worker finishes; a drain begins.
\<close>

inductive pull_step :: "agent_settings \<Rightarrow> pull_loop \<Rightarrow> pull_loop \<Rightarrow> bool" for cfg :: agent_settings where
  pull_ask: "pull_step cfg p (ask cfg p)"
| pull_answer: "pl_asked p = Some n \<Longrightarrow> int (length items) \<le> n \<Longrightarrow> distinct (map pi_object items) \<Longrightarrow>
     pull_step cfg p (produce items p)"
| pull_failure: "pull_step cfg p (pull_failed p)"
| pull_take: "length (pl_busy p) < as_concurrent_pulls cfg \<Longrightarrow> pull_step cfg p (take_item p)"
| pull_finish: "it \<in> set (pl_busy p) \<Longrightarrow> pull_step cfg p (finish_item it p)"
| pull_drain: "pull_step cfg p (start_drain p)"

definition idle_loop :: "pull_loop \<Rightarrow> bool" where
  "idle_loop p \<longleftrightarrow> p = \<lparr>pl_queue = [], pl_busy = [], pl_inflight = {}, pl_asked = None, pl_draining = False\<rparr>"

section \<open>The ranges partition the object\<close>



section \<open>A segmented pull assembles the object\<close>




definition covers :: "(nat \<times> byte list) list \<Rightarrow> nat \<Rightarrow> bool" where
  "covers ws i \<longleftrightarrow> (\<exists>w \<in> set ws. fst w \<le> i \<and> i < fst w + length (snd w))"







lemma covers_append [simp]: "covers (xs @ ys) i \<longleftrightarrow> covers xs i \<or> covers ys i"
  by (auto simp: covers_def)





lemma pull_segmented_ok:
  assumes "pull_segmented sha schedule raised answers expected n = Inr (h, sz, f)"
  obtains rs where "byte_ranges expected n = Inr rs"
    and "\<forall>r \<in> set rs. fst (run_segment answers expected r) = None"
    and "f = fold write_at (schedule (map (snd \<circ> run_segment answers expected) rs)) (replicate (nat expected) 0)"
    and "h = sha f" and "sz = int (length f)"
proof -
  from assms obtain rs where rs: "byte_ranges expected n = Inr rs"
    by (auto simp: pull_segmented_def split: sum.splits)
  from assms rs have "List.map_filter fst (map (run_segment answers expected) rs) = []"
    by (simp add: pull_segmented_def Let_def split: if_split_asm)
  then have "\<forall>r \<in> set rs. fst (run_segment answers expected r) = None"
    by (auto simp: map_filter_def filter_empty_conv)
  with assms rs show ?thesis
    by (intro that) (auto simp: pull_segmented_def Let_def split: if_split_asm)
qed


lemma content_range_ok: "parse_content_range s = Some r \<Longrightarrow> range_ok r"
  by (auto simp: parse_content_range_def range_ok_def split: option.splits if_splits)

lemma empty_range_refused: "\<exists>e. stream_range (Suc stop) stop expected ans = ([], Some e)"
proof (cases ans)
  case (Answer status cr enc chunks e)
  have "\<not> valid_range_headers (Suc stop) stop expected status cr enc"
    using content_range_ok [of cr] by (auto simp: valid_range_headers_def range_ok_def split: option.splits)
  with Answer show ?thesis by (simp add: stream_range_def)
qed (simp add: stream_range_def)

text \<open>
  A segment whose stream breaks after its last byte is lost: every byte is written, but the retry asks for the empty
  range past the end, which no response satisfies, so the segment never ends well, whatever the server answers.
\<close>

theorem complete_segment_never_resumes:
  "fst (fetch_from answers expected stop k (Suc stop)) \<noteq> None"
proof (induction "SEGMENT_MAX_RETRIES - k" arbitrary: k)
  case 0
  then show ?case using empty_range_refused [of stop expected "answers k (Suc stop)"]
    by (subst fetch_from.simps) (auto simp: Let_def)
next
  case (Suc n)
  then have "fst (fetch_from answers expected stop (Suc k) (Suc stop)) \<noteq> None" by simp
  then show ?case using empty_range_refused [of stop expected "answers k (Suc stop)"]
    by (subst fetch_from.simps) (auto simp: Let_def case_prod_beta)
qed

section \<open>A pull and its outcome\<close>

lemmas outcome_defs = outcome_ok_def outcome_mismatch_def transport_error_def

lemma pull_segmented_measured:
  "pull_segmented sha schedule raised answers expected n = Inr (h, sz, f) \<Longrightarrow> h = sha f \<and> sz = int (length f)"
  by (auto elim: pull_segmented_ok)

lemma pull_single_measured: "pull_single sha ans = Inr (h, sz, f) \<Longrightarrow> h = sha f \<and> sz = int (length f)"
  by (auto simp: pull_single_def Let_def split: answer.splits if_split_asm option.splits)

lemma pull_object_measured: "pull_object cfg sha nw b n = Inr (h, sz, f) \<Longrightarrow> h = sha f \<and> sz = int (length f)"
  by (auto simp: pull_object_def split: if_split_asm sum.splits dest: pull_segmented_measured pull_single_measured)

lemma pull_with_trust_retry_measured:
  "pull_with_trust_retry cfg sha nw n = Inr (h, sz, f) \<Longrightarrow> h = sha f \<and> sz = int (length f)"
  by (auto simp: pull_with_trust_retry_def split: if_split_asm sum.splits option.splits dest: pull_object_measured)

lemma pull_one_sound:
  assumes "pull_one cfg sha nw it st = (out, st')"
  shows "(if po_success out then
      (\<exists>f. st' (pi_key it) = Some f \<and> sha f = pi_sha256 it \<and> int (length f) = pi_size it)
        \<and> po_pulled_bytes out = pi_size it
        \<and> ack_outcome rid it out
          = \<lparr>ak_receiver_id = rid, ak_object_id = pi_object it, ak_sha256 = pi_sha256 it, ak_success = True, ak_error = None\<rparr>
    else po_pulled_bytes out = 0 \<and> (st' = st \<or> st' (pi_key it) = None))
    \<and> (\<forall>k. k \<noteq> pi_key it \<longrightarrow> st' k = st k)"
proof (cases "pull_with_trust_retry cfg sha nw (pi_size it)")
  case (Inl e)
  with assms show ?thesis by (auto simp: pull_one_def outcome_defs)
next
  case (Inr r)
  obtain h n f where "r = (h, n, f)" by (cases r)
  with Inr assms pull_with_trust_retry_measured [of cfg sha nw "pi_size it" h n f] show ?thesis
    by (auto simp: pull_one_def ack_outcome_def outcome_defs split: if_split_asm)
qed

text \<open>
  The acknowledgement of a pull tells the truth. A pull is reported as a success exactly when the file
  left under the object's key has the digest and the size the orchestrator announced, with that digest in the
  report and its size counted; a failed pull counts no byte, and leaves the storage untouched or no file under the
  key. No other file changes.
\<close>

theorem pull_outcome_sound:
  assumes "pull_one cfg sha nw it st = (out, st')"
  shows "(if po_success out then
      (\<exists>f. st' (pi_key it) = Some f \<and> sha f = pi_sha256 it \<and> int (length f) = pi_size it)
        \<and> po_pulled_bytes out = pi_size it
        \<and> ack_outcome rid it out
          = \<lparr>ak_receiver_id = rid, ak_object_id = pi_object it, ak_sha256 = pi_sha256 it, ak_success = True, ak_error = None\<rparr>
    else po_pulled_bytes out = 0 \<and> (st' = st \<or> st' (pi_key it) = None))
    \<and> (\<forall>k. k \<noteq> pi_key it \<longrightarrow> st' k = st k)"
  by (rule pull_one_sound [OF assms])

section \<open>The queue never blocks\<close>

definition loop_ok :: "agent_settings \<Rightarrow> pull_loop \<Rightarrow> bool" where
  "loop_ok cfg p \<longleftrightarrow>
     distinct (map pi_object (pl_queue p @ pl_busy p))
     \<and> pl_inflight p = pi_object ` set (pl_queue p @ pl_busy p)
     \<and> length (pl_queue p @ pl_busy p) \<le> queue_maxsize cfg
     \<and> length (pl_busy p) \<le> as_concurrent_pulls cfg
     \<and> (case pl_asked p of None \<Rightarrow> True | Some n \<Rightarrow> int (length (pl_queue p @ pl_busy p)) + n \<le> int (queue_maxsize cfg))"

lemma loop_ok_free:
  assumes "loop_ok cfg p"
  shows "free_slots cfg p = int (queue_maxsize cfg) - int (length (pl_queue p @ pl_busy p))"
  using assms distinct_card [of "map pi_object (pl_queue p @ pl_busy p)"]
  by (simp add: loop_ok_def free_slots_def image_Un)

lemma ask_ok: "loop_ok cfg p \<Longrightarrow> loop_ok cfg (ask cfg p)"
  using loop_ok_free [of cfg p] by (auto simp: ask_def loop_ok_def)

lemma produce_ok:
  assumes "loop_ok cfg p" and "pl_asked p = Some n" and "int (length items) \<le> n" and "distinct (map pi_object items)"
  shows "loop_ok cfg (produce items p)"
proof -
  define new where "new = filter (\<lambda>it. pi_object it \<notin> pl_inflight p) items"
  have p: "produce items p = p\<lparr>pl_asked := None, pl_inflight := pl_inflight p \<union> pi_object ` set new, pl_queue := pl_queue p @ new\<rparr>"
    by (simp add: produce_def new_def Let_def)
  have "length new \<le> length items" by (simp add: new_def)
  moreover have "int (length (pl_queue p @ pl_busy p)) + n \<le> int (queue_maxsize cfg)"
    using assms(1, 2) by (simp add: loop_ok_def)
  ultimately have "length (pl_queue p @ new @ pl_busy p) \<le> queue_maxsize cfg" using assms(3) by simp
  moreover have "distinct (map pi_object new)" using assms(4) by (simp add: new_def distinct_map_filter)
  moreover have "pi_object ` set new \<inter> pl_inflight p = {}" by (auto simp: new_def)
  ultimately show ?thesis using assms(1) unfolding p by (simp add: loop_ok_def) blast
qed

lemma finish_ok:
  assumes "loop_ok cfg p" and "it \<in> set (pl_busy p)"
  shows "loop_ok cfg (finish_item it p)"
proof -
  obtain xs ys where b: "pl_busy p = xs @ it # ys" "it \<notin> set xs"
    using split_list_first [OF assms(2)] by blast
  have "pl_inflight p - {pi_object it} = pi_object ` set (pl_queue p @ xs @ ys)"
    using assms(1) b by (simp add: loop_ok_def) blast
  with assms(1) b show ?thesis
    by (simp add: loop_ok_def finish_item_def remove1_append split: option.splits)
qed

interpretation pulls: invariant_system idle_loop "pull_step cfg" "loop_ok cfg" for cfg
proof unfold_locales
  fix p assume "idle_loop p"
  then show "loop_ok cfg p" by (simp add: idle_loop_def loop_ok_def)
next
  fix p q assume ok: "loop_ok cfg p" and "pull_step cfg p q"
  from this(2) show "loop_ok cfg q"
  proof cases
    case pull_ask
    with ok show ?thesis by (simp add: ask_ok)
  next
    case (pull_answer n items)
    with ok show ?thesis by (auto intro: produce_ok)
  next
    case pull_failure
    with ok show ?thesis by (simp add: pull_failed_def loop_ok_def)
  next
    case pull_take
    with ok show ?thesis by (auto simp: take_item_def loop_ok_def split: list.splits option.splits)
  next
    case (pull_finish it)
    with ok show ?thesis by (auto intro: finish_ok)
  next
    case pull_drain
    with ok show ?thesis by (auto simp: start_drain_def loop_ok_def split: option.splits)
  qed
qed

text \<open>
  C20: The producer never claims more than the workers can hold: in every reachable state of the pull loop each claimed object
  is queued or being pulled exactly once, the claimed objects fit the queue's capacity (so putting
  a claimed object never blocks), no more pulls run than configured, and a request under way asks for no more than
  the room that is left.
\<close>

theorem pull_queue_bounded:
  assumes "reach idle_loop (pull_step cfg) p"
  shows "distinct (map pi_object (pl_queue p @ pl_busy p))
    \<and> pl_inflight p = pi_object ` set (pl_queue p @ pl_busy p)
    \<and> length (pl_queue p @ pl_busy p) \<le> queue_maxsize cfg
    \<and> length (pl_busy p) \<le> as_concurrent_pulls cfg
    \<and> (case pl_asked p of None \<Rightarrow> True | Some n \<Rightarrow> int (length (pl_queue p @ pl_busy p)) + n \<le> int (queue_maxsize cfg))"
  using pulls.reachable_inv [OF assms] unfolding loop_ok_def .

section \<open>Examples\<close>

text \<open>Four bytes in two segments: each first request breaks after one byte, the retry brings the rest.\<close>

definition demo_object :: "byte list" where
  "demo_object = [1, 2, 3, 4]"

definition demo_answers :: "int \<Rightarrow> nat \<Rightarrow> nat \<Rightarrow> answer" where
  "demo_answers a k pos =
     (let stop = (if a = 0 then 1 else 3)
      in if pos > stop then NoAnswer OtherError
         else Answer 206 (format_content_range \<lparr>cr_start = pos, cr_end = stop, cr_total = Some 4\<rparr>) ''identity''
           [take 1 (drop pos demo_object)] (if k = 0 then Some RequestError else None))"





definition demo_settings :: agent_settings where
  "demo_settings = \<lparr>as_receiver_id = ''r'', as_pull_segments = 2, as_pull_segment_min_bytes = 4, as_tls_verify = True,
     as_tls_trust_orch = True, as_concurrent_pulls = 1\<rparr>"

text \<open>The certificate of the worker is not trusted before a refresh of the trust store.\<close>

definition demo_network :: network where
  "demo_network = \<lparr>nw_ranged = (\<lambda>refreshed a k pos. if refreshed then demo_answers a k pos else NoAnswer CertVerifyError),
     nw_plain = (\<lambda>refreshed. NoAnswer OtherError), nw_schedule = concat, nw_raised = hd, nw_refresh = None,
     nw_describe = (\<lambda>e. ''error'')\<rparr>"

definition demo_item :: pull_item where
  "demo_item = \<lparr>pi_granule = ''b:g'', pi_batch = ''b'', pi_object = 7, pi_key = ''k'', pi_url = ''u'',
     pi_sha256 = ''4'', pi_size = 4\<rparr>"

definition demo_success :: pull_outcome where
  "demo_success = outcome_ok ''4'' 4"

lemma demo_pull_one:
  "pull_one demo_settings (\<lambda>f. show_nat (length f)) demo_network demo_item (\<lambda>_. None)
     = (demo_success, (\<lambda>_. None)(''k'' \<mapsto> demo_object))"
proof -
  have "pull_with_trust_retry demo_settings (\<lambda>f. show_nat (length f)) demo_network (pi_size demo_item)
      = Inr (''4'', 4, demo_object)"
    by code_simp
  then show ?thesis by (simp add: pull_one_def demo_item_def demo_success_def)
qed

theorem pull_outcome_sound_witness:
  "po_success demo_success \<and> po_pulled_bytes demo_success = pi_size demo_item
     \<and> ack_outcome ''r'' demo_item demo_success
         = \<lparr>ak_receiver_id = ''r'', ak_object_id = 7, ak_sha256 = ''4'', ak_success = True, ak_error = None\<rparr>"
  using pull_outcome_sound [OF demo_pull_one] by (simp add: demo_success_def demo_item_def outcome_ok_def)

definition demo_idle :: pull_loop where
  "demo_idle = \<lparr>pl_queue = [], pl_busy = [], pl_inflight = {}, pl_asked = None, pl_draining = False\<rparr>"

lemma demo_reach: "reach idle_loop (pull_step demo_settings) (produce [demo_item] (ask demo_settings demo_idle))"
proof (rule reach_step)
  have "reach idle_loop (pull_step demo_settings) demo_idle"
    by (rule reach_init) (simp add: idle_loop_def demo_idle_def)
  then show "reach idle_loop (pull_step demo_settings) (ask demo_settings demo_idle)"
    by (rule reach_step) (rule pull_ask)
  show "pull_step demo_settings (ask demo_settings demo_idle) (produce [demo_item] (ask demo_settings demo_idle))"
    by (rule pull_answer [of _ 2])
      (simp_all add: ask_def free_slots_def queue_maxsize_def demo_settings_def demo_idle_def)
qed

text \<open>One pull at a time: after an answer with one object, that object is being pulled and the next request asks for one.\<close>

definition demo_pulling :: pull_loop where
  "demo_pulling = ask demo_settings (take_item (produce [demo_item] (ask demo_settings demo_idle)))"

lemma demo_pulling_reach: "reach idle_loop (pull_step demo_settings) demo_pulling"
  unfolding demo_pulling_def
proof (rule reach_step [OF reach_step [OF demo_reach]])
  let ?p = "produce [demo_item] (ask demo_settings demo_idle)"
  show "pull_step demo_settings ?p (take_item ?p)"
    by (rule pull_take) (simp add: produce_def ask_def demo_idle_def demo_settings_def)
qed (rule pull_ask)

theorem pull_queue_bounded_witness:
  "reach idle_loop (pull_step demo_settings) demo_pulling
   \<and> pl_busy demo_pulling = [demo_item] \<and> pl_queue demo_pulling = [] \<and> pl_inflight demo_pulling = {7}
   \<and> pl_asked demo_pulling = Some 1
   \<and> int (length (pl_queue demo_pulling @ pl_busy demo_pulling)) + 1 \<le> int (queue_maxsize demo_settings)"
proof -
  have s: "pl_busy demo_pulling = [demo_item]" "pl_queue demo_pulling = []" "pl_asked demo_pulling = Some 1"
    by (simp_all add: demo_pulling_def take_item_def produce_def ask_def free_slots_def queue_maxsize_def
        demo_settings_def demo_idle_def Let_def)
  from pull_queue_bounded [OF demo_pulling_reach] have
    "pl_inflight demo_pulling = pi_object ` set (pl_queue demo_pulling @ pl_busy demo_pulling)"
    and "int (length (pl_queue demo_pulling @ pl_busy demo_pulling)) + 1 \<le> int (queue_maxsize demo_settings)"
    by (auto simp: s)
  with s demo_pulling_reach show ?thesis by (simp add: demo_item_def)
qed

end
