(* ===== verification/Delivery.thy ===== *)
theory Delivery
  imports ReceiverAgent
begin

text \<open>
  The delivery of an object from end to end: the orchestrator's pull (\<^verbatim>\<open>orchestrator/api/receivers.py\<close>) offers it, the
  agent (\<^verbatim>\<open>receiver/runtime.py\<close>) fetches it and reports, and the orchestrator books the report.
\<close>

section \<open>What a pull promises the agent\<close>

lemma pull_items:
  assumes "pull cfg now rid limit d = Inr (items, d1)"
  shows "items = map (pull_item_of d1) (filter (\<lambda>x. ob_id x \<in> set (pull_ids cfg now rid limit d)) (objects d1))"
proof -
  have up: "objects d1 = upd_where (\<lambda>x. ob_id x \<in> set (pull_ids cfg now rid limit d))
      (claim_object rid (now + seconds (pull_lease_sec cfg))) (objects d)"
    by (rule pull_rows(1) [OF assms])
  show ?thesis
    using assms pull_rows(3) [OF assms] unfolding up
    by (auto simp: pull_def Let_def pull_item_of_def get_granule_def split: option.splits if_split_asm)
qed

lemma pulled_row:
  assumes "distinct (map ob_id (objects d))" and "pull cfg now rid limit d = Inr (items, d1)" and "it \<in> set items"
  obtains x g where "get_object (pi_object it) d1 = Some x" and "object_is_pending x"
    and "ob_sha256 x = pi_sha256 it" and "ob_size x = pi_size it" and "ob_key x = pi_key it"
    and "get_granule (ob_granule x) d1 = Some g" and "gr_state g = UPLOADED"
proof -
  let ?ids = "pull_ids cfg now rid limit d"
  note rows = pull_rows [OF assms(2)]
  obtain x where x: "x \<in> set (objects d1)" "ob_id x \<in> set ?ids" "it = pull_item_of d1 x"
    using assms(3) unfolding pull_items [OF assms(2)] by auto
  obtain y where y: "y \<in> set (objects d)" "ob_id y \<in> set ?ids" "x = claim_object rid (now + seconds (pull_lease_sec cfg)) y"
    using x(1, 2) unfolding rows(1) by (auto elim!: in_upd_whereE simp: claim_object_def)
  have cand: "pull_candidate cfg now rid d y" by (rule pull_ids_sound [OF assms(1) y(1, 2)])
  then obtain g where g: "get_granule (ob_granule y) d = Some g" "gr_state g = UPLOADED"
    by (auto simp: pull_candidate_def split: option.splits)
  have dist: "distinct (map ob_id (objects d1))"
    unfolding rows(1) using assms(1) by (subst map_upd_where) (simp_all add: claim_object_def)
  show ?thesis
  proof (rule that)
    show "get_object (pi_object it) d1 = Some x"
      using x get_row_unique [OF dist x(1)] by (simp add: pull_item_of_def get_object_def)
    show "object_is_pending x"
      using cand y(3) by (simp add: pull_candidate_def object_pull_claimable_def object_is_pullable_def object_is_pending_def claim_object_def)
    show "get_granule (ob_granule x) d1 = Some g"
      using g(1) y(3) rows(3) by (simp add: claim_object_def get_granule_def)
  qed (use g(2) x(3) in \<open>simp_all add: pull_item_of_def\<close>)
qed

text \<open>The answer of the orchestrator meets the contract under which the agent's queue never blocks.\<close>

lemma pull_answer_fits:
  assumes "distinct (map ob_id (objects d))" and "pull cfg now rid limit d = Inr (items, d1)" and "0 \<le> limit"
  shows "int (length items) \<le> limit \<and> distinct (map pi_object items)"
proof -
  let ?ids = "pull_ids cfg now rid limit d"
  have dist: "distinct (map ob_id (objects d1))"
    unfolding pull_rows(1) [OF assms(2)] using assms(1) by (subst map_upd_where) (simp_all add: claim_object_def)
  have "map pi_object items = map ob_id (filter (\<lambda>x. ob_id x \<in> set ?ids) (objects d1))"
    unfolding pull_items [OF assms(2)] by (simp add: pull_item_of_def)
  with dist have d: "distinct (map pi_object items)" by (simp add: distinct_map_filter)
  have "length (map pi_object items) = card (set ?ids)"
    using distinct_card [OF d] pull_rows(2) [OF assms(2)] by simp
  also have "card (set ?ids) \<le> length ?ids" by (rule card_length)
  also have "length ?ids \<le> nat limit" using assms(3) by (simp add: pull_ids_def limit_rows_def)
  finally show ?thesis using d assms(3) by simp
qed

section \<open>From the offer to the receipt\<close>

text \<open>
  C18: Delivery end to end. Every object a pull offers can be acknowledged with the report of its
  download. If the download succeeded, the agent's file has the digest the orchestrator recorded, and the
  report makes the object confirmed with a receipt in the ledger; if it failed, nothing is confirmed, one failure is
  counted, and below the cap the object is free again for any receiver.
\<close>

theorem delivery_end_to_end:
  assumes "inj_digest dg" and "db_inv dg d"
    and "pull cfg now rid limit d = Inr (items, d1)" and "it \<in> set items"
    and "pull_one agent sha nw it st = (out, st')"
  shows "if po_success out then
      \<exists>f d2. st' (pi_key it) = Some f \<and> sha f = pi_sha256 it \<and> int (length f) = pi_size it
        \<and> ack cfg dg later (ack_outcome rid it out) d1 = Inr (None, d2)
        \<and> (\<exists>y \<in> set (objects d2). ob_id y = pi_object it \<and> ob_sha256 y = sha f \<and> ob_acked_at y \<noteq> None \<and> has_delivery_record d2 y)
    else
      \<exists>d2 n y. ack cfg dg later (ack_outcome rid it out) d1 = Inr (Some (n < max_pull_failures cfg, Some n), d2)
        \<and> y \<in> set (objects d2) \<and> ob_id y = pi_object it \<and> ob_acked_at y = None \<and> ob_failed_pulls y = Some n
        \<and> (n < max_pull_failures cfg \<longrightarrow> (\<forall>t. object_pull_claimable cfg t y))
        \<and> deliveries d2 = deliveries d1"
proof -
  have dist: "distinct (map ob_id (objects d))" using assms(2) by (simp add: db_inv_def keys_ok_def)
  have inv: "db_inv dg d1" by (rule pull_inv [OF assms(2, 3)])
  then have dist1: "distinct (map ob_id (objects d1))" by (simp add: db_inv_def keys_ok_def)
  obtain x g where x: "get_object (pi_object it) d1 = Some x" "object_is_pending x" "ob_sha256 x = pi_sha256 it"
      and g: "get_granule (ob_granule x) d1 = Some g" "gr_state g = UPLOADED"
    using pulled_row [OF dist assms(3, 4)] by metis
  let ?req = "ack_outcome rid it out"
  have req: "ak_object_id ?req = pi_object it" "ak_success ?req = po_success out" "ak_sha256 ?req = po_sha out"
    by (simp_all add: ack_outcome_def)
  note out = pull_one_sound [OF assms(5)]
  show ?thesis
  proof (cases "po_success out")
    case True
    with out obtain f where f: "st' (pi_key it) = Some f" "sha f = pi_sha256 it" "int (length f) = pi_size it" "po_sha out = pi_sha256 it"
      by (auto simp: ack_outcome_def)
    have "get_object (ak_object_id ?req) d1 = Some x" "ak_success ?req" "ak_sha256 ?req = ob_sha256 x"
      using x(1, 3) f(4) True by (simp_all add: req)
    from ack_confirms [OF assms(1) inv this g, of cfg later]
    obtain d2 where "ack cfg dg later ?req d1 = Inr (None, d2)"
      and "\<forall>y \<in> set (objects d2). ob_id y = ob_id x \<longrightarrow> ob_acked_at y \<noteq> None \<and> has_delivery_record d2 y"
      and "\<exists>y \<in> set (objects d2). ob_id y = ob_id x \<and> ob_sha256 y = ob_sha256 x"
      by blast
    moreover have "ob_id x = pi_object it" using get_object_id [OF x(1)] by simp
    ultimately show ?thesis unfolding if_P [OF True] using f x(3)
      by (intro exI [of _ f] exI [of _ d2]) auto
  next
    case False
    have "get_object (ak_object_id ?req) d1 = Some x" "\<not> ak_success ?req" using x(1) False by (simp_all add: req)
    from ack_counts_failure [OF dist1 this(1) x(2) this(2), of cfg dg later]
    obtain d2 y n where run: "ack cfg dg later ?req d1 = Inr (Some (n < max_pull_failures cfg, Some n), d2)"
      and y: "y = x\<lparr>ob_failed_pulls := Some n, ob_pull_lease_by := None, ob_pull_lease_expires_at := None\<rparr>"
      and objs: "objects d2 = map (\<lambda>z. if ob_id z = ob_id x then y else z) (objects d1)"
      and frame: "deliveries d2 = deliveries d1"
      and free: "if n < max_pull_failures cfg then \<forall>t. object_pull_claimable cfg t y else object_is_exhausted cfg y"
      by blast
    have "ob_id x = pi_object it" "x \<in> set (objects d1)" using get_object_id [OF x(1)] by simp_all
    moreover from this have "y \<in> set (objects d2)" unfolding objs by force
    moreover have "ob_id y = ob_id x" "ob_acked_at y = None" "ob_failed_pulls y = Some n"
      using x(2) by (simp_all add: y object_is_pending_def)
    ultimately show ?thesis unfolding if_not_P [OF False] using run frame free
      by (intro exI [of _ d2] exI [of _ n] exI [of _ y]) simp
  qed
qed

text \<open>Five bytes, fetched whole.\<close>

definition plain_network :: network where
  "plain_network = \<lparr>nw_ranged = (\<lambda>b a k pos. NoAnswer OtherError),
     nw_plain = (\<lambda>b. Answer 200 [] [] [[1, 2], [3, 4, 5]] None), nw_schedule = concat, nw_raised = hd, nw_refresh = None,
     nw_describe = (\<lambda>e. ''error'')\<rparr>"

definition offered_item :: pull_item where
  "offered_item = pull_item_of sample_uploaded (sample_object None)"

lemma offered: "\<exists>d1. pull sample_settings 9 ''r'' 5 sample_uploaded = Inr ([offered_item], d1)"
  by (simp add: pull_def pull_ids_def pull_candidate_def Let_def delivery_defs offered_item_def pull_item_of_def
      claim_object_def limit_rows_def get_receiver_def object_pull_claimable_def object_is_pullable_def object_is_pending_def)

definition plain_settings :: agent_settings where
  "plain_settings = demo_settings\<lparr>as_pull_segments := 1\<rparr>"

lemma fetched:
  "pull_one plain_settings (\<lambda>f. ''00'') plain_network offered_item (\<lambda>_. None)
     = (outcome_ok ''00'' 5, (\<lambda>_. None)(pi_key offered_item \<mapsto> [1, 2, 3, 4, 5]))"
  by (simp add: pull_one_def pull_with_trust_retry_def pull_object_def pull_single_def plain_network_def plain_settings_def
      demo_settings_def offered_item_def pull_item_of_def delivery_defs is_success_def Let_def)

theorem delivery_end_to_end_witness:
  "\<exists>d1 d2. pull sample_settings 9 ''r'' 5 sample_uploaded = Inr ([offered_item], d1)
     \<and> ack sample_settings sample_digest 10 (ack_outcome ''r'' offered_item (outcome_ok ''00'' 5)) d1 = Inr (None, d2)"
proof -
  obtain d1 where d1: "pull sample_settings 9 ''r'' 5 sample_uploaded = Inr ([offered_item], d1)" using offered by blast
  have "offered_item \<in> set [offered_item]" by simp
  from delivery_end_to_end [OF sample_digest_inj sample_uploaded_inv d1 this fetched, where later = 10] d1
  show ?thesis by (auto simp: outcome_ok_def)
qed

end
