(* ===== verification/WorkerHandler.thy ===== *)
theory WorkerHandler
  imports Lifecycle Leases Wire FlushBuffer Float64
begin

text \<open>
  The data plane of a worker: the counters of the pipeline stages (\<^verbatim>\<open>src/sathop/worker/stages.py\<close>), the journey
  of one leased granule and the events it reports (\<^verbatim>\<open>worker/handler.py\<close>, \<^verbatim>\<open>worker/runtime_helpers.py\<close>). Transfers,
  subprocesses and storage are parameters that return a result, raise, or are cancelled. What the events achieve is in
  \<open>WorkerReport\<close>.
\<close>

section \<open>Stages\<close>

datatype stage_name = PENDING_DOWNLOAD | STAGE_DOWNLOADING | PENDING_PROCESSING | STAGE_PROCESSING
  | PENDING_UPLOAD | STAGE_UPLOADING

definition STAGE_NAMES :: "stage_name list" where
  "STAGE_NAMES = [PENDING_DOWNLOAD, STAGE_DOWNLOADING, PENDING_PROCESSING, STAGE_PROCESSING, PENDING_UPLOAD, STAGE_UPLOADING]"

text \<open>A \<^verbatim>\<open>Counter\<close>: a missing key counts zero, so deleting a key sets it to zero.\<close>

type_synonym worker_stages = "stage_name \<Rightarrow> int"

definition stages_enter :: "stage_name \<Rightarrow> worker_stages \<Rightarrow> worker_stages" where
  "stages_enter st c = c(st := c st + 1)"

definition stages_exit :: "stage_name \<Rightarrow> worker_stages \<Rightarrow> worker_stages" where
  "stages_exit st c = (if c st - 1 \<le> 0 then c(st := 0) else c(st := c st - 1))"

definition snapshot_total :: "worker_stages \<Rightarrow> int" where
  "snapshot_total c = sum_list (map c STAGE_NAMES)"

text \<open>A tracker holds at most one stage; its operations also move the shared counters.\<close>

definition tracker_exit :: "stage_name option \<times> worker_stages \<Rightarrow> stage_name option \<times> worker_stages" where
  "tracker_exit s = (case fst s of None \<Rightarrow> s | Some st \<Rightarrow> (None, stages_exit st (snd s)))"

definition tracker_enter :: "stage_name \<Rightarrow> stage_name option \<times> worker_stages \<Rightarrow> stage_name option \<times> worker_stages" where
  "tracker_enter st s = (Some st, stages_enter st (snd (tracker_exit s)))"

datatype stage_op = Enter stage_name | Exit

fun stage_op_step :: "stage_op \<Rightarrow> stage_name option \<times> worker_stages \<Rightarrow> stage_name option \<times> worker_stages" where
  "stage_op_step (Enter st) s = tracker_enter st s"
| "stage_op_step Exit s = tracker_exit s"

text \<open>All trackers of a worker, one per handler, on the shared counters.\<close>

record stage_board =
  sb_counts :: worker_stages
  sb_trackers :: "stage_name option list"

inductive board_step :: "stage_board \<Rightarrow> stage_board \<Rightarrow> bool" where
  board_tracker: "board_step b (b\<lparr>sb_trackers := sb_trackers b @ [None]\<rparr>)"
| board_op: "i < length (sb_trackers b) \<Longrightarrow> stage_op_step p (sb_trackers b ! i, sb_counts b) = (cur, counts) \<Longrightarrow>
     board_step b (b\<lparr>sb_trackers := (sb_trackers b)[i := cur], sb_counts := counts\<rparr>)"

definition empty_board :: "stage_board \<Rightarrow> bool" where
  "empty_board b \<longleftrightarrow> b = \<lparr>sb_counts = (\<lambda>_. 0), sb_trackers = []\<rparr>"

definition board_ok :: "stage_board \<Rightarrow> bool" where
  "board_ok b \<longleftrightarrow> (\<forall>st. sb_counts b st = int (count_list (sb_trackers b) (Some st)))"

lemma count_list_update:
  assumes "i < length xs"
  shows "int (count_list (xs[i := y]) x) =
    int (count_list xs x) - (if xs ! i = x then 1 else 0) + (if y = x then 1 else 0)"
proof -
  have "count_list xs x = count_list (take i xs @ xs ! i # drop (Suc i) xs) x"
    using id_take_nth_drop [OF assms] by simp
  with upd_conv_take_nth_drop [OF assms, of y] show ?thesis by simp
qed

lemma count_list_pos: "x \<in> set xs \<Longrightarrow> 0 < count_list xs x"
  by (simp add: count_list_0_iff neq0_conv [symmetric])

lemma board_op_ok:
  assumes "board_ok b" and "i < length (sb_trackers b)"
    and "stage_op_step p (sb_trackers b ! i, sb_counts b) = (cur, counts)"
  shows "board_ok (b\<lparr>sb_trackers := (sb_trackers b)[i := cur], sb_counts := counts\<rparr>)"
proof -
  have mem: "sb_trackers b ! i \<in> set (sb_trackers b)" using assms(2) by simp
  have counts: "sb_counts b st = int (count_list (sb_trackers b) (Some st))" for st
    using assms(1) by (simp add: board_ok_def)
  show ?thesis
  proof (cases "sb_trackers b ! i")
    case None
    with assms(2, 3) counts show ?thesis
      by (cases p) (auto simp: board_ok_def tracker_enter_def tracker_exit_def stages_enter_def count_list_update split: if_split_asm)
  next
    case (Some st)
    with mem have "1 \<le> sb_counts b st" using count_list_pos [of "Some st" "sb_trackers b"] by (simp add: counts)
    then have ex: "stages_exit st (sb_counts b) = (sb_counts b)(st := sb_counts b st - 1)"
      by (auto simp: stages_exit_def)
    show ?thesis
    proof (cases p)
      case (Enter x)
      with Some assms(2, 3) ex counts show ?thesis
        by (cases "x = st") (auto simp: board_ok_def tracker_enter_def tracker_exit_def stages_enter_def count_list_update split: if_split_asm)
    next
      case Exit
      then have "cur = None" "counts = (sb_counts b)(st := sb_counts b st - 1)"
        using Some assms(3) ex by (simp_all add: tracker_exit_def)
      with Some assms(2) counts show ?thesis by (simp add: board_ok_def count_list_update)
    qed
  qed
qed

interpretation board: invariant_system empty_board board_step board_ok
proof unfold_locales
  fix b assume "empty_board b"
  then show "board_ok b" by (simp add: empty_board_def board_ok_def)
next
  fix b b' assume ok: "board_ok b" and "board_step b b'"
  from this(2) show "board_ok b'"
  proof cases
    case board_tracker
    with ok show ?thesis by (simp add: board_ok_def)
  next
    case (board_op i p cur counts)
    with ok show ?thesis using board_op_ok by blast
  qed
qed

lemma trackers_total:
  "(\<Sum>st\<leftarrow>STAGE_NAMES. int (count_list cs (Some st))) = int (length (filter (\<lambda>c. c \<noteq> None) cs))"
proof (induction cs)
  case (Cons c cs)
  show ?case
  proof (cases c)
    case (Some st)
    with Cons.IH show ?thesis by (cases st) (simp_all add: STAGE_NAMES_def)
  qed (use Cons.IH in simp)
qed (simp add: STAGE_NAMES_def)

lemma snapshot_total_trackers:
  assumes "board_ok b"
  shows "snapshot_total (sb_counts b) = int (length (filter (\<lambda>c. c \<noteq> None) (sb_trackers b)))"
proof -
  have "sb_counts b = (\<lambda>st. int (count_list (sb_trackers b) (Some st)))" using assms by (auto simp: board_ok_def)
  then show ?thesis by (simp only: snapshot_total_def trackers_total)
qed

text \<open>
  The queue counters a worker reports are exact: whatever the interleaving of its handlers, each counter is the
  number of granules now in that stage (so it is never negative), and their total is the number of
  granules in some stage.
\<close>

theorem stage_counters_exact:
  assumes "reach empty_board board_step b"
  shows "sb_counts b st = int (count_list (sb_trackers b) (Some st))
    \<and> snapshot_total (sb_counts b) = int (length (filter (\<lambda>c. c \<noteq> None) (sb_trackers b)))"
proof -
  have ok: "board_ok b" using assms by (rule board.reachable_inv)
  then show ?thesis using snapshot_total_trackers [OF ok] by (simp add: board_ok_def)
qed

text \<open>Two handlers; the second one is downloading.\<close>

theorem stage_counters_exact_witness:
  "snapshot_total ((\<lambda>_. 0)(STAGE_DOWNLOADING := 1)) = 1"
proof -
  let ?b = "\<lambda>c cs. \<lparr>sb_counts = c, sb_trackers = cs\<rparr>"
  let ?one = "(\<lambda>_. 0)(STAGE_DOWNLOADING := 1) :: worker_stages"
  have "reach empty_board board_step (?b (\<lambda>_. 0) [])" by (rule reach_init) (simp add: empty_board_def)
  moreover have "board_step (?b (\<lambda>_. 0) []) (?b (\<lambda>_. 0) [None])" using board_tracker [of "?b (\<lambda>_. 0) []"] by simp
  moreover have "board_step (?b (\<lambda>_. 0) [None]) (?b (\<lambda>_. 0) [None, None])" using board_tracker [of "?b (\<lambda>_. 0) [None]"] by simp
  moreover have "board_step (?b (\<lambda>_. 0) [None, None]) (?b ?one [None, Some STAGE_DOWNLOADING])"
    using board_op [of 1 "?b (\<lambda>_. 0) [None, None]" "Enter STAGE_DOWNLOADING" "Some STAGE_DOWNLOADING" ?one]
    by (simp add: tracker_enter_def tracker_exit_def stages_enter_def)
  ultimately have "reach empty_board board_step (?b ?one [None, Some STAGE_DOWNLOADING])" by (blast intro: reach_step)
  from stage_counters_exact [OF this] show ?thesis by simp
qed

section \<open>What a handler reports of a failure\<close>

definition PROCESSING_FAILURE_TAIL_CHARS :: nat where
  "PROCESSING_FAILURE_TAIL_CHARS = 2000"

definition WORKER_TRACEBACK_TAIL_CHARS :: nat where
  "WORKER_TRACEBACK_TAIL_CHARS = 1500"

definition PROCESS_OUTPUT_TAIL_CHARS :: nat where
  "PROCESS_OUTPUT_TAIL_CHARS = 16000"

text \<open>\<^verbatim>\<open>s[-n:]\<close> for a positive \<open>n\<close>.\<close>

definition tail :: "nat \<Rightarrow> string \<Rightarrow> string" where
  "tail n s = drop (length s - n) s"

definition processing_failure_message :: "string \<Rightarrow> string" where
  "processing_failure_message text = tail PROCESSING_FAILURE_TAIL_CHARS (if text = [] then ''no output'' else text)"

definition tail_or_none :: "string \<Rightarrow> nat \<Rightarrow> string option" where
  "tail_or_none value n = (if value = [] then None else Some (if length value \<le> n then value else tail n value))"

definition auth_for :: "(string \<times> credential) list \<Rightarrow> string option \<Rightarrow> credential option" where
  "auth_for creds nm =
     (case nm of None \<Rightarrow> None | Some n \<Rightarrow> if n = [] then None else map_of creds n)"

record process_result =
  pr_ok :: bool
  pr_outputs :: "string list"
  pr_stdout :: string
  pr_stderr :: string
  pr_exit_code :: int

text \<open>The exceptions of a handler: the two the code raises itself, and those of the parameters, by their type.\<close>

datatype exc =
    ChecksumMismatch string string string
  | UnsafePath value_error
  | OtherExc string

fun exc_type :: "exc \<Rightarrow> string" where
  "exc_type (ChecksumMismatch f e a) = ''ChecksumMismatch''"
| "exc_type (UnsafePath e) = ''ValueError''"
| "exc_type (OtherExc t) = t"

datatype failure = Cancelled | Raised exc

definition processing_failed_from_result :: "ident \<Rightarrow> ident \<Rightarrow> process_result \<Rightarrow> granule_event" where
  "processing_failed_from_result gid wid r =
     ProcessingFailed gid wid (processing_failure_message (pr_stderr r))
       (tail_or_none (pr_stdout r) PROCESS_OUTPUT_TAIL_CHARS)
       (tail_or_none (pr_stderr r) PROCESS_OUTPUT_TAIL_CHARS) (Some (pr_exit_code r))"

text \<open>\<open>str_exc\<close> and \<open>format_exc\<close> render an exception and its traceback.\<close>

definition processing_failed_from_exception ::
  "(exc \<Rightarrow> string) \<Rightarrow> (exc \<Rightarrow> string) \<Rightarrow> ident \<Rightarrow> ident \<Rightarrow> exc \<Rightarrow> granule_event" where
  "processing_failed_from_exception str_exc format_exc gid wid e =
     ProcessingFailed gid wid
       (''worker '' @ exc_type e @ '': '' @ str_exc e @ [CHR 0x0A, CHR 0x0A] @ tail WORKER_TRACEBACK_TAIL_CHARS (format_exc e))
       None None None"

section \<open>A handler and its journal\<close>

text \<open>
  A handler writes a journal, the events it enqueues and the operations on its stage tracker, and ends
  with a result, an exception or a cancellation.
\<close>

record journal =
  jn_events :: "granule_event list"
  jn_stages :: "stage_op list"

type_synonym 'a job = "journal \<times> (failure + 'a)"

definition returns :: "failure + 'a \<Rightarrow> 'a job" where
  "returns r = (\<lparr>jn_events = [], jn_stages = []\<rparr>, r)"

definition emit_event_job :: "granule_event \<Rightarrow> unit job" where
  "emit_event_job e = (\<lparr>jn_events = [e], jn_stages = []\<rparr>, Inr ())"

definition stage_job :: "stage_op \<Rightarrow> unit job" where
  "stage_job p = (\<lparr>jn_events = [], jn_stages = [p]\<rparr>, Inr ())"

definition then_write :: "journal \<Rightarrow> 'b job \<Rightarrow> 'b job" where
  "then_write j job =
     (\<lparr>jn_events = jn_events j @ jn_events (fst job), jn_stages = jn_stages j @ jn_stages (fst job)\<rparr>, snd job)"

definition then_do :: "'a job \<Rightarrow> ('a \<Rightarrow> 'b job) \<Rightarrow> 'b job" where
  "then_do job k = (case snd job of Inl f \<Rightarrow> (fst job, Inl f) | Inr x \<Rightarrow> then_write (fst job) (k x))"

text \<open>\<^verbatim>\<open>try ... finally\<close> with a \<^verbatim>\<open>finally\<close> that does not raise, and \<^verbatim>\<open>except Exception\<close>, which a cancellation passes.\<close>

definition finally_do :: "'a job \<Rightarrow> stage_op list \<Rightarrow> 'a job" where
  "finally_do job ps = (fst job\<lparr>jn_stages := jn_stages (fst job) @ ps\<rparr>, snd job)"

definition catching :: "(exc \<Rightarrow> 'a job) \<Rightarrow> 'a job \<Rightarrow> 'a job" where
  "catching k job =
     (case snd job of Inl (Raised e) \<Rightarrow> then_write (fst job) (k e) | _ \<Rightarrow> job)"

fun for_each_job :: "('x \<Rightarrow> 'a job) \<Rightarrow> 'x list \<Rightarrow> 'a list job" where
  "for_each_job f [] = returns (Inr [])"
| "for_each_job f (x # xs) = then_do (f x) (\<lambda>y. then_do (for_each_job f xs) (\<lambda>ys. returns (Inr (y # ys))))"

definition staged :: "failure + unit \<Rightarrow> stage_name \<Rightarrow> stage_name \<Rightarrow> 'a job \<Rightarrow> 'a job" where
  "staged acquired pending active_stage body =
     finally_do
       (then_do (stage_job (Enter pending)) (\<lambda>_.
          then_do (returns acquired) (\<lambda>_. then_do (stage_job (Enter active_stage)) (\<lambda>_. body))))
       [Exit]"

section \<open>One granule\<close>

text \<open>
  What the environment answers one handler: the creation of its directories, the semaphores, the downloads (with the
  digest of the file), the preparation of the bundle (with its template for object keys), the
  run, the keys and the uploads; the detail mode at the three moments at which it is read; the measured times.
\<close>

record job_env =
  jv_prepare :: "failure + unit"
  jv_acquire :: "stage_name \<Rightarrow> failure + unit"
  jv_fetch :: "string \<Rightarrow> string list \<Rightarrow> credential option \<Rightarrow> failure + string"
  jv_ensure :: "string \<Rightarrow> failure + string"
  jv_run :: "string list list \<Rightarrow> failure + process_result"
  jv_key :: "string \<Rightarrow> string \<Rightarrow> failure + string"
  jv_put :: "string \<Rightarrow> string \<Rightarrow> failure + uploaded_object"
  jv_verbose_download :: bool
  jv_verbose_process :: bool
  jv_verbose_upload :: bool
  jv_download_ms :: int
  jv_process_ms :: int
  jv_str :: "exc \<Rightarrow> string"
  jv_traceback :: "exc \<Rightarrow> string"

definition verify_sha256 :: "string \<Rightarrow> string \<Rightarrow> string \<Rightarrow> failure + unit" where
  "verify_sha256 nm actual expected =
     (if map lower actual \<noteq> map lower expected
      then Inl (Raised (ChecksumMismatch nm (take 16 (map lower expected)) (take 16 actual))) else Inr ())"

definition fetch_input :: "job_env \<Rightarrow> string list \<Rightarrow> (string \<times> credential) list \<Rightarrow> input_spec \<Rightarrow> string list job" where
  "fetch_input env input_dir creds spec =
     (case safe_join input_dir (in_filename spec) of
        Inl e \<Rightarrow> returns (Inl (Raised (UnsafePath e)))
      | Inr dst \<Rightarrow>
          then_do (returns (jv_fetch env (in_url spec) dst (auth_for creds (in_credential spec)))) (\<lambda>digest.
            case in_checksum spec of
              None \<Rightarrow> returns (Inr dst)
            | Some c \<Rightarrow>
                if c = [] then returns (Inr dst)
                else then_do (returns (verify_sha256 (last dst) digest c)) (\<lambda>_. returns (Inr dst))))"

definition download_inputs :: "job_env \<Rightarrow> ident \<Rightarrow> string list \<Rightarrow> lease_item \<Rightarrow> string list list job" where
  "download_inputs env wid input_dir item =
     staged (jv_acquire env STAGE_DOWNLOADING) PENDING_DOWNLOAD STAGE_DOWNLOADING
       (then_do (if jv_verbose_download env then emit_event_job (DownloadStarted (li_granule item) wid) else returns (Inr ()))
          (\<lambda>_. for_each_job (fetch_input env input_dir (li_credentials item)) (li_inputs item)))"

definition process_inputs :: "job_env \<Rightarrow> ident \<Rightarrow> lease_item \<Rightarrow> string list list \<Rightarrow> (string \<times> process_result) job" where
  "process_inputs env wid item paths =
     then_do (returns (jv_ensure env (li_bundle_ref item))) (\<lambda>template.
       then_do
         (staged (jv_acquire env STAGE_PROCESSING) PENDING_PROCESSING STAGE_PROCESSING
            (then_do (if jv_verbose_process env
                      then emit_event_job (ProcessStarted (li_granule item) wid (Some (jv_download_ms env))) else returns (Inr ()))
               (\<lambda>_. returns (jv_run env paths))))
         (\<lambda>result. returns (Inr (template, result))))"

definition store_output :: "job_env \<Rightarrow> string \<Rightarrow> string \<Rightarrow> uploaded_object job" where
  "store_output env template out = then_do (returns (jv_key env template out)) (\<lambda>key. returns (jv_put env out key))"

definition upload_outputs :: "job_env \<Rightarrow> ident \<Rightarrow> lease_item \<Rightarrow> string \<Rightarrow> string list \<Rightarrow> unit job" where
  "upload_outputs env wid item template outputs =
     staged (jv_acquire env STAGE_UPLOADING) PENDING_UPLOAD STAGE_UPLOADING
       (then_do
          (for_each_job (store_output env template) outputs)
          (\<lambda>uploaded. emit_event_job (UploadCompleted (li_granule item) wid uploaded (Some (jv_process_ms env))
             (if jv_verbose_upload env then None else Some (jv_download_ms env)))))"

text \<open>The body of the \<^verbatim>\<open>try\<close> of \<^verbatim>\<open>handle\<close>.\<close>

definition journey :: "job_env \<Rightarrow> ident \<Rightarrow> string list \<Rightarrow> lease_item \<Rightarrow> unit job" where
  "journey env wid dir item =
     then_do (download_inputs env wid dir item) (\<lambda>paths.
       then_do (process_inputs env wid item paths) (\<lambda>(template, result).
         if \<not> pr_ok result then emit_event_job (processing_failed_from_result (li_granule item) wid result)
         else upload_outputs env wid item template (pr_outputs result)))"

definition handle_granule :: "job_env \<Rightarrow> ident \<Rightarrow> string list \<Rightarrow> lease_item \<Rightarrow> unit job" where
  "handle_granule env wid input_dir item =
     then_do (returns (jv_prepare env)) (\<lambda>_.
       finally_do
         (catching (\<lambda>e. emit_event_job (processing_failed_from_exception (jv_str env) (jv_traceback env) (li_granule item) wid e))
            (journey env wid input_dir item))
         [Exit])"

definition is_terminal :: "granule_event \<Rightarrow> bool" where
  "is_terminal e =
     (case e of UploadCompleted g w os p d \<Rightarrow> True | ProcessingFailed g w t so se x \<Rightarrow> True | DeleteConfirmed g w ks \<Rightarrow> True | _ \<Rightarrow> False)"

text \<open>The buffer of transition events: a terminal event wakes the flusher.\<close>

definition event_buffer_config :: "nat \<Rightarrow> nat \<Rightarrow> granule_event buffer_config" where
  "event_buffer_config max_batch max_buffer =
     \<lparr>bf_max_batch = max_batch, bf_max_buffer = max_buffer, bf_wake_on = Some is_terminal\<rparr>"

definition pending_granule_ids :: "granule_event flush_buffer \<Rightarrow> ident set" where
  "pending_granule_ids b = event_granule ` set (fb_queue b) \<union> event_granule ` set (fb_posting b)"

section \<open>What a handler reports\<close>

lemmas job_defs = returns_def emit_event_job_def stage_job_def then_write_def then_do_def finally_do_def staged_def

definition silent :: "'a job \<Rightarrow> bool" where
  "silent job \<longleftrightarrow> fst job = \<lparr>jn_events = [], jn_stages = []\<rparr>"

lemma silent_returns [simp]: "silent (returns r)"
  by (simp add: silent_def returns_def)

lemma silent_then_do [intro]: "silent job \<Longrightarrow> (\<And>x. silent (k x)) \<Longrightarrow> silent (then_do job k)"
  by (auto simp: silent_def then_do_def then_write_def split: sum.split)

lemma silent_for_each: "(\<And>x. silent (f x)) \<Longrightarrow> silent (for_each_job f xs)"
  by (induction xs) (auto intro!: silent_then_do)

lemma silent_fetch: "silent (fetch_input env dir creds spec)"
  by (auto simp: fetch_input_def split: sum.split option.split intro!: silent_then_do)

lemma silent_eq: "silent job \<Longrightarrow> job = returns (snd job)"
  by (simp add: silent_def returns_def prod_eq_iff)

lemma then_do_returns [simp]: "then_do (returns r) k = (case r of Inl f \<Rightarrow> returns (Inl f) | Inr x \<Rightarrow> k x)"
  by (auto simp: returns_def then_do_def then_write_def prod_eq_iff split: sum.split)

lemma then_do_emit [simp]:
  "then_do (emit_event_job e) k = (\<lparr>jn_events = e # jn_events (fst (k ())), jn_stages = jn_stages (fst (k ()))\<rparr>, snd (k ()))"
  by (simp add: emit_event_job_def then_do_def then_write_def)

text \<open>The inputs of a lease as one result.\<close>

definition fetched_inputs :: "job_env \<Rightarrow> string list \<Rightarrow> lease_item \<Rightarrow> failure + string list list" where
  "fetched_inputs env dir item = snd (for_each_job (fetch_input env dir (li_credentials item)) (li_inputs item))"

definition stored_outputs :: "job_env \<Rightarrow> string \<Rightarrow> string list \<Rightarrow> failure + uploaded_object list" where
  "stored_outputs env template outputs =
     snd (for_each_job (store_output env template) outputs)"

lemma fetch_all: "for_each_job (fetch_input env dir (li_credentials item)) (li_inputs item) = returns (fetched_inputs env dir item)"
  unfolding fetched_inputs_def by (rule silent_eq) (rule silent_for_each, rule silent_fetch)

lemma store_all: "for_each_job (store_output env template) outputs = returns (stored_outputs env template outputs)"
  unfolding stored_outputs_def
  by (rule silent_eq) (auto simp: store_output_def intro!: silent_for_each split: sum.split)

lemma returns_parts [simp]:
  "jn_events (fst (returns r)) = []" "jn_stages (fst (returns r)) = []" "snd (returns r) = r"
  by (simp_all add: returns_def)

lemma emit_parts [simp]:
  "jn_events (fst (emit_event_job e)) = [e]" "jn_stages (fst (emit_event_job e)) = []" "snd (emit_event_job e) = Inr ()"
  by (simp_all add: emit_event_job_def)

lemma then_do_parts:
  "jn_events (fst (then_do job k)) =
     jn_events (fst job) @ (case snd job of Inl f \<Rightarrow> [] | Inr x \<Rightarrow> jn_events (fst (k x)))"
  "snd (then_do job k) = (case snd job of Inl f \<Rightarrow> Inl f | Inr x \<Rightarrow> snd (k x))"
  by (auto simp: then_do_def then_write_def split: sum.split)

lemma staged_events:
  "jn_events (fst (staged acquired p a body)) = (case acquired of Inl f \<Rightarrow> [] | Inr _ \<Rightarrow> jn_events (fst body))"
  "snd (staged acquired p a body) = (case acquired of Inl f \<Rightarrow> Inl f | Inr _ \<Rightarrow> snd body)"
  by (auto simp: staged_def stage_job_def then_do_def then_write_def finally_do_def returns_def split: sum.split)

lemma download_report:
  "jn_events (fst (download_inputs env wid dir item)) =
     (case jv_acquire env STAGE_DOWNLOADING of Inl f \<Rightarrow> []
      | Inr _ \<Rightarrow> if jv_verbose_download env then [DownloadStarted (li_granule item) wid] else [])"
  "snd (download_inputs env wid dir item) =
     (case jv_acquire env STAGE_DOWNLOADING of Inl f \<Rightarrow> Inl f | Inr _ \<Rightarrow> fetched_inputs env dir item)"
  by (auto simp: download_inputs_def staged_events fetch_all split: sum.split)

lemma process_report:
  "jn_events (fst (process_inputs env wid item paths)) =
     (case jv_ensure env (li_bundle_ref item) of Inl f \<Rightarrow> []
      | Inr t \<Rightarrow> (case jv_acquire env STAGE_PROCESSING of Inl f \<Rightarrow> []
          | Inr _ \<Rightarrow> if jv_verbose_process env then [ProcessStarted (li_granule item) wid (Some (jv_download_ms env))] else []))"
  "snd (process_inputs env wid item paths) =
     (case jv_ensure env (li_bundle_ref item) of Inl f \<Rightarrow> Inl f
      | Inr t \<Rightarrow> (case jv_acquire env STAGE_PROCESSING of Inl f \<Rightarrow> Inl f
          | Inr _ \<Rightarrow> (case jv_run env paths of Inl f \<Rightarrow> Inl f | Inr r \<Rightarrow> Inr (t, r))))"
  by (auto simp: process_inputs_def then_do_parts staged_events split: sum.split)

lemma upload_report:
  "jn_events (fst (upload_outputs env wid item t outs)) =
     (case jv_acquire env STAGE_UPLOADING of Inl f \<Rightarrow> []
      | Inr _ \<Rightarrow> (case stored_outputs env t outs of Inl f \<Rightarrow> []
          | Inr os \<Rightarrow> [UploadCompleted (li_granule item) wid os (Some (jv_process_ms env))
                      (if jv_verbose_upload env then None else Some (jv_download_ms env))]))"
  "snd (upload_outputs env wid item t outs) =
     (case jv_acquire env STAGE_UPLOADING of Inl f \<Rightarrow> Inl f
      | Inr _ \<Rightarrow> (case stored_outputs env t outs of Inl f \<Rightarrow> Inl f | Inr os \<Rightarrow> Inr ()))"
  by (auto simp: upload_outputs_def staged_events store_all split: sum.split)

definition waypoints :: "job_env \<Rightarrow> ident \<Rightarrow> lease_item \<Rightarrow> granule_event list" where
  "waypoints env wid item =
     (if jv_verbose_download env then [DownloadStarted (li_granule item) wid] else [])
     @ (if jv_verbose_process env then [ProcessStarted (li_granule item) wid (Some (jv_download_ms env))] else [])"

text \<open>
  A journey ends in an upload, in a failed run or in a failure, and has emitted both waypoints, or a
  beginning of them.
\<close>

lemma journey_cases:
  obtains
    (uploaded) os where "jn_events (fst (journey env wid dir item)) = waypoints env wid item
        @ [UploadCompleted (li_granule item) wid os (Some (jv_process_ms env)) (if jv_verbose_upload env then None else Some (jv_download_ms env))]"
      and "snd (journey env wid dir item) = Inr ()"
  | (run_failed) r where "jn_events (fst (journey env wid dir item)) =
        waypoints env wid item @ [processing_failed_from_result (li_granule item) wid r]"
      and "\<not> pr_ok r" and "snd (journey env wid dir item) = Inr ()"
  | (failed) f n where "jn_events (fst (journey env wid dir item)) = take n (waypoints env wid item)"
      and "snd (journey env wid dir item) = Inl f"
proof (cases "snd (journey env wid dir item)")
  case (Inl f)
  then have "\<exists>n. jn_events (fst (journey env wid dir item)) = take n (waypoints env wid item)"
    by (auto simp: journey_def then_do_parts download_report process_report upload_report waypoints_def
        split: sum.split_asm prod.split_asm if_split_asm intro: exI [of _ 0] exI [of _ 1] exI [of _ 2])
  with Inl failed show ?thesis by blast
next
  case (Inr u)
  then show ?thesis
    by (auto simp: journey_def then_do_parts download_report process_report upload_report waypoints_def
        split: sum.split_asm prod.split_asm if_split_asm intro: uploaded run_failed)
qed

lemma handle_parts:
  assumes "handle_granule env wid dir item = (j, r)"
  shows "(\<exists>f. jv_prepare env = Inl f \<and> r = Inl f \<and> jn_events j = [] \<and> jn_stages j = [])
    \<or> (last (jn_stages j) = Exit \<and> jn_stages j \<noteq> [] \<and>
       (case snd (journey env wid dir item) of
          Inl Cancelled \<Rightarrow> r = Inl Cancelled \<and> jn_events j = jn_events (fst (journey env wid dir item))
        | Inl (Raised e) \<Rightarrow> r = Inr () \<and> jn_events j = jn_events (fst (journey env wid dir item))
              @ [processing_failed_from_exception (jv_str env) (jv_traceback env) (li_granule item) wid e]
        | Inr u \<Rightarrow> r = Inr () \<and> jn_events j = jn_events (fst (journey env wid dir item))))"
proof (cases "jv_prepare env")
  case (Inl f)
  with assms have "returns (Inl f) = (j, r)" by (simp add: handle_granule_def)
  then have "r = Inl f" "jn_events j = [] \<and> jn_stages j = []" by (auto simp: returns_def)
  with Inl show ?thesis by simp
next
  case (Inr u)
  with assms show ?thesis
    by (auto simp: handle_granule_def finally_do_def catching_def then_write_def split: sum.split failure.split)
qed

lemma handle_cases:
  assumes "handle_granule env wid dir item = (j, r)"
  obtains
    (uploaded) os where "jn_events j = waypoints env wid item
        @ [UploadCompleted (li_granule item) wid os (Some (jv_process_ms env)) (if jv_verbose_upload env then None else Some (jv_download_ms env))]"
      and "r = Inr ()"
  | (failed) n e where "jn_events j = take n (waypoints env wid item) @ [e]" and "r = Inr ()"
      and "(\<exists>p. \<not> pr_ok p \<and> e = processing_failed_from_result (li_granule item) wid p)
        \<or> (\<exists>x. e = processing_failed_from_exception (jv_str env) (jv_traceback env) (li_granule item) wid x)"
  | (cancelled) n where "jn_events j = take n (waypoints env wid item)" and "r = Inl Cancelled"
  | (unprepared) x where "jn_events j = []" and "r = Inl (Raised x)" and "jv_prepare env = Inl (Raised x)"
proof (cases "\<exists>f. jv_prepare env = Inl f \<and> r = Inl f \<and> jn_events j = []")
  case True
  then obtain f where f: "jv_prepare env = Inl f" "r = Inl f" "jn_events j = []" by blast
  show ?thesis
  proof (cases f)
    case Cancelled
    with f show ?thesis by (intro cancelled [of 0]) simp_all
  next
    case (Raised x)
    with f show ?thesis by (intro unprepared [of x]) simp_all
  qed
next
  case False
  then have parts: "case snd (journey env wid dir item) of
          Inl Cancelled \<Rightarrow> r = Inl Cancelled \<and> jn_events j = jn_events (fst (journey env wid dir item))
        | Inl (Raised e) \<Rightarrow> r = Inr () \<and> jn_events j = jn_events (fst (journey env wid dir item))
              @ [processing_failed_from_exception (jv_str env) (jv_traceback env) (li_granule item) wid e]
        | Inr u \<Rightarrow> r = Inr () \<and> jn_events j = jn_events (fst (journey env wid dir item))"
    using handle_parts [OF assms] by blast
  show ?thesis
  proof (cases rule: journey_cases [of env wid dir item, case_names up run_failed fail])
    case (up os)
    with parts show ?thesis by (intro uploaded [of os]) simp_all
  next
    case (run_failed p)
    with parts show ?thesis
      by (intro failed [of "length (waypoints env wid item)" "processing_failed_from_result (li_granule item) wid p"]) auto
  next
    case (fail f n)
    with parts show ?thesis by (cases f) (auto intro: cancelled failed)
  qed
qed

lemma waypoint_events:
  "e \<in> set (waypoints env wid item) \<Longrightarrow> event_granule e = li_granule item \<and> event_worker e = wid \<and> \<not> is_terminal e"
  by (auto simp: waypoints_def is_terminal_def split: if_splits)

lemma some_waypoint_events:
  "e \<in> set (take n (waypoints env wid item)) \<Longrightarrow> event_granule e = li_granule item \<and> event_worker e = wid \<and> \<not> is_terminal e"
  by (rule waypoint_events) (rule in_set_takeD)

text \<open>
  C32: A handler reports once. Every event it enqueues names its granule and its worker; a handler that returns has
  enqueued exactly one terminal event, as its last; a cancelled one (its lease was revoked) has enqueued none; an exception
  escapes only from the creation of its directories, before anything was enqueued. However it
  ends, its stage tracker is left empty.
\<close>

theorem handler_reports_once:
  "case handle_granule env wid dir item of (j, r) \<Rightarrow>
     list_all (\<lambda>e. event_granule e = li_granule item \<and> event_worker e = wid) (jn_events j)
     \<and> (case r of
          Inr u \<Rightarrow> \<exists>way e. jn_events j = way @ [e] \<and> is_terminal e \<and> list_all (\<lambda>x. \<not> is_terminal x) way
        | Inl Cancelled \<Rightarrow> list_all (\<lambda>e. \<not> is_terminal e) (jn_events j)
        | Inl (Raised x) \<Rightarrow> jn_events j = [] \<and> jv_prepare env = Inl (Raised x))
     \<and> fst (fold stage_op_step (jn_stages j) (None, counts)) = None"
proof -
  obtain j r where h: "handle_granule env wid dir item = (j, r)" by fastforce
  have "fst (fold stage_op_step (jn_stages j) (None, counts)) = None"
  proof (cases "jn_stages j" rule: rev_cases)
    case (snoc ps p)
    with handle_parts [OF h] have "p = Exit" by auto
    with snoc show ?thesis by (simp add: tracker_exit_def split: option.split)
  qed simp
  moreover have "list_all (\<lambda>e. event_granule e = li_granule item \<and> event_worker e = wid) (jn_events j)
     \<and> (case r of
          Inr u \<Rightarrow> \<exists>way e. jn_events j = way @ [e] \<and> is_terminal e \<and> list_all (\<lambda>x. \<not> is_terminal x) way
        | Inl Cancelled \<Rightarrow> list_all (\<lambda>e. \<not> is_terminal e) (jn_events j)
        | Inl (Raised x) \<Rightarrow> jn_events j = [] \<and> jv_prepare env = Inl (Raised x))"
  proof (cases rule: handle_cases [OF h, case_names up fail cancel unprepared])
    case (up os)
    have "is_terminal (UploadCompleted (li_granule item) wid os p d)" for p d by (simp add: is_terminal_def)
    with up waypoint_events show ?thesis by (auto simp: list_all_iff)
  next
    case (fail n e)
    then have "event_granule e = li_granule item \<and> event_worker e = wid \<and> is_terminal e"
      by (auto simp: processing_failed_from_result_def processing_failed_from_exception_def is_terminal_def)
    with fail(1, 2) some_waypoint_events show ?thesis by (auto simp: list_all_iff)
  next
    case (cancel n)
    with some_waypoint_events show ?thesis by (auto simp: list_all_iff)
  next
    case (unprepared x)
    then show ?thesis by simp
  qed
  ultimately show ?thesis using h by simp
qed

section \<open>An example\<close>

text \<open>An upload without inputs while the fleet is switched from verbose to fast.\<close>

definition demo_env :: "bool \<Rightarrow> bool \<Rightarrow> job_env" where
  "demo_env vd vp = \<lparr>jv_prepare = Inr (), jv_acquire = (\<lambda>st. Inr ()), jv_fetch = (\<lambda>url dst auth. Inr ''00''),
     jv_ensure = (\<lambda>ref. Inr ''{name}''),
     jv_run = (\<lambda>paths. Inr \<lparr>pr_ok = True, pr_outputs = [''o''], pr_stdout = [], pr_stderr = [], pr_exit_code = 0\<rparr>),
     jv_key = (\<lambda>t out. Inr out), jv_put = (\<lambda>out key. Inr \<lparr>uo_key = key, uo_url = ''u'', uo_sha256 = ''00'', uo_size = 1\<rparr>),
     jv_verbose_download = vd, jv_verbose_process = vp, jv_verbose_upload = vp, jv_download_ms = 10, jv_process_ms = 20,
     jv_str = (\<lambda>e. ''e''), jv_traceback = (\<lambda>e. ''t'')\<rparr>"

definition demo_lease :: lease_item where
  "demo_lease = \<lparr>li_granule = ''b:g'', li_batch = ''b'', li_bundle_ref = ''orch:b@1'',
     li_inputs = [\<lparr>in_url = ''u'', in_filename = ''f'', in_product = ''p'', in_size = None, in_checksum = Some ''00'', in_credential = None\<rparr>],
     li_meta = [], li_execution_env = [], li_credentials = []\<rparr>"

lemma demo_handled:
  "\<exists>j. handle_granule (demo_env True False) ''w'' [''in''] demo_lease = (j, Inr ())
     \<and> jn_events j = [DownloadStarted ''b:g'' ''w'',
          UploadCompleted ''b:g'' ''w'' [\<lparr>uo_key = ''o'', uo_url = ''u'', uo_sha256 = ''00'', uo_size = 1\<rparr>] (Some 20) (Some 10)]"
  by (intro exI [of _ "fst (handle_granule (demo_env True False) ''w'' [''in''] demo_lease)"]) code_simp

section \<open>The tails survive the orchestrator's caps\<close>

lemma length_tail [simp]: "length (tail n s) = min n (length s)"
  by (simp add: tail_def)

text \<open>What a worker reports of a failed run is stored as it is: the worker's caps are at most the orchestrator's.\<close>

lemma failure_report_stored:
  assumes "apply_event (snapshot_of g) (Wire (processing_failed_from_result i w r)) now mr = Inr tr"
  shows "SetError (Some (processing_failure_message (pr_stderr r))) \<in> set (tr_fields tr)"
    and "pr_stderr r \<noteq> [] \<Longrightarrow> SetStderrTail (tail_or_none (pr_stderr r) PROCESS_OUTPUT_TAIL_CHARS) \<in> set (tr_fields tr)"
  using assms
  by (auto simp: processing_failed_from_result_def processing_failed_def TransitionResult_def ERROR_CAP_def TAIL_CAP_def Let_def
      processing_failure_message_def tail_or_none_def PROCESSING_FAILURE_TAIL_CHARS_def PROCESS_OUTPUT_TAIL_CHARS_def
      split: if_split_asm)

section \<open>The progress of a download\<close>

text \<open>
  The throttle of a download's progress: what is emitted when. \<^verbatim>\<open>_make_download_progress_cb\<close> keeps
  the last percentage, the last time and whether the end was reported. Floats are rounded after each operation (\<open>f64\<close>).
\<close>

record progress_throttle =
  pt_last_pct :: rat
  pt_last_ts :: rat
  pt_done :: bool

definition new_throttle :: progress_throttle where
  "new_throttle = \<lparr>pt_last_pct = -1, pt_last_ts = 0, pt_done = False\<rparr>"

definition download_pct :: "int \<Rightarrow> int option \<Rightarrow> rat option" where
  "download_pct downloaded size_total =
     (case size_total of None \<Rightarrow> None | Some t \<Rightarrow> if t = 0 then None else Some (f64 (f64 (of_int downloaded / of_int t) * 100)))"

definition progress_cb :: "rat \<Rightarrow> int \<Rightarrow> int option \<Rightarrow> progress_throttle \<Rightarrow> bool \<times> progress_throttle" where
  "progress_cb now downloaded size_total pt =
     (if pt_done pt then (False, pt)
      else
        let pct = download_pct downloaded size_total;
            is_final = (case pct of None \<Rightarrow> False | Some p \<Rightarrow> p \<ge> 100);
            enough_time = (f64 (now - pt_last_ts pt) \<ge> 5);
            enough_percent = (case pct of None \<Rightarrow> False | Some p \<Rightarrow> p \<ge> f64 (pt_last_pct pt + 10))
        in if \<not> (is_final \<or> enough_time \<or> enough_percent) then (False, pt)
           else (True, \<lparr>pt_last_pct = (case pct of None \<Rightarrow> pt_last_pct pt | Some p \<Rightarrow> p), pt_last_ts = now, pt_done = is_final\<rparr>))"

text \<open>An emission is the end (after which nothing is emitted), or at least five seconds or ten percent after the one before.\<close>

lemma progress_throttled:
  assumes "progress_cb now n t pt = (True, pt')"
  shows "\<not> pt_done pt \<and> pt_last_ts pt' = now \<and> (pt_done pt' \<or> 5 \<le> f64 (now - pt_last_ts pt) \<or> f64 (pt_last_pct pt + 10) \<le> pt_last_pct pt')"
  using assms by (auto simp: progress_cb_def Let_def split: if_split_asm option.splits)

lemma progress_ends: "pt_done pt \<Longrightarrow> progress_cb now n t pt = (False, pt)"
  by (simp add: progress_cb_def)

end
