(* ===== verification/WorkerRuntime.thy ===== *)
theory WorkerRuntime
  imports WorkerHandler WorkersApi "HOL-Library.AList"
begin

text \<open>
  The control plane of a worker (\<^verbatim>\<open>src/sathop/worker/runtime.py\<close>): the loop that leases granules, the table of
  running handlers, the reaction to a heartbeat's reply, back-pressure, the resizing of the pipeline and the drain.
  A handler is a task with a number; its journey is that of \<open>WorkerHandler\<close>. Between two awaits a coroutine
  runs undisturbed, so each definition is what happens between two awaits.
\<close>

section \<open>State\<close>

record worker_settings =
  ws_worker_id :: ident
  ws_lease_poll_interval :: int
  ws_download_concurrency :: int
  ws_process_concurrency :: int
  ws_disk_pause_pct :: rat
  ws_disk_resume_pct :: rat

text \<open>Where the loop of leases stands: the free slots it computed when it began to wait or to ask, the seconds it sleeps.\<close>

datatype loop_phase = Idle | Waiting int | Asking int | Sleeping int

text \<open>
  \<open>wa_handlers\<close> is the dictionary from granules to tasks, \<open>wa_running\<close> the tasks that have not ended;
  \<open>wa_scheduled\<close> and \<open>wa_applying\<close> are the tasks of \<^verbatim>\<open>_apply_reconfig\<close> before and after their first turn.
\<close>

record worker_agent =
  wa_handlers :: "(ident \<times> nat) list"
  wa_running :: "(nat \<times> ident) list"
  wa_next_task :: nat
  wa_cancelled :: "nat list"
  wa_events :: "granule_event flush_buffer"
  wa_phase :: loop_phase
  wa_slot_free :: bool
  wa_pause_lease :: bool
  wa_remote_pause :: bool
  wa_gc :: bool
  wa_draining :: bool
  wa_verbose :: bool
  wa_live_download :: int
  wa_live_process :: int
  wa_reconfiguring :: bool
  wa_scheduled :: "(int \<times> int) list"
  wa_applying :: "(int \<times> int) list"
  wa_lease_backoff :: int
  wa_empty_backoff :: int
  wa_stamped :: "string option"
  wa_removed :: bool

definition LEASE_MAX_BACKOFF_FACTOR :: int where
  "LEASE_MAX_BACKOFF_FACTOR = 3"

definition new_agent :: "worker_settings \<Rightarrow> worker_agent" where
  "new_agent cfg = \<lparr>wa_handlers = [], wa_running = [], wa_next_task = 0, wa_cancelled = [], wa_events = new_buffer,
     wa_phase = Idle, wa_slot_free = False, wa_pause_lease = False, wa_remote_pause = False, wa_gc = False,
     wa_draining = False, wa_verbose = True, wa_live_download = ws_download_concurrency cfg,
     wa_live_process = ws_process_concurrency cfg, wa_reconfiguring = False, wa_scheduled = [], wa_applying = [],
     wa_lease_backoff = 1, wa_empty_backoff = 1, wa_stamped = None, wa_removed = False\<rparr>"

section \<open>Handlers\<close>

definition start_drain_worker :: "worker_agent \<Rightarrow> worker_agent" where
  "start_drain_worker w = w\<lparr>wa_draining := True\<rparr>"

definition start_handler :: "ident \<Rightarrow> worker_agent \<Rightarrow> worker_agent" where
  "start_handler gid w =
     w\<lparr>wa_handlers := AList.update gid (wa_next_task w) (wa_handlers w),
       wa_running := wa_running w @ [(wa_next_task w, gid)], wa_next_task := Suc (wa_next_task w)\<rparr>"

definition on_handler_done :: "ident \<Rightarrow> worker_agent \<Rightarrow> worker_agent" where
  "on_handler_done gid w = w\<lparr>wa_handlers := AList.delete gid (wa_handlers w), wa_slot_free := True\<rparr>"

text \<open>A task ends; its callback knows the granule only.\<close>

definition finish_task :: "nat \<times> ident \<Rightarrow> worker_agent \<Rightarrow> worker_agent" where
  "finish_task t w = on_handler_done (snd t) (w\<lparr>wa_running := remove1 t (wa_running w)\<rparr>)"

definition active_granule_ids :: "worker_agent \<Rightarrow> ident set" where
  "active_granule_ids w = fst ` set (wa_handlers w) \<union> pending_granule_ids (wa_events w)"

text \<open>The heartbeat the worker sends: the measures of the host are arguments, the set of active granules goes in some order.\<close>

record host_measures =
  hm_disk_used_gb :: rat
  hm_disk_total_gb :: rat
  hm_cpu_percent :: rat
  hm_mem_percent :: rat

definition heartbeat_request :: "worker_settings \<Rightarrow> string \<Rightarrow> host_measures \<Rightarrow> worker_stages \<Rightarrow> worker_agent \<Rightarrow> worker_heartbeat" where
  "heartbeat_request cfg version hm counts w =
     \<lparr>hb_worker_id = ws_worker_id cfg, hb_version = version,
      hb_disk_used_gb = hm_disk_used_gb hm, hb_disk_total_gb = hm_disk_total_gb hm,
      hb_cpu_percent = hm_cpu_percent hm, hb_mem_percent = hm_mem_percent hm, hb_monthly_egress_gb = 0,
      hb_pending_download = counts PENDING_DOWNLOAD, hb_downloading = counts STAGE_DOWNLOADING,
      hb_pending_processing = counts PENDING_PROCESSING, hb_processing = counts STAGE_PROCESSING,
      hb_pending_upload = counts PENDING_UPLOAD, hb_uploading = counts STAGE_UPLOADING,
      hb_download_concurrency = wa_live_download w, hb_process_concurrency = wa_live_process w,
      hb_paused = (wa_pause_lease w \<or> wa_remote_pause w),
      hb_active_granule_ids = Some (remdups (map fst (wa_handlers w)
        @ map event_granule (fb_queue (wa_events w) @ fb_posting (wa_events w))))\<rparr>"

lemma heartbeat_request_active:
  "\<exists>ids. hb_active_granule_ids (heartbeat_request cfg v hm c w) = Some ids \<and> set ids = active_granule_ids w"
  by (auto simp: heartbeat_request_def active_granule_ids_def pending_granule_ids_def)

section \<open>The loop of leases\<close>

definition free_handlers :: "worker_agent \<Rightarrow> int" where
  "free_handlers w = wa_live_download w + wa_live_process w - int (length (wa_handlers w))"

definition pipeline_check :: "worker_agent \<Rightarrow> worker_agent" where
  "pipeline_check w =
     (let free = free_handlers w
      in w\<lparr>wa_slot_free := False,
           wa_phase := (if free \<le> 0 \<or> wa_pause_lease w \<or> wa_remote_pause w \<or> wa_draining w \<or> wa_reconfiguring w
                        then Waiting free else Asking free)\<rparr>)"

definition bump_backoff :: "worker_settings \<Rightarrow> worker_agent \<Rightarrow> int \<times> worker_agent" where
  "bump_backoff cfg w =
     (let f = min LEASE_MAX_BACKOFF_FACTOR (wa_lease_backoff w * 2)
      in (ws_lease_poll_interval cfg * f, w\<lparr>wa_lease_backoff := f\<rparr>))"

definition lease_failed :: "worker_settings \<Rightarrow> worker_agent \<Rightarrow> worker_agent" where
  "lease_failed cfg w = (let (s, w') = bump_backoff cfg w in w'\<lparr>wa_phase := Sleeping s\<rparr>)"

definition lease_answered :: "worker_settings \<Rightarrow> ident list \<Rightarrow> worker_agent \<Rightarrow> worker_agent" where
  "lease_answered cfg gids w =
     (let w1 = w\<lparr>wa_lease_backoff := 1\<rparr>
      in if gids = [] then
           w1\<lparr>wa_phase := Sleeping (ws_lease_poll_interval cfg * wa_empty_backoff w1),
              wa_empty_backoff := min LEASE_MAX_BACKOFF_FACTOR (wa_empty_backoff w1 * 2)\<rparr>
         else fold start_handler gids (w1\<lparr>wa_empty_backoff := 1, wa_phase := Idle\<rparr>))"

section \<open>The reply to a heartbeat\<close>

definition stamp_pending_version :: "bool \<Rightarrow> string \<Rightarrow> worker_agent \<Rightarrow> worker_agent" where
  "stamp_pending_version writable v w = (if writable then w\<lparr>wa_stamped := Some v\<rparr> else w)"

definition cancel_handler :: "ident \<Rightarrow> worker_agent \<Rightarrow> worker_agent" where
  "cancel_handler gid w =
     (case map_of (wa_handlers w) gid of
        None \<Rightarrow> w
      | Some t \<Rightarrow> if (t, gid) \<in> set (wa_running w) then w\<lparr>wa_cancelled := t # wa_cancelled w\<rparr> else w)"

definition reconcile_detail :: "string \<Rightarrow> worker_agent \<Rightarrow> worker_agent" where
  "reconcile_detail detail w = w\<lparr>wa_verbose := (detail \<noteq> ''fast'')\<rparr>"

definition target_download :: "worker_settings \<Rightarrow> int option \<Rightarrow> int" where
  "target_download cfg ov = (case ov of None \<Rightarrow> ws_download_concurrency cfg | Some n \<Rightarrow> n)"

definition target_process :: "worker_settings \<Rightarrow> int option \<Rightarrow> int" where
  "target_process cfg ov = (case ov of None \<Rightarrow> ws_process_concurrency cfg | Some n \<Rightarrow> n)"

definition reconcile_concurrency :: "worker_settings \<Rightarrow> int option \<Rightarrow> int option \<Rightarrow> worker_agent \<Rightarrow> worker_agent" where
  "reconcile_concurrency cfg ov_dl ov_pr w =
     (let dl = target_download cfg ov_dl; pr = target_process cfg ov_pr
      in if dl = wa_live_download w \<and> pr = wa_live_process w then w
         else if wa_reconfiguring w then w
         else if dl < wa_live_download w \<or> pr < wa_live_process w then w\<lparr>wa_scheduled := wa_scheduled w @ [(dl, pr)]\<rparr>
         else w\<lparr>wa_live_download := max dl (wa_live_download w), wa_live_process := max pr (wa_live_process w)\<rparr>)"

definition apply_update :: "bool \<Rightarrow> heartbeat_response \<Rightarrow> worker_agent \<Rightarrow> worker_agent" where
  "apply_update writable resp w =
     (if \<not> hr_update_requested resp then w
      else start_drain_worker
             (case hr_update_to_version resp of
                None \<Rightarrow> w
              | Some v \<Rightarrow> if v = [] then w else stamp_pending_version writable v w))"

definition heartbeat_reply :: "worker_settings \<Rightarrow> bool \<Rightarrow> heartbeat_response \<Rightarrow> worker_agent \<Rightarrow> worker_agent" where
  "heartbeat_reply cfg writable resp w =
     (if hr_removed resp then w\<lparr>wa_removed := True\<rparr>
      else
        let w1 = apply_update writable resp w;
            w2 = w1\<lparr>wa_remote_pause := hr_operator_paused resp\<rparr>;
            w3 = (if hr_gc_requested resp then w2\<lparr>wa_gc := True\<rparr> else w2);
            w4 = fold cancel_handler (hr_revoked resp) w3;
            w5 = reconcile_concurrency cfg (hr_download_concurrency resp) (hr_process_concurrency resp) w4
        in reconcile_detail (hr_detail resp) w5)"

text \<open>
  A heartbeat refused by its status: 410 ends the worker, 404 registers it again (where another 410 ends it), any
  other is logged.
\<close>

definition heartbeat_refused :: "int \<Rightarrow> int option \<Rightarrow> worker_agent \<Rightarrow> worker_agent" where
  "heartbeat_refused status reregister_status w =
     (if status = 410 \<or> (status = 404 \<and> reregister_status = Some 410) then w\<lparr>wa_removed := True\<rparr> else w)"

section \<open>Resizing and back-pressure\<close>

definition begin_reconfig :: "worker_agent \<Rightarrow> worker_agent" where
  "begin_reconfig w =
     (case wa_scheduled w of
        [] \<Rightarrow> w
      | t # ts \<Rightarrow> w\<lparr>wa_scheduled := ts, wa_applying := wa_applying w @ [t], wa_reconfiguring := True\<rparr>)"

text \<open>The end of \<^verbatim>\<open>_apply_reconfig\<close>, when no handler is left or the time is out: a new \<^verbatim>\<open>GranuleHandler\<close> with the target sizes.\<close>

definition apply_reconfig :: "worker_agent \<Rightarrow> worker_agent" where
  "apply_reconfig w =
     (case wa_applying w of
        [] \<Rightarrow> w
      | (dl, pr) # ts \<Rightarrow> w\<lparr>wa_applying := ts, wa_live_download := dl, wa_live_process := pr, wa_reconfiguring := False\<rparr>)"

definition backpressure_once :: "worker_settings \<Rightarrow> rat \<Rightarrow> worker_agent \<Rightarrow> worker_agent" where
  "backpressure_once cfg used w =
     (if wa_pause_lease w \<and> used < ws_disk_resume_pct cfg then w\<lparr>wa_pause_lease := False\<rparr>
      else if \<not> wa_pause_lease w \<and> used > ws_disk_pause_pct cfg then w\<lparr>wa_pause_lease := True\<rparr>
      else w)"

text \<open>The janitor, after the objects of a deletable granule are gone from the storage.\<close>

definition janitor_confirms ::
  "worker_settings \<Rightarrow> granule_event buffer_config \<Rightarrow> (ident \<times> string list) list \<Rightarrow> worker_agent \<Rightarrow> worker_agent" where
  "janitor_confirms cfg bcfg dgs w =
     w\<lparr>wa_events := fold (\<lambda>dg. enqueue bcfg (DeleteConfirmed (fst dg) (ws_worker_id cfg) (snd dg))) dgs (wa_events w)\<rparr>"

section \<open>The worker as a transition system\<close>

text \<open>
  \<open>limit\<close> bounds the sizes the worker is ever given. A lease may name any granules, also ones the worker still has a handler
  of, as after a revocation whose handler is still being cancelled.
\<close>

inductive worker_step ::
  "worker_settings \<Rightarrow> granule_event buffer_config \<Rightarrow> int \<Rightarrow> worker_agent \<Rightarrow> worker_agent \<Rightarrow> bool"
  for cfg :: worker_settings and bcfg :: "granule_event buffer_config" and limit :: int where
  ws_check: "wa_phase w = Idle \<Longrightarrow> worker_step cfg bcfg limit w (pipeline_check w)"
| ws_wake: "wa_phase w = Waiting f \<Longrightarrow> worker_step cfg bcfg limit w (w\<lparr>wa_phase := Idle\<rparr>)"
| ws_leased: "wa_phase w = Asking n \<Longrightarrow> int (length gids) \<le> n \<Longrightarrow> distinct gids \<Longrightarrow>
     worker_step cfg bcfg limit w (lease_answered cfg gids w)"
| ws_lease_failed: "wa_phase w = Asking n \<Longrightarrow> worker_step cfg bcfg limit w (lease_failed cfg w)"
| ws_awake: "wa_phase w = Sleeping s \<Longrightarrow> worker_step cfg bcfg limit w (w\<lparr>wa_phase := Idle\<rparr>)"
| ws_emit: "(t, event_granule e) \<in> set (wa_running w) \<Longrightarrow>
     worker_step cfg bcfg limit w (w\<lparr>wa_events := enqueue bcfg e (wa_events w)\<rparr>)"
| ws_finish: "t \<in> set (wa_running w) \<Longrightarrow> worker_step cfg bcfg limit w (finish_task t w)"
| ws_flush: "fb_posting (wa_events w) = [] \<Longrightarrow>
     worker_step cfg bcfg limit w (w\<lparr>wa_events := begin_flush bcfg (wa_events w)\<rparr>)"
| ws_flushed: "worker_step cfg bcfg limit w (w\<lparr>wa_events := flush_done (wa_events w)\<rparr>)"
| ws_flush_failed: "worker_step cfg bcfg limit w (w\<lparr>wa_events := flush_failed bcfg (wa_events w)\<rparr>)"
| ws_heartbeat: "target_download cfg (hr_download_concurrency resp) + target_process cfg (hr_process_concurrency resp) \<le> limit \<Longrightarrow>
     worker_step cfg bcfg limit w (heartbeat_reply cfg writable resp w)"
| ws_refused: "worker_step cfg bcfg limit w (heartbeat_refused st rst w)"
| ws_begin_reconfig: "worker_step cfg bcfg limit w (begin_reconfig w)"
| ws_apply_reconfig: "worker_step cfg bcfg limit w (apply_reconfig w)"
| ws_backpressure: "worker_step cfg bcfg limit w (backpressure_once cfg used w)"
| ws_janitor: "worker_step cfg bcfg limit w (janitor_confirms cfg bcfg dgs w)"
| ws_drain: "worker_step cfg bcfg limit w (start_drain_worker w)"

definition started :: "worker_settings \<Rightarrow> int \<Rightarrow> worker_agent \<Rightarrow> bool" where
  "started cfg limit w \<longleftrightarrow> w = new_agent cfg \<and> ws_download_concurrency cfg + ws_process_concurrency cfg \<le> limit \<and> 0 \<le> limit"

text \<open>
  The granules that were leased to the worker again while a handler of theirs was still running, and that still have one:
  a task with a new number was started beside an older one of the same granule.
\<close>

definition overtaken :: "worker_agent \<Rightarrow> worker_agent \<Rightarrow> ident set \<Rightarrow> ident set" where
  "overtaken w w' ov =
     {g \<in> snd ` set (wa_running w').
        g \<in> ov \<or> g \<in> snd ` set (wa_running w) \<and> (\<exists>t. (t, g) \<in> set (wa_running w') \<and> wa_next_task w \<le> t)}"

inductive run_step ::
  "worker_settings \<Rightarrow> granule_event buffer_config \<Rightarrow> int \<Rightarrow> worker_agent \<times> ident set \<Rightarrow> worker_agent \<times> ident set \<Rightarrow> bool"
  for cfg :: worker_settings and bcfg :: "granule_event buffer_config" and limit :: int where
  "worker_step cfg bcfg limit w w' \<Longrightarrow> run_step cfg bcfg limit (w, ov) (w', overtaken w w' ov)"

definition run_started :: "worker_settings \<Rightarrow> int \<Rightarrow> worker_agent \<times> ident set \<Rightarrow> bool" where
  "run_started cfg limit r \<longleftrightarrow> started cfg limit (fst r) \<and> snd r = {}"

section \<open>The table of handlers\<close>

text \<open>
  The table never names a task that has ended, and it names the one task of every granule that was not overtaken.
\<close>

definition tracked :: "worker_agent \<Rightarrow> ident set \<Rightarrow> bool" where
  "tracked w ov \<longleftrightarrow>
     distinct (map fst (wa_handlers w)) \<and> distinct (map fst (wa_running w))
     \<and> list_all (\<lambda>t. fst t < wa_next_task w) (wa_running w)
     \<and> prod.swap ` set (wa_handlers w) \<subseteq> set (wa_running w)
     \<and> (\<forall>t g. (t, g) \<in> set (wa_running w) \<and> g \<notin> ov \<longrightarrow> (g, t) \<in> set (wa_handlers w))
     \<and> ov \<subseteq> snd ` set (wa_running w)"

lemma update_members:
  "distinct (map fst xs) \<Longrightarrow> set (AList.update k v xs) = insert (k, v) {x \<in> set xs. fst x \<noteq> k}"
  by (induction xs) (auto simp: image_iff)

lemma length_update: "length (AList.update k v xs) \<le> Suc (length xs)"
  by (induction xs) auto

lemma tracked_exact:
  assumes "tracked w {}"
  shows "set (wa_running w) = prod.swap ` set (wa_handlers w)" and "length (wa_running w) = length (wa_handlers w)"
proof -
  show eq: "set (wa_running w) = prod.swap ` set (wa_handlers w)"
    using assms by (force simp: tracked_def image_iff)
  have "length (wa_running w) = card (set (wa_running w))"
    using assms by (metis tracked_def distinct_card distinct_map)
  also have "\<dots> = card (set (wa_handlers w))" by (simp add: eq card_image)
  also have "\<dots> = length (wa_handlers w)" using assms by (metis tracked_def distinct_card distinct_map)
  finally show "length (wa_running w) = length (wa_handlers w)" .
qed

text \<open>A task started for a granule that has one overtakes it; the others stay as they are.\<close>

lemma start_handler_tracked:
  assumes "tracked w ov"
  shows "tracked (start_handler gid w) (ov \<union> ({gid} \<inter> snd ` set (wa_running w)))
    \<and> length (wa_handlers (start_handler gid w)) \<le> Suc (length (wa_handlers w))"
proof -
  have old: "fst t < wa_next_task w" if "t \<in> set (wa_running w)" for t using that assms by (simp add: tracked_def list_all_iff)
  then have "wa_next_task w \<notin> fst ` set (wa_running w)" by fastforce
  moreover have "distinct (map fst (AList.update gid (wa_next_task w) (wa_handlers w)))"
    using assms by (simp add: tracked_def distinct_update)
  moreover have members: "set (AList.update gid (wa_next_task w) (wa_handlers w))
      = insert (gid, wa_next_task w) {x \<in> set (wa_handlers w). fst x \<noteq> gid}"
    using assms by (intro update_members) (simp add: tracked_def)
  moreover have "(g, t) \<in> set (AList.update gid (wa_next_task w) (wa_handlers w))"
    if "(t, g) \<in> set (wa_running w)" "g \<notin> ov" "\<not> (g = gid \<and> g \<in> snd ` set (wa_running w))" for t g
    using that assms unfolding members by (force simp: tracked_def)
  ultimately show ?thesis
    using assms length_update [of gid "wa_next_task w" "wa_handlers w"] old
    unfolding tracked_def start_handler_def
    by (auto simp: list_all_iff less_Suc_eq image_Un)
qed

lemma start_handlers_tracked:
  assumes "tracked w ov" and "distinct gids"
  shows "tracked (fold start_handler gids w) (ov \<union> (set gids \<inter> snd ` set (wa_running w)))
    \<and> length (wa_handlers (fold start_handler gids w)) \<le> length (wa_handlers w) + length gids"
  using assms
proof (induction gids arbitrary: w ov)
  case (Cons g gs)
  note one = start_handler_tracked [OF Cons.prems(1), of g]
  have running: "snd ` set (wa_running (start_handler g w)) = insert g (snd ` set (wa_running w))"
    by (simp add: start_handler_def)
  have "set gs \<inter> snd ` set (wa_running (start_handler g w)) = set gs \<inter> snd ` set (wa_running w)"
    using Cons.prems(2) by (auto simp: running)
  then have "ov \<union> ({g} \<inter> snd ` set (wa_running w)) \<union> (set gs \<inter> snd ` set (wa_running (start_handler g w)))
      = ov \<union> (set (g # gs) \<inter> snd ` set (wa_running w))" by auto
  with Cons.IH [of "start_handler g w" "ov \<union> ({g} \<inter> snd ` set (wa_running w))"] one Cons.prems(2)
  show ?case by (auto simp: le_diff_conv)
qed simp

lemma running_started:
  "set (wa_running (fold start_handler gids w)) = set (wa_running w) \<union> {(wa_next_task w + i, gids ! i) | i. i < length gids}"
proof (induction gids arbitrary: w)
  case (Cons g gs)
  have "{(wa_next_task w + i, (g # gs) ! i) | i. i < length (g # gs)}
      = insert (wa_next_task w, g) {(Suc (wa_next_task w) + i, gs ! i) | i. i < length gs}"
    by (auto simp: nth_Cons less_Suc_eq_0_disj)
  with Cons.IH [of "start_handler g w"] show ?case by (simp add: start_handler_def)
qed simp

lemma finish_tracked:
  assumes "tracked w ov" and "t \<in> set (wa_running w)"
  shows "tracked (finish_task t w) {g \<in> ov. g \<in> snd ` set (wa_running (finish_task t w))}
    \<and> length (wa_handlers (finish_task t w)) \<le> length (wa_handlers w)"
proof -
  obtain n g where t: "t = (n, g)" by (cases t)
  have "distinct (wa_running w)" using assms(1) by (auto simp: tracked_def distinct_map)
  then have run: "remove1 t (wa_running w) = filter (\<lambda>x. x \<noteq> t) (wa_running w)"
    by (simp add: distinct_remove1_removeAll removeAll_filter_not_eq eq_commute)
  have only: "(m, g) \<in> set (wa_running w) \<Longrightarrow> g \<notin> ov \<Longrightarrow> m = n" for m
    using assms unfolding t tracked_def by (metis eq_key_imp_eq_value)
  have "(h, m) \<in> set (wa_handlers w) \<Longrightarrow> h \<noteq> g \<Longrightarrow> (m, h) \<noteq> t" for h m by (simp add: t)
  with assms(1) only show ?thesis
    unfolding tracked_def finish_task_def on_handler_done_def
    by (auto simp: t run [unfolded t] AList.delete_eq list_all_iff distinct_map_filter image_iff)
qed

definition asked :: "loop_phase \<Rightarrow> int" where
  "asked ph = (case ph of Asking n \<Rightarrow> n | _ \<Rightarrow> 0)"

definition sizes_ok :: "int \<Rightarrow> worker_agent \<Rightarrow> bool" where
  "sizes_ok limit w \<longleftrightarrow>
     wa_live_download w + wa_live_process w \<le> limit
     \<and> list_all (\<lambda>(d, p). d + p \<le> limit) (wa_scheduled w @ wa_applying w)
     \<and> wa_lease_backoff w \<in> {1..LEASE_MAX_BACKOFF_FACTOR} \<and> wa_empty_backoff w \<in> {1..LEASE_MAX_BACKOFF_FACTOR}"

definition slots_ok :: "int \<Rightarrow> worker_agent \<Rightarrow> bool" where
  "slots_ok limit w \<longleftrightarrow>
     0 \<le> asked (wa_phase w) \<and> int (length (wa_handlers w)) + asked (wa_phase w) \<le> limit"

definition agent_ok :: "int \<Rightarrow> worker_agent \<Rightarrow> ident set \<Rightarrow> bool" where
  "agent_ok limit w ov \<longleftrightarrow> tracked w ov \<and> sizes_ok limit w \<and> slots_ok limit w"

text \<open>What an operation leaves alone, for the operations that touch neither the handlers nor the loop.\<close>

definition same_table :: "worker_agent \<Rightarrow> worker_agent \<Rightarrow> bool" where
  "same_table w w' \<longleftrightarrow>
     wa_handlers w' = wa_handlers w \<and> wa_running w' = wa_running w \<and> wa_next_task w' = wa_next_task w \<and> wa_phase w' = wa_phase w"

definition same_sizes :: "worker_agent \<Rightarrow> worker_agent \<Rightarrow> bool" where
  "same_sizes w w' \<longleftrightarrow>
     wa_live_download w' = wa_live_download w \<and> wa_live_process w' = wa_live_process w \<and> wa_scheduled w' = wa_scheduled w
     \<and> wa_applying w' = wa_applying w \<and> wa_lease_backoff w' = wa_lease_backoff w \<and> wa_empty_backoff w' = wa_empty_backoff w"

lemma same_table_ok: "same_table w w' \<Longrightarrow> tracked w ov \<Longrightarrow> tracked w' ov" "same_table w w' \<Longrightarrow> slots_ok limit w \<Longrightarrow> slots_ok limit w'"
  by (simp_all add: same_table_def tracked_def slots_ok_def)

lemma same_sizes_ok: "same_sizes w w' \<Longrightarrow> sizes_ok limit w \<Longrightarrow> sizes_ok limit w'"
  by (simp add: same_sizes_def sizes_ok_def)

lemma cancel_same: "same_table w (cancel_handler g w) \<and> same_sizes w (cancel_handler g w)"
  by (simp add: same_table_def same_sizes_def cancel_handler_def split: option.split)

lemma cancels_same: "same_table w (fold cancel_handler gs w) \<and> same_sizes w (fold cancel_handler gs w)"
proof (induction gs arbitrary: w)
  case Nil
  show ?case by (simp add: same_table_def same_sizes_def)
next
  case (Cons g gs)
  with cancel_same [of w g] show ?case by (simp add: same_table_def same_sizes_def)
qed

lemma update_same: "same_table w (apply_update b resp w) \<and> same_sizes w (apply_update b resp w)"
  by (simp add: same_table_def same_sizes_def apply_update_def start_drain_worker_def stamp_pending_version_def split: option.split)

lemma reconcile_ok:
  assumes "sizes_ok limit w" and "target_download cfg dl + target_process cfg pr \<le> limit"
  shows "sizes_ok limit (reconcile_concurrency cfg dl pr w) \<and> same_table w (reconcile_concurrency cfg dl pr w)"
  using assms by (auto simp: reconcile_concurrency_def Let_def sizes_ok_def same_table_def max_def)

lemma heartbeat_reply_ok:
  assumes "agent_ok limit w ov"
    and "target_download cfg (hr_download_concurrency resp) + target_process cfg (hr_process_concurrency resp) \<le> limit"
  shows "agent_ok limit (heartbeat_reply cfg b resp w) ov"
proof (cases "hr_removed resp")
  case True
  with assms(1) show ?thesis
    by (simp add: heartbeat_reply_def agent_ok_def tracked_def sizes_ok_def slots_ok_def)
next
  case False
  define w3 where "w3 = (if hr_gc_requested resp then (apply_update b resp w\<lparr>wa_remote_pause := hr_operator_paused resp\<rparr>)\<lparr>wa_gc := True\<rparr>
      else apply_update b resp w\<lparr>wa_remote_pause := hr_operator_paused resp\<rparr>)"
  define w4 where "w4 = fold cancel_handler (hr_revoked resp) w3"
  define w5 where "w5 = reconcile_concurrency cfg (hr_download_concurrency resp) (hr_process_concurrency resp) w4"
  have "same_table w w3 \<and> same_sizes w w3"
    using update_same [of w b resp] by (simp add: w3_def same_table_def same_sizes_def)
  with cancels_same [of w3 "hr_revoked resp"] have "same_table w w4 \<and> same_sizes w w4"
    by (simp add: w4_def same_table_def same_sizes_def)
  with assms(1) have 4: "agent_ok limit w4 ov"
    by (simp add: agent_ok_def same_table_ok [of w w4] same_sizes_ok [of w w4])
  then have "sizes_ok limit w5 \<and> same_table w4 w5"
    unfolding w5_def by (intro reconcile_ok assms(2)) (simp add: agent_ok_def)
  with 4 have "agent_ok limit w5 ov" by (simp add: agent_ok_def same_table_ok [of w4 w5])
  moreover have "heartbeat_reply cfg b resp w = reconcile_detail (hr_detail resp) w5"
    using False by (simp add: heartbeat_reply_def Let_def w3_def w4_def w5_def)
  ultimately show ?thesis
    by (simp add: reconcile_detail_def agent_ok_def tracked_def sizes_ok_def slots_ok_def)
qed

lemma heartbeat_reply_table: "wa_running (heartbeat_reply cfg b resp w) = wa_running w"
proof -
  have c: "wa_running (fold cancel_handler gs v) = wa_running v" for gs v
    using cancels_same [of v gs] by (simp add: same_table_def)
  have u: "wa_running (apply_update b resp v) = wa_running v" for v
    using update_same [of v b resp] by (simp add: same_table_def)
  have r: "wa_running (reconcile_concurrency cfg dl pr v) = wa_running v" for dl pr v
    by (simp add: reconcile_concurrency_def Let_def)
  show ?thesis by (simp add: heartbeat_reply_def reconcile_detail_def Let_def c u r)
qed

lemma overtaken_fewer:
  assumes "set (wa_running w') \<subseteq> set (wa_running w)" and "tracked w ov"
  shows "overtaken w w' ov = {g \<in> ov. g \<in> snd ` set (wa_running w')}"
proof -
  have "t < wa_next_task w" if "(t, g) \<in> set (wa_running w')" for t g
    using that assms by (metis fst_conv list_all_iff subsetD tracked_def)
  then have "\<not> (\<exists>t. (t, g) \<in> set (wa_running w') \<and> wa_next_task w \<le> t)" for g by (meson not_le)
  then show ?thesis unfolding overtaken_def by blast
qed

lemma overtaken_same:
  assumes "wa_running w' = wa_running w" and "tracked w ov"
  shows "overtaken w w' ov = ov"
proof -
  have "ov \<subseteq> snd ` set (wa_running w)" using assms(2) by (simp add: tracked_def)
  with overtaken_fewer [of w' w ov] assms show ?thesis by auto
qed

lemma leased_ok:
  assumes "agent_ok limit w ov" and "wa_phase w = Asking n" and "int (length gids) \<le> n" and "distinct gids"
  shows "agent_ok limit (lease_answered cfg gids w) (overtaken w (lease_answered cfg gids w) ov)"
proof (cases "gids = []")
  case True
  then have "wa_running (lease_answered cfg gids w) = wa_running w" by (simp add: lease_answered_def Let_def)
  then have "overtaken w (lease_answered cfg gids w) ov = ov"
    using assms(1) by (intro overtaken_same) (simp_all add: agent_ok_def)
  with True assms(1, 2) show ?thesis
    by (auto simp: lease_answered_def Let_def agent_ok_def tracked_def sizes_ok_def slots_ok_def asked_def LEASE_MAX_BACKOFF_FACTOR_def min_def)
next
  case False
  define w1 where "w1 = w\<lparr>wa_lease_backoff := 1, wa_empty_backoff := 1, wa_phase := Idle\<rparr>"
  have w1: "tracked w1 ov" "wa_handlers w1 = wa_handlers w" "wa_running w1 = wa_running w" "wa_next_task w1 = wa_next_task w"
    using assms(1) by (simp_all add: w1_def agent_ok_def tracked_def)
  have eq: "lease_answered cfg gids w = fold start_handler gids w1"
    using False by (simp add: lease_answered_def Let_def w1_def)
  have old: "fst t < wa_next_task w" if "t \<in> set (wa_running w)" for t
    using that assms(1) by (simp add: agent_ok_def tracked_def list_all_iff)
  have "overtaken w (fold start_handler gids w1) ov = ov \<union> (set gids \<inter> snd ` set (wa_running w1))"
  proof -
    have "ov \<subseteq> snd ` set (wa_running w)" using assms(1) by (simp add: agent_ok_def tracked_def)
    moreover have "(\<exists>t. (t, g) \<in> set (wa_running (fold start_handler gids w1)) \<and> wa_next_task w \<le> t) \<longleftrightarrow> g \<in> set gids" for g
      unfolding running_started w1(3,4) using old by (fastforce simp: in_set_conv_nth)
    ultimately show ?thesis
      unfolding overtaken_def w1(3) by (auto simp: running_started w1(3,4))
  qed
  with start_handlers_tracked [OF w1(1) assms(4)]
  have 1: "tracked (fold start_handler gids w1) (overtaken w (fold start_handler gids w1) ov)"
    "length (wa_handlers (fold start_handler gids w1)) \<le> length (wa_handlers w) + length gids"
    by (simp_all add: w1(2))
  have "wa_phase (fold start_handler gids w1) = Idle \<and> same_sizes w1 (fold start_handler gids w1)"
  proof -
    have "wa_phase (fold start_handler gs v) = wa_phase v \<and> same_sizes v (fold start_handler gs v)" for gs v
      by (induction gs arbitrary: v) (simp_all add: same_sizes_def start_handler_def)
    then show ?thesis by (simp add: w1_def)
  qed
  moreover have "sizes_ok limit w1"
    using assms(1) by (simp add: w1_def agent_ok_def sizes_ok_def LEASE_MAX_BACKOFF_FACTOR_def)
  ultimately show ?thesis
    unfolding eq using 1 assms(1-3) same_sizes_ok [of w1 "fold start_handler gids w1" limit]
    by (simp add: agent_ok_def slots_ok_def asked_def)
qed

interpretation runtime: invariant_system "run_started cfg limit" "run_step cfg bcfg limit" "\<lambda>r. agent_ok limit (fst r) (snd r)"
  for cfg bcfg limit
proof unfold_locales
  fix r assume "run_started cfg limit r"
  then show "agent_ok limit (fst r) (snd r)"
    by (simp add: run_started_def started_def new_agent_def agent_ok_def tracked_def sizes_ok_def slots_ok_def asked_def
        LEASE_MAX_BACKOFF_FACTOR_def)
next
  fix r r' assume "agent_ok limit (fst r) (snd r)" and "run_step cfg bcfg limit r r'"
  then obtain w w' ov where ok: "agent_ok limit w ov" and step: "worker_step cfg bcfg limit w w'"
    and r': "r' = (w', overtaken w w' ov)"
    by (auto simp: run_step.simps)
  note frame = agent_ok_def tracked_def sizes_ok_def slots_ok_def asked_def
  have same: "overtaken w w' ov = ov" if "wa_running w' = wa_running w"
    using that ok by (intro overtaken_same) (simp_all add: agent_ok_def)
  from step have "agent_ok limit w' (overtaken w w' ov)"
  proof cases
    case ws_check
    with ok same show ?thesis by (auto simp: pipeline_check_def free_handlers_def Let_def frame)
  next
    case (ws_leased n gids)
    with ok show ?thesis by (auto intro: leased_ok)
  next
    case (ws_lease_failed n)
    with ok same show ?thesis by (auto simp: lease_failed_def bump_backoff_def Let_def frame LEASE_MAX_BACKOFF_FACTOR_def min_def)
  next
    case (ws_finish t)
    have "overtaken w (finish_task t w) ov = {g \<in> ov. g \<in> snd ` set (wa_running (finish_task t w))}"
      using ok by (intro overtaken_fewer) (auto simp: agent_ok_def finish_task_def on_handler_done_def dest: set_remove1_subset [THEN subsetD])
    with ws_finish ok finish_tracked [of w ov t] show ?thesis
      by (auto simp: agent_ok_def sizes_ok_def slots_ok_def finish_task_def on_handler_done_def)
  next
    case (ws_heartbeat resp b)
    with ok same heartbeat_reply_table [of cfg b resp w] show ?thesis by (auto intro: heartbeat_reply_ok)
  next
    case (ws_refused st rst)
    with ok same show ?thesis by (simp add: heartbeat_refused_def frame)
  next
    case ws_begin_reconfig
    with ok same show ?thesis by (auto simp: begin_reconfig_def frame split: list.split)
  next
    case ws_apply_reconfig
    with ok same show ?thesis by (auto simp: apply_reconfig_def frame split: list.split)
  next
    case (ws_backpressure used)
    with ok same show ?thesis by (simp add: backpressure_once_def frame)
  next
    case (ws_janitor dgs)
    with ok same show ?thesis by (simp add: janitor_confirms_def frame)
  next
    case ws_drain
    with ok same show ?thesis by (simp add: start_drain_worker_def frame)
  qed (use ok same in \<open>simp_all add: frame\<close>)
  then show "agent_ok limit (fst r') (snd r')" by (simp add: r')
qed

text \<open>
  C33: The worker knows its handlers, but for the granules that were leased to it again while a handler of theirs was
  still running (\<open>ov\<close>, see \<open>overtaken\<close>). Every entry of the table names a running task; every running task of a granule
  that was not overtaken is in the table, alone; without overtaken granules the table is exact. The handlers in the table
  and the slots asked for together never exceed the largest size the worker was given. The next heartbeat
  reports every granule that is being handled and was not overtaken, every granule whose events are
  still owed, and no others but overtaken ones.
\<close>

theorem worker_tracks_its_handlers:
  assumes "reach (run_started cfg limit) (run_step cfg bcfg limit) (w, ov)"
  shows "prod.swap ` set (wa_handlers w) \<subseteq> set (wa_running w)
    \<and> (\<forall>(t, g) \<in> set (wa_running w). g \<notin> ov \<longrightarrow>
         (g, t) \<in> set (wa_handlers w) \<and> (\<forall>t'. (t', g) \<in> set (wa_running w) \<longrightarrow> t' = t))
    \<and> ov \<subseteq> snd ` set (wa_running w)
    \<and> (ov = {} \<longrightarrow> set (wa_running w) = prod.swap ` set (wa_handlers w) \<and> length (wa_running w) = length (wa_handlers w))
    \<and> int (length (wa_handlers w)) + asked (wa_phase w) \<le> limit
    \<and> (snd ` set (wa_running w) - ov) \<union> pending_granule_ids (wa_events w) \<subseteq> active_granule_ids w
    \<and> active_granule_ids w \<subseteq> snd ` set (wa_running w) \<union> pending_granule_ids (wa_events w)
    \<and> wa_lease_backoff w \<in> {1..3} \<and> wa_empty_backoff w \<in> {1..3}"
proof -
  have ok: "agent_ok limit w ov" using runtime.reachable_inv [OF assms] by simp
  then have tr: "tracked w ov" by (simp add: agent_ok_def)
  have keys: "distinct (map fst (wa_handlers w))"
    and named: "(g, t) \<in> set (wa_handlers w)" if "(t, g) \<in> set (wa_running w)" "g \<notin> ov" for t g
    using tr that unfolding tracked_def by blast+
  have alone: "(g, t) \<in> set (wa_handlers w) \<and> (\<forall>t'. (t', g) \<in> set (wa_running w) \<longrightarrow> t' = t)"
    if "(t, g) \<in> set (wa_running w)" "g \<notin> ov" for t g
    using named [OF that] named [of _ g] that(2) keys [OF that] by (blast dest: eq_key_imp_eq_value)
  have table: "fst ` set (wa_handlers w) \<subseteq> snd ` set (wa_running w)"
    using tr by (force simp: tracked_def)
  have exact: "ov = {} \<longrightarrow> set (wa_running w) = prod.swap ` set (wa_handlers w) \<and> length (wa_running w) = length (wa_handlers w)"
  proof
    assume "ov = {}"
    with tr have "tracked w {}" by simp
    from tracked_exact [OF this]
    show "set (wa_running w) = prod.swap ` set (wa_handlers w) \<and> length (wa_running w) = length (wa_handlers w)" by simp
  qed
  have reported: "snd ` set (wa_running w) - ov \<subseteq> fst ` set (wa_handlers w)"
  proof
    fix g assume "g \<in> snd ` set (wa_running w) - ov"
    then obtain t where "(t, g) \<in> set (wa_running w)" "g \<notin> ov" by auto
    then have "(g, t) \<in> set (wa_handlers w)" by (rule named)
    then show "g \<in> fst ` set (wa_handlers w)" by (metis fst_conv image_eqI)
  qed
  have parts: "prod.swap ` set (wa_handlers w) \<subseteq> set (wa_running w)" "ov \<subseteq> snd ` set (wa_running w)"
    using tr unfolding tracked_def by blast+
  have sizes: "int (length (wa_handlers w)) + asked (wa_phase w) \<le> limit" "wa_lease_backoff w \<in> {1..3}" "wa_empty_backoff w \<in> {1..3}"
    using ok by (simp_all add: agent_ok_def sizes_ok_def slots_ok_def LEASE_MAX_BACKOFF_FACTOR_def)
  have active: "(snd ` set (wa_running w) - ov) \<union> pending_granule_ids (wa_events w) \<subseteq> active_granule_ids w"
    "active_granule_ids w \<subseteq> snd ` set (wa_running w) \<union> pending_granule_ids (wa_events w)"
    using reported table unfolding active_granule_ids_def by blast+
  have each: "\<forall>(t, g) \<in> set (wa_running w). g \<notin> ov \<longrightarrow>
         (g, t) \<in> set (wa_handlers w) \<and> (\<forall>t'. (t', g) \<in> set (wa_running w) \<longrightarrow> t' = t)"
    using alone by blast
  show ?thesis by (intro conjI parts each exact sizes active)
qed

section \<open>Worker and orchestrator\<close>

lemma heartbeat_row:
  assumes "heartbeat ocfg now req d = Inr (resp, d')" and "distinct (map gr_id (granules d))"
    and "get_worker (hb_worker_id req) d = Some wk" and "wk_removed_at wk = None"
    and "hb_active_granule_ids req = Some ids"
    and "g \<in> set (granules d)" and "leased_to (hb_worker_id req) g"
  shows "\<exists>g' \<in> set (granules d'). gr_id g' = gr_id g
    \<and> (if gr_id g \<notin> set ids \<and> gr_updated_at g < now - seconds 60 then gr_state g' = PENDING \<and> gr_leased_by g' = None
       else gr_state g' = gr_state g \<and> leased_to (hb_worker_id req) g')"
proof -
  let ?orph = "orphaned (hb_worker_id req) (Some ids) now"
  let ?h = "if ?orph g then release_row now g else g"
  let ?g' = "if renewable (hb_worker_id req) now ?h then renew_row now ?h else ?h"
  have "granules d' = upd_where (renewable (hb_worker_id req) now) (renew_row now)
      (upd_where ?orph (release_row now) (granules d))"
    using heartbeat_rows(1) [OF assms(1-4)] assms(5) by simp
  moreover have "?h \<in> set (upd_where ?orph (release_row now) (granules d))"
    using assms(6) by (auto simp: in_upd_where_changed in_upd_where_unchanged)
  ultimately have "?g' \<in> set (granules d')"
    by (auto simp: in_upd_where_changed in_upd_where_unchanged)
  moreover have "?orph g \<longleftrightarrow> gr_id g \<notin> set ids \<and> gr_updated_at g < now - seconds 60"
    using assms(7) by (auto simp: orphaned_def)
  ultimately show ?thesis using assms(7)
    by (intro bexI [of _ ?g']) (auto simp: release_row_def renew_row_def leased_to_def renewable_def)
qed

text \<open>
  C34: A heartbeat does not take work in hand away. If a granule leased to the worker has a running handler and was not leased
  to the worker again while an earlier handler of it still ran (\<open>ov\<close>), or if the worker still owes an event of it, then the worker's heartbeat leaves
  the granule in its state and leased to the worker, whatever its age, and does not revoke it. (For a granule leased
  again too early this fails, see \<open>released_granule_untracked\<close>.)
\<close>

theorem heartbeat_spares_active:
  assumes "reach (run_started cfg limit) (run_step cfg bcfg limit) (w, ov)"
    and "(t, gr_id g) \<in> set (wa_running w) \<and> gr_id g \<notin> ov \<or> gr_id g \<in> pending_granule_ids (wa_events w)"
    and "heartbeat ocfg now (heartbeat_request cfg v hm counts w) d = Inr (resp, d')" and "distinct (map gr_id (granules d))"
    and "get_worker (ws_worker_id cfg) d = Some wk" and "wk_removed_at wk = None"
    and "g \<in> set (granules d)" and "leased_to (ws_worker_id cfg) g"
  shows "(\<exists>g' \<in> set (granules d'). gr_id g' = gr_id g \<and> gr_state g' = gr_state g \<and> leased_to (ws_worker_id cfg) g')
    \<and> gr_id g \<notin> set (hr_revoked resp)"
proof -
  let ?req = "heartbeat_request cfg v hm counts w"
  have id: "hb_worker_id ?req = ws_worker_id cfg" by (simp add: heartbeat_request_def)
  obtain ids where ids: "hb_active_granule_ids ?req = Some ids" "set ids = active_granule_ids w"
    using heartbeat_request_active by blast
  have "tracked w ov" using runtime.reachable_inv [OF assms(1)] by (simp add: agent_ok_def)
  with assms(2) have "gr_id g \<in> active_granule_ids w"
    by (force simp: tracked_def active_granule_ids_def)
  with heartbeat_row [OF assms(3, 4) _ assms(6) ids(1) assms(7), unfolded id, OF assms(5, 8)] ids(2)
  have kept: "\<exists>g' \<in> set (granules d'). gr_id g' = gr_id g \<and> gr_state g' = gr_state g \<and> leased_to (ws_worker_id cfg) g'" by auto
  moreover have "hr_revoked resp = filter (\<lambda>i. i \<notin> gr_id ` {g \<in> set (granules d'). leased_to (ws_worker_id cfg) g}) ids"
    using heartbeat_rows [OF assms(3, 4) _ assms(6), unfolded id, OF assms(5)] ids(1) by simp
  moreover from kept have "gr_id g \<in> gr_id ` {g \<in> set (granules d'). leased_to (ws_worker_id cfg) g}" by (metis (mono_tags, lifting) image_eqI mem_Collect_eq)
  ultimately show ?thesis by simp
qed

text \<open>
  A granule leased again while its old handler is still being cancelled is lost from the table: the end of the
  old task removes the entry of the new one. The new handler runs on, but its granule is no longer reported, and
  the next heartbeat after the minute of grace makes the orchestrator give it to somebody else.
\<close>

theorem released_granule_untracked:
  assumes "(t, gr_id g) \<in> set (wa_running w)" and "t < wa_next_task w"
    and "w' = finish_task (t, gr_id g) (start_handler (gr_id g) w)"
    and "gr_id g \<notin> pending_granule_ids (wa_events w)"
    and "heartbeat ocfg now (heartbeat_request cfg v hm counts w') d = Inr (resp, d')" and "distinct (map gr_id (granules d))"
    and "get_worker (ws_worker_id cfg) d = Some wk" and "wk_removed_at wk = None"
    and "g \<in> set (granules d)" and "leased_to (ws_worker_id cfg) g" and "gr_updated_at g < now - seconds 60"
  shows "(wa_next_task w, gr_id g) \<in> set (wa_running w') \<and> gr_id g \<notin> active_granule_ids w'
    \<and> (\<exists>g' \<in> set (granules d'). gr_id g' = gr_id g \<and> gr_state g' = PENDING \<and> gr_leased_by g' = None)"
proof -
  let ?req = "heartbeat_request cfg v hm counts w'"
  have id: "hb_worker_id ?req = ws_worker_id cfg" by (simp add: heartbeat_request_def)
  obtain ids where ids: "hb_active_granule_ids ?req = Some ids" "set ids = active_granule_ids w'"
    using heartbeat_request_active by blast
  have "(wa_next_task w, gr_id g) \<noteq> (t, gr_id g)" using assms(2) by simp
  then have "(wa_next_task w, gr_id g) \<in> set (wa_running w')"
    unfolding assms(3) by (auto simp: finish_task_def on_handler_done_def start_handler_def remove1_append)
  moreover have gone: "gr_id g \<notin> active_granule_ids w'"
    using assms(4) unfolding assms(3)
    by (auto simp: finish_task_def on_handler_done_def start_handler_def active_granule_ids_def AList.delete_eq)
  moreover have "\<exists>g' \<in> set (granules d'). gr_id g' = gr_id g \<and> gr_state g' = PENDING \<and> gr_leased_by g' = None"
    using heartbeat_row [OF assms(5, 6) _ assms(8) ids(1) assms(9), unfolded id, OF assms(7, 10)] gone ids(2) assms(11) by auto
  ultimately show ?thesis by blast
qed

section \<open>Examples\<close>

definition small_worker :: worker_settings where
  "small_worker = \<lparr>ws_worker_id = ''w'', ws_lease_poll_interval = 2, ws_download_concurrency = 1, ws_process_concurrency = 1,
     ws_disk_pause_pct = 85/100, ws_disk_resume_pct = 70/100\<rparr>"

text \<open>The worker has leased one granule.\<close>

definition busy_worker :: worker_agent where
  "busy_worker = lease_answered small_worker [''b:g''] (pipeline_check (new_agent small_worker))"

lemmas busy_simps = busy_worker_def lease_answered_def pipeline_check_def new_agent_def small_worker_def free_handlers_def
  start_handler_def Let_def

lemma busy_reachable:
  "reach (run_started small_worker 2) (run_step small_worker (event_buffer_config 8 8) 2) (busy_worker, {})"
proof -
  have "reach (run_started small_worker 2) (run_step small_worker (event_buffer_config 8 8) 2) (new_agent small_worker, {})"
    by (rule reach_init) (simp add: run_started_def started_def small_worker_def)
  moreover have "run_step small_worker (event_buffer_config 8 8) 2 (new_agent small_worker, {})
      (pipeline_check (new_agent small_worker), overtaken (new_agent small_worker) (pipeline_check (new_agent small_worker)) {})"
    by (rule run_step.intros, rule ws_check) (simp add: new_agent_def)
  moreover have "overtaken (new_agent small_worker) (pipeline_check (new_agent small_worker)) {} = {}"
    by (simp add: overtaken_def busy_simps)
  ultimately have "reach (run_started small_worker 2) (run_step small_worker (event_buffer_config 8 8) 2)
      (pipeline_check (new_agent small_worker), {})" by (metis reach_step)
  moreover have "run_step small_worker (event_buffer_config 8 8) 2 (pipeline_check (new_agent small_worker), {})
      (busy_worker, overtaken (pipeline_check (new_agent small_worker)) busy_worker {})"
    unfolding busy_worker_def by (rule run_step.intros, rule ws_leased [of _ 2]) (simp_all add: busy_simps)
  moreover have "overtaken (pipeline_check (new_agent small_worker)) busy_worker {} = {}"
    by (simp add: overtaken_def busy_simps)
  ultimately show ?thesis by (metis reach_step)
qed

theorem worker_tracks_its_handlers_witness:
  "reach (run_started small_worker 2) (run_step small_worker (event_buffer_config 8 8) 2) (busy_worker, {})
   \<and> wa_running busy_worker = [(0, ''b:g'')]
   \<and> set (wa_running busy_worker) = prod.swap ` set (wa_handlers busy_worker) \<and> ''b:g'' \<in> active_granule_ids busy_worker"
proof -
  have run: "wa_running busy_worker = [(0, ''b:g'')]" by (simp add: busy_simps)
  note facts = worker_tracks_its_handlers [OF busy_reachable]
  from facts have "set (wa_running busy_worker) = prod.swap ` set (wa_handlers busy_worker)" by (elim conjE) blast
  moreover from facts have "snd ` set (wa_running busy_worker) - {} \<subseteq> active_granule_ids busy_worker"
    by (elim conjE) (rule order_trans [OF Un_upper1])
  then have "''b:g'' \<in> active_granule_ids busy_worker" by (simp add: run)
  ultimately show ?thesis using busy_reachable run by blast
qed

definition idle_host :: host_measures where
  "idle_host = \<lparr>hm_disk_used_gb = 1, hm_disk_total_gb = 10, hm_cpu_percent = 0, hm_mem_percent = 0\<rparr>"

lemma beat_answered:
  "\<exists>resp d'. heartbeat sample_settings 100000000 (heartbeat_request small_worker ''1'' idle_host (\<lambda>_. 0) w) (sample_fleet QUEUED None)
     = Inr (resp, d')"
  using heartbeat_Inr [of sample_settings "heartbeat_request small_worker ''1'' idle_host (\<lambda>_. 0) w" "sample_fleet QUEUED None"
      "sample_worker None" 100000000]
  by (simp add: sample_settings_def get_defs get_row_def fleet_defs heartbeat_request_def small_worker_def)

lemma fleet_facts:
  "distinct (map gr_id (granules (sample_fleet QUEUED None)))"
  "get_worker (ws_worker_id small_worker) (sample_fleet QUEUED None) = Some (sample_worker None)"
  "wk_removed_at (sample_worker None) = None"
  "sample_granule QUEUED \<in> set (granules (sample_fleet QUEUED None))"
  "leased_to (ws_worker_id small_worker) (sample_granule QUEUED)"
  "gr_id (sample_granule QUEUED) = ''b:g''" "gr_updated_at (sample_granule QUEUED) < 100000000 - seconds 60"
  by (simp_all add: get_defs get_row_def fleet_defs leased_to_def time_units small_worker_def)

theorem heartbeat_spares_active_witness:
  "\<exists>resp d'. heartbeat sample_settings 100000000 (heartbeat_request small_worker ''1'' idle_host (\<lambda>_. 0) busy_worker)
       (sample_fleet QUEUED None) = Inr (resp, d')
     \<and> (\<exists>g' \<in> set (granules d'). gr_id g' = ''b:g'' \<and> gr_state g' = QUEUED)"
proof -
  obtain resp d' where h: "heartbeat sample_settings 100000000 (heartbeat_request small_worker ''1'' idle_host (\<lambda>_. 0) busy_worker)
      (sample_fleet QUEUED None) = Inr (resp, d')"
    using beat_answered by blast
  have "(0, gr_id (sample_granule QUEUED)) \<in> set (wa_running busy_worker) \<and> gr_id (sample_granule QUEUED) \<notin> {}
      \<or> gr_id (sample_granule QUEUED) \<in> pending_granule_ids (wa_events busy_worker)"
    by (simp add: fleet_facts busy_simps)
  from heartbeat_spares_active [OF busy_reachable this h fleet_facts(1-5)] h
  show ?thesis by (auto simp: fleet_facts(6) sample_granule_def)
qed

definition overtaken_worker :: worker_agent where
  "overtaken_worker = finish_task (0, ''b:g'') (start_handler ''b:g'' busy_worker)"

theorem released_granule_untracked_witness:
  "(1, ''b:g'') \<in> set (wa_running overtaken_worker) \<and> ''b:g'' \<notin> active_granule_ids overtaken_worker
    \<and> (\<exists>resp d'. heartbeat sample_settings 100000000 (heartbeat_request small_worker ''1'' idle_host (\<lambda>_. 0) overtaken_worker)
          (sample_fleet QUEUED None) = Inr (resp, d')
        \<and> (\<exists>g' \<in> set (granules d'). gr_id g' = ''b:g'' \<and> gr_state g' = PENDING))"
proof -
  obtain resp d' where h: "heartbeat sample_settings 100000000
      (heartbeat_request small_worker ''1'' idle_host (\<lambda>_. 0) overtaken_worker) (sample_fleet QUEUED None) = Inr (resp, d')"
    using beat_answered by blast
  have busy: "(0, gr_id (sample_granule QUEUED)) \<in> set (wa_running busy_worker)" "wa_next_task busy_worker = 1"
    "gr_id (sample_granule QUEUED) \<notin> pending_granule_ids (wa_events busy_worker)"
    by (simp_all add: fleet_facts busy_simps pending_granule_ids_def new_buffer_def)
  have over: "overtaken_worker = finish_task (0, gr_id (sample_granule QUEUED)) (start_handler (gr_id (sample_granule QUEUED)) busy_worker)"
    by (simp add: overtaken_worker_def fleet_facts)
  from released_granule_untracked [OF busy(1) _ over busy(3) h fleet_facts(1-5, 7)] busy(2) h
  show ?thesis by (auto simp: fleet_facts(6))
qed

end
