(* ===== verification/WorkerReport.thy ===== *)
theory WorkerReport
  imports WorkerHandler WorkersApi
begin

text \<open>
  What the report of a worker achieves in the orchestrator: the events of one handler (\<open>handle_granule\<close>,
  \<^verbatim>\<open>src/sathop/worker/handler.py\<close>), posted in any batches together with the events of other granules, through the
  batched ingress \<open>emit_events_batch\<close> of \<^verbatim>\<open>src/sathop/orchestrator/api/workers.py\<close>.
\<close>

section \<open>One granule in the batched ingress\<close>

text \<open>The posts of the worker's event buffer, each at its time, in order.\<close>

fun post_batches :: "settings \<Rightarrow> (time \<times> granule_event list) list \<Rightarrow> orch \<Rightarrow> http_error + orch" where
  "post_batches cfg [] d = Inr d"
| "post_batches cfg ((now, evs) # ps) d =
     and_then (emit_events_batch cfg now evs d) (\<lambda>(revoked, d1). post_batches cfg ps d1)"

text \<open>What the objects table says of the uploads of a granule.\<close>

definition uploads_of :: "ident \<Rightarrow> orch \<Rightarrow> object_row list" where
  "uploads_of gid d =
     map (\<lambda>x. \<lparr>or_worker = ob_worker x, or_key = ob_key x, or_url = ob_url x, or_sha256 = ob_sha256 x, or_size = ob_size x\<rparr>)
       (filter (\<lambda>x. ob_granule x = gid) (objects d))"

definition slice :: "ident \<Rightarrow> orch \<Rightarrow> granule option \<times> object_row list" where
  "slice gid d = (get_granule gid d, uploads_of gid d)"

text \<open>One event on the row of its granule: skipped without the lease, or in a conflict with the state.\<close>

definition absorb :: "int \<Rightarrow> granule_event \<times> time \<Rightarrow> granule \<times> object_row list \<Rightarrow> granule \<times> object_row list" where
  "absorb mr et s =
     (case (et, s) of ((e, now), (g, os)) \<Rightarrow>
        if \<not> holds_lease e g then (g, os)
        else (case apply_event (snapshot_of g) (Wire e) now mr of
                Inl c \<Rightarrow> (g, os)
              | Inr r \<Rightarrow> (transition_row r g, os @ new_objects r)))"

definition report_of :: "ident \<Rightarrow> (time \<times> granule_event list) list \<Rightarrow> (granule_event \<times> time) list" where
  "report_of gid posts =
     concat (map (\<lambda>(now, evs). map (\<lambda>e. (e, now)) (filter (\<lambda>e. event_granule e = gid) evs)) posts)"

lemma report_of_events:
  "map fst (report_of gid posts) = filter (\<lambda>e. event_granule e = gid) (concat (map snd posts))"
  by (induction posts) (auto simp: report_of_def comp_def)

lemma uploads_of_added:
  "map (\<lambda>x. \<lparr>or_worker = ob_worker x, or_key = ob_key x, or_url = ob_url x, or_sha256 = ob_sha256 x, or_size = ob_size x\<rparr>)
     (filter (\<lambda>x. ob_granule x = k) (fold (add_object gid now) rs os))
   = map (\<lambda>x. \<lparr>or_worker = ob_worker x, or_key = ob_key x, or_url = ob_url x, or_sha256 = ob_sha256 x, or_size = ob_size x\<rparr>)
       (filter (\<lambda>x. ob_granule x = k) os) @ (if k = gid then rs else [])"
  by (induction rs arbitrary: os) (simp_all add: add_object_def)

lemma report_frame [simp]:
  "get_granule gid (terminal_side_effects ev d) = get_granule gid d" "get_granule gid (commit_and_publish now sc d) = get_granule gid d"
  "uploads_of gid (terminal_side_effects ev d) = uploads_of gid d" "uploads_of gid (commit_and_publish now sc d) = uploads_of gid d"
  using side_effects_tables [of ev d] unfolding tables_iff by (simp_all add: get_granule_def uploads_of_def)

lemma slice_session_own:
  assumes "get_granule gid d = Some g" and "objects_deleted_at r = None"
  shows "slice gid (apply_to_session now g r d) = (Some (transition_row r g), uploads_of gid d @ new_objects r)"
proof -
  have "gr_id g = gid" using assms(1) by (auto simp: get_granule_def dest: get_row_key)
  with assms show ?thesis
    by (simp add: slice_def apply_to_session_def get_granule_def get_row_upd_where uploads_of_def uploads_of_added)
qed

lemma filter_upd_where_other:
  "(\<And>x. p x \<Longrightarrow> \<not> q x) \<Longrightarrow> (\<And>x. p x \<Longrightarrow> \<not> q (f x)) \<Longrightarrow> filter q (upd_where p f xs) = filter q xs"
  by (induction xs) (auto simp: upd_where_def)

lemma slice_session_other:
  assumes "gr_id g \<noteq> gid"
  shows "slice gid (apply_to_session now g r d) = slice gid d"
proof -
  have "map_option (\<lambda>x. if gr_id x = gr_id g \<and> q x then f x else x) (get_row gr_id gid rs) = get_row gr_id gid rs" for q f and rs :: "granule list"
    using assms by (cases "get_row gr_id gid rs") (auto dest: get_row_key simp del: get_row_None)
  moreover from this [of "\<lambda>x. True"]
  have "map_option (\<lambda>x. if gr_id x = gr_id g then f x else x) (get_row gr_id gid rs) = get_row gr_id gid rs" for f and rs :: "granule list" by simp
  moreover have "filter (\<lambda>x. ob_granule x = gid) (upd_where (\<lambda>x. ob_granule x = gr_id g) (\<lambda>x. x\<lparr>ob_deleted_at := t\<rparr>) os)
      = filter (\<lambda>x. ob_granule x = gid) os" for t and os :: "gobject list"
    using assms by (intro filter_upd_where_other) auto
  ultimately show ?thesis
    using assms
    by (auto simp: slice_def apply_to_session_def get_granule_def get_row_upd_where uploads_of_def uploads_of_added
        flip_deleted_def Let_def split: option.split)
qed

lemma batch_event_slice:
  assumes "get_granule gid d = Some g" and "\<not> (event_granule e = gid \<and> is_DeleteConfirmed e)"
  shows "\<exists>g' os'. slice gid (fst (batch_event cfg now e (d, sc, rv))) = (Some g', os')
    \<and> (g', os') = (if event_granule e = gid then absorb (max_retries cfg) (e, now) (g, uploads_of gid d)
                   else (g, uploads_of gid d))"
proof (cases "event_granule e = gid")
  case True
  have "objects_deleted_at r = None" if "apply_event (snapshot_of g) (Wire e) now (max_retries cfg) = Inr r" for r
    using that assms(2) True by (cases e) (auto dest: eventD)
  with assms(1) True slice_session_own [OF assms(1)] show ?thesis
    by (auto simp: batch_event_def absorb_def apply_transition_def slice_def split: sum.split)
next
  case False
  show ?thesis
  proof (cases "get_granule (event_granule e) d")
    case (Some h)
    then have "gr_id h \<noteq> gid" using False by (auto simp: get_granule_def dest: get_row_key)
    with Some False assms(1) slice_session_other [of h gid] show ?thesis
      by (auto simp: batch_event_def apply_transition_def slice_def split: sum.split)
  qed (use False assms(1) in \<open>simp add: batch_event_def slice_def\<close>)
qed

lemma fold_batch_slice:
  assumes "get_granule gid d = Some g" and "\<forall>e \<in> set evs. \<not> (event_granule e = gid \<and> is_DeleteConfirmed e)"
  shows "slice gid (fst (fold (batch_event cfg now) evs (d, sc, rv)))
    = (case fold (absorb (max_retries cfg)) (map (\<lambda>e. (e, now)) (filter (\<lambda>e. event_granule e = gid) evs)) (g, uploads_of gid d)
       of (g', os) \<Rightarrow> (Some g', os))"
  using assms
proof (induction evs arbitrary: d g sc rv)
  case Nil
  then show ?case by (simp add: slice_def)
next
  case (Cons e evs)
  obtain d1 sc1 rv1 where b: "batch_event cfg now e (d, sc, rv) = (d1, sc1, rv1)" by (metis prod_cases3)
  have "\<not> (event_granule e = gid \<and> is_DeleteConfirmed e)" using Cons.prems(2) by simp
  from batch_event_slice [OF Cons.prems(1) this, of cfg now sc rv] b obtain g1 where
    g1: "get_granule gid d1 = Some g1" and
    a: "(g1, uploads_of gid d1) = (if event_granule e = gid then absorb (max_retries cfg) (e, now) (g, uploads_of gid d)
                   else (g, uploads_of gid d))"
    by (auto simp: slice_def)
  from Cons.IH [OF g1] Cons.prems(2) b a [symmetric] show ?case by (auto split: if_splits)
qed

lemma posts_slice:
  assumes "get_granule gid d = Some g"
    and "\<forall>e \<in> set (concat (map snd posts)). \<not> (event_granule e = gid \<and> is_DeleteConfirmed e)"
  shows "\<exists>d'. post_batches cfg posts d = Inr d' \<and> slice gid d'
    = (case fold (absorb (max_retries cfg)) (report_of gid posts) (g, uploads_of gid d) of (g', os) \<Rightarrow> (Some g', os))"
  using assms
proof (induction posts arbitrary: d g)
  case Nil
  then show ?case by (simp add: slice_def report_of_def)
next
  case (Cons p posts)
  obtain now evs where p: "p = (now, evs)" by fastforce
  obtain rv d1 where e: "emit_events_batch cfg now evs d = Inr (rv, d1)" using emit_events_batch_Inr by blast
  let ?own = "map (\<lambda>e. (e, now)) (filter (\<lambda>e. event_granule e = gid) evs)"
  have "slice gid d1 = slice gid (fst (fold (batch_event cfg now) evs (d, [], [])))"
    using e by (auto simp: emit_events_batch_def slice_def split: if_splits prod.splits)
  then have s: "slice gid d1 = (case fold (absorb (max_retries cfg)) ?own (g, uploads_of gid d) of (g', os) \<Rightarrow> (Some g', os))"
    using Cons.prems p by (subst fold_batch_slice [symmetric]) auto
  obtain g1 os1 where f: "fold (absorb (max_retries cfg)) ?own (g, uploads_of gid d) = (g1, os1)" by fastforce
  with s have g1: "get_granule gid d1 = Some g1" "uploads_of gid d1 = os1" by (simp_all add: slice_def)
  from Cons.IH [OF g1(1)] Cons.prems(2) g1(2) f show ?case
    by (auto simp: p e report_of_def)
qed

section \<open>What a report comes to\<close>

lemma absorb_foreign:
  assumes "\<forall>e \<in> set (map fst tes). event_worker e = wid \<and> \<not> is_DeleteConfirmed e" and "gr_leased_by g \<noteq> Some wid"
  shows "fold (absorb mr) tes (g, os) = (g, os)"
  using assms by (induction tes) (auto simp: absorb_def holds_lease_def)

lemmas absorb_simps = absorb_def holds_lease_def waypoints_def machine_defs row_defs stage_row_closing_def

lemma absorb_waypoints:
  assumes "gr_state g = QUEUED" and "gr_leased_by g = Some wid" and "map fst tes = waypoints env wid item"
  shows "\<exists>g1. fold (absorb mr) tes (g, os) = (g1, os) \<and> gr_leased_by g1 = Some wid \<and> gr_retry_count g1 = gr_retry_count g
    \<and> gr_state g1 = (if jv_verbose_download env then if jv_verbose_process env then PROCESSING else DOWNLOADING else QUEUED)"
  using assms by (auto simp: absorb_simps map_eq_Cons_conv split: if_splits)

lemma absorb_some_waypoints:
  assumes "gr_state g = QUEUED" and "gr_leased_by g = Some wid" and "map fst tes = take n (waypoints env wid item)"
  shows "\<exists>g1. fold (absorb mr) tes (g, os) = (g1, os) \<and> gr_leased_by g1 = Some wid \<and> gr_retry_count g1 = gr_retry_count g
    \<and> gr_state g1 \<in> set LEASED_STATES"
  using assms by (auto simp: absorb_simps map_eq_Cons_conv take_Cons' split: if_splits)

lemma report_event:
  assumes "handle_granule env wid dir item = (j, r)" and "e \<in> set (jn_events j)"
  shows "event_granule e = li_granule item \<and> event_worker e = wid \<and> \<not> is_DeleteConfirmed e"
proof -
  have way: "event_granule x = li_granule item \<and> event_worker x = wid \<and> \<not> is_DeleteConfirmed x"
    if "x \<in> set (waypoints env wid item)" for x
    using that by (auto simp: waypoints_def split: if_splits)
  show ?thesis
    using assms(1)
  proof (cases rule: handle_cases [case_names up fail cancel unprepared])
    case (up os)
    with assms(2) way show ?thesis by auto
  next
    case (fail n x)
    with assms(2) way [OF in_set_takeD] show ?thesis
      by (auto simp: processing_failed_from_result_def processing_failed_from_exception_def)
  next
    case (cancel n)
    with assms(2) way [OF in_set_takeD] show ?thesis by auto
  next
    case (unprepared x)
    with assms(2) show ?thesis by simp
  qed
qed

text \<open>
  C31: What a report achieves, through the real ingress. The events of a handler that returned reach the orchestrator in any number of
  posts, in their order, mixed with the events of other granules. If the granule was \<open>QUEUED\<close> and leased to the worker, then a
  successful handler ends in \<open>UPLOADED\<close>, the lease released and the uploads added, except in one case: if the operator
  switches the fleet from verbose to fast between the start of the download and the start of the processing, the
  upload is refused, and the granule stays \<open>DOWNLOADING\<close>, still leased, without a new object although its work is done. A failed handler
  always releases the granule and counts one failure. If the granule is not leased to the worker, the posts
  leave it and its uploads as they were.
\<close>

theorem report_outcome:
  assumes "get_granule (li_granule item) d = Some g" and "gr_state g = QUEUED"
    and "handle_granule env wid dir item = (j, Inr ())"
    and "filter (\<lambda>e. event_granule e = li_granule item) (concat (map snd posts)) = jn_events j"
  shows "\<exists>d' g'. post_batches cfg posts d = Inr d' \<and> get_granule (li_granule item) d' = Some g'
    \<and> (if gr_leased_by g \<noteq> Some wid then g' = g \<and> uploads_of (li_granule item) d' = uploads_of (li_granule item) d
       else
         (case last (jn_events j) of
            UploadCompleted i w os p q \<Rightarrow>
              if jv_verbose_download env \<and> \<not> jv_verbose_process env
              then gr_state g' = DOWNLOADING \<and> gr_leased_by g' = Some wid
                 \<and> uploads_of (li_granule item) d' = uploads_of (li_granule item) d
              else gr_state g' = UPLOADED \<and> gr_leased_by g' = None
                 \<and> uploads_of (li_granule item) d' = uploads_of (li_granule item) d @ map (uploaded_row wid) os
          | ProcessingFailed i w t so se x \<Rightarrow>
              gr_state g' = (if max_retries cfg \<le> gr_retry_count g + 1 then BLACKLISTED else PENDING)
              \<and> gr_leased_by g' = None \<and> gr_retry_count g' = gr_retry_count g + 1
              \<and> uploads_of (li_granule item) d' = uploads_of (li_granule item) d
          | _ \<Rightarrow> False))"
proof -
  let ?gid = "li_granule item" and ?mr = "max_retries cfg"
  let ?os = "uploads_of ?gid d"
  let ?tes = "report_of ?gid posts"
  have events: "map fst ?tes = jn_events j" using assms(4) by (simp add: report_of_events)
  have mine: "event_granule e = ?gid \<and> event_worker e = wid \<and> \<not> is_DeleteConfirmed e" if "e \<in> set (jn_events j)" for e
    using report_event [OF assms(3) that] .
  have "\<forall>e \<in> set (concat (map snd posts)). \<not> (event_granule e = ?gid \<and> is_DeleteConfirmed e)"
  proof
    fix e assume "e \<in> set (concat (map snd posts))"
    then have "event_granule e = ?gid \<longrightarrow> e \<in> set (jn_events j)" unfolding assms(4) [symmetric] by simp
    with mine show "\<not> (event_granule e = ?gid \<and> is_DeleteConfirmed e)" by blast
  qed
  from posts_slice [OF assms(1) this, of cfg] obtain d' g' os' where
    d': "post_batches cfg posts d = Inr d'" "get_granule ?gid d' = Some g'" "uploads_of ?gid d' = os'"
    and f: "fold (absorb ?mr) ?tes (g, ?os) = (g', os')"
    by (auto simp: slice_def split: prod.splits)
  show ?thesis
  proof (cases "gr_leased_by g = Some wid")
    case False
    have "fold (absorb ?mr) ?tes (g, ?os) = (g, ?os)"
      using mine False unfolding events [symmetric] by (intro absorb_foreign) auto
    with d' f False show ?thesis by simp
  next
    case True
    show ?thesis
      using assms(3)
    proof (cases rule: handle_cases [case_names up fail cancel unprepared])
      case (up os)
      with events obtain tes te where tes: "?tes = tes @ [te]" "map fst tes = waypoints env wid item"
        "fst te = UploadCompleted ?gid wid os (Some (jv_process_ms env)) (if jv_verbose_upload env then None else Some (jv_download_ms env))"
        by (auto simp: map_eq_append_conv)
      obtain g1 where g1: "fold (absorb ?mr) tes (g, ?os) = (g1, ?os)" "gr_leased_by g1 = Some wid"
        "gr_state g1 = (if jv_verbose_download env then if jv_verbose_process env then PROCESSING else DOWNLOADING else QUEUED)"
        using absorb_waypoints [OF assms(2) True tes(2), of ?mr ?os] by blast
      have "absorb ?mr te (g1, ?os) = (g', os')" using f g1(1) tes(1) by simp
      with g1(2,3) tes(3) d' True up show ?thesis
        by (cases te) (auto simp: absorb_def holds_lease_def machine_defs row_defs upload_fields_def split: if_splits)
    next
      case (fail n e)
      with events obtain tes te where tes: "?tes = tes @ [te]" "map fst tes = take n (waypoints env wid item)" "fst te = e"
        by (auto simp: map_eq_append_conv)
      obtain g1 where g1: "fold (absorb ?mr) tes (g, ?os) = (g1, ?os)" "gr_leased_by g1 = Some wid"
        "gr_retry_count g1 = gr_retry_count g" "gr_state g1 \<in> set LEASED_STATES"
        using absorb_some_waypoints [OF assms(2) True tes(2), of ?mr ?os] by blast
      have "absorb ?mr te (g1, ?os) = (g', os')" using f g1(1) tes(1) by simp
      with g1(2-4) tes(3) d' True fail show ?thesis
        by (cases te) (auto simp: absorb_def holds_lease_def machine_defs row_defs processing_failed_from_result_def
            processing_failed_from_exception_def split: if_splits option.splits)
    qed simp_all
  qed
qed

text \<open>Two posts, with an event of another granule between, while the fleet is switched from verbose to fast.\<close>

theorem report_outcome_witness:
  "\<exists>j d' g'. handle_granule (demo_env True False) ''w'' [''in''] demo_lease = (j, Inr ())
     \<and> post_batches sample_settings [(5, take 1 (jn_events j) @ [DownloadStarted ''b:h'' ''w'']), (9, drop 1 (jn_events j))]
         (sample_orch QUEUED None) = Inr d'
     \<and> get_granule ''b:g'' d' = Some g' \<and> gr_state g' = DOWNLOADING \<and> gr_leased_by g' = Some ''w''"
proof -
  obtain j where j: "handle_granule (demo_env True False) ''w'' [''in''] demo_lease = (j, Inr ())"
    and e: "jn_events j = [DownloadStarted ''b:g'' ''w'',
          UploadCompleted ''b:g'' ''w'' [\<lparr>uo_key = ''o'', uo_url = ''u'', uo_sha256 = ''00'', uo_size = 1\<rparr>] (Some 20) (Some 10)]"
    using demo_handled by blast
  let ?posts = "[(5, take 1 (jn_events j) @ [DownloadStarted ''b:h'' ''w'']), (9, drop 1 (jn_events j))]"
  have gid: "li_granule demo_lease = ''b:g''" by (simp add: demo_lease_def)
  have row: "get_granule (li_granule demo_lease) (sample_orch QUEUED None) = Some (sample_granule QUEUED)"
    by (simp add: gid get_granule_def get_row_def sample_defs)
  have q: "gr_state (sample_granule QUEUED) = QUEUED" "gr_leased_by (sample_granule QUEUED) = Some ''w''"
    by (simp_all add: sample_granule_def)
  have posts: "filter (\<lambda>e. event_granule e = li_granule demo_lease) (concat (map snd ?posts)) = jn_events j"
    by (simp add: gid e)
  from report_outcome [OF row q(1) j posts, of sample_settings] obtain d' g' where
    "post_batches sample_settings ?posts (sample_orch QUEUED None) = Inr d'" "get_granule ''b:g'' d' = Some g'"
    "gr_state g' = DOWNLOADING" "gr_leased_by g' = Some ''w''"
    by (auto simp: gid q(2) e demo_env_def)
  with j show ?thesis by blast
qed

end
