(* ===== verification/Downloader.thy ===== *)
theory Downloader
  imports Wire Database "HOL-Library.Word" "HOL-Library.Sublist"
begin

text \<open>
  The resumable download of an input (\<^verbatim>\<open>src/sathop/worker/downloader.py\<close>, \<^verbatim>\<open>HttpDownloader.fetch\<close>) and the
  translation of credentials for its two backends. The server is a parameter, the answer to each of the
  at most two requests; the partial file and the destination are lists of bytes.
\<close>

section \<open>Credentials\<close>

datatype http_auth = NoAuth | BasicAuth string string | BearerAuth string

definition given :: "string option \<Rightarrow> bool" where
  "given v \<longleftrightarrow> (case v of None \<Rightarrow> False | Some s \<Rightarrow> s \<noteq> [])"

definition httpx_auth_and_headers :: "credential option \<Rightarrow> http_auth" where
  "httpx_auth_and_headers auth =
     (case auth of
        None \<Rightarrow> NoAuth
      | Some c \<Rightarrow>
          if cr_scheme c = ''basic'' \<and> given (cr_username c) \<and> given (cr_password c)
          then BasicAuth (the (cr_username c)) (the (cr_password c))
          else if cr_scheme c = ''bearer'' \<and> given (cr_token c) then BearerAuth (the (cr_token c))
          else NoAuth)"

text \<open>The options of aria2: names and values.\<close>

definition aria2_auth_options :: "credential option \<Rightarrow> (string \<times> string) list" where
  "aria2_auth_options auth =
     (case auth of
        None \<Rightarrow> []
      | Some c \<Rightarrow>
          if cr_scheme c = ''basic'' \<and> given (cr_username c) \<and> given (cr_password c)
          then [(''http-user'', the (cr_username c)), (''http-passwd'', the (cr_password c))]
          else if cr_scheme c = ''bearer'' \<and> given (cr_token c)
          then [(''header'', ''Authorization: Bearer '' @ the (cr_token c))]
          else [])"

text \<open>The two translators agree: the options of aria2 are those of the authentication httpx uses.\<close>

lemma auth_translators_agree:
  "aria2_auth_options auth =
     (case httpx_auth_and_headers auth of
        NoAuth \<Rightarrow> []
      | BasicAuth u p \<Rightarrow> [(''http-user'', u), (''http-passwd'', p)]
      | BearerAuth t \<Rightarrow> [(''header'', ''Authorization: Bearer '' @ t)])"
  by (simp add: aria2_auth_options_def httpx_auth_and_headers_def split: option.split)

section \<open>The length a server declares\<close>

text \<open>\<^verbatim>\<open>int(s)\<close> on a header: spaces around, one sign, digits with single underscores between them.\<close>

fun digit_groups :: "string \<Rightarrow> bool" where
  "digit_groups [] = False"
| "digit_groups [c] = is_digit c"
| "digit_groups (c # d # cs) =
     (is_digit c \<and> (if d = CHR ''_'' then digit_groups cs else digit_groups (d # cs)))"

definition unsigned_int :: "string \<Rightarrow> int option" where
  "unsigned_int s = (if digit_groups s then Some (int (nat_of_digits (filter (\<lambda>c. c \<noteq> CHR ''_'') s))) else None)"

definition py_int :: "string \<Rightarrow> int option" where
  "py_int s =
     (case strip s of
        [] \<Rightarrow> None
      | c # cs \<Rightarrow>
          if c = CHR ''-'' then map_option uminus (unsigned_int cs)
          else if c = CHR ''+'' then unsigned_int cs
          else unsigned_int (c # cs))"

definition safe_int :: "string option \<Rightarrow> int option" where
  "safe_int s = (case s of None \<Rightarrow> None | Some t \<Rightarrow> py_int t)"

section \<open>One answer\<close>

type_synonym bytes = "8 word list"

text \<open>
  An answer: none at all, or a status, the headers \<^verbatim>\<open>Content-Range\<close>, \<^verbatim>\<open>Content-Encoding\<close> and \<^verbatim>\<open>Content-Length\<close>, the
  chunks of the (decoded) body, and whether the body ends with an error.
\<close>

datatype reply =
    NoReply
  | Reply nat string string "string option" "bytes list" bool

datatype download_error = TransportFailed | BadStatus nat | InvalidRange | NotComplete | Exceeds | Shorter

text \<open>
  What an attempt comes to: a restart without a range, a failure with the partial file it leaves, or
  the complete file.
\<close>

datatype attempt_result =
    Restart
  | Failed download_error "bytes option"
  | Complete bytes

fun receive :: "int option \<Rightarrow> bytes list \<Rightarrow> bool \<Rightarrow> bytes \<Rightarrow> attempt_result" where
  "receive size_total [] broken f =
     (if broken then Failed TransportFailed (Some f)
      else case size_total of
             None \<Rightarrow> Complete f
           | Some n \<Rightarrow> if int (length f) \<noteq> n then Failed Shorter (Some f) else Complete f)"
| "receive size_total (c # cs) broken f =
     (case size_total of
        None \<Rightarrow> receive size_total cs broken (f @ c)
      | Some n \<Rightarrow>
          if int (length f) + int (length c) > n then Failed Exceeds (Some f)
          else receive size_total cs broken (f @ c))"

definition partial_file :: "bytes option \<Rightarrow> bytes" where
  "partial_file tmp = (case tmp of None \<Rightarrow> [] | Some f \<Rightarrow> f)"

definition size_of :: "bytes option \<Rightarrow> nat" where
  "size_of tmp = length (partial_file tmp)"

definition encoded :: "string \<Rightarrow> bool" where
  "encoded enc \<longleftrightarrow> map lower enc \<noteq> ''identity''"

text \<open>\<open>existing\<close> is the length of the partial file as long as the request asks to resume it, and 0 after a restart.\<close>

definition fetch_attempt :: "nat \<Rightarrow> nat \<Rightarrow> bytes option \<Rightarrow> reply \<Rightarrow> attempt_result" where
  "fetch_attempt attempt existing tmp r =
     (case r of
        NoReply \<Rightarrow> Failed TransportFailed tmp
      | Reply status cr enc cl chunks broken \<Rightarrow>
          if status = 416 \<and> existing \<noteq> 0 \<and> unsatisfied_range_size cr = Some existing
          then Complete (partial_file tmp)
          else if status = 416 \<and> existing \<noteq> 0 \<and> attempt = 0 then Restart
          else if \<not> (200 \<le> status \<and> status < 300) then Failed (BadStatus status) tmp
          else if status = 206 then
            (case parse_content_range cr of
               None \<Rightarrow> Failed InvalidRange tmp
             | Some rng \<Rightarrow>
                 (case cr_total rng of
                    None \<Rightarrow> Failed InvalidRange tmp
                  | Some n \<Rightarrow>
                      if cr_start rng \<noteq> existing \<or> int (cr_end rng) \<noteq> int n - 1 \<or> encoded enc then Failed InvalidRange tmp
                      else receive (Some (int n)) chunks broken
                             (if existing \<noteq> 0 then partial_file tmp else [])))
          else if status \<noteq> 200 then Failed NotComplete tmp
          else receive (if encoded enc then None else safe_int cl) chunks broken [])"

text \<open>\<open>replies k\<close> answers request \<open>k\<close>; the result is the error or the file at the destination, with the partial file left over.\<close>

definition http_fetch :: "(nat \<Rightarrow> nat \<Rightarrow> reply) \<Rightarrow> bytes option \<Rightarrow> (download_error + bytes) \<times> bytes option" where
  "http_fetch replies tmp =
     (let finish = (\<lambda>r. case r of
          Complete f \<Rightarrow> (Inr f, None)
        | Failed e t \<Rightarrow> (Inl e, t)
        | Restart \<Rightarrow> (Inl (BadStatus 416), tmp))
      in case fetch_attempt 0 (size_of tmp) tmp (replies 0 (size_of tmp)) of
           Restart \<Rightarrow> finish (fetch_attempt 1 0 tmp (replies 1 0))
         | r \<Rightarrow> finish r)"

section \<open>A download is exact\<close>

text \<open>
  What HTTP promises of the answers about one object that does not change: the unsatisfied range of a 416 and the total of a
  partial response are its size; the body of a 206 are its bytes from the start of the range on; the body of a 200 are
  its first bytes, all of them when it ends without an error and no length is declared, and a declared length is its size.
\<close>

definition truthful :: "bytes \<Rightarrow> reply \<Rightarrow> bool" where
  "truthful obj r \<longleftrightarrow>
     (case r of
        NoReply \<Rightarrow> True
      | Reply status cr enc cl chunks broken \<Rightarrow>
          (status = 416 \<longrightarrow> unsatisfied_range_size cr \<in> {None, Some (length obj)})
          \<and> (status = 206 \<longrightarrow> (case parse_content_range cr of None \<Rightarrow> True
                | Some rng \<Rightarrow> cr_total rng \<in> {None, Some (length obj)} \<and> prefix (concat chunks) (drop (cr_start rng) obj)))
          \<and> (status = 200 \<longrightarrow> prefix (concat chunks) obj
                \<and> (if encoded enc \<or> safe_int cl = None then broken \<or> concat chunks = obj else safe_int cl = Some (int (length obj)))))"

lemma same_length_prefix: "prefix f obj \<Longrightarrow> length f = length obj \<Longrightarrow> f = obj"
  by (auto simp: prefix_def)

definition exact_so_far :: "bytes \<Rightarrow> attempt_result \<Rightarrow> bool" where
  "exact_so_far obj r \<longleftrightarrow>
     (case r of Complete g \<Rightarrow> g = obj | Failed e t \<Rightarrow> prefix (partial_file t) obj | Restart \<Rightarrow> True)"

lemma exact_so_far_simps [simp]:
  "exact_so_far obj (Complete g) \<longleftrightarrow> g = obj"
  "exact_so_far obj (Failed e t) \<longleftrightarrow> prefix (partial_file t) obj"
  "exact_so_far obj Restart"
  by (simp_all add: exact_so_far_def)

lemma partial_file_simps [simp]: "partial_file None = []" "partial_file (Some f) = f"
  by (simp_all add: partial_file_def)

lemma receive_exact:
  assumes "prefix (f @ concat chunks) obj"
    and "case size_total of None \<Rightarrow> broken \<or> f @ concat chunks = obj | Some n \<Rightarrow> n = int (length obj)"
  shows "exact_so_far obj (receive size_total chunks broken f)"
  using assms
proof (induction size_total chunks broken f rule: receive.induct)
  case (1 size_total broken f)
  then show ?case by (auto split: option.splits intro: same_length_prefix)
next
  case (2 size_total c cs broken f)
  have "prefix f obj" using 2(3) by (auto simp: prefix_def)
  with 2 show ?case by (cases size_total) simp_all
qed

lemma receive_no_restart: "receive size_total chunks broken f \<noteq> Restart"
  by (induction size_total chunks broken f rule: receive.induct) (auto split: option.split)

lemma attempt_partial:
  assumes "truthful obj (Reply 206 cr enc cl chunks broken)" and "prefix (partial_file tmp) obj" and "existing \<in> {0, size_of tmp}"
  shows "exact_so_far obj (fetch_attempt n existing tmp (Reply 206 cr enc cl chunks broken))"
proof (cases "\<exists>rng m. parse_content_range cr = Some rng \<and> cr_total rng = Some m \<and> cr_start rng = existing
    \<and> int (cr_end rng) = int m - 1 \<and> \<not> encoded enc")
  case True
  then obtain rng m where rng: "parse_content_range cr = Some rng" "cr_total rng = Some m" "cr_start rng = existing"
    "int (cr_end rng) = int m - 1" "\<not> encoded enc" by blast
  then have m: "m = length obj" and body: "prefix (concat chunks) (drop existing obj)"
    using assms(1) by (auto simp: truthful_def)
  let ?start = "if existing \<noteq> 0 then partial_file tmp else []"
  have "?start = take existing obj"
    using assms(2, 3) by (auto simp: prefix_def size_of_def split: if_splits)
  moreover obtain zs where "drop existing obj = concat chunks @ zs" using body by (auto simp: prefix_def)
  ultimately have "(?start @ concat chunks) @ zs = obj"
    using append_take_drop_id [of existing obj] by (simp only: append_assoc)
  then have "prefix (?start @ concat chunks) obj" by (metis prefixI)
  then have "exact_so_far obj (receive (Some (int m)) chunks broken ?start)"
    by (rule receive_exact) (simp add: m)
  with rng show ?thesis by (simp add: fetch_attempt_def)
next
  case False
  then have "fetch_attempt n existing tmp (Reply 206 cr enc cl chunks broken) = Failed InvalidRange tmp"
    by (auto simp: fetch_attempt_def split: option.split)
  with assms(2) show ?thesis by simp
qed

lemma attempt_whole:
  assumes "truthful obj (Reply 200 cr enc cl chunks broken)"
  shows "exact_so_far obj (fetch_attempt n existing tmp (Reply 200 cr enc cl chunks broken))"
proof -
  have "prefix ([] @ concat chunks) obj"
    and "case (if encoded enc then None else safe_int cl) of
         None \<Rightarrow> broken \<or> [] @ concat chunks = obj | Some n \<Rightarrow> n = int (length obj)"
    using assms by (auto simp: truthful_def split: option.splits if_splits)
  then have "exact_so_far obj (receive (if encoded enc then None else safe_int cl) chunks broken [])" by (rule receive_exact)
  then show ?thesis by (simp add: fetch_attempt_def)
qed

lemma attempt_exact:
  assumes "truthful obj r" and "prefix (partial_file tmp) obj" and "existing \<in> {0, size_of tmp}"
  shows "exact_so_far obj (fetch_attempt n existing tmp r)"
proof (cases r)
  case NoReply
  with assms(2) show ?thesis by (simp add: fetch_attempt_def)
next
  case (Reply status cr enc cl chunks broken)
  consider (unsatisfied) "status = 416" "existing \<noteq> 0" "unsatisfied_range_size cr = Some existing" | (partial) "status = 206"
    | (whole) "status = 200" | (other) "status \<noteq> 206" "status \<noteq> 200" "\<not> (status = 416 \<and> existing \<noteq> 0 \<and> unsatisfied_range_size cr = Some existing)"
    by blast
  then show ?thesis
  proof cases
    case unsatisfied
    then have "existing = length obj" using assms(1) Reply by (simp add: truthful_def)
    moreover have "existing = length (partial_file tmp)" using unsatisfied(2) assms(3) by (simp add: size_of_def)
    ultimately have "partial_file tmp = obj" using assms(2) by (auto intro: same_length_prefix)
    with unsatisfied Reply show ?thesis by (simp add: fetch_attempt_def)
  next
    case partial
    with Reply assms attempt_partial show ?thesis by blast
  next
    case whole
    with Reply assms(1) attempt_whole show ?thesis by blast
  next
    case other
    then have "fetch_attempt n existing tmp r \<in> {Restart, Failed (BadStatus status) tmp, Failed NotComplete tmp}"
      unfolding Reply by (simp add: fetch_attempt_def)
    with assms(2) show ?thesis by auto
  qed
qed

lemma no_second_restart: "fetch_attempt (Suc n) existing tmp r \<noteq> Restart"
  by (auto simp: fetch_attempt_def receive_no_restart split: reply.split option.split)

text \<open>
  C21: A resumed download never mixes files. If the partial file is a beginning of the object and the answers are truthful about the object,
  then a download that succeeds has exactly the object at its destination and leaves no partial file, however it was
  resumed, restarted or declared; and one that fails leaves a partial file that is still a
  beginning of the object, so the next attempt may resume it.
\<close>

theorem download_exact:
  assumes "\<forall>k pos. truthful obj (replies k pos)" and "prefix (partial_file tmp) obj"
  shows "case http_fetch replies tmp of
      (Inr f, t) \<Rightarrow> f = obj \<and> t = None
    | (Inl e, t) \<Rightarrow> prefix (partial_file t) obj"
proof -
  have "exact_so_far obj (fetch_attempt 0 (size_of tmp) tmp (replies 0 (size_of tmp)))"
    and "exact_so_far obj (fetch_attempt 1 0 tmp (replies 1 0))"
    using assms by (auto intro!: attempt_exact)
  with no_second_restart [of 0 0 tmp "replies 1 0"] show ?thesis
    by (cases "fetch_attempt 0 (size_of tmp) tmp (replies 0 (size_of tmp))"; cases "fetch_attempt 1 0 tmp (replies 1 0)")
      (simp_all add: http_fetch_def Let_def)
qed

text \<open>Three bytes are there; the server has five and sends the rest.\<close>

definition demo_replies :: "nat \<Rightarrow> nat \<Rightarrow> reply" where
  "demo_replies k pos =
     (if pos = 0 then Reply 200 [] ''identity'' (Some ''5'') [[1, 2, 3, 4, 5]] False
      else if pos = 3 then Reply 206 ''bytes 3-4/5'' ''identity'' (Some ''2'') [[4], [5]] False
      else NoReply)"

lemma demo_range: "parse_content_range ''bytes 3-4/5'' = Some \<lparr>cr_start = 3, cr_end = 4, cr_total = Some 5\<rparr>"
  by code_simp

lemma demo_length: "safe_int (Some ''5'') = Some 5"
  by code_simp

lemma demo_identity: "\<not> encoded ''identity''"
  by code_simp

lemma demo_truthful: "truthful [1, 2, 3, 4, 5] (demo_replies k pos)"
  by (simp add: truthful_def demo_replies_def demo_range demo_length demo_identity)

theorem download_exact_witness:
  "fst (http_fetch demo_replies (Some [1, 2, 3])) \<in> range Inr
   \<and> http_fetch demo_replies (Some [1, 2, 3]) = (Inr [1, 2, 3, 4, 5], None)"
proof -
  have "fst (http_fetch demo_replies (Some [1, 2, 3])) = Inr [1, 2, 3, 4, 5]" by code_simp
  with download_exact [of "[1, 2, 3, 4, 5]" demo_replies "Some [1, 2, 3]"] show ?thesis
    by (cases "http_fetch demo_replies (Some [1, 2, 3])") (auto simp: demo_truthful)
qed

end
