(* ===== verification/Processor.thy ===== *)
theory Processor
  imports WorkerHandler Manifest "HOL-Library.Word"
begin

text \<open>
  The plugin runner of a worker (\<^verbatim>\<open>src/sathop/worker/processor.py\<close>): the environment a bundle runs in, the
  bounded capture of what it prints, and what its run comes to. The subprocess is a parameter; so are the
  rendering of the meta data as JSON and the decoding of bytes.
\<close>

section \<open>The environment of a bundle\<close>

type_synonym environment = "string \<rightharpoonup> string"

record bundle_handle =
  bh_manifest :: bundle_manifest
  bh_root :: string
  bh_python :: string
  bh_shared_dir :: string

text \<open>\<^verbatim>\<open>Path.parent\<close> of a normalised path.\<close>

definition path_parent :: "string \<Rightarrow> string" where
  "path_parent p =
     (if CHR ''/'' \<notin> set p then ''.''
      else if fst (rsplit1 (CHR ''/'') p) = [] then ''/'' else fst (rsplit1 (CHR ''/'') p))"

definition ENV_WHITELIST :: "string list" where
  "ENV_WHITELIST =
     [''PATH'', ''LANG'', ''LC_ALL'', ''LC_CTYPE'', ''LC_MESSAGES'', ''TZ'', ''TMPDIR'', ''TMP'', ''TEMP'', ''SYSTEMROOT'', ''WINDIR'',
      ''PROGRAMFILES'', ''PROGRAMFILES(X86)'', ''PATHEXT'', ''COMSPEC'', ''NUMBER_OF_PROCESSORS'', ''PROCESSOR_ARCHITECTURE'',
      ''OS'', ''COMPUTERNAME'']"

text \<open>The arguments that describe one run.\<close>

record run_request =
  rr_granule :: ident
  rr_batch :: ident
  rr_work_dir :: string
  rr_input_dir :: string
  rr_output_dir :: string
  rr_meta_json :: string
  rr_execution_env :: "(string \<times> string) list option"
  rr_progress_url :: "string option"

definition system_env :: "string \<Rightarrow> bundle_handle \<Rightarrow> run_request \<Rightarrow> environment \<Rightarrow> (string \<times> string) list" where
  "system_env pathsep b r os =
     [(''PATH'', path_parent (bh_python b) @ pathsep @ (case os ''PATH'' of None \<Rightarrow> [] | Some p \<Rightarrow> p)),
      (''SATHOP_INPUT_DIR'', rr_input_dir r),
      (''SATHOP_OUTPUT_DIR'', rr_output_dir r),
      (''SATHOP_WORK_DIR'', rr_work_dir r),
      (''SATHOP_SHARED_DIR'', bh_shared_dir b),
      (''SATHOP_GRANULE_ID'', rr_granule r),
      (''SATHOP_BATCH_ID'', rr_batch r),
      (''SATHOP_META_JSON'', rr_meta_json r),
      (''SATHOP_BUNDLE_PYTHON'', bh_python b)]"

definition build_env :: "string \<Rightarrow> bundle_handle \<Rightarrow> run_request \<Rightarrow> environment \<Rightarrow> environment" where
  "build_env pathsep b r os =
     (let env = (\<lambda>k. if k \<in> set ENV_WHITELIST then os k else None);
          env = env ++ map_of (rev (ex_env (bm_execution (bh_manifest b))));
          env = (case rr_execution_env r of None \<Rightarrow> env | Some e \<Rightarrow> env ++ map_of (rev e));
          env = env ++ map_of (rev (system_env pathsep b r os))
      in case rr_progress_url r of
           None \<Rightarrow> env
         | Some url \<Rightarrow> if url = [] then env else env(''SATHOP_PROGRESS_URL'' \<mapsto> url))"

definition system_keys :: "string list" where
  "system_keys = [''PATH'', ''SATHOP_INPUT_DIR'', ''SATHOP_OUTPUT_DIR'', ''SATHOP_WORK_DIR'', ''SATHOP_SHARED_DIR'', ''SATHOP_GRANULE_ID'',
     ''SATHOP_BATCH_ID'', ''SATHOP_META_JSON'', ''SATHOP_BUNDLE_PYTHON'']"

lemma system_env_keys: "map fst (system_env pathsep b r os) = system_keys"
  by (simp add: system_env_def system_keys_def)

lemma distinct_system_keys: "distinct system_keys"
  by (simp add: system_keys_def)

lemma system_env_value:
  "map_of (rev (system_env pathsep b r os)) = map_of (system_env pathsep b r os)"
proof (rule map_of_inject_set [THEN iffD2])
  show "distinct (map fst (rev (system_env pathsep b r os)))" "distinct (map fst (system_env pathsep b r os))"
    using distinct_system_keys by (simp_all add: rev_map [symmetric] system_env_keys)
qed simp

lemma same_whitelist_system:
  "(\<forall>k \<in> set ENV_WHITELIST. os k = os' k) \<Longrightarrow> system_env pathsep b r os = system_env pathsep b r os'"
  by (simp add: system_env_def ENV_WHITELIST_def)

text \<open>
  C22: The environment of a bundle is isolated. It does not depend on any variable of the worker outside the whitelist: two
  workers that agree on the whitelisted variables give the same environment, whatever else (a token, a home directory) they
  hold. Neither the manifest nor the batch can replace a variable the system owns, the progress address included.
  Of the remaining ones the batch overrides the manifest, and the manifest the worker.
\<close>

theorem bundle_env_isolated:
  "((\<forall>k \<in> set ENV_WHITELIST. os k = os' k) \<longrightarrow> build_env pathsep b r os = build_env pathsep b r os')
   \<and> (\<forall>(k, v) \<in> set (system_env pathsep b r os). build_env pathsep b r os k = Some v)
   \<and> (\<forall>url. rr_progress_url r = Some url \<and> url \<noteq> [] \<longrightarrow> build_env pathsep b r os ''SATHOP_PROGRESS_URL'' = Some url)
   \<and> (\<forall>k. k \<notin> set system_keys \<and> k \<noteq> ''SATHOP_PROGRESS_URL'' \<longrightarrow>
        build_env pathsep b r os k =
          (case (case rr_execution_env r of None \<Rightarrow> None | Some e \<Rightarrow> map_of (rev e) k) of
             Some v \<Rightarrow> Some v
           | None \<Rightarrow>
               (case map_of (rev (ex_env (bm_execution (bh_manifest b)))) k of
                  Some v \<Rightarrow> Some v
                | None \<Rightarrow> if k \<in> set ENV_WHITELIST then os k else None)))"
proof (intro conjI)
  show "(\<forall>k \<in> set ENV_WHITELIST. os k = os' k) \<longrightarrow> build_env pathsep b r os = build_env pathsep b r os'"
  proof
    assume agree: "\<forall>k \<in> set ENV_WHITELIST. os k = os' k"
    then have "(\<lambda>k. if k \<in> set ENV_WHITELIST then os k else None) = (\<lambda>k. if k \<in> set ENV_WHITELIST then os' k else None)" by auto
    with same_whitelist_system [OF agree] show "build_env pathsep b r os = build_env pathsep b r os'"
      by (simp only: build_env_def)
  qed
next
  have system: "build_env pathsep b r os k = Some v" if kv: "(k, v) \<in> set (system_env pathsep b r os)" for k v
  proof -
    have "map_of (system_env pathsep b r os) k = Some v"
      using kv distinct_system_keys by (simp add: system_env_keys)
    moreover have "k \<noteq> ''SATHOP_PROGRESS_URL''" using kv by (auto simp: system_env_def)
    ultimately show ?thesis by (auto simp: build_env_def Let_def system_env_value split: option.split)
  qed
  then show "\<forall>(k, v) \<in> set (system_env pathsep b r os). build_env pathsep b r os k = Some v" by blast
next
  show "\<forall>url. rr_progress_url r = Some url \<and> url \<noteq> [] \<longrightarrow> build_env pathsep b r os ''SATHOP_PROGRESS_URL'' = Some url"
    by (simp add: build_env_def Let_def)
next
  show "\<forall>k. k \<notin> set system_keys \<and> k \<noteq> ''SATHOP_PROGRESS_URL'' \<longrightarrow>
        build_env pathsep b r os k =
          (case (case rr_execution_env r of None \<Rightarrow> None | Some e \<Rightarrow> map_of (rev e) k) of
             Some v \<Rightarrow> Some v
           | None \<Rightarrow>
               (case map_of (rev (ex_env (bm_execution (bh_manifest b)))) k of
                  Some v \<Rightarrow> Some v
                | None \<Rightarrow> if k \<in> set ENV_WHITELIST then os k else None))"
  proof (intro allI impI)
    fix k assume k: "k \<notin> set system_keys \<and> k \<noteq> ''SATHOP_PROGRESS_URL''"
    then have "map_of (system_env pathsep b r os) k = None"
      by (metis system_env_keys map_of_eq_None_iff list.set_map)
    with k show "build_env pathsep b r os k =
          (case (case rr_execution_env r of None \<Rightarrow> None | Some e \<Rightarrow> map_of (rev e) k) of
             Some v \<Rightarrow> Some v
           | None \<Rightarrow>
               (case map_of (rev (ex_env (bm_execution (bh_manifest b)))) k of
                  Some v \<Rightarrow> Some v
                | None \<Rightarrow> if k \<in> set ENV_WHITELIST then os k else None))"
      by (auto simp: build_env_def Let_def system_env_value map_add_def split: option.split)
  qed
qed

text \<open>A worker that holds a token, and one that does not; the manifest sets the locale, the batch replaces it.\<close>

definition demo_handle :: "string \<Rightarrow> string list \<Rightarrow> bundle_handle" where
  "demo_handle watch_dir extensions =
     \<lparr>bh_manifest = sample_parsed\<lparr>
        bm_execution := \<lparr>ex_entrypoint = ''run.sh'', ex_timeout_sec = 900, ex_env = [(''LANG'', ''C''), (''SATHOP_BATCH_ID'', ''other'')]\<rparr>,
        bm_outputs := \<lparr>ou_watch_dir = watch_dir, ou_extensions = extensions, ou_object_key_template = ''{stem}{ext}''\<rparr>\<rparr>,
      bh_root = ''/cache/x@1.0'', bh_python = ''/usr/bin/python'', bh_shared_dir = ''/shared''\<rparr>"

definition demo_request :: run_request where
  "demo_request = \<lparr>rr_granule = ''b:g'', rr_batch = ''b'', rr_work_dir = ''/w'', rr_input_dir = ''/w/input'', rr_output_dir = ''/w/output'',
     rr_meta_json = ''{}'', rr_execution_env = Some [(''LANG'', ''C.UTF-8'')], rr_progress_url = None\<rparr>"

theorem bundle_env_isolated_witness:
  "let os = [''PATH'' \<mapsto> ''/bin'', ''SATHOP_TOKEN'' \<mapsto> ''secret'']; env = build_env '':'' (demo_handle ''output'' []) demo_request os
   in env = build_env '':'' (demo_handle ''output'' []) demo_request [''PATH'' \<mapsto> ''/bin'']
      \<and> env ''PATH'' = Some ''/usr/bin:/bin'' \<and> env ''SATHOP_BATCH_ID'' = Some ''b'' \<and> env ''LANG'' = Some ''C.UTF-8''"
proof -
  let ?os = "[''PATH'' \<mapsto> ''/bin'', ''SATHOP_TOKEN'' \<mapsto> ''secret'']"
  let ?b = "demo_handle ''output'' []"
  have same: "\<forall>k \<in> set ENV_WHITELIST. ?os k = [''PATH'' \<mapsto> ''/bin''] k" by (simp add: ENV_WHITELIST_def)
  have sys: "system_env '':'' ?b demo_request ?os =
      [(''PATH'', ''/usr/bin:/bin''), (''SATHOP_INPUT_DIR'', ''/w/input''), (''SATHOP_OUTPUT_DIR'', ''/w/output''), (''SATHOP_WORK_DIR'', ''/w''),
       (''SATHOP_SHARED_DIR'', ''/shared''), (''SATHOP_GRANULE_ID'', ''b:g''), (''SATHOP_BATCH_ID'', ''b''), (''SATHOP_META_JSON'', ''{}''),
       (''SATHOP_BUNDLE_PYTHON'', ''/usr/bin/python'')]"
    by (simp add: system_env_def demo_handle_def demo_request_def path_parent_def rsplit1_def)
  have lang: "''LANG'' \<notin> set system_keys \<and> ''LANG'' \<noteq> ''SATHOP_PROGRESS_URL''" by (simp add: system_keys_def)
  note isolated = bundle_env_isolated [of ?os "[''PATH'' \<mapsto> ''/bin'']" "'':''" ?b demo_request]
  have "build_env '':'' ?b demo_request ?os ''LANG'' = Some ''C.UTF-8''"
    using isolated lang by (simp add: demo_request_def)
  moreover have "build_env '':'' ?b demo_request ?os ''PATH'' = Some ''/usr/bin:/bin''"
      "build_env '':'' ?b demo_request ?os ''SATHOP_BATCH_ID'' = Some ''b''"
    using isolated by (simp_all add: sys)
  moreover have "build_env '':'' ?b demo_request ?os = build_env '':'' ?b demo_request [''PATH'' \<mapsto> ''/bin'']"
    using isolated same by blast
  ultimately show ?thesis by (simp add: Let_def)
qed

section \<open>What a bundle prints\<close>

definition OUTPUT_CAP_BYTES :: nat where
  "OUTPUT_CAP_BYTES = 64 * 1024"

text \<open>
  A pipe yields its chunks, at last the empty one; an element is a byte of any representation. A stream that
  does not exist has printed nothing.
\<close>

fun drain_loop :: "nat \<Rightarrow> 'a list list \<Rightarrow> 'a list \<Rightarrow> bool \<Rightarrow> 'a list \<times> bool" where
  "drain_loop cap [] buf truncated = (buf, truncated)"
| "drain_loop cap (chunk # chunks) buf truncated =
     (if chunk = [] then (buf, truncated)
      else let room = cap - length buf in
        if room > 0 then
          drain_loop cap chunks (buf @ take room chunk) (if length chunk > room then True else truncated)
        else drain_loop cap chunks buf True)"

definition drain_to_cap :: "'a list list option \<Rightarrow> nat \<Rightarrow> 'a list \<times> bool" where
  "drain_to_cap stream cap = (case stream of None \<Rightarrow> ([], False) | Some chunks \<Rightarrow> drain_loop cap chunks [] False)"

lemma drain_loop_exact:
  assumes "length buf \<le> cap" and "truncated \<longrightarrow> length buf = cap"
  shows "drain_loop cap chunks buf truncated =
    (take cap (buf @ concat (takeWhile (\<lambda>c. c \<noteq> []) chunks)),
     truncated \<or> cap < length buf + length (concat (takeWhile (\<lambda>c. c \<noteq> []) chunks)))"
  using assms
proof (induction chunks arbitrary: buf truncated)
  case (Cons chunk chunks)
  show ?case
  proof (cases "chunk = []")
    case False
    show ?thesis
    proof (cases "length buf < cap")
      case True
      let ?buf = "buf @ take (cap - length buf) chunk"
      have "drain_loop cap (chunk # chunks) buf truncated =
          drain_loop cap chunks ?buf (if cap - length buf < length chunk then True else truncated)"
        using False True by (simp add: Let_def)
      also have "\<dots> = (take cap (?buf @ concat (takeWhile (\<lambda>c. c \<noteq> []) chunks)),
          (if cap - length buf < length chunk then True else truncated)
          \<or> cap < length ?buf + length (concat (takeWhile (\<lambda>c. c \<noteq> []) chunks)))"
        by (rule Cons.IH) (use True Cons.prems in auto)
      also have "\<dots> = (take cap (buf @ chunk @ concat (takeWhile (\<lambda>c. c \<noteq> []) chunks)),
          truncated \<or> cap < length buf + length (chunk @ concat (takeWhile (\<lambda>c. c \<noteq> []) chunks)))"
        using True by auto
      finally show ?thesis using False by simp
    next
      case full: False
      with Cons.prems have "length buf = cap" by simp
      moreover have "0 < length chunk" using False by simp
      ultimately show ?thesis using False Cons.IH [of buf True] by simp
    qed
  qed (use Cons.prems in simp)
qed simp

text \<open>The reference: the first \<open>cap\<close> bytes of everything printed, and whether there were more.\<close>

lemma drain_to_cap_exact:
  "drain_to_cap (Some chunks) cap =
     (let printed = concat (takeWhile (\<lambda>c. c \<noteq> []) chunks) in (take cap printed, cap < length printed))"
  by (simp add: drain_to_cap_def drain_loop_exact Let_def)

section \<open>The directories of a run\<close>

text \<open>Absolute paths as lists of segments.\<close>

definition path_str :: "string list \<Rightarrow> string" where
  "path_str p = concat (map (\<lambda>s. ''/'' @ s) p)"

definition path_parts :: "string \<Rightarrow> string list" where
  "path_parts s = filter (\<lambda>p. p \<noteq> [] \<and> p \<noteq> ''.'') (split_on (CHR ''/'') s)"

definition output_dir :: "string list \<Rightarrow> string \<Rightarrow> string list" where
  "output_dir run_dir watch_dir =
     (if starts_with ''/'' watch_dir then path_parts watch_dir else run_dir @ path_parts watch_dir)"

text \<open>
  \<^verbatim>\<open>output_dir.mkdir(parents=True)\<close> refuses a directory that exists. Inside the fresh scratch directory of the run these are the
  directory itself and its input directory; elsewhere the file system answers.
\<close>

definition make_output_dir :: "(string list \<Rightarrow> exc option) \<Rightarrow> string list \<Rightarrow> string \<Rightarrow> exc option" where
  "make_output_dir elsewhere run_dir watch_dir =
     (let d = output_dir run_dir watch_dir
      in if take (length run_dir) d = run_dir \<and> ''..'' \<notin> set (drop (length run_dir) d)
         then (if drop (length run_dir) d \<in> {[], [''input'']} then Some (OtherExc ''FileExistsError'') else None)
         else elsewhere d)"

text \<open>
  Staging of the inputs: a hard link when one can be made, else a copy. The file system is the contents of
  the files, by the path that owns them, and the owner of every name in the input directory; a copy onto a link of the same file is refused.
\<close>

record 'c staging =
  sg_contents :: "string list \<Rightarrow> 'c"
  sg_names :: "string \<rightharpoonup> string list"

fun stage_inputs :: "bool \<Rightarrow> string list \<Rightarrow> string list list \<Rightarrow> 'c staging \<Rightarrow> exc + 'c staging" where
  "stage_inputs linkable input_dir [] fs = Inr fs"
| "stage_inputs linkable input_dir (src # srcs) fs =
     (let dst = last src
      in case sg_names fs dst of
           None \<Rightarrow>
             if linkable then stage_inputs linkable input_dir srcs (fs\<lparr>sg_names := (sg_names fs)(dst \<mapsto> src)\<rparr>)
             else stage_inputs linkable input_dir srcs
                    (fs\<lparr>sg_contents := (sg_contents fs)(input_dir @ [dst] := sg_contents fs src),
                        sg_names := (sg_names fs)(dst \<mapsto> input_dir @ [dst])\<rparr>)
         | Some owner \<Rightarrow>
             if owner = src then Inl (OtherExc ''SameFileError'')
             else stage_inputs linkable input_dir srcs
                    (fs\<lparr>sg_contents := (sg_contents fs)(owner := sg_contents fs src)\<rparr>))"

section \<open>One run\<close>

text \<open>\<^verbatim>\<open>Path.suffix\<close> of a file name (Python 3.11 to 3.13).\<close>

definition path_suffix :: "string \<Rightarrow> string" where
  "path_suffix nm =
     (if CHR ''.'' \<notin> set nm then []
      else let (stem, ext) = rsplit1 (CHR ''.'') nm in if stem \<noteq> [] \<and> ext \<noteq> [] then CHR ''.'' # ext else [])"

text \<open>What the subprocess does: its exit code, its two streams and the entries below the output directory, files or not.\<close>

datatype subprocess =
    NotStarted exc
  | TimedOut
  | Interrupted
  | Exited int "8 word list list option" "8 word list list option" "(string list \<times> bool) list"

record 'c runner =
  ru_os_env :: environment
  ru_pathsep :: string
  ru_dumps :: "pyval \<Rightarrow> string"
  ru_decode :: "8 word list \<Rightarrow> string"
  ru_linkable :: bool
  ru_contents :: "string list \<Rightarrow> 'c"
  ru_elsewhere :: "string list \<Rightarrow> exc option"
  ru_scratch :: string
  ru_spawn :: "string \<Rightarrow> string \<Rightarrow> environment \<Rightarrow> int \<Rightarrow> 'c staging \<Rightarrow> subprocess"

definition captured :: "(8 word list \<Rightarrow> string) \<Rightarrow> string \<Rightarrow> 8 word list list option \<Rightarrow> string" where
  "captured decode stream_name stream =
     (let (bytes, truncated) = drain_to_cap stream OUTPUT_CAP_BYTES;
          text = (if bytes \<noteq> [] then decode bytes else [])
      in if truncated
         then text @ [CHR 0x0A] @ ''[... '' @ stream_name @ '' truncated at '' @ show_nat OUTPUT_CAP_BYTES @ '' bytes]''
         else text)"

definition collected :: "string list \<Rightarrow> (string list \<times> bool) list \<Rightarrow> string list list" where
  "collected exts entries =
     map fst (filter (\<lambda>(rel, is_file). is_file \<and> (exts = [] \<or> path_suffix (last rel) \<in> set exts)) entries)"

definition run_result :: "string list \<Rightarrow> string list \<Rightarrow> int \<Rightarrow> string \<Rightarrow> string \<Rightarrow> (string list \<times> bool) list \<Rightarrow> process_result" where
  "run_result work_dir exts code stdout' stderr' entries =
     (if code \<noteq> 0 then \<lparr>pr_ok = False, pr_outputs = [], pr_stdout = stdout', pr_stderr = stderr', pr_exit_code = code\<rparr>
      else let outputs = collected exts entries in
        if outputs = [] then
          \<lparr>pr_ok = False, pr_outputs = [], pr_stdout = stdout',
           pr_stderr = stderr' @ [CHR 0x0A] @ ''[no outputs produced]'', pr_exit_code = 0\<rparr>
        else
          \<lparr>pr_ok = True, pr_outputs = map (\<lambda>rel. path_str (work_dir @ ''output'' # rel)) outputs,
           pr_stdout = stdout', pr_stderr = stderr', pr_exit_code = 0\<rparr>)"

definition run_bundle ::
  "'c runner \<Rightarrow> bundle_handle \<Rightarrow> ident \<Rightarrow> ident \<Rightarrow> pyval \<Rightarrow> string list \<Rightarrow> (string \<times> string) list option \<Rightarrow> string option
   \<Rightarrow> string list list \<Rightarrow> failure + process_result" where
  "run_bundle ru b gid bid meta work_dir execution_env progress_url inputs =
     (let run_dir = work_dir @ [ru_scratch ru];
          input_dir = run_dir @ [''input''];
          outs = bm_outputs (bh_manifest b);
          exe = bm_execution (bh_manifest b)
      in case make_output_dir (ru_elsewhere ru) run_dir (ou_watch_dir outs) of
           Some e \<Rightarrow> Inl (Raised e)
         | None \<Rightarrow>
             (case stage_inputs (ru_linkable ru) input_dir inputs \<lparr>sg_contents = ru_contents ru, sg_names = Map.empty\<rparr> of
                Inl e \<Rightarrow> Inl (Raised e)
              | Inr fs \<Rightarrow>
                  let env = build_env (ru_pathsep ru) b
                        \<lparr>rr_granule = gid, rr_batch = bid, rr_work_dir = path_str run_dir, rr_input_dir = path_str input_dir,
                         rr_output_dir = path_str (output_dir run_dir (ou_watch_dir outs)), rr_meta_json = ru_dumps ru meta,
                         rr_execution_env = execution_env, rr_progress_url = progress_url\<rparr> (ru_os_env ru)
                  in case ru_spawn ru (ex_entrypoint exe) (bh_root b) env (ex_timeout_sec exe) fs of
                       NotStarted e \<Rightarrow> Inl (Raised e)
                     | TimedOut \<Rightarrow> Inl (Raised (OtherExc ''TimeoutError''))
                     | Interrupted \<Rightarrow> Inl Cancelled
                     | Exited code out err entries \<Rightarrow>
                         Inr (run_result work_dir (ou_extensions outs) code
                                (captured (ru_decode ru) ''stdout'' out) (captured (ru_decode ru) ''stderr'' err) entries)))"

section \<open>Staged inputs\<close>

lemma stage_inputs_step:
  assumes "distinct (map last srcs)" and "\<forall>src \<in> set srcs. sg_names fs (last src) = None \<and> butlast src \<noteq> input_dir"
  shows "\<exists>fs'. stage_inputs linkable input_dir srcs fs = Inr fs'
    \<and> (\<forall>n. n \<notin> last ` set srcs \<longrightarrow> sg_names fs' n = sg_names fs n)
    \<and> (\<forall>f. butlast f \<noteq> input_dir \<or> last f \<notin> last ` set srcs \<longrightarrow> sg_contents fs' f = sg_contents fs f)
    \<and> (\<forall>src \<in> set srcs. \<exists>owner. sg_names fs' (last src) = Some owner \<and> sg_contents fs' owner = sg_contents fs src)"
  using assms
proof (induction srcs arbitrary: fs)
  case (Cons src srcs)
  let ?linked = "fs\<lparr>sg_names := (sg_names fs)(last src \<mapsto> src)\<rparr>"
  let ?copied = "fs\<lparr>sg_contents := (sg_contents fs)(input_dir @ [last src] := sg_contents fs src),
    sg_names := (sg_names fs)(last src \<mapsto> input_dir @ [last src])\<rparr>"
  let ?next = "if linkable then ?linked else ?copied"
  have step: "stage_inputs linkable input_dir (src # srcs) fs = stage_inputs linkable input_dir srcs ?next"
    using Cons.prems(2) by (simp add: Let_def)
  have "\<forall>x \<in> set srcs. sg_names ?next (last x) = None \<and> butlast x \<noteq> input_dir" using Cons.prems by (force simp: image_iff)
  with Cons.prems(1) Cons.IH [of ?next] obtain fs' where fs': "stage_inputs linkable input_dir srcs ?next = Inr fs'"
      and names: "\<forall>n. n \<notin> last ` set srcs \<longrightarrow> sg_names fs' n = sg_names ?next n"
      and kept: "\<forall>f. butlast f \<noteq> input_dir \<or> last f \<notin> last ` set srcs \<longrightarrow> sg_contents fs' f = sg_contents ?next f"
      and rest: "\<forall>x \<in> set srcs. \<exists>owner. sg_names fs' (last x) = Some owner \<and> sg_contents fs' owner = sg_contents ?next x"
    by auto
  have src: "last src \<notin> last ` set srcs" "butlast src \<noteq> input_dir" using Cons.prems by auto
  have same: "sg_contents ?next f = sg_contents fs f" if "butlast f \<noteq> input_dir \<or> last f \<noteq> last src" for f
    using that by (auto simp: butlast_append)
  have "\<exists>owner. sg_names fs' (last src) = Some owner \<and> sg_contents fs' owner = sg_contents fs src"
    using names kept src by (cases linkable) auto
  moreover have "\<exists>owner. sg_names fs' (last x) = Some owner \<and> sg_contents fs' owner = sg_contents fs x" if "x \<in> set srcs" for x
    using rest same [of x] Cons.prems(2) that by fastforce
  moreover have "sg_names fs' n = sg_names fs n" if "n \<notin> last ` set (src # srcs)" for n
    using names that by auto
  moreover have "sg_contents fs' f = sg_contents fs f" if "butlast f \<noteq> input_dir \<or> last f \<notin> last ` set (src # srcs)" for f
    using kept same that by auto
  ultimately show ?case unfolding step fs' by auto
qed simp

text \<open>
  Inputs of different names are staged as they are, linked or copied, and nothing outside the input
  directory changes.
\<close>

lemma staged_inputs_exact:
  assumes "distinct (map last srcs)" and "\<forall>src \<in> set srcs. butlast src \<noteq> input_dir"
  shows "\<exists>fs'. stage_inputs linkable input_dir srcs \<lparr>sg_contents = c, sg_names = Map.empty\<rparr> = Inr fs'
    \<and> dom (sg_names fs') = last ` set srcs
    \<and> (\<forall>src \<in> set srcs. map_option (sg_contents fs') (sg_names fs' (last src)) = Some (c src))
    \<and> (\<forall>f. butlast f \<noteq> input_dir \<longrightarrow> sg_contents fs' f = c f)"
proof -
  let ?fs = "\<lparr>sg_contents = c, sg_names = Map.empty\<rparr>"
  obtain fs' where fs': "stage_inputs linkable input_dir srcs ?fs = Inr fs'"
      and names: "\<forall>n. n \<notin> last ` set srcs \<longrightarrow> sg_names fs' n = None"
      and kept: "\<forall>f. butlast f \<noteq> input_dir \<longrightarrow> sg_contents fs' f = c f"
      and srcs: "\<forall>src \<in> set srcs. \<exists>owner. sg_names fs' (last src) = Some owner \<and> sg_contents fs' owner = c src"
    using stage_inputs_step [OF assms(1), of ?fs input_dir linkable] assms(2) by auto
  have "dom (sg_names fs') = last ` set srcs" using names srcs by (force simp: dom_def)
  moreover have "\<forall>src \<in> set srcs. map_option (sg_contents fs') (sg_names fs' (last src)) = Some (c src)" using srcs by fastforce
  ultimately show ?thesis using fs' kept by blast
qed

text \<open>Two inputs of the same file name are one file; where links can be made its second staging is refused.\<close>

lemma repeated_input_refused:
  assumes "sg_names fs (last src) = None"
  shows "stage_inputs True input_dir (src # src # srcs) fs = Inl (OtherExc ''SameFileError'')"
  using assms by (simp add: Let_def)

section \<open>What a run comes to\<close>

lemma run_result_ok:
  "pr_ok (run_result work_dir exts code out err entries) \<longleftrightarrow> code = 0 \<and> collected exts entries \<noteq> []"
  "pr_outputs (run_result work_dir exts code out err entries) =
     (if code = 0 then map (\<lambda>rel. path_str (work_dir @ ''output'' # rel)) (collected exts entries) else [])"
  "pr_exit_code (run_result work_dir exts code out err entries) = code"
  "pr_stdout (run_result work_dir exts code out err entries) = out"
  "pr_stderr (run_result work_dir exts code out err entries) =
     err @ (if code = 0 \<and> collected exts entries = [] then [CHR 0x0A] @ ''[no outputs produced]'' else [])"
  by (simp_all add: run_result_def Let_def)

text \<open>What of a stream is shown: its text whole, up to 64 KiB, and past them the beginning and a note.\<close>

definition shown :: "(8 word list \<Rightarrow> string) \<Rightarrow> string \<Rightarrow> 8 word list \<Rightarrow> string" where
  "shown decode nm printed =
     (if printed = [] then []
      else if length printed \<le> OUTPUT_CAP_BYTES then decode printed
      else decode (take OUTPUT_CAP_BYTES printed) @ [CHR 0x0A] @ ''[... '' @ nm @ '' truncated at 65536 bytes]'')"

text \<open>The bytes a process prints: the chunks read up to the empty one, which marks the end of the stream.\<close>

definition printed :: "8 word list list \<Rightarrow> 8 word list" where
  "printed chunks = concat (takeWhile (\<lambda>c. c \<noteq> []) chunks)"

lemma captured_shown: "captured decode nm (Some chunks) = shown decode nm (printed chunks)"
proof -
  have "show_nat OUTPUT_CAP_BYTES = ''65536''" by (simp add: OUTPUT_CAP_BYTES_def show_nat.simps char_of_def bit_0)
  moreover have "OUTPUT_CAP_BYTES \<noteq> 0" by (simp add: OUTPUT_CAP_BYTES_def)
  ultimately show ?thesis
    unfolding captured_def drain_to_cap_exact shown_def printed_def [symmetric] by (simp add: Let_def)
qed

text \<open>
  C23: A bundle that runs to its end succeeds exactly if its exit code is 0 and it leaves a file of a declared extension (any
  file, if none is declared). The outputs are then all such files, under the directory of the granule, and otherwise none;
  the exit code is the one of the process; and each of the two captured texts is what the bundle printed on that stream, up to
  64 KiB, with a note if and only if something is missing. A run that exits with 0 and leaves no such file
  is not a success: it keeps the exit code 0 and says so at the end of its error text, and only then.
\<close>

theorem run_bundle_exact:
  assumes "make_output_dir (ru_elsewhere ru) (work_dir @ [ru_scratch ru]) (ou_watch_dir (bm_outputs (bh_manifest b))) = None"
    and "distinct (map last inputs)" and "\<forall>src \<in> set inputs. butlast src \<noteq> work_dir @ [ru_scratch ru, ''input'']"
    and "\<And>cmd cwd env timeout fs. ru_spawn ru cmd cwd env timeout fs = Exited code (Some out) (Some err) entries"
  shows "\<exists>r. run_bundle ru b gid bid meta work_dir execution_env url inputs = Inr r
    \<and> (let wanted = {rel. (rel, True) \<in> set entries \<and> (ou_extensions (bm_outputs (bh_manifest b)) = []
              \<or> path_suffix (last rel) \<in> set (ou_extensions (bm_outputs (bh_manifest b))))}
       in (pr_ok r \<longleftrightarrow> code = 0 \<and> wanted \<noteq> {})
          \<and> set (pr_outputs r) = (if code = 0 then (\<lambda>rel. path_str (work_dir @ ''output'' # rel)) ` wanted else {})
          \<and> pr_exit_code r = code
          \<and> pr_stdout r = shown (ru_decode ru) ''stdout'' (printed out)
          \<and> pr_stderr r = shown (ru_decode ru) ''stderr'' (printed err)
               @ (if code = 0 \<and> wanted = {} then [CHR 0x0A] @ ''[no outputs produced]'' else []))"
proof -
  let ?exts = "ou_extensions (bm_outputs (bh_manifest b))"
  let ?r = "run_result work_dir ?exts code (captured (ru_decode ru) ''stdout'' (Some out)) (captured (ru_decode ru) ''stderr'' (Some err)) entries"
  let ?wanted = "{rel. (rel, True) \<in> set entries \<and> (?exts = [] \<or> path_suffix (last rel) \<in> set ?exts)}"
  have run: "run_bundle ru b gid bid meta work_dir execution_env url inputs = Inr ?r"
    using staged_inputs_exact [of inputs "work_dir @ [ru_scratch ru, ''input'']" "ru_linkable ru" "ru_contents ru"] assms
    by (auto simp: run_bundle_def Let_def)
  have wanted: "set (collected ?exts entries) = ?wanted" by (force simp: collected_def)
  have none: "collected ?exts entries = [] \<longleftrightarrow> ?wanted = {}" by (metis set_empty wanted)
  then have ok: "pr_ok ?r \<longleftrightarrow> code = 0 \<and> ?wanted \<noteq> {}" by (simp only: run_result_ok)
  have outputs: "set (pr_outputs ?r) = (if code = 0 then (\<lambda>rel. path_str (work_dir @ ''output'' # rel)) ` ?wanted else {})"
    by (simp only: run_result_ok set_map wanted if_distrib [where f = set] list.set)
  have code: "pr_exit_code ?r = code" by (simp only: run_result_ok)
  have out: "pr_stdout ?r = shown (ru_decode ru) ''stdout'' (printed out)"
    by (simp only: run_result_ok captured_shown)
  have err: "pr_stderr ?r = shown (ru_decode ru) ''stderr'' (printed err)
      @ (if code = 0 \<and> ?wanted = {} then [CHR 0x0A] @ ''[no outputs produced]'' else [])"
    by (simp only: run_result_ok captured_shown none)
  from run ok outputs code out err show ?thesis unfolding Let_def by blast
qed

text \<open>A bundle that prints two lines and leaves one file of its extension and one other.\<close>

definition demo_runner :: "nat runner" where
  "demo_runner = \<lparr>ru_os_env = Map.empty, ru_pathsep = '':'', ru_dumps = (\<lambda>_. ''{}''), ru_decode = map (char_of \<circ> unat), ru_linkable = True,
     ru_contents = (\<lambda>_. 0), ru_elsewhere = (\<lambda>_. None), ru_scratch = ''run-x'',
     ru_spawn = (\<lambda>_ _ _ _ _. Exited 0 (Some [[104], [105], []]) (Some [[33]]) [([''a.tif''], True), ([''notes.txt''], True), ([''d''], False)])\<rparr>"

lemma demo_output_dir: "make_output_dir elsewhere [''w'', ''run-x''] ''output'' = None"
  by (simp add: make_output_dir_def output_dir_def path_parts_def starts_with_def)

theorem run_bundle_exact_witness:
  "\<exists>r. run_bundle demo_runner (demo_handle ''output'' [''.tif'']) ''b:g'' ''b'' PNone [''w''] None None [[''w'', ''input'', ''in.hdf'']] = Inr r
     \<and> pr_ok r \<and> set (pr_outputs r) = {''/w/output/a.tif''} \<and> pr_exit_code r = 0
     \<and> pr_stdout r = ''hi'' \<and> pr_stderr r = ''!''"
proof -
  let ?b = "demo_handle ''output'' [''.tif'']"
  have outs: "bm_outputs (bh_manifest ?b) = \<lparr>ou_watch_dir = ''output'', ou_extensions = [''.tif''], ou_object_key_template = ''{stem}{ext}''\<rparr>"
    by (simp add: demo_handle_def)
  have "path_suffix ''a.tif'' = ''.tif''" "path_suffix ''notes.txt'' = ''.txt''" by code_simp+
  then have wanted: "{rel. (rel, True) \<in> set [([''a.tif''], True), ([''notes.txt''], True), ([''d''], False)] \<and> ([''.tif''] = []
      \<or> path_suffix (last rel) \<in> set [''.tif''])} = {[''a.tif'']}" by auto
  let ?run = "run_bundle demo_runner ?b ''b:g'' ''b'' PNone [''w''] None None [[''w'', ''input'', ''in.hdf'']]"
  have dir: "make_output_dir (ru_elsewhere demo_runner) ([''w''] @ [ru_scratch demo_runner]) (ou_watch_dir (bm_outputs (bh_manifest ?b))) = None"
    by (simp add: demo_runner_def outs demo_output_dir)
  have inputs: "distinct (map last [[''w'', ''input'', ''in.hdf'']])"
    "\<forall>src \<in> set [[''w'', ''input'', ''in.hdf'']]. butlast src \<noteq> [''w''] @ [ru_scratch demo_runner, ''input'']"
    by (simp_all add: demo_runner_def)
  have spawn: "ru_spawn demo_runner cmd cwd env timeout fs = Exited 0 (Some [[104], [105], []]) (Some [[33]])
      [([''a.tif''], True), ([''notes.txt''], True), ([''d''], False)]" for cmd cwd env timeout fs
    by (simp add: demo_runner_def)
  obtain r where r: "?run = Inr r" "pr_ok r \<longleftrightarrow> (0 :: int) = 0 \<and> {[''a.tif'']} \<noteq> {}"
      "set (pr_outputs r) = (if (0 :: int) = 0 then (\<lambda>rel. path_str ([''w''] @ ''output'' # rel)) ` {[''a.tif'']} else {})"
      "pr_exit_code r = 0" "pr_stdout r = shown (ru_decode demo_runner) ''stdout'' (printed [[104], [105], []])"
      "pr_stderr r = shown (ru_decode demo_runner) ''stderr'' (printed [[33]])
         @ (if (0 :: int) = 0 \<and> {[''a.tif'']} = {} then [CHR 0x0A] @ ''[no outputs produced]'' else [])"
    using run_bundle_exact [OF dir inputs spawn, of "''b:g''" "''b''" PNone None None]
    unfolding outs outputs_config.select_convs wanted Let_def by (elim exE conjE) (rule that)
  have "path_str [''w'', ''output'', ''a.tif''] = ''/w/output/a.tif''" by (simp add: path_str_def)
  moreover have decoded: "ru_decode demo_runner [104, 105] = ''hi''" "ru_decode demo_runner [33] = ''!''" by code_simp+
  then have "shown (ru_decode demo_runner) ''stdout'' (printed [[104], [105], []]) = ''hi''"
    and "shown (ru_decode demo_runner) ''stderr'' (printed [[33]]) = ''!''"
    by (simp_all add: shown_def printed_def OUTPUT_CAP_BYTES_def)
  ultimately show ?thesis using r by simp
qed

lemma path_suffix_shape: "path_suffix nm = [] \<or> (\<exists>ext. path_suffix nm = CHR ''.'' # ext \<and> ext \<noteq> [] \<and> CHR ''.'' \<notin> set ext)"
proof (cases "CHR ''.'' \<in> set nm")
  case True
  obtain stem ext where split: "rsplit1 (CHR ''.'') nm = (stem, ext)" by fastforce
  from rsplit1_join [OF True split] have "CHR ''.'' \<notin> set ext" by blast
  with True split show ?thesis by (simp add: path_suffix_def)
qed (simp add: path_suffix_def)

lemma collects_nothing:
  assumes "exts \<noteq> []" and "\<forall>e \<in> set exts. \<exists>rest. e = CHR ''.'' # rest \<and> (rest = [] \<or> CHR ''.'' \<in> set rest)"
  shows "collected exts entries = []"
proof -
  have "path_suffix nm \<notin> set exts" for nm using assms(2) path_suffix_shape [of nm] by fastforce
  with assms(1) show ?thesis by (auto simp: collected_def filter_empty_conv)
qed

lemma output_dir_exists:
  assumes "path_parts d \<in> {[], [''input'']}" and "\<not> starts_with ''/'' d"
  shows "make_output_dir elsewhere run_dir d = Some (OtherExc ''FileExistsError'')"
  using assms by (auto simp: make_output_dir_def output_dir_def)

text \<open>
  The parser of manifests accepts outputs no run can produce: a watched directory that is the scratch directory itself or
  its input directory makes every run end with \<^verbatim>\<open>FileExistsError\<close>, and an extension with a second dot (or
  a bare dot) matches no file, so a manifest that declares only such extensions collects nothing, whatever the
  bundle writes.
\<close>

theorem unusable_outputs_accepted:
  fixes ru :: "'c runner"
  shows "(\<forall>d \<in> {''.'', ''input'', ''./input/''}. parse_outputs (PDict [py_field ''watch_dir'' (PStr d)])
        = Inr \<lparr>ou_watch_dir = d, ou_extensions = [], ou_object_key_template = default_template\<rparr>
      \<and> (\<forall>b. ou_watch_dir (bm_outputs (bh_manifest b)) = d \<longrightarrow>
           run_bundle ru b gid bid meta work_dir execution_env url inputs = Inl (Raised (OtherExc ''FileExistsError''))))
   \<and> extension_entry (PStr ''.tar.gz'') = Inr ''.tar.gz''
   \<and> (\<forall>exts entries. exts \<noteq> [] \<and> (\<forall>e \<in> set exts. \<exists>rest. e = CHR ''.'' # rest \<and> (rest = [] \<or> CHR ''.'' \<in> set rest)) \<longrightarrow>
        collected exts entries = [])"
proof -
  have parse: "parse_outputs (PDict [py_field ''watch_dir'' (PStr d)])
      = Inr \<lparr>ou_watch_dir = d, ou_extensions = [], ou_object_key_template = default_template\<rparr>" if "d \<noteq> []" for d
    using that by (simp add: py_field_def py_get_default_def default_template_def)
  have fails: "run_bundle ru b gid bid meta work_dir execution_env url inputs = Inl (Raised (OtherExc ''FileExistsError''))"
    if "ou_watch_dir (bm_outputs (bh_manifest b)) = d" and "d \<in> {''.'', ''input'', ''./input/''}" for b d
  proof -
    have "path_parts d \<in> {[], [''input'']}" "\<not> starts_with ''/'' d"
      using that(2) by (auto simp: path_parts_def starts_with_def)
    from output_dir_exists [OF this] that(1) show ?thesis by (simp add: run_bundle_def Let_def)
  qed
  have ext: "extension_entry (PStr ''.tar.gz'') = Inr ''.tar.gz''" by (simp add: starts_with_def)
  show ?thesis
  proof (intro conjI ballI allI impI)
    fix d assume d: "d \<in> {''.'', ''input'', ''./input/''}"
    then have "d \<noteq> []" by auto
    then show "parse_outputs (PDict [py_field ''watch_dir'' (PStr d)])
        = Inr \<lparr>ou_watch_dir = d, ou_extensions = [], ou_object_key_template = default_template\<rparr>" by (rule parse)
    fix b :: bundle_handle assume "ou_watch_dir (bm_outputs (bh_manifest b)) = d"
    from fails [OF this d] show "run_bundle ru b gid bid meta work_dir execution_env url inputs
        = Inl (Raised (OtherExc ''FileExistsError''))" .
  qed (use ext in \<open>auto intro: collects_nothing\<close>)
qed

text \<open>A bundle that leaves one compressed archive, in the directory its manifest names.\<close>

theorem unusable_outputs_accepted_witness:
  "collected [''.tar.gz''] [([''x.tar.gz''], True)] = []
   \<and> run_bundle demo_runner (demo_handle ''input'' []) ''b:g'' ''b'' PNone [''w''] None None [] = Inl (Raised (OtherExc ''FileExistsError''))"
proof -
  have "ou_watch_dir (bm_outputs (bh_manifest (demo_handle ''input'' []))) = ''input''" by (simp add: demo_handle_def)
  with unusable_outputs_accepted [of demo_runner "''b:g''" "''b''" PNone "[''w'']" None None "[]"]
  show ?thesis by fastforce
qed

end
