(* ===== verification/Registry.thy ===== *)
theory Registry
  imports System "HOL-Library.Word" "HOL-Library.AList"
begin

text \<open>
  The registry of bundles and shared files: the tables together with the two directories that hold their
  bytes (\<^verbatim>\<open>src/sathop/orchestrator/api/bundles.py\<close>, \<^verbatim>\<open>orchestrator/api/shared.py\<close>), and the
  collection of old bundles from \<open>AdminApi\<close> on both. Reading a zip archive, YAML and SHA-256 are parameters. A directory is an
  association list from file names to bytes.
\<close>

section \<open>Archives\<close>

type_synonym content = "8 word list"

record reader =
  rd_names :: "content \<Rightarrow> string list option"
  rd_read :: "content \<Rightarrow> string \<Rightarrow> content option"
  rd_yaml :: "content \<Rightarrow> pyval option"
  rd_sha256 :: "content \<Rightarrow> string"
  rd_compile :: compiler

definition ends_with :: "string \<Rightarrow> string \<Rightarrow> bool" where
  "ends_with suf s \<longleftrightarrow> starts_with (rev suf) (rev s)"

definition manifest_path :: "string list \<Rightarrow> string option" where
  "manifest_path names = List.find (\<lambda>n. ends_with ''manifest.yaml'' (rstrip_where (\<lambda>c. c = CHR ''/'') n)) names"

definition parse_zip :: "reader \<Rightarrow> content \<Rightarrow> http_error + (pydict \<times> bundle_manifest)" where
  "parse_zip rd data =
     (case rd_names rd data of
        None \<Rightarrow> Inl (HTTPException 400 (''not a valid zip archive'', []))
      | Some names \<Rightarrow>
          (case manifest_path names of
             None \<Rightarrow> Inl (HTTPException 422 (''zip must contain manifest.yaml at root or one level deep'', []))
           | Some path \<Rightarrow>
               if count_list path (CHR ''/'') > 1
               then Inl (HTTPException 422 (''zip must contain manifest.yaml at root or one level deep'', []))
               else
                 (case rd_read rd data path of
                    None \<Rightarrow> Inl (HTTPException 422 (''cannot read manifest.yaml from zip'', []))
                  | Some raw \<Rightarrow>
                      (case rd_yaml rd raw of
                         None \<Rightarrow> Inl (HTTPException 422 (''manifest.yaml is not valid YAML: {}'', []))
                       | Some manifest \<Rightarrow>
                           (case parse_manifest (rd_compile rd) manifest of
                              Inl (ValueError msg) \<Rightarrow> Inl (HTTPException 422 msg)
                            | Inr m \<Rightarrow>
                                (case manifest of
                                   PDict entries \<Rightarrow> Inr (entries, m)
                                 | _ \<Rightarrow> Inl internal_error))))))"

section \<open>Bundles\<close>

record registry =
  rg_db :: orch
  rg_blobs :: "(string \<times> content) list"
  rg_shared :: "(string \<times> content) list"

definition upload_bundle ::
  "reader \<Rightarrow> time \<Rightarrow> content \<Rightarrow> string option \<Rightarrow> registry \<Rightarrow> http_error + (bundle_row \<times> registry)" where
  "upload_bundle rd now data description rg =
     (if data = [] then Inl (HTTPException 400 (''empty upload'', []))
      else and_then (parse_zip rd data) (\<lambda>(manifest, _).
        let d = rg_db rg; name = str_of (py_get manifest ''name''); version = str_of (py_get manifest ''version'')
        in if get_bundle name version d \<noteq> None
           then Inl (HTTPException 409 (''bundle {}@'' @ ''{} already registered; bump version'', [AStr name, AStr version]))
           else
             (case parse_shared_files manifest of
                Inl e \<Rightarrow> Inl internal_error
              | Inr needed \<Rightarrow>
                  let missing = filter (\<lambda>n. n \<notin> sf_name ` set (shared_files d)) needed
                  in if missing \<noteq> []
                     then Inl (HTTPException 422 (''manifest.shared_files references unknown name(s): {}. Upload them to /api/shared first.'',
                            map AStr missing))
                     else
                       let sha = rd_sha256 rd data;
                           blobs = (if map_of (rg_blobs rg) sha = None then AList.update sha data (rg_blobs rg) else rg_blobs rg);
                           b = \<lparr>bn_name = name, bn_version = version, bn_sha256 = sha, bn_size = int (length data),
                                bn_manifest = PDict manifest, bn_description = description, bn_uploaded_at = now\<rparr>
                       in Inr (b, rg\<lparr>rg_blobs := blobs,
                            rg_db := commit_and_publish now [Some BUNDLES]
                              (log_event ''info'' ''bundles'' (''uploaded {}@'' @ ''{} ({} bytes, sha={})'',
                                 [AStr name, AStr version, AInt (int (length data)), AStr (take 12 sha)]) None None
                               (d\<lparr>bundles := bundles d @ [b]\<rparr>))\<rparr>))))"

definition bundle_not_found :: string where
  "bundle_not_found = ''bundle {name}@'' @ ''{version} not found''"

definition download_bundle :: "string \<Rightarrow> string \<Rightarrow> registry \<Rightarrow> http_error + (string \<times> content)" where
  "download_bundle name version rg =
     and_then (get_or_404 (get_bundle name version (rg_db rg)) bundle_not_found) (\<lambda>b.
       case map_of (rg_blobs rg) (bn_sha256 b) of
         None \<Rightarrow> Inl (HTTPException 500 (''bundle blob missing on orchestrator disk'', []))
       | Some data \<Rightarrow> Inr (bn_sha256 b, data))"

definition referring_batches :: "string \<Rightarrow> orch \<Rightarrow> batch list" where
  "referring_batches ref d = filter (\<lambda>t. bt_bundle_ref t = ref) (batches d)"

definition delete_bundle :: "time \<Rightarrow> string \<Rightarrow> string \<Rightarrow> registry \<Rightarrow> http_error + (unit \<times> registry)" where
  "delete_bundle now name version rg =
     (let d = rg_db rg
      in and_then (get_or_404 (get_bundle name version d) bundle_not_found) (\<lambda>b.
        let using_it = referring_batches (format_bundle_ref name version) d
        in if using_it \<noteq> []
           then Inl (HTTPException 409 (''bundle is referenced by {} batch(es): {}{}; remove them first'',
                  AInt (int (length using_it)) # map (AStr \<circ> bt_id) (take 5 using_it)))
           else
             let d1 = d\<lparr>bundles := del_where (\<lambda>x. bundle_key x = (name, version)) (bundles d)\<rparr>;
                 others = row_count (\<lambda>x. bn_sha256 x = bn_sha256 b) (bundles d1)
             in Inr ((), rg\<lparr>
                  rg_blobs := (if others = 0 then AList.delete (bn_sha256 b) (rg_blobs rg) else rg_blobs rg),
                  rg_db := commit_and_publish now [Some BUNDLES]
                    (log_event ''info'' ''bundles'' (''deleted {}@'' @ ''{}'', [AStr name, AStr version]) None None d1)\<rparr>)))"

text \<open>The collection of old bundles (\<open>gc_bundles\<close>) on the directory of archives.\<close>

definition collect_bundles :: "time \<Rightarrow> bool \<Rightarrow> int \<Rightarrow> registry \<Rightarrow> gc_reply \<times> registry" where
  "collect_bundles now dry_run age_days rg =
     (let (reply, d, names) = gc_bundles now dry_run age_days (rg_db rg, map fst (rg_blobs rg))
      in (reply, rg\<lparr>rg_db := d, rg_blobs := filter (\<lambda>f. fst f \<in> set names) (rg_blobs rg)\<rparr>))"

section \<open>Shared files\<close>

text \<open>
  \<^verbatim>\<open>re.match\<close> of a pattern that ends with \<^verbatim>\<open>$\<close>, which also matches before a line feed at the end.
\<close>

definition shared_name :: "string \<Rightarrow> bool" where
  "shared_name s \<longleftrightarrow>
     s \<noteq> [] \<and> length s \<le> 255 \<and> is_alnum (hd s) \<and> list_all (\<lambda>c. is_alnum c \<or> c = CHR ''.'' \<or> c = CHR ''_'' \<or> c = CHR ''-'') (tl s)"

definition NAME_RE :: "string \<Rightarrow> bool" where
  "NAME_RE s \<longleftrightarrow> shared_name s \<or> (s \<noteq> [] \<and> last s = CHR 0x0A \<and> shared_name (butlast s))"

definition invalid_name :: http_error where
  "invalid_name = HTTPException 400 (''invalid name: must match [A-Za-z0-9][A-Za-z0-9._-]{0,254} (no path separators, no leading dot)'', [])"

definition put_shared ::
  "reader \<Rightarrow> time \<Rightarrow> string \<Rightarrow> content list \<Rightarrow> string option \<Rightarrow> registry \<Rightarrow> http_error + (shared_file \<times> registry)" where
  "put_shared rd now name chunks description rg =
     (if \<not> NAME_RE name then Inl invalid_name
      else
        let data = concat (takeWhile (\<lambda>c. c \<noteq> []) chunks); d = rg_db rg
        in if length data = 0 then Inl (HTTPException 400 (''empty upload'', []))
           else
             let digest = rd_sha256 rd data;
                 (row, rows, verb) =
                   (case get_row sf_name name (shared_files d) of
                      None \<Rightarrow>
                        let row = \<lparr>sf_name = name, sf_sha256 = digest, sf_size = int (length data), sf_description = description,
                                   sf_uploaded_at = now\<rparr>
                        in (row, shared_files d @ [row], ''uploaded'')
                    | Some old \<Rightarrow>
                        let row = old\<lparr>sf_sha256 := digest, sf_size := int (length data),
                                   sf_description := (if description \<noteq> None then description else sf_description old),
                                   sf_uploaded_at := now\<rparr>
                        in (row, upd_where (\<lambda>f. sf_name f = name) (\<lambda>_. row) (shared_files d), ''replaced''))
             in Inr (row, rg\<lparr>rg_shared := AList.update name data (rg_shared rg),
                  rg_db := commit_and_publish now [Some SHARED]
                    (log_event ''info'' ''shared'' (''{} {} ({} bytes, sha={})'',
                       [AStr verb, AStr name, AInt (int (length data)), AStr (take 12 digest)]) None None
                     (d\<lparr>shared_files := rows\<rparr>))\<rparr>))"

definition shared_not_found :: string where
  "shared_not_found = ''shared file {name!r} not found''"

definition shared_meta :: "string \<Rightarrow> registry \<Rightarrow> http_error + shared_file" where
  "shared_meta name rg =
     (if \<not> NAME_RE name then Inl invalid_name
      else get_or_404 (get_row sf_name name (shared_files (rg_db rg))) shared_not_found)"

definition download_shared :: "string \<Rightarrow> registry \<Rightarrow> http_error + (string \<times> content)" where
  "download_shared name rg =
     and_then (shared_meta name rg) (\<lambda>f.
       case map_of (rg_shared rg) (sf_name f) of
         None \<Rightarrow> Inl (HTTPException 500 (''shared-file bytes missing on orchestrator disk'', []))
       | Some data \<Rightarrow> Inr (sf_sha256 f, data))"

text \<open>The shared files a stored manifest declares; a manifest that does not parse makes the handler fail.\<close>

definition declared_shared :: "bundle_row \<Rightarrow> value_error + string list" where
  "declared_shared b =
     (case bn_manifest b of PDict m \<Rightarrow> parse_shared_files m | _ \<Rightarrow> value_err ''not a mapping'' [])"

definition delete_shared :: "time \<Rightarrow> string \<Rightarrow> registry \<Rightarrow> http_error + (unit \<times> registry)" where
  "delete_shared now name rg =
     (let d = rg_db rg
      in and_then (shared_meta name rg) (\<lambda>f.
        case traverse (\<lambda>b. map_sum id (\<lambda>names. (b, names)) (declared_shared b)) (bundles d) of
          Inl e \<Rightarrow> Inl internal_error
        | Inr declared \<Rightarrow>
            let referrers = map fst (filter (\<lambda>(b, names). name \<in> set names) declared)
            in if referrers \<noteq> []
               then Inl (HTTPException 409 (''shared file {!r} is referenced by {} bundle(s): {}{}'',
                      AStr name # AInt (int (length referrers)) # map (\<lambda>b. AStr (bn_name b @ ''@'' @ bn_version b)) (take 5 referrers)))
               else Inr ((), rg\<lparr>rg_shared := AList.delete (sf_name f) (rg_shared rg),
                      rg_db := commit_and_publish now [Some SHARED]
                        (log_event ''info'' ''shared'' (''deleted {}'', [AStr name]) None None
                          (d\<lparr>shared_files := del_where (\<lambda>x. sf_name x = name) (shared_files d)\<rparr>))\<rparr>)))"

section \<open>The registry as a transition system\<close>

text \<open>
  The steps: the endpoints above, the creation of a batch, and any other handler, which changes neither of the two tables and
  adds no batch.
\<close>

inductive registry_step :: "reader \<Rightarrow> registry \<Rightarrow> registry \<Rightarrow> bool" for rd where
  step_upload: "upload_bundle rd now data description rg = Inr (b, rg') \<Longrightarrow> registry_step rd rg rg'"
| step_delete: "delete_bundle now name version rg = Inr ((), rg') \<Longrightarrow> registry_step rd rg rg'"
| step_collect: "collect_bundles now dry_run age_days rg = (reply, rg') \<Longrightarrow> registry_step rd rg rg'"
| step_put: "put_shared rd now name chunks description rg = Inr (f, rg') \<Longrightarrow> registry_step rd rg rg'"
| step_drop: "delete_shared now name rg = Inr ((), rg') \<Longrightarrow> registry_step rd rg rg'"
| step_batch: "create_batch (rd_compile rd) py_str token now req (rg_db rg) = Inr (t, d') \<Longrightarrow>
     registry_step rd rg (rg\<lparr>rg_db := d'\<rparr>)"
| step_other: "bundles d' = bundles (rg_db rg) \<Longrightarrow> shared_files d' = shared_files (rg_db rg) \<Longrightarrow>
     bt_bundle_ref ` set (batches d') \<subseteq> bt_bundle_ref ` set (batches (rg_db rg)) \<Longrightarrow> registry_step rd rg (rg\<lparr>rg_db := d'\<rparr>)"

definition empty_registry :: "registry \<Rightarrow> bool" where
  "empty_registry rg \<longleftrightarrow> rg = \<lparr>rg_db = empty_orch, rg_blobs = [], rg_shared = []\<rparr>"

definition blobs_ok :: "reader \<Rightarrow> registry \<Rightarrow> bool" where
  "blobs_ok rd rg \<longleftrightarrow>
     (\<forall>k c. map_of (rg_blobs rg) k = Some c \<longrightarrow> rd_sha256 rd c = k)
     \<and> (\<forall>b \<in> set (bundles (rg_db rg)). map_of (rg_blobs rg) (bn_sha256 b) \<noteq> None)"

definition files_ok :: "reader \<Rightarrow> registry \<Rightarrow> bool" where
  "files_ok rd rg \<longleftrightarrow>
     distinct (map sf_name (shared_files (rg_db rg)))
     \<and> (\<forall>f \<in> set (shared_files (rg_db rg)). NAME_RE (sf_name f)
          \<and> (\<exists>c. map_of (rg_shared rg) (sf_name f) = Some c \<and> rd_sha256 rd c = sf_sha256 f \<and> int (length c) = sf_size f))"

definition declared_ok :: "registry \<Rightarrow> bool" where
  "declared_ok rg \<longleftrightarrow>
     distinct (map bundle_key (bundles (rg_db rg)))
     \<and> (\<forall>b \<in> set (bundles (rg_db rg)). \<exists>names. declared_shared b = Inr names
          \<and> set names \<subseteq> sf_name ` set (shared_files (rg_db rg)))"

definition batches_ok :: "registry \<Rightarrow> bool" where
  "batches_ok rg \<longleftrightarrow>
     (\<forall>t \<in> set (batches (rg_db rg)). \<exists>b \<in> set (bundles (rg_db rg)). bt_bundle_ref t = format_bundle_ref (bn_name b) (bn_version b))"

definition registry_ok :: "reader \<Rightarrow> registry \<Rightarrow> bool" where
  "registry_ok rd rg \<longleftrightarrow> blobs_ok rd rg \<and> files_ok rd rg \<and> declared_ok rg \<and> batches_ok rg"

lemmas registry_parts = blobs_ok_def files_ok_def declared_ok_def batches_ok_def

lemma map_of_filter_key: "map_of (filter (\<lambda>f. fst f \<in> S) xs) k = (if k \<in> S then map_of xs k else None)"
  by (induction xs) auto

lemma get_bundle_iff: "get_bundle n v d = None \<longleftrightarrow> (n, v) \<notin> bundle_key ` set (bundles d)"
  by (auto simp: get_bundle_def get_row_None bundle_key_def image_iff)

lemma get_bundle_in: "get_bundle n v d = Some b \<Longrightarrow> b \<in> set (bundles d) \<and> bundle_key b = (n, v)"
  by (auto simp: get_bundle_def bundle_key_def dest: get_row_Some)

lemma list_all2_in: "list_all2 P xs ys \<Longrightarrow> x \<in> set xs \<Longrightarrow> \<exists>y \<in> set ys. P x y"
  by (induction rule: list_all2_induct) auto

lemma upload_ok:
  assumes ok: "registry_ok rd rg" and up: "upload_bundle rd now data description rg = Inr (b, rg')"
  shows "registry_ok rd rg'"
proof -
  let ?d = "rg_db rg"
  obtain m bm where "parse_zip rd data = Inr (m, bm)" using up by (auto simp: upload_bundle_def split: if_splits)
  with up obtain names where fresh: "bundle_key b \<notin> bundle_key ` set (bundles ?d)"
    and names: "declared_shared b = Inr names" "set names \<subseteq> sf_name ` set (shared_files ?d)"
    and sha: "bn_sha256 b = rd_sha256 rd data"
    and blobs: "rg_blobs rg' = (if map_of (rg_blobs rg) (rd_sha256 rd data) = None
      then AList.update (rd_sha256 rd data) data (rg_blobs rg) else rg_blobs rg)"
    and tables: "bundles (rg_db rg') = bundles ?d @ [b]" "shared_files (rg_db rg') = shared_files ?d"
      "batches (rg_db rg') = batches ?d" "rg_shared rg' = rg_shared rg"
    by (auto simp: upload_bundle_def Let_def get_bundle_iff bundle_key_def declared_shared_def filter_empty_conv subset_iff
        split: if_splits sum.splits)
  have new: "map_of (rg_blobs rg') k = Some c \<Longrightarrow> map_of (rg_blobs rg) k = Some c \<or> k = rd_sha256 rd data \<and> c = data"
    and kept: "map_of (rg_blobs rg) k \<noteq> None \<Longrightarrow> map_of (rg_blobs rg') k \<noteq> None"
    and there: "map_of (rg_blobs rg') (rd_sha256 rd data) \<noteq> None" for k c
    by (auto simp: blobs update_conv' split: if_splits)
  have "blobs_ok rd rg'"
    unfolding blobs_ok_def
  proof (intro conjI allI impI ballI)
    fix k c assume "map_of (rg_blobs rg') k = Some c"
    from new [OF this] ok show "rd_sha256 rd c = k" by (auto simp: registry_ok_def blobs_ok_def)
  next
    fix x assume "x \<in> set (bundles (rg_db rg'))"
    then consider "x \<in> set (bundles ?d)" | "x = b" using tables(1) by auto
    then show "map_of (rg_blobs rg') (bn_sha256 x) \<noteq> None"
      using ok kept there sha by cases (simp_all add: registry_ok_def blobs_ok_def)
  qed
  moreover have "files_ok rd rg'" using ok tables by (simp add: registry_ok_def files_ok_def)
  moreover have "declared_ok rg'" using ok tables fresh names by (auto simp: registry_ok_def declared_ok_def)
  moreover have "batches_ok rg'" using ok tables by (auto simp: registry_ok_def batches_ok_def)
  ultimately show ?thesis by (simp add: registry_ok_def)
qed

lemma delete_ok:
  assumes ok: "registry_ok rd rg" and del: "delete_bundle now name version rg = Inr ((), rg')"
  shows "registry_ok rd rg'"
proof -
  let ?d = "rg_db rg"
  obtain b where b: "get_bundle name version ?d = Some b"
    using del by (auto simp: delete_bundle_def Let_def)
  with del have refs: "referring_batches (format_bundle_ref name version) ?d = []"
    by (simp add: delete_bundle_def Let_def del: row_count_0 split: if_split_asm)
  then have unused: "\<forall>t \<in> set (batches ?d). bt_bundle_ref t \<noteq> format_bundle_ref name version"
    by (simp add: referring_batches_def filter_empty_conv)
  let ?bs = "del_where (\<lambda>x. bundle_key x = (name, version)) (bundles ?d)"
  from refs del b have rg': "rg' = rg\<lparr>
      rg_blobs := (if row_count (\<lambda>x. bn_sha256 x = bn_sha256 b) ?bs = 0 then AList.delete (bn_sha256 b) (rg_blobs rg) else rg_blobs rg),
      rg_db := commit_and_publish now [Some BUNDLES]
        (log_event ''info'' ''bundles'' (''deleted {}@'' @ ''{}'', [AStr name, AStr version]) None None (?d\<lparr>bundles := ?bs\<rparr>))\<rparr>"
    by (simp add: delete_bundle_def Let_def del: row_count_0)
  have tables: "bundles (rg_db rg') = ?bs" "shared_files (rg_db rg') = shared_files ?d" "batches (rg_db rg') = batches ?d"
      "rg_shared rg' = rg_shared rg"
    and blobs: "rg_blobs rg' = (if row_count (\<lambda>x. bn_sha256 x = bn_sha256 b) ?bs = 0 then AList.delete (bn_sha256 b) (rg_blobs rg) else rg_blobs rg)"
    by (simp_all add: rg' del: row_count_0)
  have sub: "map_of (rg_blobs rg) k = Some c" if "map_of (rg_blobs rg') k = Some c" for k c
    using that by (auto simp only: blobs delete_conv' fun_upd_apply split: if_split_asm)
  have kept: "map_of (rg_blobs rg') (bn_sha256 x) = map_of (rg_blobs rg) (bn_sha256 x)" if "x \<in> set ?bs" for x
    using that by (auto simp: blobs delete_conv')
  have "blobs_ok rd rg'"
    unfolding blobs_ok_def
  proof (intro conjI allI impI ballI)
    fix k c assume "map_of (rg_blobs rg') k = Some c"
    from sub [OF this] ok show "rd_sha256 rd c = k" by (simp add: registry_ok_def blobs_ok_def)
  next
    fix x assume "x \<in> set (bundles (rg_db rg'))"
    then have x: "x \<in> set ?bs" by (simp add: tables)
    then have "x \<in> set (bundles ?d)" by simp
    with ok kept [OF x] show "map_of (rg_blobs rg') (bn_sha256 x) \<noteq> None" by (simp add: registry_ok_def blobs_ok_def)
  qed
  moreover have "files_ok rd rg'" using ok tables by (simp add: registry_ok_def files_ok_def)
  moreover have "declared_ok rg'" using ok tables by (auto simp: registry_ok_def declared_ok_def distinct_del_where)
  moreover have "batches_ok rg'"
    unfolding batches_ok_def
  proof
    fix t assume "t \<in> set (batches (rg_db rg'))"
    then have t: "t \<in> set (batches ?d)" by (simp add: tables)
    with ok obtain x where x: "x \<in> set (bundles ?d)" "bt_bundle_ref t = format_bundle_ref (bn_name x) (bn_version x)"
      by (auto simp: registry_ok_def batches_ok_def)
    with unused t have "x \<in> set ?bs" by (auto simp: bundle_key_def)
    with x(2) show "\<exists>b \<in> set (bundles (rg_db rg')). bt_bundle_ref t = format_bundle_ref (bn_name b) (bn_version b)"
      unfolding tables by blast
  qed
  ultimately show ?thesis by (simp add: registry_ok_def)
qed

lemma collect_ok:
  assumes ok: "registry_ok rd rg" and col: "collect_bundles now dry_run age_days rg = (reply, rg')"
  shows "registry_ok rd rg'"
proof (cases "age_days < 0 \<or> dry_run")
  case True
  have "filter (\<lambda>f. fst f \<in> set (map fst xs)) xs = xs" for xs :: "(string \<times> content) list"
    by (rule filter_True) auto
  with True col have "rg' = rg" by (cases "age_days < 0") (auto simp: collect_bundles_def gc_bundles_def Let_def)
  with ok show ?thesis by simp
next
  case False
  let ?d = "rg_db rg"
  let ?cs = "gc_candidates (now - days age_days) ?d"
  let ?bs = "del_where (\<lambda>b. bundle_key b \<in> set (map bundle_key ?cs)) (bundles ?d)"
  let ?orphans = "filter (\<lambda>sha. row_count (\<lambda>b. bn_sha256 b = sha) ?bs = 0) (dedup (map bn_sha256 ?cs))"
  from False col have tables: "bundles (rg_db rg') = ?bs" "shared_files (rg_db rg') = shared_files ?d"
      "batches (rg_db rg') = batches ?d" "rg_shared rg' = rg_shared rg"
    and blobs: "rg_blobs rg' = filter (\<lambda>f. fst f \<in> fst ` set (rg_blobs rg) - set ?orphans) (rg_blobs rg)"
    by (auto simp: collect_bundles_def gc_bundles_def gc_apply_def Let_def simp del: row_count_0 intro!: filter_cong)
  have map: "map_of (rg_blobs rg') k = (if k \<in> fst ` set (rg_blobs rg) - set ?orphans then map_of (rg_blobs rg) k else None)" for k
    by (simp only: blobs map_of_filter_key)
  have "map_of (rg_blobs rg') k = Some c \<Longrightarrow> map_of (rg_blobs rg) k = Some c" for k c
    by (simp only: map split: if_split_asm) simp_all
  moreover have "map_of (rg_blobs rg') (bn_sha256 x) \<noteq> None" if x: "x \<in> set ?bs" for x
  proof -
    have "map_of (rg_blobs rg) (bn_sha256 x) \<noteq> None" using ok x by (simp add: registry_ok_def blobs_ok_def)
    moreover from this have "bn_sha256 x \<in> fst ` set (rg_blobs rg)" by (simp add: map_of_eq_None_iff)
    moreover have "bn_sha256 x \<notin> set ?orphans" using x by auto
    ultimately show ?thesis by (simp only: map) simp
  qed
  ultimately have "blobs_ok rd rg'" using ok by (simp add: registry_ok_def blobs_ok_def tables)
  moreover have "files_ok rd rg'" using ok tables by (simp add: registry_ok_def files_ok_def)
  moreover have "declared_ok rg'" using ok tables by (auto simp: registry_ok_def declared_ok_def distinct_del_where)
  moreover have "batches_ok rg'"
    unfolding batches_ok_def
  proof
    fix t assume "t \<in> set (batches (rg_db rg'))"
    then have t: "t \<in> set (batches ?d)" by (simp add: tables)
    with ok obtain b where b: "b \<in> set (bundles ?d)" "bt_bundle_ref t = format_bundle_ref (bn_name b) (bn_version b)"
      by (auto simp: registry_ok_def batches_ok_def)
    have "bundle_key b \<noteq> bundle_key c" if "c \<in> set ?cs" for c
      using that t b(2) by (auto simp: gc_candidates_def bundle_key_def)
    then have "b \<in> set ?bs" using b(1) by auto
    with b(2) show "\<exists>b \<in> set (bundles (rg_db rg')). bt_bundle_ref t = format_bundle_ref (bn_name b) (bn_version b)"
      unfolding tables by blast
  qed
  ultimately show ?thesis by (simp add: registry_ok_def)
qed

lemma put_ok:
  assumes ok: "registry_ok rd rg" and put: "put_shared rd now name chunks description rg = Inr (f, rg')"
  shows "registry_ok rd rg'"
proof -
  let ?d = "rg_db rg"
  let ?data = "concat (takeWhile (\<lambda>c. c \<noteq> []) chunks)"
  from put have re: "NAME_RE name" and tables: "bundles (rg_db rg') = bundles ?d" "batches (rg_db rg') = batches ?d" "rg_blobs rg' = rg_blobs rg"
      "rg_shared rg' = AList.update name ?data (rg_shared rg)"
    by (auto simp: put_shared_def Let_def split: if_splits prod.splits)
  have f: "sf_name f = name \<and> sf_sha256 f = rd_sha256 rd ?data \<and> sf_size f = int (length ?data)"
  proof (cases "get_row sf_name name (shared_files ?d)")
    case None
    with put show ?thesis by (auto simp: put_shared_def Let_def simp del: get_row_None split: if_split_asm)
  next
    case (Some old)
    from get_row_key [OF Some] Some put show ?thesis by (simp add: put_shared_def Let_def split: if_split_asm) auto
  qed
  have rows: "shared_files (rg_db rg') =
      (if get_row sf_name name (shared_files ?d) = None then shared_files ?d @ [f]
       else upd_where (\<lambda>x. sf_name x = name) (\<lambda>_. f) (shared_files ?d))"
    using put by (cases "get_row sf_name name (shared_files ?d)")
      (auto simp: put_shared_def Let_def simp del: get_row_None split: if_split_asm)
  have names: "sf_name ` set (shared_files (rg_db rg')) \<supseteq> sf_name ` set (shared_files ?d)"
    using f by (auto simp: rows set_upd_where image_iff)
  have "distinct (map sf_name (shared_files (rg_db rg')))"
  proof (cases "get_row sf_name name (shared_files ?d)")
    case None
    with ok f show ?thesis by (auto simp: rows registry_ok_def files_ok_def get_row_None)
  next
    case (Some x)
    have "map sf_name (upd_where (\<lambda>x. sf_name x = name) (\<lambda>_. f) (shared_files ?d)) = map sf_name (shared_files ?d)"
      using f by (simp add: map_upd_where)
    with Some ok show ?thesis by (simp add: rows registry_ok_def files_ok_def)
  qed
  moreover have "NAME_RE (sf_name x) \<and> (\<exists>c. map_of (rg_shared rg') (sf_name x) = Some c \<and> rd_sha256 rd c = sf_sha256 x \<and> int (length c) = sf_size x)"
    if x: "x \<in> set (shared_files (rg_db rg'))" for x
  proof (cases "x = f")
    case True
    with f re show ?thesis by (simp add: tables update_conv')
  next
    case False
    then have "x \<in> set (shared_files ?d)" "sf_name x \<noteq> name"
      using x by (auto simp: rows set_upd_where get_row_None split: if_splits)
    with ok show ?thesis by (auto simp: tables update_conv' registry_ok_def files_ok_def)
  qed
  ultimately have "files_ok rd rg'" by (simp add: files_ok_def)
  moreover have "blobs_ok rd rg'" using ok tables by (simp add: registry_ok_def blobs_ok_def)
  moreover have "declared_ok rg'" using ok tables names by (fastforce simp: registry_ok_def declared_ok_def)
  moreover have "batches_ok rg'" using ok tables by (simp add: registry_ok_def batches_ok_def)
  ultimately show ?thesis by (simp add: registry_ok_def)
qed

lemma drop_ok:
  assumes ok: "registry_ok rd rg" and drop': "delete_shared now name rg = Inr ((), rg')"
  shows "registry_ok rd rg'"
proof -
  let ?d = "rg_db rg"
  obtain f where f: "get_row sf_name name (shared_files ?d) = Some f"
    using drop' by (auto simp: delete_shared_def shared_meta_def Let_def split: if_splits)
  then have nm: "sf_name f = name" by (auto dest: get_row_Some)
  obtain declared where declared: "traverse (\<lambda>b. map_sum id (\<lambda>names. (b, names)) (declared_shared b)) (bundles ?d) = Inr declared"
    and free: "\<forall>(b, names) \<in> set declared. name \<notin> set names"
    using drop' f by (auto simp: delete_shared_def shared_meta_def Let_def filter_empty_conv split: if_splits sum.splits)
  from drop' f declared have tables: "bundles (rg_db rg') = bundles ?d" "batches (rg_db rg') = batches ?d" "rg_blobs rg' = rg_blobs rg"
      "rg_shared rg' = AList.delete name (rg_shared rg)" "shared_files (rg_db rg') = del_where (\<lambda>x. sf_name x = name) (shared_files ?d)"
    by (auto simp: delete_shared_def shared_meta_def Let_def nm split: if_splits)
  have unused: "name \<notin> set names" if b: "b \<in> set (bundles ?d)" "declared_shared b = Inr names" for b names
  proof -
    have all: "list_all2 (\<lambda>b p. map_sum id (\<lambda>names. (b, names)) (declared_shared b) = Inr p) (bundles ?d) declared"
      using declared by (simp only: traverse_Inr)
    then obtain p where "p \<in> set declared" "map_sum id (\<lambda>names. (b, names)) (declared_shared b) = Inr p"
      using list_all2_in [OF all b(1)] by blast
    with b(2) free show ?thesis by auto
  qed
  have "files_ok rd rg'" using ok by (auto simp: registry_ok_def files_ok_def tables delete_conv' distinct_del_where)
  moreover have "declared_ok rg'" using ok unused by (fastforce simp: registry_ok_def declared_ok_def tables)
  moreover have "blobs_ok rd rg'" using ok tables by (simp add: registry_ok_def blobs_ok_def)
  moreover have "batches_ok rg'" using ok tables by (simp add: registry_ok_def batches_ok_def)
  ultimately show ?thesis by (simp add: registry_ok_def)
qed

lemma log_warnings_registry:
  "bundles (log_warnings ws d) = bundles d" "shared_files (log_warnings ws d) = shared_files d"
  by (simp_all add: log_warnings_def fold_keeps)

lemma batch_ok:
  assumes ok: "registry_ok rd rg" and new: "create_batch compile py_str token now req (rg_db rg) = Inr (t, d')"
  shows "registry_ok rd (rg\<lparr>rg_db := d'\<rparr>)"
proof -
  let ?d = "rg_db rg"
  from new have check: "check_bundle (bc_bundle_ref req) ?d = Inr ()"
    and tables: "bundles d' = bundles ?d" "shared_files d' = shared_files ?d" "batches d' = batches ?d @ [t]"
    and ref: "bt_bundle_ref t = bc_bundle_ref req"
    by (auto simp: create_batch_def insert_granules_def new_batch_def Let_def log_warnings_registry split: if_splits)
  from check obtain name version where "parse_bundle_ref (bc_bundle_ref req) = Inr (name, version)" "get_bundle name version ?d \<noteq> None"
    by (auto simp: check_bundle_def split: sum.splits value_error.splits option.splits)
  then obtain b where "b \<in> set (bundles ?d)" "bundle_key b = (name, version)" "bc_bundle_ref req = format_bundle_ref name version"
    using get_bundle_in by (fastforce simp: bundle_ref_roundtrip_iff)
  with ref have "\<exists>b \<in> set (bundles ?d). bt_bundle_ref t = format_bundle_ref (bn_name b) (bn_version b)"
    by (auto simp: bundle_key_def)
  with ok tables show ?thesis by (auto simp: registry_ok_def registry_parts)
qed

lemma other_ok:
  assumes "registry_ok rd rg" and "bundles d' = bundles (rg_db rg)" and "shared_files d' = shared_files (rg_db rg)"
    and "bt_bundle_ref ` set (batches d') \<subseteq> bt_bundle_ref ` set (batches (rg_db rg))"
  shows "registry_ok rd (rg\<lparr>rg_db := d'\<rparr>)"
proof -
  have "batches_ok (rg\<lparr>rg_db := d'\<rparr>)"
    unfolding batches_ok_def
  proof
    fix t assume "t \<in> set (batches (rg_db (rg\<lparr>rg_db := d'\<rparr>)))"
    then have "bt_bundle_ref t \<in> bt_bundle_ref ` set (batches (rg_db rg))" using assms(4) by auto
    with assms(1, 2) show "\<exists>b \<in> set (bundles (rg_db (rg\<lparr>rg_db := d'\<rparr>))). bt_bundle_ref t = format_bundle_ref (bn_name b) (bn_version b)"
      by (auto simp: registry_ok_def batches_ok_def)
  qed
  with assms(1-3) show ?thesis by (simp add: registry_ok_def blobs_ok_def files_ok_def declared_ok_def)
qed

interpretation library: invariant_system empty_registry "registry_step rd" "registry_ok rd" for rd
proof unfold_locales
  fix rg assume "empty_registry rg"
  then show "registry_ok rd rg" by (simp add: empty_registry_def registry_ok_def registry_parts empty_orch_def)
next
  fix rg rg' assume ok: "registry_ok rd rg" and "registry_step rd rg rg'"
  from this(2) show "registry_ok rd rg'"
    by cases (blast intro: ok upload_ok delete_ok collect_ok put_ok drop_ok batch_ok other_ok)+
qed

section \<open>What the registry promises\<close>

lemma download_of_row:
  assumes "registry_ok rd rg" and "b \<in> set (bundles (rg_db rg))"
  shows "\<exists>c. download_bundle (bn_name b) (bn_version b) rg = Inr (bn_sha256 b, c) \<and> rd_sha256 rd c = bn_sha256 b"
proof -
  have distinct: "distinct (map (\<lambda>b. (bn_name b, bn_version b)) (bundles (rg_db rg)))"
    using assms(1) unfolding registry_ok_def declared_ok_def bundle_key_def by blast
  have "get_bundle (bn_name b) (bn_version b) (rg_db rg) = Some b"
    unfolding get_bundle_def by (rule get_row_unique [OF distinct assms(2)])
  moreover obtain c where "map_of (rg_blobs rg) (bn_sha256 b) = Some c" using assms by (auto simp: registry_ok_def blobs_ok_def)
  moreover from this have "rd_sha256 rd c = bn_sha256 b" using assms(1) by (auto simp: registry_ok_def blobs_ok_def)
  ultimately show ?thesis by (simp add: download_bundle_def)
qed

lemma download_of_shared:
  assumes "registry_ok rd rg" and "f \<in> set (shared_files (rg_db rg))"
  shows "shared_meta (sf_name f) rg = Inr f
    \<and> (\<exists>c. download_shared (sf_name f) rg = Inr (sf_sha256 f, c) \<and> rd_sha256 rd c = sf_sha256 f)"
proof -
  have distinct: "distinct (map sf_name (shared_files (rg_db rg)))" and re: "NAME_RE (sf_name f)"
    using assms unfolding registry_ok_def files_ok_def by auto
  have "shared_meta (sf_name f) rg = Inr f"
    using re get_row_unique [OF distinct assms(2)] by (simp add: shared_meta_def)
  moreover obtain c where "map_of (rg_shared rg) (sf_name f) = Some c" "rd_sha256 rd c = sf_sha256 f"
    using assms unfolding registry_ok_def files_ok_def by auto
  ultimately show ?thesis by (simp add: download_shared_def)
qed

text \<open>
  C24: Whatever the order of uploads, replacements, deletions, collections and new batches: everything a batch needs is there. Its bundle
  is registered, the download of the bundle succeeds and its bytes have the registered digest; and every shared file
  the bundle declares is registered, and downloads with the digest that the registry reports for it.
\<close>

theorem registry_serves_batches:
  assumes "reach empty_registry (registry_step rd) rg" and "t \<in> set (batches (rg_db rg))"
  shows "\<exists>b \<in> set (bundles (rg_db rg)). bt_bundle_ref t = format_bundle_ref (bn_name b) (bn_version b)
    \<and> (\<exists>c. download_bundle (bn_name b) (bn_version b) rg = Inr (bn_sha256 b, c) \<and> rd_sha256 rd c = bn_sha256 b)
    \<and> (\<exists>names. declared_shared b = Inr names
         \<and> (\<forall>n \<in> set names. \<exists>f c. shared_meta n rg = Inr f \<and> download_shared n rg = Inr (sf_sha256 f, c)
              \<and> rd_sha256 rd c = sf_sha256 f))"
proof -
  have ok: "registry_ok rd rg" using library.reachable_inv [OF assms(1)] .
  then obtain b where b: "b \<in> set (bundles (rg_db rg))" "bt_bundle_ref t = format_bundle_ref (bn_name b) (bn_version b)"
    using assms(2) by (auto simp: registry_ok_def batches_ok_def)
  moreover obtain names where names: "declared_shared b = Inr names" "set names \<subseteq> sf_name ` set (shared_files (rg_db rg))"
    using ok b(1) by (auto simp: registry_ok_def declared_ok_def)
  moreover have "\<exists>f c. shared_meta n rg = Inr f \<and> download_shared n rg = Inr (sf_sha256 f, c) \<and> rd_sha256 rd c = sf_sha256 f"
    if "n \<in> set names" for n
    using that names(2) download_of_shared [OF ok] by blast
  ultimately show ?thesis using download_of_row [OF ok b(1)] by blast
qed

text \<open>
  An uploaded bundle comes back unchanged: as long as its row is there, a download of it gives exactly the
  uploaded bytes, whatever else was uploaded, replaced, deleted or collected in between, identical archives under other names
  included. SHA-256 is taken as free of collisions.
\<close>

theorem uploaded_bundle_roundtrip:
  assumes "inj (rd_sha256 rd)" and "reach empty_registry (registry_step rd) rg"
    and "upload_bundle rd now data description rg = Inr (b, rg1)" and "(registry_step rd)\<^sup>*\<^sup>* rg1 rg2" and "b \<in> set (bundles (rg_db rg2))"
  shows "download_bundle (bn_name b) (bn_version b) rg2 = Inr (rd_sha256 rd data, data)"
proof -
  have "registry_ok rd rg1" using library.reachable_inv [OF assms(2)] assms(3) by (rule upload_ok)
  with assms(4) have ok: "registry_ok rd rg2" by (rule library.run_inv)
  obtain m bm where "parse_zip rd data = Inr (m, bm)" using assms(3) by (auto simp: upload_bundle_def split: if_splits)
  with assms(3) have "bn_sha256 b = rd_sha256 rd data"
    by (auto simp: upload_bundle_def Let_def split: if_splits sum.splits)
  with download_of_row [OF ok assms(5)] assms(1) show ?thesis by (auto dest: injD)
qed

text \<open>A shared file and a bundle that declares it, under some digest.\<close>

definition demo_reader :: "(content \<Rightarrow> string) \<Rightarrow> reader" where
  "demo_reader sha = \<lparr>rd_names = (\<lambda>_. Some [''manifest.yaml'']), rd_read = (\<lambda>c _. Some c), rd_yaml = (\<lambda>_. Some sample_manifest),
     rd_sha256 = sha, rd_compile = sample_compiler\<rparr>"

lemma demo_reader_simps: "rd_sha256 (demo_reader sha) = sha" "rd_compile (demo_reader sha) = sample_compiler"
  by (simp_all add: demo_reader_def)

definition no_registry :: registry where
  "no_registry = \<lparr>rg_db = empty_orch, rg_blobs = [], rg_shared = []\<rparr>"

definition demo_manifest :: pydict where
  "demo_manifest = (case sample_manifest of PDict m \<Rightarrow> m | _ \<Rightarrow> [])"

definition demo_row :: "(content \<Rightarrow> string) \<Rightarrow> content \<Rightarrow> bundle_row" where
  "demo_row sha data = \<lparr>bn_name = ''x'', bn_version = ''1.0'', bn_sha256 = sha data, bn_size = int (length data),
     bn_manifest = sample_manifest, bn_description = None, bn_uploaded_at = 0\<rparr>"

definition demo_file :: "(content \<Rightarrow> string) \<Rightarrow> shared_file" where
  "demo_file sha = \<lparr>sf_name = ''mask.bin'', sf_sha256 = sha [7], sf_size = 1, sf_description = None, sf_uploaded_at = 0\<rparr>"

lemma sample_manifest_dict: "sample_manifest = PDict demo_manifest"
  by (simp add: sample_manifest_def demo_manifest_def)

lemma demo_parsed: "parse_zip (demo_reader sha) data = Inr (demo_manifest, sample_parsed)"
proof -
  have "manifest_path [''manifest.yaml''] = Some ''manifest.yaml''" "\<not> 1 < count_list ''manifest.yaml'' (CHR ''/'')"
    and "parse_manifest sample_compiler sample_manifest = Inr sample_parsed" by code_simp+
  then show ?thesis
    by (simp only: parse_zip_def demo_reader_def reader.select_convs option.case sum.case if_False)
      (simp add: sample_manifest_dict)
qed

lemma demo_put:
  "\<exists>rg. put_shared (demo_reader sha) 0 ''mask.bin'' [[7]] None no_registry = Inr (demo_file sha, rg)
     \<and> bundles (rg_db rg) = [] \<and> shared_files (rg_db rg) = [demo_file sha] \<and> batches (rg_db rg) = [] \<and> rg_blobs rg = []"
proof -
  have "NAME_RE ''mask.bin''" by code_simp
  then show ?thesis by (simp add: put_shared_def no_registry_def empty_orch_def get_row_def demo_file_def demo_reader_def Let_def)
qed

lemma demo_upload:
  assumes "bundles (rg_db rg) = []" and "shared_files (rg_db rg) = [demo_file sha]" and "data \<noteq> []"
  shows "\<exists>rg'. upload_bundle (demo_reader sha) 0 data None rg = Inr (demo_row sha data, rg')
    \<and> bundles (rg_db rg') = [demo_row sha data] \<and> shared_files (rg_db rg') = [demo_file sha] \<and> batches (rg_db rg') = batches (rg_db rg)"
proof -
  have m: "str_of (py_get demo_manifest ''name'') = ''x''" "str_of (py_get demo_manifest ''version'') = ''1.0''"
    "parse_shared_files demo_manifest = Inr [''mask.bin'']" "PDict demo_manifest = sample_manifest"
    by (code_simp, code_simp, code_simp, simp add: sample_manifest_dict)
  have "get_bundle n v (rg_db rg) = None" for n v using assms(1) by (simp add: get_bundle_def get_row_def)
  with assms m show ?thesis
    by (simp add: upload_bundle_def demo_parsed Let_def demo_row_def demo_file_def demo_reader_simps)
qed

text \<open>A batch of the bundle.\<close>

theorem registry_serves_batches_witness:
  "\<exists>rg t c. reach empty_registry (registry_step (demo_reader (\<lambda>_. ''00''))) rg \<and> batches (rg_db rg) = [t]
     \<and> download_bundle ''x'' ''1.0'' rg = Inr (''00'', c)"
proof -
  let ?rd = "demo_reader (\<lambda>_. ''00'')"
  obtain rg1 where rg1: "put_shared ?rd 0 ''mask.bin'' [[7]] None no_registry = Inr (demo_file (\<lambda>_. ''00''), rg1)"
      "bundles (rg_db rg1) = []" "shared_files (rg_db rg1) = [demo_file (\<lambda>_. ''00'')]" "batches (rg_db rg1) = []"
    using demo_put by blast
  then obtain rg2 where rg2: "upload_bundle ?rd 0 (replicate 9 0) None rg1 = Inr (demo_row (\<lambda>_. ''00'') (replicate 9 0), rg2)"
      "bundles (rg_db rg2) = [demo_row (\<lambda>_. ''00'') (replicate 9 0)]" "shared_files (rg_db rg2) = [demo_file (\<lambda>_. ''00'')]"
      "batches (rg_db rg2) = []"
    using demo_upload [of rg1 "\<lambda>_. ''00''" "replicate 9 0"] by auto
  obtain t d where d: "create_batch sample_compiler (\<lambda>v. []) (\<lambda>n. []) 5 sample_creation sample_library = Inr (t, d)"
    using sample_batch_created by blast
  have "empty_registry no_registry" by (simp add: empty_registry_def no_registry_def)
  then have "reach empty_registry (registry_step ?rd) no_registry" by (rule reach_init)
  then have "reach empty_registry (registry_step ?rd) rg1" by (rule reach_step) (rule step_put [OF rg1(1)])
  then have "reach empty_registry (registry_step ?rd) rg2" by (rule reach_step) (rule step_upload [OF rg2(1)])
  then have "reach empty_registry (registry_step ?rd) (rg2\<lparr>rg_db := sample_library\<rparr>)"
    by (rule reach_step)
      (rule step_other; simp add: rg2 sample_library_def sample_registry_def demo_row_def demo_file_def empty_orch_def)
  then have "reach empty_registry (registry_step ?rd) (rg2\<lparr>rg_db := sample_library\<rparr>\<lparr>rg_db := d\<rparr>)"
    by (rule reach_step) (rule step_batch, use d in \<open>simp add: demo_reader_simps\<close>)
  then have reach: "reach empty_registry (registry_step ?rd) (rg2\<lparr>rg_db := d\<rparr>)" by simp
  have tables: "batches d = [t]" "bundles d = [demo_row (\<lambda>_. ''00'') (replicate 9 0)]"
    using d by (auto simp: create_batch_def insert_granules_def Let_def log_warnings_registry sample_library_def sample_registry_def
        demo_row_def empty_orch_def split: if_splits)
  with registry_serves_batches [OF reach, of t] show ?thesis
    using reach by (fastforce simp: demo_row_def)
qed

text \<open>The digest shows the bytes, and nothing happens in between.\<close>

theorem uploaded_bundle_roundtrip_witness:
  "\<exists>rg. reach empty_registry (registry_step (demo_reader (map (char_of \<circ> unat)))) rg
     \<and> download_bundle ''x'' ''1.0'' rg = Inr ([CHR 0x01, CHR 0x02], [1, 2])"
proof -
  let ?sha = "map (char_of \<circ> (unat :: 8 word \<Rightarrow> nat)) :: content \<Rightarrow> string"
  let ?rd = "demo_reader ?sha"
  obtain rg1 where rg1: "put_shared ?rd 0 ''mask.bin'' [[7]] None no_registry = Inr (demo_file ?sha, rg1)"
      "bundles (rg_db rg1) = []" "shared_files (rg_db rg1) = [demo_file ?sha]"
    using demo_put by blast
  then obtain rg2 where rg2: "upload_bundle ?rd 0 [1, 2] None rg1 = Inr (demo_row ?sha [1, 2], rg2)"
      "bundles (rg_db rg2) = [demo_row ?sha [1, 2]]"
    using demo_upload [of rg1 ?sha "[1, 2]"] by auto
  have "registry_step ?rd no_registry rg1" using rg1(1) by (rule step_put)
  moreover have "empty_registry no_registry" by (simp add: empty_registry_def no_registry_def)
  ultimately have r1: "reach empty_registry (registry_step ?rd) rg1" by (auto intro: reach_init reach_step)
  moreover have "registry_step ?rd rg1 rg2" using rg2(1) by (rule step_upload)
  ultimately have r2: "reach empty_registry (registry_step ?rd) rg2" by (rule reach_step)
  have "inj (char_of \<circ> (unat :: 8 word \<Rightarrow> nat))"
  proof (rule injI)
    fix x y :: "8 word" assume "(char_of \<circ> unat) x = (char_of \<circ> unat) y"
    moreover have "unat x < 256" "unat y < 256" using unsigned_less [of x] unsigned_less [of y] by simp_all
    ultimately have "unat x = unat y" by (metis comp_apply of_char_of mod_less)
    then show "x = y" by (simp add: word_unat_eq_iff)
  qed
  then have "inj (rd_sha256 ?rd)" by (simp add: demo_reader_def)
  from uploaded_bundle_roundtrip [OF this r1 rg2(1), of rg2] rg2(2)
  have "download_bundle ''x'' ''1.0'' rg2 = Inr (?sha [1, 2], [1, 2])" by (simp add: demo_row_def demo_reader_def)
  moreover have "?sha [1, 2] = [CHR 0x01, CHR 0x02]" by code_simp
  ultimately show ?thesis using r2 by auto
qed

end
