(* ===== verification/BundleCache.thy ===== *)
theory BundleCache
  imports Registry Wire "HOL-Library.Sublist"
begin

text \<open>
  What a worker keeps on disk of the registry (\<^verbatim>\<open>src/sathop/worker/bundle.py\<close>, \<^verbatim>\<open>worker/shared.py\<close>):
  unpacking a bundle and taking off its wrapper directory, against the listing of files that the orchestrator shows
  (\<^verbatim>\<open>orchestrator/api/bundles.py\<close>); the synchronisation of shared files, against the registry; and the eviction of old bundles.
\<close>

section \<open>Paths\<close>

fun slash_join :: "string list \<Rightarrow> string" where
  "slash_join [] = []"
| "slash_join [p] = p"
| "slash_join (p # q # ps) = p @ CHR ''/'' # slash_join (q # ps)"

definition plain_segment :: "string \<Rightarrow> bool" where
  "plain_segment p \<longleftrightarrow> p \<noteq> [] \<and> p \<noteq> ''.'' \<and> p \<noteq> ''..'' \<and> CHR ''/'' \<notin> set p"

definition plain_path :: "string list \<Rightarrow> bool" where
  "plain_path ps \<longleftrightarrow> ps \<noteq> [] \<and> list_all plain_segment ps"

lemma split_on_append: "c \<notin> set p \<Longrightarrow> split_on c (p @ c # s) = p # split_on c s"
  by (induction p) auto

lemma split_slash_join: "ps \<noteq> [] \<Longrightarrow> list_all (\<lambda>p. CHR ''/'' \<notin> set p) ps \<Longrightarrow> split_on (CHR ''/'') (slash_join ps) = ps"
  by (induction ps rule: slash_join.induct) (auto simp: split_on_whole split_on_append)

lemma plain_split: "plain_path ps \<Longrightarrow> split_on (CHR ''/'') (slash_join ps) = ps"
  by (rule split_slash_join) (auto simp: plain_path_def plain_segment_def list_all_iff)

lemma slash_join_Cons: "ps \<noteq> [] \<Longrightarrow> slash_join (p # ps) = p @ CHR ''/'' # slash_join ps"
  by (cases ps) auto

lemma first_seg_join: "plain_path (p # ps) \<Longrightarrow> first_seg (slash_join (p # ps)) = p"
  by (cases ps) (auto simp: plain_path_def plain_segment_def first_seg_def takeWhile_eq_all_conv takeWhile_append2 takeWhile_tail)

lemma slash_in_join: "plain_path (p # ps) \<Longrightarrow> CHR ''/'' \<in> set (slash_join (p # ps)) \<longleftrightarrow> ps \<noteq> []"
  by (cases ps) (auto simp: plain_path_def plain_segment_def)

lemma slash_join_ne: "plain_path ps \<Longrightarrow> slash_join ps \<noteq> [] \<and> last (slash_join ps) \<noteq> CHR ''/''"
proof (induction ps rule: slash_join.induct)
  case (2 p)
  then show ?case by (auto simp: plain_path_def plain_segment_def) (metis last_in_set)
next
  case (3 p q ps)
  then show ?case by (simp add: plain_path_def)
qed (simp add: plain_path_def)

section \<open>Unpacking\<close>

text \<open>
  An archive is the list of its members, name and bytes; the name of a directory ends with a slash. A tree holds the files by
  path, and the directories that members name.
\<close>

record tree =
  tr_files :: "(string list \<times> content) list"
  tr_dirs :: "string list list"

definition is_dir_name :: "string \<Rightarrow> bool" where
  "is_dir_name n \<longleftrightarrow> n \<noteq> [] \<and> last n = CHR ''/''"

text \<open>\<^verbatim>\<open>ZipFile.extract\<close> drops empty components and dots from the name of a member.\<close>

definition member_path :: "string \<Rightarrow> string list" where
  "member_path n = filter (\<lambda>p. p \<notin> {[], ''.'', ''..''}) (split_on (CHR ''/'') n)"

definition directories :: "tree \<Rightarrow> string list list" where
  "directories tr = concat (map (butlast \<circ> prefixes) (map fst (tr_files tr))) @ concat (map prefixes (tr_dirs tr))"

datatype unpack_error = BadRef string | NotFetched nat | BadArchive | Escapes string | FileSystemError string | NoManifest

fun extract_members :: "string list \<Rightarrow> (string \<times> content) list \<Rightarrow> tree \<Rightarrow> unpack_error + tree" where
  "extract_members dest [] tr = Inr tr"
| "extract_members dest ((n, c) # ms) tr =
     (case safe_join dest n of
        Inl e \<Rightarrow> Inl (Escapes n)
      | Inr t \<Rightarrow>
          let p = member_path n; files = map fst (tr_files tr)
          in if is_dir_name n then
               if list_ex (\<lambda>q. q \<in> set files) (prefixes p) then Inl (FileSystemError n)
               else extract_members dest ms (tr\<lparr>tr_dirs := tr_dirs tr @ [p]\<rparr>)
             else if p = [] \<or> list_ex (\<lambda>q. q \<in> set files) (butlast (prefixes p)) \<or> p \<in> set (directories tr)
             then Inl (FileSystemError n)
             else extract_members dest ms (tr\<lparr>tr_files := AList.update p c (tr_files tr)\<rparr>))"

definition top_names :: "tree \<Rightarrow> string list" where
  "top_names tr = map hd (filter (\<lambda>p. p \<noteq> []) (map fst (tr_files tr) @ tr_dirs tr))"

text \<open>
  \<^verbatim>\<open>_flatten_wrapper_dir\<close>: the children of the wrapper move up, except those whose name exists there already; the
  wrapper is then removed. The wrapper is looked for among the relative paths with every backslash replaced by
  a slash, although a name on disk may hold one: then the directory may not exist (\<^verbatim>\<open>iterdir\<close> raises), or
  files may lie beside it, which stay.
\<close>

definition forward_slashes :: "string \<Rightarrow> string" where
  "forward_slashes s = map (\<lambda>c. if c = CHR 0x5C then CHR ''/'' else c) s"

definition flatten_wrapper :: "tree \<Rightarrow> unpack_error + tree" where
  "flatten_wrapper tr =
     (if [''manifest.yaml''] \<in> fst ` set (tr_files tr) then Inr tr
      else case detect_wrapper_dir (map (forward_slashes \<circ> slash_join \<circ> fst) (tr_files tr)) of
             None \<Rightarrow> Inr tr
           | Some w \<Rightarrow>
               if w \<notin> set (top_names tr) then Inl (FileSystemError w)
               else
                 let moves = (\<lambda>p. hd p = w \<and> tl p \<noteq> [] \<and> hd (tl p) \<notin> set (top_names tr))
                 in Inr \<lparr>tr_files = filter (\<lambda>(p, c). hd p \<noteq> w) (tr_files tr)
                            @ map (\<lambda>(p, c). (tl p, c)) (filter (\<lambda>(p, c). moves p) (tr_files tr)),
                         tr_dirs = filter (\<lambda>p. p = [] \<or> hd p \<noteq> w) (tr_dirs tr) @ map tl (filter (\<lambda>p. p \<noteq> [] \<and> moves p) (tr_dirs tr))\<rparr>)"

text \<open>The answer of the download is a status and the members of the archive, if it is one.\<close>

definition fetch_bundle :: "string list \<Rightarrow> nat \<times> (string \<times> content) list option \<Rightarrow> unpack_error + tree" where
  "fetch_bundle dest answer =
     (if fst answer \<noteq> 200 then Inl (NotFetched (fst answer))
      else case snd answer of
             None \<Rightarrow> Inl BadArchive
           | Some members \<Rightarrow>
               and_then (extract_members dest members \<lparr>tr_files = [], tr_dirs = []\<rparr>) (\<lambda>tr.
                 and_then (flatten_wrapper tr) (\<lambda>tr.
                   if [''manifest.yaml''] \<in> fst ` set (tr_files tr) then Inr tr else Inl NoManifest)))"

text \<open>A bundle directory that exists is used as it is; a failed fetch leaves none.\<close>

definition ensure_bundle ::
  "string list \<Rightarrow> (string \<Rightarrow> string \<Rightarrow> nat \<times> (string \<times> content) list option) \<Rightarrow> string \<Rightarrow> (string \<times> tree) list
   \<Rightarrow> unpack_error + ((string \<times> string) \<times> (string \<times> tree) list)" where
  "ensure_bundle cache_root orch ref cache =
     (case parse_bundle_ref ref of
        Inl e \<Rightarrow> Inl (BadRef ref)
      | Inr (name, version) \<Rightarrow>
          let dir = name @ ''@'' @ version
          in if map_of cache dir \<noteq> None then Inr ((name, version), cache)
             else and_then (fetch_bundle (cache_root @ [dir]) (orch name version)) (\<lambda>tr.
               Inr ((name, version), AList.update dir tr cache)))"

section \<open>The listing of the orchestrator\<close>

definition strip_wrapper :: "string list \<Rightarrow> string" where
  "strip_wrapper names = (case detect_wrapper_dir names of None \<Rightarrow> [] | Some w \<Rightarrow> if w = [] then [] else w @ ''/'')"

fun list_entry :: "string \<Rightarrow> string \<times> content \<Rightarrow> (string \<times> nat) list" where
  "list_entry pre (n, c) =
     (if is_dir_name n then []
      else if pre \<noteq> [] \<and> \<not> starts_with pre n then []
      else let rel = drop (length pre) n in if rel = [] then [] else [(rel, length c)])"

definition list_files :: "(string \<times> content) list \<Rightarrow> (string \<times> nat) list" where
  "list_files members = sort_key fst (concat (map (list_entry (strip_wrapper (map fst members))) members))"

section \<open>The listing against the unpacked bundle\<close>

text \<open>An archive whose member names are written plainly and without backslashes, each once.\<close>

definition plain_member :: "string \<Rightarrow> bool" where
  "plain_member n \<longleftrightarrow> (\<exists>ps. plain_path ps \<and> (n = slash_join ps \<or> n = slash_join ps @ ''/''))"

definition plain_archive :: "(string \<times> content) list \<Rightarrow> bool" where
  "plain_archive members \<longleftrightarrow> distinct (map fst members) \<and> list_all plain_member (map fst members)
     \<and> list_all (\<lambda>n. CHR 0x5C \<notin> set n) (map fst members)"

lemma forward_slashes_id: "CHR 0x5C \<notin> set s \<Longrightarrow> forward_slashes s = s"
  by (auto simp: forward_slashes_def intro: map_idI)

lemma split_on_end: "split_on c (s @ [c]) = split_on c s @ [[]]"
  by (induction s) (auto split: list.split)

lemma plain_filter: "plain_path ps \<Longrightarrow> filter (\<lambda>p. p \<noteq> [] \<and> p \<noteq> ''.'' \<and> p \<noteq> ''..'') ps = ps"
  by (rule filter_True) (auto simp: plain_path_def plain_segment_def list_all_iff)

lemma member_path_plain:
  "plain_path ps \<Longrightarrow> member_path (slash_join ps) = ps" "plain_path ps \<Longrightarrow> member_path (slash_join ps @ ''/'') = ps"
  by (simp_all add: member_path_def plain_split split_on_end plain_filter)

lemma is_dir_plain:
  "plain_path ps \<Longrightarrow> \<not> is_dir_name (slash_join ps)" "is_dir_name (s @ ''/'')"
  by (simp_all add: is_dir_name_def slash_join_ne)

lemma plain_file:
  assumes "plain_member n" and "\<not> is_dir_name n"
  shows "plain_path (member_path n) \<and> slash_join (member_path n) = n"
  using assms by (auto simp: plain_member_def member_path_plain is_dir_plain)

lemma plain_first_seg: "plain_member n \<Longrightarrow> member_path n \<noteq> [] \<and> first_seg n = hd (member_path n)"
proof -
  assume "plain_member n"
  then obtain ps where ps: "plain_path ps" "n = slash_join ps \<or> n = slash_join ps @ ''/''" by (auto simp: plain_member_def)
  obtain p qs where pqs: "ps = p # qs" using ps(1) by (cases ps) (auto simp: plain_path_def)
  have "first_seg (slash_join ps) = p" using ps(1) by (simp add: pqs first_seg_join)
  moreover have "first_seg (s @ ''/'') = first_seg s" for s
    by (induction s) (simp_all add: first_seg_def)
  ultimately show ?thesis using ps pqs by (auto simp: member_path_plain)
qed

definition file_members :: "(string \<times> content) list \<Rightarrow> (string \<times> content) list" where
  "file_members members = filter (\<lambda>(n, c). \<not> is_dir_name n) members"

lemma file_members_Cons:
  "file_members ((n, c) # ms) = (if is_dir_name n then file_members ms else (n, c) # file_members ms)"
  by (simp add: file_members_def)

lemma update_append_new: "k \<notin> fst ` set xs \<Longrightarrow> AList.update k v xs = xs @ [(k, v)]"
  by (induction xs) auto

lemma extract_plain:
  assumes "extract_members dest members tr = Inr tr'" and "plain_archive members"
    and "\<forall>(n, c) \<in> set (file_members members). member_path n \<notin> fst ` set (tr_files tr)"
  shows "tr_files tr' = tr_files tr @ map (\<lambda>(n, c). (member_path n, c)) (file_members members)
    \<and> set (tr_dirs tr') = set (tr_dirs tr) \<union> member_path ` {n \<in> fst ` set members. is_dir_name n}"
  using assms
proof (induction dest members tr rule: extract_members.induct)
  case (2 dest n c ms tr)
  have plain: "plain_member n" "plain_archive ms" "n \<notin> fst ` set ms" using "2.prems"(2) by (auto simp: plain_archive_def)
  obtain t where t: "safe_join dest n = Inr t" using "2.prems"(1) by (auto split: sum.splits)
  show ?case
  proof (cases "is_dir_name n")
    case True
    then have "extract_members dest ms (tr\<lparr>tr_dirs := tr_dirs tr @ [member_path n]\<rparr>) = Inr tr'"
      and "\<not> list_ex (\<lambda>q. q \<in> set (map fst (tr_files tr))) (prefixes (member_path n))"
      using "2.prems"(1) t by (auto simp: Let_def split: if_splits)
    with "2.IH"(1) [OF t refl refl True] plain(2) "2.prems"(3) True show ?thesis
      by (auto simp: file_members_Cons)
  next
    case False
    then have run: "extract_members dest ms (tr\<lparr>tr_files := AList.update (member_path n) c (tr_files tr)\<rparr>) = Inr tr'"
      and ok: "\<not> (member_path n = [] \<or> list_ex (\<lambda>q. q \<in> set (map fst (tr_files tr))) (butlast (prefixes (member_path n)))
        \<or> member_path n \<in> set (directories tr))"
      using "2.prems"(1) t by (auto simp: Let_def split: if_splits)
    have new: "member_path n \<notin> fst ` set (tr_files tr)" using "2.prems"(3) False by (auto simp: file_members_def)
    then have upd: "AList.update (member_path n) c (tr_files tr) = tr_files tr @ [(member_path n, c)]"
      by (rule update_append_new)
    have neq: "member_path m \<noteq> member_path n" if "(m, d) \<in> set (file_members ms)" for m d
    proof
      assume eq: "member_path m = member_path n"
      have "plain_member m" "\<not> is_dir_name m" "m \<in> fst ` set ms" using that plain(2)
        by (force simp: file_members_def plain_archive_def list_all_iff)+
      with eq plain_file [OF plain(1) False] plain_file [of m] have "m = n" by simp
      with \<open>m \<in> fst ` set ms\<close> plain(3) show False by simp
    qed
    have "\<forall>(m, d) \<in> set (file_members ms). member_path m \<notin> fst ` set (tr_files tr @ [(member_path n, c)])"
    proof
      fix x assume x: "x \<in> set (file_members ms)"
      obtain m d where md: "x = (m, d)" by fastforce
      have "x \<in> set (file_members ((n, c) # ms))" using x False by (simp add: file_members_Cons)
      with "2.prems"(3) md have "member_path m \<notin> fst ` set (tr_files tr)" by blast
      with neq [of m d] x md show "case x of (m, d) \<Rightarrow> member_path m \<notin> fst ` set (tr_files tr @ [(member_path n, c)])" by simp
    qed
    with "2.IH"(2) [OF t refl refl False ok run plain(2)] upd
    have "tr_files tr' = (tr_files tr @ [(member_path n, c)]) @ map (\<lambda>(n, c). (member_path n, c)) (file_members ms)
        \<and> set (tr_dirs tr') = set (tr_dirs tr) \<union> member_path ` {n \<in> fst ` set ms. is_dir_name n}"
      by simp
    moreover have "{m \<in> fst ` set ((n, c) # ms). is_dir_name m} = {m \<in> fst ` set ms. is_dir_name m}" using False by auto
    ultimately show ?thesis using False by (simp add: file_members_Cons)
  qed
qed (auto simp: file_members_def)

lemma union_of_nonempty: "(\<And>x. x \<in> A - B \<Longrightarrow> f x = {}) \<Longrightarrow> B \<subseteq> A \<Longrightarrow> \<Union> (f ` A) = \<Union> (f ` B)"
  by (rule set_eqI) auto

lemma detect_ignores_directories:
  "detect_wrapper_dir (map fst members) = detect_wrapper_dir (map fst (filter (\<lambda>(n, c). n \<noteq> [] \<and> \<not> is_dir_name n) members))"
proof -
  have "filter (\<lambda>p. p \<noteq> [] \<and> last p \<noteq> CHR ''/'') (map fst members)
      = filter (\<lambda>p. p \<noteq> [] \<and> last p \<noteq> CHR ''/'') (map fst (filter (\<lambda>(n, c). n \<noteq> [] \<and> \<not> is_dir_name n) members))"
    by (induction members) (auto simp: is_dir_name_def)
  then show ?thesis by (simp only: detect_wrapper_dir_def)
qed

lemma detect_wrapperD:
  assumes "detect_wrapper_dir names = Some w" and "n \<in> set names" and "n \<noteq> []" and "last n \<noteq> CHR ''/''"
  shows "first_seg n = w \<and> CHR ''/'' \<in> set n"
proof -
  let ?files = "filter (\<lambda>p. p \<noteq> [] \<and> last p \<noteq> CHR ''/'') names"
  have slashes: "\<forall>p \<in> set ?files. CHR ''/'' \<in> set p" and one: "length (dedup (map first_seg ?files)) = 1"
    and w: "w = hd (dedup (map first_seg ?files))"
    using assms(1) by (auto simp: detect_wrapper_dir_def Let_def list_ex_iff split: if_splits)
  obtain x where "dedup (map first_seg ?files) = [x]" using one by (cases "dedup (map first_seg ?files)") auto
  with w have "set (map first_seg ?files) = {w}" by (metis list.sel(1) list.simps(15) set_dedup set_empty)
  moreover have n: "n \<in> set ?files" using assms(2-4) by simp
  ultimately show ?thesis using slashes by auto
qed

text \<open>
  C25: The orchestrator lists what the worker unpacks. For every archive with plain member names, without backslashes, that
  unpacks, taking off the wrapper succeeds, and the paths and sizes that the file listing shows are those of the files
  in the worker's bundle directory, with one exception: inside a wrapper, what lies below a name that also is a
  name at the top of the archive (such as the wrapper's own) is listed, but is lost on the worker. (With a backslash in a
  name the two may differ, see \<open>backslash_listing_differs\<close>.)
\<close>

theorem listing_matches_unpacked:
  assumes "plain_archive members" and "extract_members dest members \<lparr>tr_files = [], tr_dirs = []\<rparr> = Inr tr"
  shows "\<exists>tr'. flatten_wrapper tr = Inr tr' \<and> (\<lambda>(p, c). (slash_join p, length c)) ` set (tr_files tr') =
    {(f, n) \<in> set (list_files members). \<not> (strip_wrapper (map fst members) \<noteq> [] \<and> first_seg f \<in> first_seg ` fst ` set members)}"
proof -
  let ?F = "file_members members"
  have files: "tr_files tr = map (\<lambda>(n, c). (member_path n, c)) ?F"
    and dirs: "set (tr_dirs tr) = member_path ` {n \<in> fst ` set members. is_dir_name n}"
    using extract_plain [OF assms(2, 1)] by simp_all
  have plain: "plain_path (member_path n)" "slash_join (member_path n) = n" "\<not> is_dir_name n" "(n, c) \<in> set members"
    if "(n, c) \<in> set ?F" for n c
    using that assms(1) plain_file [of n] by (force simp: file_members_def plain_archive_def list_all_iff)+
  have "CHR 0x5C \<notin> set n" if "(n, c) \<in> set ?F" for n c
    using plain(4) [OF that] assms(1) by (force simp: plain_archive_def list_all_iff)
  then have names: "map (forward_slashes \<circ> slash_join \<circ> fst) (tr_files tr) = map fst ?F"
    unfolding files by (auto simp: plain forward_slashes_id)
  have nonempty: "n \<noteq> []" if "n \<in> fst ` set members" for n
    using that assms(1) slash_join_ne by (force simp: plain_archive_def list_all_iff plain_member_def)
  then have "filter (\<lambda>(n, c). n \<noteq> [] \<and> \<not> is_dir_name n) members = ?F"
    unfolding file_members_def by (intro filter_cong) (force simp: image_iff)+
  then have same: "detect_wrapper_dir (map fst members) = detect_wrapper_dir (map (forward_slashes \<circ> slash_join \<circ> fst) (tr_files tr))"
    using detect_ignores_directories [of members] by (simp only: names)
  have member: "plain_member n" if "n \<in> fst ` set members" for n
    using that assms(1) by (auto simp: plain_archive_def list_all_iff)
  have tops: "set (top_names tr) = first_seg ` fst ` set members"
  proof -
    have "set (top_names tr) = hd ` {p \<in> fst ` set (tr_files tr) \<union> set (tr_dirs tr). p \<noteq> []}" by (auto simp: top_names_def)
    also have "fst ` set (tr_files tr) \<union> set (tr_dirs tr) = member_path ` fst ` set members"
      unfolding files dirs by (force simp: file_members_def image_iff)
    also have "hd ` {p \<in> member_path ` fst ` set members. p \<noteq> []} = (\<lambda>n. hd (member_path n)) ` fst ` set members"
      using plain_first_seg [OF member] by auto
    also have "\<dots> = first_seg ` fst ` set members" using plain_first_seg [OF member] by (intro image_cong) simp_all
    finally show ?thesis .
  qed
  let ?pre = "strip_wrapper (map fst members)"
  have listed: "set (list_files members) = (\<Union>(n, c) \<in> set ?F. set (list_entry ?pre (n, c)))"
  proof -
    have "set (list_entry ?pre m) = {}" if "m \<in> set members - set ?F" for m
      using that by (cases m) (simp add: file_members_def)
    moreover have "set ?F \<subseteq> set members" by (auto simp: file_members_def)
    ultimately have "(\<Union>m \<in> set members. set (list_entry ?pre m)) = (\<Union>m \<in> set ?F. set (list_entry ?pre m))"
      by (intro union_of_nonempty)
    then show ?thesis by (simp add: list_files_def case_prod_beta' del: list_entry.simps)
  qed
  show ?thesis
  proof (cases "detect_wrapper_dir (map fst members)")
    case None
    then have "flatten_wrapper tr = Inr tr" by (simp add: flatten_wrapper_def same)
    moreover have pre: "?pre = []" using None by (simp add: strip_wrapper_def)
    moreover have "list_entry [] (n, c) = [(n, length c)]" if "(n, c) \<in> set ?F" for n c
    proof -
      have "n \<noteq> []" using plain(4) [OF that] nonempty by force
      with plain(3) [OF that] show ?thesis by simp
    qed
    then have "set (list_files members) = (\<lambda>(n, c). (n, length c)) ` set ?F" unfolding listed pre by force
    moreover have "(\<lambda>(p, c). (slash_join p, length c)) ` set (tr_files tr) = (\<lambda>(n, c). (n, length c)) ` set ?F"
      unfolding files set_map image_image using plain(2) by (intro image_cong) auto
    ultimately show ?thesis by auto
  next
    case (Some w)
    have under: "\<exists>rest. member_path n = w # rest \<and> plain_path rest \<and> n = w @ ''/'' @ slash_join rest" if "(n, c) \<in> set ?F" for n c
    proof -
      have "n \<in> set (map fst members)" "n \<noteq> []" "last n \<noteq> CHR ''/''"
        using plain(3, 4) [OF that] nonempty by (force simp: is_dir_name_def)+
      from detect_wrapperD [OF Some this] have seg: "first_seg n = w" "CHR ''/'' \<in> set n" by simp_all
      have "plain_member n" using plain(4) [OF that] member by force
      with plain_first_seg seg(1) have "member_path n \<noteq> []" "hd (member_path n) = w" by auto
      then obtain rest where rest: "member_path n = w # rest" by (cases "member_path n") auto
      with plain(1, 2) [OF that] seg(2) slash_in_join have "rest \<noteq> []" by metis
      with rest plain(1, 2) [OF that] show ?thesis by (auto simp: plain_path_def slash_join_Cons)
    qed
    obtain c0 where manifest: "(w @ ''/manifest.yaml'', c0) \<in> set ?F"
      using Some by (auto simp: detect_wrapper_dir_def file_members_def is_dir_name_def Let_def split: if_splits)
    from under [OF this] plain(1) [OF this] have w: "w \<noteq> []" by (auto simp: plain_path_def plain_segment_def)
    have root: "[''manifest.yaml''] \<notin> fst ` set (tr_files tr)"
    proof
      assume "[''manifest.yaml''] \<in> fst ` set (tr_files tr)"
      then obtain n c where "(n, c) \<in> set ?F" "member_path n = [''manifest.yaml'']" by (auto simp: files)
      with under [OF this(1)] show False by (auto simp: plain_path_def)
    qed
    have pre: "?pre = w @ ''/''" using Some w by (simp add: strip_wrapper_def)
    have entry: "list_entry ?pre (n, c) = [(slash_join (tl (member_path n)), length c)]"
      and seg: "first_seg (slash_join (tl (member_path n))) = hd (tl (member_path n))"
      and path: "hd (member_path n) = w \<and> tl (member_path n) \<noteq> []" if nc: "(n, c) \<in> set ?F" for n c
    proof -
      obtain rest where rest: "member_path n = w # rest" "plain_path rest" "n = w @ ''/'' @ slash_join rest"
        using under [OF nc] by blast
      then obtain q qs where q: "rest = q # qs" by (cases rest) (auto simp: plain_path_def)
      have "slash_join rest \<noteq> []" using slash_join_ne [OF rest(2)] by blast
      with rest plain(3) [OF nc] show "list_entry ?pre (n, c) = [(slash_join (tl (member_path n)), length c)]"
        by (simp add: pre starts_with_def)
      show "first_seg (slash_join (tl (member_path n))) = hd (tl (member_path n))"
        using rest(2) first_seg_join [of q qs] by (simp add: rest(1) q)
      show "hd (member_path n) = w \<and> tl (member_path n) \<noteq> []" using rest(1) q by simp
    qed
    have "set (list_files members) = (\<lambda>(n, c). (slash_join (tl (member_path n)), length c)) ` set ?F"
      unfolding listed using entry by force
    moreover have "\<exists>tr'. flatten_wrapper tr = Inr tr' \<and> (\<lambda>(p, c). (slash_join p, length c)) ` set (tr_files tr') =
        (\<lambda>(n, c). (slash_join (tl (member_path n)), length c)) ` {(n, c) \<in> set ?F. hd (tl (member_path n)) \<notin> first_seg ` fst ` set members}"
    proof -
      have "filter (\<lambda>(p, c). hd p \<noteq> w) (tr_files tr) = []"
        unfolding files using path by (auto simp: filter_empty_conv)
      moreover have "w \<in> set (top_names tr)"
      proof -
        have "w = first_seg (w @ ''/manifest.yaml'')"
          using under [OF manifest] plain_first_seg [OF member] plain(4) [OF manifest] by force
        moreover have "w @ ''/manifest.yaml'' \<in> fst ` set members" using plain(4) [OF manifest] by force
        ultimately show ?thesis unfolding tops by blast
      qed
      ultimately obtain tr' where tr': "flatten_wrapper tr = Inr tr'" and "tr_files tr' = map (\<lambda>(p, c). (tl p, c))
          (filter (\<lambda>(p, c). hd p = w \<and> tl p \<noteq> [] \<and> hd (tl p) \<notin> set (top_names tr)) (tr_files tr))"
        using root Some by (simp add: flatten_wrapper_def same Let_def)
      note this(2)
      also have "filter (\<lambda>(p, c). hd p = w \<and> tl p \<noteq> [] \<and> hd (tl p) \<notin> set (top_names tr)) (tr_files tr)
          = map (\<lambda>(n, c). (member_path n, c)) (filter (\<lambda>(n, c). hd (tl (member_path n)) \<notin> set (top_names tr)) ?F)"
        unfolding files filter_map using path by (intro arg_cong [where f = "map _"] filter_cong) auto
      finally have moved: "tr_files tr' = map (\<lambda>(n, c). (tl (member_path n), c))
          (filter (\<lambda>(n, c). hd (tl (member_path n)) \<notin> set (top_names tr)) ?F)"
        by (simp add: comp_def case_prod_beta')
      show ?thesis
        by (rule exI [of _ tr'], rule conjI [OF tr'])
          (unfold moved set_map set_filter image_image tops, intro image_cong, auto)
    qed
    moreover have "{(n, c) \<in> set ?F. hd (tl (member_path n)) \<notin> first_seg ` fst ` set members}
        = {(n, c) \<in> set ?F. first_seg (slash_join (tl (member_path n))) \<notin> first_seg ` fst ` set members}"
    proof (rule set_eqI)
      fix x :: "string \<times> content"
      obtain n c where x: "x = (n, c)" by fastforce
      show "x \<in> {(n, c) \<in> set ?F. hd (tl (member_path n)) \<notin> first_seg ` fst ` set members}
          \<longleftrightarrow> x \<in> {(n, c) \<in> set ?F. first_seg (slash_join (tl (member_path n))) \<notin> first_seg ` fst ` set members}"
        unfolding x using seg [of n c] by (cases "(n, c) \<in> set ?F") simp_all
    qed
    moreover have "?pre \<noteq> []" by (simp add: pre)
    moreover have "{(f, k) \<in> (\<lambda>(n, c). (slash_join (tl (member_path n)), length c)) ` A. first_seg f \<notin> T}
        = (\<lambda>(n, c). (slash_join (tl (member_path n)), length c)) ` {(n, c) \<in> A. first_seg (slash_join (tl (member_path n))) \<notin> T}"
      for A :: "(string \<times> content) set" and T by auto
    ultimately show ?thesis by simp
  qed
qed

text \<open>A Python package named like the wrapper directory around it: its module is listed, and lost.\<close>

definition demo_archive :: "(string \<times> content) list" where
  "demo_archive = [(''w/manifest.yaml'', [1]), (''w/run.py'', [2, 2]), (''w/w/mod.py'', [3])]"

theorem listing_matches_unpacked_witness:
  "map fst (list_files demo_archive) = [''manifest.yaml'', ''run.py'', ''w/mod.py'']
   \<and> (\<exists>tr. fetch_bundle [''cache'', ''w@1''] (200, Some demo_archive) = Inr tr
        \<and> (\<lambda>(p, c). (slash_join p, length c)) ` set (tr_files tr) = {(''manifest.yaml'', 1), (''run.py'', 2)})"
proof -
  let ?tr = "\<lparr>tr_files = [([''w'', ''manifest.yaml''], [1]), ([''w'', ''run.py''], [2, 2]), ([''w'', ''w'', ''mod.py''], [3])], tr_dirs = []\<rparr> :: tree"
  have run: "extract_members [''cache'', ''w@1''] demo_archive \<lparr>tr_files = [], tr_dirs = []\<rparr> = Inr ?tr" by code_simp
  have listed: "list_files demo_archive = [(''manifest.yaml'', 1), (''run.py'', 2), (''w/mod.py'', 1)]"
    and wrapper: "strip_wrapper (map fst demo_archive) = ''w/''" by code_simp+
  have "plain_member ''w/manifest.yaml''" "plain_member ''w/run.py''" "plain_member ''w/w/mod.py''"
    unfolding plain_member_def
    by (intro exI [of _ "[''w'', ''manifest.yaml'']"] exI [of _ "[''w'', ''run.py'']"] exI [of _ "[''w'', ''w'', ''mod.py'']"];
        simp add: plain_path_def plain_segment_def)+
  then have "plain_archive demo_archive" by (simp add: plain_archive_def demo_archive_def)
  note matches = listing_matches_unpacked [OF this run, unfolded listed wrapper]
  have top: "first_seg ` fst ` set demo_archive = {''w''}" by (simp add: demo_archive_def first_seg_def)
  have seg: "first_seg ''manifest.yaml'' = ''manifest.yaml''" "first_seg ''run.py'' = ''run.py''" "first_seg ''w/mod.py'' = ''w''"
    by (simp_all add: first_seg_def)
  have as_filter: "{(f, n) \<in> set xs. \<not> Q f} = set (filter (\<lambda>(f, n). \<not> Q f) xs)" for Q and xs :: "(string \<times> nat) list" by auto
  obtain tr' where tr': "flatten_wrapper ?tr = Inr tr'"
    and files: "(\<lambda>(p, c). (slash_join p, length c)) ` set (tr_files tr') = {(''manifest.yaml'', 1), (''run.py'', 2)}"
    using matches unfolding as_filter top by (auto simp: seg)
  have "case flatten_wrapper ?tr of Inl e \<Rightarrow> False | Inr t \<Rightarrow> [''manifest.yaml''] \<in> fst ` set (tr_files t)" by code_simp
  then have "fetch_bundle [''cache'', ''w@1''] (200, Some demo_archive) = Inr tr'"
    by (simp add: fetch_bundle_def run tr')
  with files listed show ?thesis by simp
qed

text \<open>
  A name with a backslash: the worker takes it for a path when it looks for the wrapper, the orchestrator does not, so the
  listing shows paths that no worker has.
\<close>

definition backslash_archive :: "(string \<times> content) list" where
  "backslash_archive = [(''w/manifest.yaml'', [1]), (''w'' @ [CHR 0x5C] @ ''run.py'', [2, 2])]"

lemma backslash_listing_differs:
  "map fst (list_files backslash_archive) = [''w/manifest.yaml'', ''w'' @ [CHR 0x5C] @ ''run.py'']
   \<and> (\<exists>tr. fetch_bundle [''cache'', ''w@1''] (200, Some backslash_archive) = Inr tr
        \<and> map (slash_join \<circ> fst) (tr_files tr) = [''w'' @ [CHR 0x5C] @ ''run.py'', ''manifest.yaml''])"
proof -
  have "map fst (list_files backslash_archive) = [''w/manifest.yaml'', ''w'' @ [CHR 0x5C] @ ''run.py'']" by code_simp
  moreover have "fetch_bundle [''cache'', ''w@1''] (200, Some backslash_archive)
      = Inr \<lparr>tr_files = [([''w'' @ [CHR 0x5C] @ ''run.py''], [2, 2]), ([''manifest.yaml''], [1])], tr_dirs = []\<rparr>" by code_simp
  ultimately show ?thesis by simp
qed

text \<open>
  The manifest the orchestrator reads is the first member whose name ends with \<^verbatim>\<open>manifest.yaml\<close>, not the one that the worker
  runs.
\<close>

lemma validated_manifest_differs:
  "manifest_path [''old-manifest.yaml'', ''manifest.yaml''] = Some ''old-manifest.yaml''"
  "\<exists>tr. fetch_bundle [''cache'', ''w@1''] (200, Some [(''old-manifest.yaml'', [1]), (''manifest.yaml'', [2])]) = Inr tr
     \<and> map_of (tr_files tr) [''manifest.yaml''] = Some [2]"
proof -
  show "manifest_path [''old-manifest.yaml'', ''manifest.yaml''] = Some ''old-manifest.yaml''" by code_simp
  have "fetch_bundle [''cache'', ''w@1''] (200, Some [(''old-manifest.yaml'', [1]), (''manifest.yaml'', [2])])
      = Inr \<lparr>tr_files = [([''old-manifest.yaml''], [1]), ([''manifest.yaml''], [2])], tr_dirs = []\<rparr>" by code_simp
  then show "\<exists>tr. fetch_bundle [''cache'', ''w@1''] (200, Some [(''old-manifest.yaml'', [1]), (''manifest.yaml'', [2])]) = Inr tr
     \<and> map_of (tr_files tr) [''manifest.yaml''] = Some [2]" by auto
qed

text \<open>Every bundle directory holds a manifest, fetched now or before.\<close>

definition cache_ok :: "(string \<times> tree) list \<Rightarrow> bool" where
  "cache_ok cache \<longleftrightarrow> (\<forall>d tr. map_of cache d = Some tr \<longrightarrow> [''manifest.yaml''] \<in> fst ` set (tr_files tr))"

lemma ensure_keeps_cache:
  assumes "cache_ok cache" and "ensure_bundle base orch ref cache = Inr ((name, version), cache')"
  shows "cache_ok cache' \<and> map_of cache' (name @ ''@'' @ version) \<noteq> None"
proof -
  obtain n v where nv: "parse_bundle_ref ref = Inr (n, v)" using assms(2) by (auto simp: ensure_bundle_def split: sum.splits)
  show ?thesis
  proof (cases "map_of cache (n @ ''@'' @ v)")
    case None
    with assms(2) nv obtain tr where tr: "fetch_bundle (base @ [n @ ''@'' @ v]) (orch n v) = Inr tr"
        and upd: "cache' = AList.update (n @ ''@'' @ v) tr cache" "name = n" "version = v"
      by (auto simp: ensure_bundle_def Let_def)
    have "[''manifest.yaml''] \<in> fst ` set (tr_files tr)"
      using tr by (auto simp: fetch_bundle_def Let_def split: if_splits option.splits)
    with assms(1) upd show ?thesis by (auto simp: cache_ok_def update_conv')
  next
    case (Some tr)
    with assms nv show ?thesis by (auto simp: ensure_bundle_def Let_def)
  qed
qed

section \<open>Shared files\<close>

text \<open>The cached files and, under \<^verbatim>\<open>.sha256\<close>, the digests noted beside them.\<close>

record shared_cache =
  sc_files :: "(string \<times> content) list"
  sc_digests :: "(string \<times> string) list"

definition local_sha :: "shared_cache \<Rightarrow> string \<Rightarrow> string option" where
  "local_sha sc name =
     (case (map_of (sc_files sc) name, map_of (sc_digests sc) name) of
        (Some f, Some t) \<Rightarrow> if strip t = [] then None else Some (strip t)
      | _ \<Rightarrow> None)"

datatype sync_error = MetaFailed string nat | DownloadFailed string nat | DigestMismatch string | UnsafeName string

text \<open>
  The orchestrator answers with a status and a digest, and with a status and the bytes. A temporary file
  takes the bytes, so a failure leaves the cache as it was.
\<close>

definition sync_one ::
  "(content \<Rightarrow> string) \<Rightarrow> string list \<Rightarrow> (string \<Rightarrow> nat \<times> string) \<Rightarrow> (string \<Rightarrow> nat \<times> content) \<Rightarrow> string \<Rightarrow> shared_cache
   \<Rightarrow> sync_error + shared_cache" where
  "sync_one sha base meta dl name sc =
     (let (status, remote_sha) = meta name
      in if status \<noteq> 200 then Inl (MetaFailed name status)
         else if local_sha sc name = Some remote_sha then Inr sc
         else
           let (dl_status, data) = dl name; digest = sha data
           in if dl_status \<noteq> 200 then Inl (DownloadFailed name dl_status)
              else if digest \<noteq> remote_sha then Inl (DigestMismatch name)
              else
                (case safe_join base name of
                   Inl e \<Rightarrow> Inl (UnsafeName name)
                 | Inr path \<Rightarrow> Inr \<lparr>sc_files = AList.update name data (sc_files sc), sc_digests = AList.update name digest (sc_digests sc)\<rparr>))"

fun sync_all ::
  "(content \<Rightarrow> string) \<Rightarrow> string list \<Rightarrow> (string \<Rightarrow> nat \<times> string) \<Rightarrow> (string \<Rightarrow> nat \<times> content) \<Rightarrow> string list \<Rightarrow> shared_cache
   \<Rightarrow> sync_error + shared_cache" where
  "sync_all sha base meta dl [] sc = Inr sc"
| "sync_all sha base meta dl (n # ns) sc = and_then (sync_one sha base meta dl n sc) (sync_all sha base meta dl ns)"

text \<open>The cached names that the registry no longer lists go, data and digest; hidden files are not looked at.\<close>

definition prune_orphans :: "string list \<Rightarrow> shared_cache \<Rightarrow> shared_cache \<times> nat \<times> nat" where
  "prune_orphans valid sc =
     (let gone = filter (\<lambda>f. \<not> starts_with ''.'' (fst f) \<and> fst f \<notin> set valid) (sc_files sc)
      in (\<lparr>sc_files = filter (\<lambda>f. fst f \<notin> set (map fst gone)) (sc_files sc),
           sc_digests = filter (\<lambda>f. fst f \<notin> set (map fst gone)) (sc_digests sc)\<rparr>,
          length gone, sum_list (map (length \<circ> snd) gone)))"

text \<open>The digest noted beside a file is that of its bytes.\<close>

definition digests_ok :: "(content \<Rightarrow> string) \<Rightarrow> shared_cache \<Rightarrow> bool" where
  "digests_ok sha sc \<longleftrightarrow>
     (\<forall>n c t. map_of (sc_files sc) n = Some c \<and> map_of (sc_digests sc) n = Some t \<longrightarrow> t = sha c)"

text \<open>The hexadecimal digest of a file is a non-empty text without white space.\<close>

definition hex_digest :: "(content \<Rightarrow> string) \<Rightarrow> bool" where
  "hex_digest sha \<longleftrightarrow> (\<forall>c. sha c \<noteq> [] \<and> strip (sha c) = sha c)"

lemma local_sha_digest:
  assumes "digests_ok sha sc" and "hex_digest sha" and "local_sha sc n = Some t"
  shows "\<exists>c. map_of (sc_files sc) n = Some c \<and> sha c = t"
proof -
  obtain c u where "map_of (sc_files sc) n = Some c" "map_of (sc_digests sc) n = Some u" "t = strip u"
    using assms(3) by (auto simp: local_sha_def split: option.splits if_splits)
  moreover from this have "u = sha c" using assms(1) by (simp add: digests_ok_def)
  ultimately show ?thesis using assms(2) by (simp add: hex_digest_def)
qed

lemma sync_one_ok:
  assumes "digests_ok sha sc" and "hex_digest sha" and "sync_one sha base meta dl n sc = Inr sc'"
  shows "digests_ok sha sc' \<and> (\<exists>c. map_of (sc_files sc') n = Some c \<and> sha c = snd (meta n))
    \<and> (\<forall>m. m \<noteq> n \<longrightarrow> map_of (sc_files sc') m = map_of (sc_files sc) m)"
proof (cases "local_sha sc n = Some (snd (meta n))")
  case True
  with assms(3) have "sc' = sc" by (auto simp: sync_one_def Let_def split: prod.splits if_splits)
  with assms(1) local_sha_digest [OF assms(1, 2) True] show ?thesis by blast
next
  case False
  with assms(3) have "sc' = \<lparr>sc_files = AList.update n (snd (dl n)) (sc_files sc), sc_digests = AList.update n (sha (snd (dl n))) (sc_digests sc)\<rparr>"
    and "sha (snd (dl n)) = snd (meta n)"
    by (auto simp: sync_one_def Let_def split: prod.splits if_splits sum.splits)
  with assms(1) show ?thesis by (auto simp: digests_ok_def update_conv')
qed

lemma sync_all_ok:
  assumes "sync_all sha base meta dl ns sc = Inr sc'" and "digests_ok sha sc" and "hex_digest sha"
  shows "digests_ok sha sc' \<and> (\<forall>n \<in> set ns. \<exists>c. map_of (sc_files sc') n = Some c \<and> sha c = snd (meta n))
    \<and> (\<forall>m. m \<notin> set ns \<longrightarrow> map_of (sc_files sc') m = map_of (sc_files sc) m)"
  using assms
proof (induction ns arbitrary: sc)
  case (Cons n ns)
  then obtain sc1 where sc1: "sync_one sha base meta dl n sc = Inr sc1" "sync_all sha base meta dl ns sc1 = Inr sc'" by auto
  note one = sync_one_ok [OF Cons.prems(2, 3) sc1(1)]
  with Cons.IH [OF sc1(2)] Cons.prems(3) show ?case by (metis set_ConsD list.set_intros)
qed simp

text \<open>The answers of a registry that does not change meanwhile.\<close>

definition meta_answer :: "registry \<Rightarrow> string \<Rightarrow> nat \<times> string" where
  "meta_answer rg name = (case shared_meta name rg of Inl e \<Rightarrow> (status_code e, []) | Inr f \<Rightarrow> (200, sf_sha256 f))"

definition download_answer :: "registry \<Rightarrow> string \<Rightarrow> nat \<times> content" where
  "download_answer rg name = (case download_shared name rg of Inl e \<Rightarrow> (status_code e, []) | Inr (sha, c) \<Rightarrow> (200, c))"

lemma shared_name_chars: "shared_name s \<Longrightarrow> s \<noteq> [] \<and> is_alnum (hd s) \<and> CHR ''/'' \<notin> set s"
  by (cases s) (auto simp: shared_name_def list_all_iff is_alnum_def is_digit_def is_alpha_def)

lemma NAME_RE_segment: "NAME_RE n \<Longrightarrow> plain_segment n"
proof -
  assume "NAME_RE n"
  then consider "shared_name n" | "n \<noteq> []" "last n = CHR 0x0A" "shared_name (butlast n)" by (auto simp: NAME_RE_def)
  then have "n \<noteq> [] \<and> is_alnum (hd n) \<and> CHR ''/'' \<notin> set n"
  proof cases
    case 2
    then have n: "n = butlast n @ [CHR 0x0A]" by (metis append_butlast_last_id)
    have "CHR ''/'' \<notin> set (butlast n @ [CHR 0x0A])" "is_alnum (hd (butlast n @ [CHR 0x0A]))"
      using shared_name_chars [OF 2(3)] by simp_all
    with n 2(1) show ?thesis by metis
  qed (use shared_name_chars in blast)
  then show ?thesis by (auto simp: plain_segment_def is_alnum_def is_digit_def is_alpha_def)
qed

lemma safe_join_segment: "plain_segment n \<Longrightarrow> safe_join base n = Inr (resolve_parts [] base @ [n])"
  by (cases n) (auto simp: safe_join_def split_on_whole Let_def plain_segment_def starts_with_def)

text \<open>
  One name of the registry: a cache whose note claims the digest is left alone; otherwise the bytes of the
  registry replace what was there.
\<close>

lemma sync_one_step:
  assumes "meta n = (200, t)" and "dl n = (200, c)" and "sha c = t" and "safe_join base n = Inr path" and "hex_digest sha"
  shows "\<exists>sc'. sync_one sha base meta dl n sc = Inr sc' \<and> local_sha sc' n = Some t
    \<and> (if local_sha sc n = Some t then sc' = sc
       else map_of (sc_files sc') n = Some c \<and> map_of (sc_digests sc') n = Some t)
    \<and> (\<forall>m. m \<noteq> n \<longrightarrow> map_of (sc_files sc') m = map_of (sc_files sc) m \<and> map_of (sc_digests sc') m = map_of (sc_digests sc) m)"
proof (cases "local_sha sc n = Some t")
  case False
  from assms(5) have "sha c \<noteq> []" "strip (sha c) = sha c" by (simp_all add: hex_digest_def)
  with False assms(1-4) show ?thesis
    by (auto simp: sync_one_def local_sha_def update_conv')
qed (simp add: sync_one_def assms(1))

lemma sync_all_step:
  assumes "\<forall>n \<in> set ns. \<exists>c path. meta n = (200, dig n) \<and> dl n = (200, c) \<and> sha c = dig n \<and> safe_join base n = Inr path"
    and "hex_digest sha"
  shows "\<exists>sc'. sync_all sha base meta dl ns sc = Inr sc'
    \<and> (\<forall>n \<in> set ns. local_sha sc' n = Some (dig n)
         \<and> (if local_sha sc n = Some (dig n)
            then map_of (sc_files sc') n = map_of (sc_files sc) n \<and> map_of (sc_digests sc') n = map_of (sc_digests sc) n
            else map_of (sc_files sc') n = Some (snd (dl n)) \<and> map_of (sc_digests sc') n = Some (dig n)))
    \<and> (\<forall>m. m \<notin> set ns \<longrightarrow> map_of (sc_files sc') m = map_of (sc_files sc) m \<and> map_of (sc_digests sc') m = map_of (sc_digests sc) m)"
  using assms(1)
proof (induction ns arbitrary: sc)
  case (Cons n ns)
  from Cons.prems obtain c path where n: "meta n = (200, dig n)" "dl n = (200, c)" "sha c = dig n" "safe_join base n = Inr path"
    by auto
  from sync_one_step [where sc = sc, where meta = meta and dl = dl, OF n assms(2)]
  obtain sc1 where one: "sync_one sha base meta dl n sc = Inr sc1" "local_sha sc1 n = Some (dig n)"
      "if local_sha sc n = Some (dig n) then sc1 = sc
       else map_of (sc_files sc1) n = Some c \<and> map_of (sc_digests sc1) n = Some (dig n)"
      "\<forall>m. m \<noteq> n \<longrightarrow> map_of (sc_files sc1) m = map_of (sc_files sc) m \<and> map_of (sc_digests sc1) m = map_of (sc_digests sc) m"
    by blast
  have same: "local_sha sc1 m = local_sha sc m" if "m \<noteq> n" for m
    using one(4) that by (simp add: local_sha_def)
  from Cons.IH [of sc1] Cons.prems
  obtain sc' where rest: "sync_all sha base meta dl ns sc1 = Inr sc'"
      "\<forall>m \<in> set ns. local_sha sc' m = Some (dig m)
         \<and> (if local_sha sc1 m = Some (dig m)
            then map_of (sc_files sc') m = map_of (sc_files sc1) m \<and> map_of (sc_digests sc') m = map_of (sc_digests sc1) m
            else map_of (sc_files sc') m = Some (snd (dl m)) \<and> map_of (sc_digests sc') m = Some (dig m))"
      "\<forall>m. m \<notin> set ns \<longrightarrow> map_of (sc_files sc') m = map_of (sc_files sc1) m \<and> map_of (sc_digests sc') m = map_of (sc_digests sc1) m"
    by auto
  have kept: "map_of (sc_files sc') n = map_of (sc_files sc1) n \<and> map_of (sc_digests sc') n = map_of (sc_digests sc1) n"
    using rest(2,3) one(2) by (cases "n \<in> set ns") auto
  then have "local_sha sc' n = local_sha sc1 n" by (simp add: local_sha_def)
  with kept one(2,3) n(2) have head: "local_sha sc' n = Some (dig n)
       \<and> (if local_sha sc n = Some (dig n)
          then map_of (sc_files sc') n = map_of (sc_files sc) n \<and> map_of (sc_digests sc') n = map_of (sc_digests sc) n
          else map_of (sc_files sc') n = Some (snd (dl n)) \<and> map_of (sc_digests sc') n = Some (dig n))"
    by (simp split: if_splits)
  have tail: "local_sha sc' m = Some (dig m)
       \<and> (if local_sha sc m = Some (dig m)
          then map_of (sc_files sc') m = map_of (sc_files sc) m \<and> map_of (sc_digests sc') m = map_of (sc_digests sc) m
          else map_of (sc_files sc') m = Some (snd (dl m)) \<and> map_of (sc_digests sc') m = Some (dig m))"
    if "m \<in> set ns" "m \<noteq> n" for m
    using rest(2) that same [of m] one(4) by simp
  have "sync_all sha base meta dl (n # ns) sc = Inr sc'" using one(1) rest(1) by simp
  moreover have "local_sha sc' m = Some (dig m)
       \<and> (if local_sha sc m = Some (dig m)
          then map_of (sc_files sc') m = map_of (sc_files sc) m \<and> map_of (sc_digests sc') m = map_of (sc_digests sc) m
          else map_of (sc_files sc') m = Some (snd (dl m)) \<and> map_of (sc_digests sc') m = Some (dig m))"
    if "m \<in> set (n # ns)" for m
    using head tail [of m] that by (cases "m = n") simp_all
  moreover have "map_of (sc_files sc') m = map_of (sc_files sc) m \<and> map_of (sc_digests sc') m = map_of (sc_digests sc) m"
    if "m \<notin> set (n # ns)" for m
    using rest(3) one(4) that by simp
  ultimately show ?case by blast
qed simp

text \<open>
  C26: A worker's copies of the shared files follow the registry. When every declared name is registered, the synchronisation
  succeeds, whatever the cache holds. Afterwards the note beside each declared file claims the digest of the registry. A file
  whose note did not claim it before now is the registry's, byte for byte; a file whose note did claim it is left alone,
  together with its note. No other file and no other note changes. So if the notes of the cache were those of its
  bytes (\<open>digests_ok\<close>), they still are, and every declared file has the bytes of the registry, up to a collision of digests;
  a cache whose bytes were damaged under a matching note stays damaged.
\<close>

theorem sync_matches_registry:
  assumes "reach empty_registry (registry_step rd) rg" and "hex_digest (rd_sha256 rd)"
    and "set names \<subseteq> sf_name ` set (shared_files (rg_db rg))"
  shows "\<exists>sc'. sync_all (rd_sha256 rd) base (meta_answer rg) (download_answer rg) names sc = Inr sc'
    \<and> (\<forall>n \<in> set names. \<exists>sha c. download_shared n rg = Inr (sha, c) \<and> rd_sha256 rd c = sha \<and> local_sha sc' n = Some sha
         \<and> (if local_sha sc n = Some sha
            then map_of (sc_files sc') n = map_of (sc_files sc) n \<and> map_of (sc_digests sc') n = map_of (sc_digests sc) n
            else map_of (sc_files sc') n = Some c \<and> map_of (sc_digests sc') n = Some sha))
    \<and> (\<forall>n. n \<notin> set names \<longrightarrow> map_of (sc_files sc') n = map_of (sc_files sc) n \<and> map_of (sc_digests sc') n = map_of (sc_digests sc) n)
    \<and> (digests_ok (rd_sha256 rd) sc \<longrightarrow> digests_ok (rd_sha256 rd) sc'
         \<and> (\<forall>n \<in> set names. \<exists>c sha c'. map_of (sc_files sc') n = Some c \<and> download_shared n rg = Inr (sha, c')
              \<and> rd_sha256 rd c = rd_sha256 rd c'))"
proof -
  have ok: "registry_ok rd rg" using library.reachable_inv [OF assms(1)] .
  have answers: "\<exists>(f :: shared_file) c path. meta_answer rg n = (200, sf_sha256 f) \<and> download_answer rg n = (200, c)
      \<and> download_shared n rg = Inr (sf_sha256 f, c) \<and> rd_sha256 rd c = sf_sha256 f \<and> safe_join base n = Inr path"
    if n: "n \<in> set names" for n
  proof -
    from n assms(3) obtain f where f: "f \<in> set (shared_files (rg_db rg))" "sf_name f = n" by blast
    then have "NAME_RE n" using ok by (auto simp: registry_ok_def files_ok_def)
    then have "safe_join base n = Inr (resolve_parts [] base @ [n])" by (intro safe_join_segment NAME_RE_segment)
    moreover obtain c where "shared_meta n rg = Inr f" "download_shared n rg = Inr (sf_sha256 f, c)" "rd_sha256 rd c = sf_sha256 f"
      using download_of_shared [OF ok f(1)] f(2) by blast
    ultimately show ?thesis
      by - (rule exI [of _ f], rule exI [of _ c], simp add: meta_answer_def download_answer_def)
  qed
  let ?sha = "rd_sha256 rd" and ?dig = "\<lambda>n. snd (meta_answer rg n)"
  have "\<forall>n \<in> set names. \<exists>c path. meta_answer rg n = (200, ?dig n) \<and> download_answer rg n = (200, c) \<and> ?sha c = ?dig n
      \<and> safe_join base n = Inr path"
    using answers by fastforce
  from sync_all_step [OF this assms(2), of sc] obtain sc' where
    sc': "sync_all ?sha base (meta_answer rg) (download_answer rg) names sc = Inr sc'"
    and each: "\<forall>n \<in> set names. local_sha sc' n = Some (?dig n)
         \<and> (if local_sha sc n = Some (?dig n)
            then map_of (sc_files sc') n = map_of (sc_files sc) n \<and> map_of (sc_digests sc') n = map_of (sc_digests sc) n
            else map_of (sc_files sc') n = Some (snd (download_answer rg n)) \<and> map_of (sc_digests sc') n = Some (?dig n))"
    and rest: "\<forall>m. m \<notin> set names \<longrightarrow> map_of (sc_files sc') m = map_of (sc_files sc) m
         \<and> map_of (sc_digests sc') m = map_of (sc_digests sc) m"
    by blast
  have files: "\<exists>sha c. download_shared n rg = Inr (sha, c) \<and> ?sha c = sha \<and> local_sha sc' n = Some sha
         \<and> (if local_sha sc n = Some sha
            then map_of (sc_files sc') n = map_of (sc_files sc) n \<and> map_of (sc_digests sc') n = map_of (sc_digests sc) n
            else map_of (sc_files sc') n = Some c \<and> map_of (sc_digests sc') n = Some sha)" if "n \<in> set names" for n
    using each answers [OF that] that by fastforce
  have exact: "digests_ok ?sha sc' \<and> (\<forall>n \<in> set names. \<exists>c sha c'. map_of (sc_files sc') n = Some c
      \<and> download_shared n rg = Inr (sha, c') \<and> ?sha c = ?sha c')" if "digests_ok ?sha sc"
  proof -
    note all = sync_all_ok [OF sc' that assms(2)]
    have "\<exists>c sha c'. map_of (sc_files sc') n = Some c \<and> download_shared n rg = Inr (sha, c') \<and> ?sha c = ?sha c'"
      if "n \<in> set names" for n
      using all answers [OF that] that by fastforce
    with all show ?thesis by blast
  qed
  from sc' files rest exact show ?thesis by blast
qed

text \<open>A cache with a stale copy of the one registered file, under the note of another digest: the copy is replaced.\<close>

theorem sync_matches_registry_witness:
  "\<exists>rg sc'. reach empty_registry (registry_step (demo_reader (\<lambda>_. ''00''))) rg
     \<and> sync_all (\<lambda>_. ''00'') [''shared''] (meta_answer rg) (download_answer rg) [''mask.bin'']
         \<lparr>sc_files = [(''mask.bin'', [1, 2])], sc_digests = [(''mask.bin'', ''ff'')]\<rparr> = Inr sc'
     \<and> download_answer rg ''mask.bin'' = (200, [7])
     \<and> map_of (sc_files sc') ''mask.bin'' = Some [7] \<and> map_of (sc_digests sc') ''mask.bin'' = Some ''00''"
proof -
  let ?rd = "demo_reader (\<lambda>_. ''00'')"
  let ?sc = "\<lparr>sc_files = [(''mask.bin'', [1, 2])], sc_digests = [(''mask.bin'', ''ff'')]\<rparr> :: shared_cache"
  obtain rg where rg: "put_shared ?rd 0 ''mask.bin'' [[7]] None no_registry = Inr (demo_file (\<lambda>_. ''00''), rg)"
      "shared_files (rg_db rg) = [demo_file (\<lambda>_. ''00'')]"
    using demo_put by blast
  have "empty_registry no_registry" by (simp add: empty_registry_def no_registry_def)
  then have "reach empty_registry (registry_step ?rd) no_registry" by (rule reach_init)
  then have reach: "reach empty_registry (registry_step ?rd) rg" by (rule reach_step) (rule step_put [OF rg(1)])
  have hex: "hex_digest (rd_sha256 ?rd)" by (simp add: hex_digest_def demo_reader_simps strip_id is_space_def Let_def)
  have names: "set [''mask.bin''] \<subseteq> sf_name ` set (shared_files (rg_db rg))" by (simp add: rg(2) demo_file_def)
  have local: "local_sha ?sc ''mask.bin'' = Some ''ff''" by (simp add: local_sha_def strip_id is_space_def)
  have down: "download_shared ''mask.bin'' rg = Inr (''00'', [7])"
  proof -
    have "NAME_RE ''mask.bin''" by code_simp
    with rg show ?thesis
      by (auto simp: put_shared_def no_registry_def empty_orch_def get_row_def demo_file_def demo_reader_def
          download_shared_def shared_meta_def Let_def)
  qed
  from sync_matches_registry [OF reach hex names, of "[''shared'']" ?sc] obtain sc' where
    "sync_all (rd_sha256 ?rd) [''shared''] (meta_answer rg) (download_answer rg) [''mask.bin''] ?sc = Inr sc'"
    "map_of (sc_files sc') ''mask.bin'' = Some [7]" "map_of (sc_digests sc') ''mask.bin'' = Some ''00''"
    by (auto simp: local down)
  with reach down show ?thesis by (auto simp: demo_reader_simps download_answer_def)
qed

lemma prune_keeps_registered:
  assumes "n \<in> set valid"
  shows "map_of (sc_files (fst (prune_orphans valid sc))) n = map_of (sc_files sc) n
    \<and> map_of (sc_digests (fst (prune_orphans valid sc))) n = map_of (sc_digests sc) n"
proof -
  let ?gone = "set (map fst (filter (\<lambda>f. \<not> starts_with ''.'' (fst f) \<and> fst f \<notin> set valid) (sc_files sc)))"
  have n: "n \<in> - ?gone" using assms by auto
  from n map_of_filter_key [of "- ?gone" "sc_files sc" n] map_of_filter_key [of "- ?gone" "sc_digests sc" n] show ?thesis
    by (simp only: prune_orphans_def Let_def fst_conv shared_cache.select_convs Compl_iff if_True simp_thms)
qed

end
