(* ===== verification/WorkerFiles.thy ===== *)
theory WorkerFiles
  imports WorkerRuntime Downloader
begin

text \<open>
  The directories of a worker and their cleanup: the name of a granule's work directory (\<^verbatim>\<open>src/sathop/worker/_paths.py\<close>), the
  removal of those that no handler owns (\<^verbatim>\<open>worker/cleanup.py\<close>), and the eviction of the least recently used bundles
  (\<^verbatim>\<open>worker/bundle.py\<close>). Times of the file system are rational seconds.
\<close>

section \<open>The name of a work directory\<close>

definition BAD_CHARS :: "char list" where
  "BAD_CHARS = ''<>:'' @ [CHR 0x22, CHR ''/'', CHR 0x5C] @ ''|?*'' @ [CHR 0x00]"

definition safe_segment :: "string \<Rightarrow> string" where
  "safe_segment v = map (\<lambda>c. if c \<in> set BAD_CHARS then CHR ''_'' else c) v"

definition work_dir_name :: "ident \<Rightarrow> nat \<Rightarrow> string" where
  "work_dir_name gid ts = ''g-'' @ safe_segment gid @ ''-'' @ show_nat ts"

definition parse_work_dir_name :: "string \<Rightarrow> (string \<times> int) option" where
  "parse_work_dir_name name =
     (if \<not> starts_with ''g-'' name then None
      else let (stem, ts_str) = rsplit1 (CHR ''-'') name
           in case py_int ts_str of None \<Rightarrow> None | Some ts \<Rightarrow> Some (drop 2 stem, ts))"

lemma digit_groups_digits: "s \<noteq> [] \<Longrightarrow> list_all is_digit s \<Longrightarrow> digit_groups s"
proof (induction s rule: digit_groups.induct)
  case (3 c d cs)
  then have "d \<noteq> CHR ''_''" by (auto simp: is_digit_def)
  with 3 show ?case by simp
qed simp_all

lemma py_int_show: "py_int (show_nat n) = Some (int n)"
proof -
  have digits: "list_all is_digit (show_nat n)" by (simp add: list_all_iff show_nat_digits)
  then have all: "\<forall>c \<in> set (show_nat n). is_digit c" by (simp add: list_all_iff)
  have "\<not> is_space (hd (show_nat n))" "\<not> is_space (last (show_nat n))"
    using all digit_not_space show_nat_ne [of n] by (meson hd_in_set last_in_set)+
  then have strip: "strip (show_nat n) = show_nat n" by (simp add: strip_id)
  have "filter (\<lambda>c. c \<noteq> CHR ''_'') (show_nat n) = show_nat n"
    using all by (intro filter_True) (auto simp: is_digit_def)
  then have unsigned: "unsigned_int (show_nat n) = Some (int n)"
    using digit_groups_digits [OF show_nat_ne digits] by (simp add: unsigned_int_def)
  obtain c cs where c: "show_nat n = c # cs" using show_nat_ne [of n] by (cases "show_nat n") auto
  then have "is_digit c" using all by simp
  then have "c \<noteq> CHR ''-''" "c \<noteq> CHR ''+''" by (auto simp: is_digit_def)
  with c strip unsigned show ?thesis by (simp add: py_int_def)
qed

lemma parse_work_dir: "parse_work_dir_name (work_dir_name gid ts) = Some (safe_segment gid, int ts)"
proof -
  have "\<not> is_digit CHR ''-''" by (simp add: is_digit_def)
  then have "CHR ''-'' \<notin> set (show_nat ts)" using show_nat_digits by blast
  from rsplit1_append [OF this, of "''g-'' @ safe_segment gid"]
  have "rsplit1 (CHR ''-'') (work_dir_name gid ts) = (''g-'' @ safe_segment gid, show_nat ts)" by (simp add: work_dir_name_def)
  moreover have "starts_with ''g-'' (work_dir_name gid ts)" by (simp add: work_dir_name_def starts_with_def)
  ultimately show ?thesis by (simp add: parse_work_dir_name_def py_int_show)
qed

text \<open>
  The name of a work directory parses back to the granule's segment and the timestamp, whatever characters, dashes
  included, the identifier of the granule has; and the segment is safe as a file name.
\<close>

theorem work_dir_name_roundtrip:
  "parse_work_dir_name (work_dir_name gid ts) = Some (safe_segment gid, int ts) \<and> set (safe_segment gid) \<inter> set BAD_CHARS = {}"
  using parse_work_dir by (auto simp: safe_segment_def BAD_CHARS_def)

section \<open>Work directories without an owner\<close>

text \<open>An entry of the work root: its name, whether it is a directory, and its size.\<close>

type_synonym dir_entry = "string \<times> bool \<times> nat"

definition WORK_DIR_ORPHAN_AGE_SEC :: int where
  "WORK_DIR_ORPHAN_AGE_SEC = 3600"

definition orphaned_dir :: "rat \<Rightarrow> string set \<Rightarrow> dir_entry \<Rightarrow> bool" where
  "orphaned_dir now active_segments entry =
     (case entry of (name, is_dir, size_bytes) \<Rightarrow>
        (case parse_work_dir_name name of
           None \<Rightarrow> False
         | Some (segment, ts) \<Rightarrow>
             is_dir \<and> \<not> (of_int ts > now - of_int WORK_DIR_ORPHAN_AGE_SEC \<or> segment \<in> active_segments)))"

definition prune_work_dirs :: "rat \<Rightarrow> string set \<Rightarrow> dir_entry list \<Rightarrow> (nat \<times> nat) \<times> dir_entry list" where
  "prune_work_dirs now active_segments entries =
     (let gone = filter (orphaned_dir now active_segments) entries
      in ((length gone, sum_list (map (snd \<circ> snd) gone)), filter (\<lambda>e. \<not> orphaned_dir now active_segments e) entries))"

definition clean_work_dirs :: "rat \<Rightarrow> worker_agent \<Rightarrow> dir_entry list \<Rightarrow> (nat \<times> nat) \<times> dir_entry list" where
  "clean_work_dirs now w entries = prune_work_dirs now (safe_segment ` active_granule_ids w) entries"

text \<open>
  The cleanup spares every granule in hand: the work directory of a granule in the worker's table of handlers, or with an
  owed terminal event, is kept at any age. What is removed are exactly directories of the form the worker itself gives them, at
  least an hour old, of granules not in hand; the counts returned are theirs.
\<close>

theorem cleanup_spares_active:
  assumes "clean_work_dirs now w entries = ((removed, freed), kept')"
  shows "(\<forall>g \<in> active_granule_ids w. \<forall>ts d n. (work_dir_name g ts, d, n) \<in> set entries \<longrightarrow> (work_dir_name g ts, d, n) \<in> set kept')
    \<and> set kept' \<subseteq> set entries
    \<and> (\<forall>(name, d, n) \<in> set entries - set kept'. d \<and> (\<exists>segment ts. parse_work_dir_name name = Some (segment, ts)
         \<and> of_int ts \<le> now - 3600 \<and> segment \<notin> safe_segment ` active_granule_ids w))
    \<and> removed + length kept' = length entries
    \<and> freed + sum_list (map (snd \<circ> snd) kept') = sum_list (map (snd \<circ> snd) entries)"
proof -
  let ?orphan = "orphaned_dir now (safe_segment ` active_granule_ids w)"
  have kept': "kept' = filter (\<lambda>e. \<not> ?orphan e) entries" and removed: "removed = length (filter ?orphan entries)"
    and freed: "freed = sum_list (map (snd \<circ> snd) (filter ?orphan entries))"
    using assms by (auto simp: clean_work_dirs_def prune_work_dirs_def Let_def)
  have "\<not> ?orphan (work_dir_name g ts, d, n)" if "g \<in> active_granule_ids w" for g ts d n
    using that by (simp add: orphaned_dir_def parse_work_dir)
  moreover have "\<forall>(name, d, n) \<in> set entries - set kept'. d \<and> (\<exists>segment ts. parse_work_dir_name name = Some (segment, ts)
      \<and> of_int ts \<le> now - 3600 \<and> segment \<notin> safe_segment ` active_granule_ids w)"
  proof (clarify)
    fix name d n assume "(name, d, n) \<in> set entries" and "(name, d, n) \<notin> set kept'"
    then have "?orphan (name, d, n)" by (simp add: kept')
    then show "d \<and> (\<exists>segment ts. parse_work_dir_name name = Some (segment, ts)
        \<and> of_int ts \<le> now - 3600 \<and> segment \<notin> safe_segment ` active_granule_ids w)"
      by (auto simp: orphaned_dir_def WORK_DIR_ORPHAN_AGE_SEC_def split: option.splits)
  qed
  moreover have "length (filter ?orphan entries) + length (filter (\<lambda>e. \<not> ?orphan e) entries) = length entries"
    by (rule sum_length_filter_compl)
  moreover have "sum_list (map f (filter P xs)) + sum_list (map f (filter (\<lambda>x. \<not> P x) xs)) = sum_list (map f xs)"
    for f :: "dir_entry \<Rightarrow> nat" and P xs by (induction xs) auto
  ultimately show ?thesis unfolding removed freed by (simp add: kept')
qed

text \<open>One directory of the granule in hand, one of a granule long gone, both from the first second of the epoch.\<close>

theorem cleanup_spares_active_witness:
  "\<exists>kept'. clean_work_dirs 9999 busy_worker [(work_dir_name ''b:g'' 0, True, 5), (work_dir_name ''old'' 0, True, 7)] = ((1, 7), kept')
     \<and> (work_dir_name ''b:g'' 0, True, 5) \<in> set kept'"
proof -
  have active: "active_granule_ids busy_worker = {''b:g''}"
    by (auto simp: active_granule_ids_def pending_granule_ids_def busy_simps new_buffer_def)
  have seg: "safe_segment ''b:g'' = ''b_g''" "safe_segment ''old'' = ''old''" by (simp_all add: safe_segment_def BAD_CHARS_def)
  let ?entries = "[(work_dir_name ''b:g'' 0, True, 5), (work_dir_name ''old'' 0, True, 7)] :: dir_entry list"
  have "fst (clean_work_dirs 9999 busy_worker ?entries) = (1, 7)"
    by (simp add: clean_work_dirs_def prune_work_dirs_def orphaned_dir_def parse_work_dir active seg WORK_DIR_ORPHAN_AGE_SEC_def)
  then obtain kept' where run: "clean_work_dirs 9999 busy_worker ?entries = ((1, 7), kept')" by (metis prod.collapse)
  from cleanup_spares_active [OF run] active have "(work_dir_name ''b:g'' 0, True, 5) \<in> set kept'" by auto
  with run show ?thesis by blast
qed

section \<open>The least recently used bundles\<close>

text \<open>
  A bundle in the caches: its directory name, when it was used last, and the sizes of its virtual environment and of its
  bundle directory, where they exist.
\<close>

record cached_bundle =
  cb_name :: string
  cb_last_used :: rat
  cb_venv :: "nat option"
  cb_dir :: "nat option"

definition cached_size :: "cached_bundle \<Rightarrow> int" where
  "cached_size b = int (coalesce (cb_venv b) 0 + coalesce (cb_dir b) 0)"

text \<open>
  \<open>locked\<close> are the bundles being prepared by \<^verbatim>\<open>ensure\<close>, whose locks cannot be taken; the loop returns what it removed and the bytes
  freed.
\<close>

fun evict_loop :: "int \<Rightarrow> int \<Rightarrow> (string \<Rightarrow> bool) \<Rightarrow> cached_bundle list \<Rightarrow> int \<Rightarrow> cached_bundle list \<times> int" where
  "evict_loop tot limit locked [] freed = ([], freed)"
| "evict_loop tot limit locked (b # bs) freed =
     (if tot - freed \<le> limit then ([], freed)
      else if locked (cb_name b) then evict_loop tot limit locked bs freed
      else let (removed, f) = evict_loop tot limit locked bs (freed + cached_size b) in (b # removed, f))"

definition prune_caches :: "int \<Rightarrow> (string \<Rightarrow> bool) \<Rightarrow> cached_bundle list \<Rightarrow> (nat \<times> int \<times> int) \<times> cached_bundle list" where
  "prune_caches limit locked sidecars =
     (if limit \<le> 0 then ((0, 0, 0), sidecars)
      else
        let items = filter (\<lambda>b. cb_venv b \<noteq> None \<or> cb_dir b \<noteq> None) sidecars;
            tot = sum_list (map cached_size items)
        in if tot \<le> limit then ((0, 0, tot), items)
           else
             let (removed, freed) = evict_loop tot limit locked (sort_key cb_last_used items) 0
             in ((length removed, freed, tot - freed), filter (\<lambda>b. b \<notin> set removed) items))"

lemma cached_size_nonneg: "0 \<le> cached_size b"
  by (simp add: cached_size_def)

text \<open>What the loop evicts, of items in the order of their last use.\<close>

lemma evict_loop_spec:
  assumes "evict_loop tot limit locked bs freed = (removed, f)" and "sorted (map cb_last_used bs)" and "distinct bs"
  shows "set removed \<subseteq> set bs \<and> distinct removed \<and> (\<forall>b \<in> set removed. \<not> locked (cb_name b))
    \<and> f = freed + sum_list (map cached_size removed)
    \<and> (tot - f \<le> limit \<or> (\<forall>b \<in> set bs. locked (cb_name b) \<or> b \<in> set removed))
    \<and> (\<forall>b \<in> set removed. \<forall>k \<in> set bs - set removed. locked (cb_name k) \<or> cb_last_used b \<le> cb_last_used k)
    \<and> (removed \<noteq> [] \<longrightarrow> limit < tot - f + cached_size (last removed))"
  using assms
proof (induction tot limit locked bs freed arbitrary: removed f rule: evict_loop.induct)
  case (2 tot limit locked b bs freed)
  show ?case
  proof (cases "tot - freed \<le> limit")
    case False
    show ?thesis
    proof (cases "locked (cb_name b)")
      case True
      with False "2.prems" "2.IH"(1) [of removed f] show ?thesis by auto
    next
      case unlocked: False
      from False unlocked "2.prems"(1) obtain r where r: "evict_loop tot limit locked bs (freed + cached_size b) = (r, f)" "removed = b # r"
        by (auto split: prod.splits)
      from "2.IH"(2) [OF False unlocked r(1)] "2.prems"(2, 3) have ih: "set r \<subseteq> set bs" "distinct r" "\<forall>b \<in> set r. \<not> locked (cb_name b)"
          "f = freed + cached_size b + sum_list (map cached_size r)"
          "tot - f \<le> limit \<or> (\<forall>b \<in> set bs. locked (cb_name b) \<or> b \<in> set r)"
          "\<forall>b \<in> set r. \<forall>k \<in> set bs - set r. locked (cb_name k) \<or> cb_last_used b \<le> cb_last_used k"
          "r \<noteq> [] \<longrightarrow> limit < tot - f + cached_size (last r)"
        by auto
      have "\<forall>k \<in> set bs. cb_last_used b \<le> cb_last_used k" using "2.prems"(2) by simp
      moreover have "r = [] \<longrightarrow> limit < tot - f + cached_size b" using False ih(4) by auto
      ultimately show ?thesis using ih unlocked "2.prems"(3) unfolding r(2) by auto
    qed
  qed (use "2.prems" in auto)
qed auto

text \<open>
  The eviction is least-recently-used and does no more than it must. With a limit, what remains fits it, or everything
  that could be locked is gone; no bundle being prepared is evicted; whatever is evicted was last used no later
  than every evictable bundle that stays; without the last eviction the limit would be exceeded; and the numbers reported
  are those of the caches.
\<close>

theorem prune_caches_lru:
  assumes "prune_caches limit locked bs = ((removed, freed, rest), kept')" and "0 < limit" and "distinct bs"
    and "\<forall>b \<in> set bs. cb_venv b \<noteq> None \<or> cb_dir b \<noteq> None"
  shows "set kept' \<subseteq> set bs \<and> rest = sum_list (map cached_size kept') \<and> rest + freed = sum_list (map cached_size bs)
    \<and> removed + length kept' = length bs
    \<and> (rest \<le> limit \<or> (\<forall>b \<in> set kept'. locked (cb_name b)))
    \<and> (\<forall>b \<in> set bs - set kept'. \<not> locked (cb_name b)
         \<and> (\<forall>k \<in> set kept'. locked (cb_name k) \<or> cb_last_used b \<le> cb_last_used k))
    \<and> (removed \<noteq> 0 \<longrightarrow> (\<exists>b \<in> set bs - set kept'. limit < rest + cached_size b))"
proof -
  let ?tot = "sum_list (map cached_size bs)"
  have items: "filter (\<lambda>b. cb_venv b \<noteq> None \<or> cb_dir b \<noteq> None) bs = bs" using assms(4) by simp
  show ?thesis
  proof (cases "?tot \<le> limit")
    case True
    with assms(1, 2) items show ?thesis by (auto simp: prune_caches_def Let_def)
  next
    case False
    obtain rs f where rs: "evict_loop ?tot limit locked (sort_key cb_last_used bs) 0 = (rs, f)" by fastforce
    with False assms(1, 2) items have parts: "removed = length rs" "freed = f" "rest = ?tot - f" "kept' = filter (\<lambda>b. b \<notin> set rs) bs"
      by (auto simp: prune_caches_def Let_def)
    have sorted: "sorted (map cb_last_used (sort_key cb_last_used bs))" "distinct (sort_key cb_last_used bs)"
      using assms(3) by simp_all
    note spec = evict_loop_spec [OF rs sorted]
    have gone: "sum_list (map cached_size rs) = sum_list (map cached_size (filter (\<lambda>b. b \<in> set rs) bs))"
      and count: "length rs = length (filter (\<lambda>b. b \<in> set rs) bs)"
      using spec assms(3) by (simp_all add: sum_list_distinct_conv_sum_set distinct_card [symmetric] Int_absorb1 Collect_conj_eq inf.absorb2
          flip: Int_def)
    have "sum_list (map cached_size (filter P xs)) + sum_list (map cached_size (filter (\<lambda>x. \<not> P x) xs)) = sum_list (map cached_size xs)"
      for P and xs :: "cached_bundle list" by (induction xs) auto
    then have "sum_list (map cached_size (filter (\<lambda>b. b \<in> set rs) bs)) + sum_list (map cached_size kept') = ?tot" by (simp add: parts(4))
    moreover have "length (filter (\<lambda>b. b \<in> set rs) bs) + length kept' = length bs"
      unfolding parts(4) by (rule sum_length_filter_compl)
    ultimately have sums: "rest = sum_list (map cached_size kept')" "rest + freed = ?tot" "removed + length kept' = length bs"
      using spec gone count unfolding parts(1-3) by simp_all
    have kept: "set kept' = set bs - set rs" "set bs - set kept' = set rs" using spec by (auto simp: parts(4))
    have "rest \<le> limit \<or> (\<forall>b \<in> set kept'. locked (cb_name b))" using spec unfolding kept(1) parts(3) by auto
    moreover have "\<forall>b \<in> set rs. \<not> locked (cb_name b) \<and> (\<forall>k \<in> set kept'. locked (cb_name k) \<or> cb_last_used b \<le> cb_last_used k)"
      using spec unfolding kept(1) by auto
    moreover have "removed \<noteq> 0 \<longrightarrow> (\<exists>b \<in> set rs. limit < rest + cached_size b)"
    proof
      assume "removed \<noteq> 0"
      then have "rs \<noteq> []" by (simp add: parts(1))
      with spec have "last rs \<in> set rs" "limit < rest + cached_size (last rs)" by (simp_all add: parts(3))
      then show "\<exists>b \<in> set rs. limit < rest + cached_size b" by blast
    qed
    ultimately show ?thesis using sums kept by (simp only: kept(2)) blast
  qed
qed

text \<open>Three bundles of ten bytes and a limit of twelve; the oldest is being prepared.\<close>

definition demo_cached :: "string \<Rightarrow> rat \<Rightarrow> cached_bundle" where
  "demo_cached name used = \<lparr>cb_name = name, cb_last_used = used, cb_venv = None, cb_dir = Some 10\<rparr>"

theorem prune_caches_lru_witness:
  "\<exists>kept'. prune_caches 12 (\<lambda>n. n = ''a'') [demo_cached ''c'' 3, demo_cached ''a'' 1, demo_cached ''b'' 2] = ((2, 20, 10), kept')
     \<and> demo_cached ''a'' 1 \<in> set kept'"
proof -
  let ?bs = "[demo_cached ''c'' 3, demo_cached ''a'' 1, demo_cached ''b'' 2]"
  have "fst (prune_caches 12 (\<lambda>n. n = ''a'') ?bs) = (2, 20, 10)"
    by (simp add: prune_caches_def Let_def demo_cached_def cached_size_def)
  then obtain kept' where run: "prune_caches 12 (\<lambda>n. n = ''a'') ?bs = ((2, 20, 10), kept')" by (metis prod.collapse)
  moreover have "distinct ?bs" "\<forall>b \<in> set ?bs. cb_venv b \<noteq> None \<or> cb_dir b \<noteq> None" by (simp_all add: demo_cached_def)
  ultimately have all: "\<forall>b \<in> set ?bs - set kept'. cb_name b \<noteq> ''a''" using prune_caches_lru [of 12 "\<lambda>n. n = ''a''" ?bs 2 20 10 kept'] by auto
  have "cb_name (demo_cached ''a'' 1) = ''a''" by (simp add: demo_cached_def)
  moreover have "demo_cached ''a'' 1 \<in> set ?bs" by simp
  ultimately have "demo_cached ''a'' 1 \<in> set kept'" using all by (meson DiffI)
  with run show ?thesis by blast
qed

end
