(* ===== verification/PubSub.thy ===== *)
theory PubSub
  imports Database PyValue
begin

text \<open>
  The nudges by which the orchestrator wakes the web UI: \<^verbatim>\<open>src/sathop/orchestrator/pubsub.py\<close> and the stream of
  \<^verbatim>\<open>api/stream.py\<close>. A process has a queue per subscriber and coalesces repeated nudges of a scope in windows of a second; in
  Postgres mode nudges take the way over a bounded queue, \<^verbatim>\<open>NOTIFY\<close> and the listener of every process. The state is one
  process's module variables, with the history of what was fanned out, which the code does not keep.
\<close>

section \<open>The bus of a process\<close>

type_synonym bus_event = pydict

definition nudge_event :: "string \<Rightarrow> bus_event" where
  "nudge_event sc = [(PStr ''scope'', PStr sc)]"

primrec scope_value :: "scope \<Rightarrow> string" where
  "scope_value BATCHES = ''batches''"
| "scope_value WORKERS = ''workers''"
| "scope_value RECEIVERS = ''receivers''"
| "scope_value BUNDLES = ''bundles''"
| "scope_value SHARED = ''shared''"
| "scope_value EVENTS = ''events''"
| "scope_value ROLLOUT = ''rollout''"

definition SHUTDOWN :: string where
  "SHUTDOWN = ''__shutdown__''"

definition QUEUE_MAX :: nat where
  "QUEUE_MAX = 512"

definition COALESCE_SEC :: int where
  "COALESCE_SEC = seconds 1"

definition NOTIFY_MAX :: nat where
  "NOTIFY_MAX = 4096"

definition NOTIFY_BATCH_MAX :: nat where
  "NOTIFY_BATCH_MAX = 256"

text \<open>
  \<open>bu_windows\<close> maps a scope to the moment at which its timer is due. \<open>bu_sent\<close> is the history of \<^verbatim>\<open>_fan_out\<close>.
\<close>

record bus =
  bu_subscribers :: "(nat \<times> bus_event list) list"
  bu_windows :: "(string \<times> time) list"
  bu_repeat :: "string set"
  bu_loop :: "nat option"
  bu_shutdown :: bool
  bu_notify :: "string list"
  bu_sent :: "(time \<times> bus_event) list"

definition new_bus :: bus where
  "new_bus = \<lparr>bu_subscribers = [], bu_windows = [], bu_repeat = {}, bu_loop = None, bu_shutdown = False, bu_notify = [], bu_sent = []\<rparr>"

definition put_nowait :: "nat \<Rightarrow> 'a \<Rightarrow> 'a list \<Rightarrow> 'a list" where
  "put_nowait bound x q = (if length q < bound then q @ [x] else q)"

definition fan_out :: "time \<Rightarrow> bus_event \<Rightarrow> bus \<Rightarrow> bus" where
  "fan_out now e b = b\<lparr>bu_subscribers := map (\<lambda>(k, q). (k, put_nowait QUEUE_MAX e q)) (bu_subscribers b),
     bu_sent := bu_sent b @ [(now, e)]\<rparr>"

definition close_window :: "time \<Rightarrow> string \<Rightarrow> bus \<Rightarrow> bus" where
  "close_window now sc b =
     (if sc \<in> bu_repeat b then
        let b1 = fan_out now (nudge_event sc) (b\<lparr>bu_repeat := bu_repeat b - {sc}\<rparr>)
        in if bu_loop b1 \<noteq> None then b1\<lparr>bu_windows := AList.update sc (now + COALESCE_SEC) (bu_windows b1)\<rparr> else b1
      else b\<lparr>bu_windows := AList.delete sc (bu_windows b)\<rparr>)"

text \<open>\<open>running\<close> is the event loop of the caller, if it runs in one.\<close>

definition coalesce_nudge :: "time \<Rightarrow> nat option \<Rightarrow> string \<Rightarrow> bus \<Rightarrow> bus" where
  "coalesce_nudge now running sc b =
     (case running of
        None \<Rightarrow> fan_out now (nudge_event sc) b
      | Some l \<Rightarrow>
          let b1 = (if bu_loop b = Some l then b else b\<lparr>bu_loop := Some l, bu_windows := [], bu_repeat := {}\<rparr>)
          in if map_of (bu_windows b1) sc \<noteq> None then b1\<lparr>bu_repeat := insert sc (bu_repeat b1)\<rparr>
             else (fan_out now (nudge_event sc) b1)\<lparr>bu_windows := AList.update sc (now + COALESCE_SEC) (bu_windows b1)\<rparr>)"

definition plain_nudge :: "bus_event \<Rightarrow> bool" where
  "plain_nudge e \<longleftrightarrow> set (map fst e) = {PStr ''scope''} \<and> is_str (py_get e ''scope'') \<and> str_of (py_get e ''scope'') \<noteq> SHUTDOWN"

definition local_publish :: "time \<Rightarrow> nat option \<Rightarrow> bus_event \<Rightarrow> bus \<Rightarrow> bus" where
  "local_publish now running e b =
     (if plain_nudge e then coalesce_nudge now running (str_of (py_get e ''scope'')) b else fan_out now e b)"

definition publish :: "bool \<Rightarrow> (bus_event \<Rightarrow> string) \<Rightarrow> time \<Rightarrow> nat option \<Rightarrow> bus_event \<Rightarrow> bus \<Rightarrow> bus" where
  "publish postgres dumps now running e b =
     (if postgres \<and> py_get e ''scope'' \<noteq> PStr SHUTDOWN \<and> length (bu_notify b) < NOTIFY_MAX
      then b\<lparr>bu_notify := bu_notify b @ [dumps e]\<rparr>
      else local_publish now running e b)"

text \<open>The scopes that a commit has collected are published in order.\<close>

definition publish_scopes :: "bool \<Rightarrow> (bus_event \<Rightarrow> string) \<Rightarrow> time \<Rightarrow> nat option \<Rightarrow> scope list \<Rightarrow> bus \<Rightarrow> bus" where
  "publish_scopes postgres dumps now running scopes b =
     foldl (\<lambda>b sc. publish postgres dumps now running (nudge_event (scope_value sc)) b) b scopes"

definition subscribe :: "nat \<Rightarrow> bus \<Rightarrow> bus" where
  "subscribe k b = b\<lparr>bu_subscribers := bu_subscribers b @ [(k, [])]\<rparr>"

definition unsubscribe :: "nat \<Rightarrow> bus \<Rightarrow> bus" where
  "unsubscribe k b = b\<lparr>bu_subscribers := filter (\<lambda>s. fst s \<noteq> k) (bu_subscribers b)\<rparr>"

definition request_shutdown :: "bool \<Rightarrow> (bus_event \<Rightarrow> string) \<Rightarrow> time \<Rightarrow> nat option \<Rightarrow> bus \<Rightarrow> bus" where
  "request_shutdown postgres dumps now running b =
     publish postgres dumps now running (nudge_event SHUTDOWN) (b\<lparr>bu_shutdown := True\<rparr>)"

section \<open>Over the database\<close>

text \<open>A batch of the sender, up to its execution; what a failed execution puts back.\<close>

definition take_batch :: "bus \<Rightarrow> string list \<times> bus" where
  "take_batch b = (dedup (take NOTIFY_BATCH_MAX (bu_notify b)), b\<lparr>bu_notify := drop NOTIFY_BATCH_MAX (bu_notify b)\<rparr>)"

fun put_back :: "string list \<Rightarrow> string list \<Rightarrow> string list" where
  "put_back [] q = q"
| "put_back (p # ps) q = (if length q < NOTIFY_MAX then put_back ps (q @ [p]) else q)"

definition on_notify :: "(string \<Rightarrow> bus_event option) \<Rightarrow> time \<Rightarrow> nat option \<Rightarrow> string \<Rightarrow> bus \<Rightarrow> bus" where
  "on_notify loads now running payload b =
     (case loads payload of None \<Rightarrow> b | Some e \<Rightarrow> local_publish now running e b)"

definition all_scopes :: "scope list" where
  "all_scopes = [BATCHES, WORKERS, RECEIVERS, BUNDLES, SHARED, EVENTS, ROLLOUT]"

definition listener_connected :: "time \<Rightarrow> nat option \<Rightarrow> bus \<Rightarrow> bus" where
  "listener_connected now running b =
     foldl (\<lambda>b sc. local_publish now running (nudge_event (scope_value sc)) b) b all_scopes"

section \<open>The stream of a subscriber\<close>

datatype frame = Ready | Data bus_event | Keepalive | ShutdownFrame

text \<open>Opening a stream, and one turn of its loop: it waits for an event, or times out on an empty queue.\<close>

definition open_stream :: "nat \<Rightarrow> bus \<Rightarrow> frame list \<times> bus" where
  "open_stream k b = (if bu_shutdown b then ([Ready, ShutdownFrame], b) else ([Ready], subscribe k b))"

definition stream_turn :: "nat \<Rightarrow> bus \<Rightarrow> frame list \<times> bus" where
  "stream_turn k b =
     (case map_of (bu_subscribers b) k of
        None \<Rightarrow> ([], b)
      | Some [] \<Rightarrow> if bu_shutdown b then ([Keepalive, ShutdownFrame], unsubscribe k b) else ([Keepalive], b)
      | Some (e # q) \<Rightarrow>
          if bu_shutdown b then ([ShutdownFrame], unsubscribe k b)
          else ([Data e], b\<lparr>bu_subscribers := AList.update k q (bu_subscribers b)\<rparr>))"

section \<open>A process over time\<close>

record bus_run =
  rn_now :: time
  rn_bus :: bus
  rn_asked :: "(time \<times> string) list"

text \<open>
  A process with the event loop \<open>l\<close>. Timers fire when they are due, and \<open>lag\<close> bounds the latency of the loop: time does not
  pass a due timer by more.
\<close>

inductive timer_step :: "int \<Rightarrow> bus_run \<Rightarrow> bus_run \<Rightarrow> bool" for lag :: int where
  ts_tick: "\<lbrakk>rn_now r < t; \<forall>(sc, d) \<in> set (bu_windows (rn_bus r)). t \<le> d + lag\<rbrakk> \<Longrightarrow> timer_step lag r (r\<lparr>rn_now := t\<rparr>)"
| ts_fire: "\<lbrakk>map_of (bu_windows (rn_bus r)) sc = Some d; d \<le> rn_now r\<rbrakk>
    \<Longrightarrow> timer_step lag r (r\<lparr>rn_bus := close_window (rn_now r) sc (rn_bus r)\<rparr>)"

inductive bus_step :: "nat \<Rightarrow> int \<Rightarrow> bus_run \<Rightarrow> bus_run \<Rightarrow> bool" for l :: nat and lag :: int where
  bs_timer: "timer_step lag r r' \<Longrightarrow> bus_step l lag r r'"
| bs_nudge: "sc \<noteq> SHUTDOWN
    \<Longrightarrow> bus_step l lag r (r\<lparr>rn_bus := local_publish (rn_now r) (Some l) (nudge_event sc) (rn_bus r), rn_asked := rn_asked r @ [(rn_now r, sc)]\<rparr>)"
| bs_event: "\<not> plain_nudge e \<Longrightarrow> bus_step l lag r (r\<lparr>rn_bus := local_publish (rn_now r) (Some l) e (rn_bus r)\<rparr>)"
| bs_shutdown: "bus_step l lag r (r\<lparr>rn_bus := request_shutdown pg dumps (rn_now r) (Some l) (rn_bus r)\<rparr>)"
| bs_open: "k \<notin> fst ` set (bu_subscribers (rn_bus r)) \<Longrightarrow> bus_step l lag r (r\<lparr>rn_bus := snd (open_stream k (rn_bus r))\<rparr>)"
| bs_stream: "bus_step l lag r (r\<lparr>rn_bus := snd (stream_turn k (rn_bus r))\<rparr>)"
| bs_gone: "bus_step l lag r (r\<lparr>rn_bus := unsubscribe k (rn_bus r)\<rparr>)"

inductive_cases timer_stepE: "timer_step lag r r'"
inductive_cases bus_stepE: "bus_step l lag r r'"

definition fresh_bus :: "bus_run \<Rightarrow> bool" where
  "fresh_bus r \<longleftrightarrow> rn_bus r = new_bus \<and> rn_asked r = []"

section \<open>What holds at any moment\<close>

text \<open>
  The invariants are stated over the parts of a run they read: the time, the windows, the repeated scopes, the history and
  the nudges asked for.
\<close>

definition sent_of :: "string \<Rightarrow> (time \<times> bus_event) list \<Rightarrow> time list" where
  "sent_of sc sent = map fst (filter (\<lambda>s. snd s = nudge_event sc) sent)"

definition windows_ok :: "int \<Rightarrow> time \<Rightarrow> (string \<times> time) list \<Rightarrow> string set \<Rightarrow> bool" where
  "windows_ok lag now ws rep \<longleftrightarrow> distinct (map fst ws) \<and> rep \<subseteq> fst ` set ws
     \<and> (\<forall>(sc, d) \<in> set ws. now \<le> d + lag \<and> d \<le> now + COALESCE_SEC)"

definition paced :: "time \<Rightarrow> (string \<times> time) list \<Rightarrow> (time \<times> bus_event) list \<Rightarrow> bool" where
  "paced now ws sent \<longleftrightarrow> (\<forall>sc. sc \<noteq> SHUTDOWN \<longrightarrow> sorted_wrt (\<lambda>a b. a + COALESCE_SEC \<le> b) (sent_of sc sent)
     \<and> (\<forall>t \<in> set (sent_of sc sent). t + COALESCE_SEC \<le> (case map_of ws sc of None \<Rightarrow> now | Some d \<Rightarrow> d)))"

definition answered :: "int \<Rightarrow> (time \<times> bus_event) list \<Rightarrow> time \<times> string \<Rightarrow> bool" where
  "answered lag sent a \<longleftrightarrow> (\<exists>t'. (t', nudge_event (snd a)) \<in> set sent \<and> fst a \<le> t' \<and> t' \<le> fst a + COALESCE_SEC + lag)"

definition pending_nudge :: "(string \<times> time) list \<Rightarrow> string set \<Rightarrow> time \<times> string \<Rightarrow> bool" where
  "pending_nudge ws rep a \<longleftrightarrow> snd a \<in> rep \<and> (\<exists>d. map_of ws (snd a) = Some d \<and> d \<le> fst a + COALESCE_SEC)"

definition timely :: "int \<Rightarrow> time \<Rightarrow> (string \<times> time) list \<Rightarrow> string set \<Rightarrow> (time \<times> bus_event) list \<Rightarrow> (time \<times> string) list \<Rightarrow> bool" where
  "timely lag now ws rep sent asked \<longleftrightarrow> windows_ok lag now ws rep \<and> paced now ws sent
     \<and> (\<forall>a \<in> set asked. fst a \<le> now \<and> (answered lag sent a \<or> pending_nudge ws rep a))"

definition loop_ok :: "nat \<Rightarrow> bus \<Rightarrow> bool" where
  "loop_ok l b \<longleftrightarrow> bu_loop b = Some l \<or> bu_loop b = None \<and> bu_windows b = [] \<and> bu_repeat b = {}"

definition run_ok :: "nat \<Rightarrow> int \<Rightarrow> bus_run \<Rightarrow> bool" where
  "run_ok l lag r \<longleftrightarrow> loop_ok l (rn_bus r)
     \<and> timely lag (rn_now r) (bu_windows (rn_bus r)) (bu_repeat (rn_bus r)) (bu_sent (rn_bus r)) (rn_asked r)"

lemmas timely_parts = timely_def windows_ok_def paced_def

lemma nudge_event_inj [simp]: "nudge_event a = nudge_event b \<longleftrightarrow> a = b"
  by (simp add: nudge_event_def)

lemma sent_of_append [simp]: "sent_of sc (xs @ ys) = sent_of sc xs @ sent_of sc ys"
  by (simp add: sent_of_def)

lemma sent_of_one [simp]: "sent_of sc [(t, e)] = (if e = nudge_event sc then [t] else [])" "sent_of sc [] = []"
  by (simp_all add: sent_of_def)

lemma plain_nudge_event [simp]: "plain_nudge (nudge_event sc) \<longleftrightarrow> sc \<noteq> SHUTDOWN"
  by (simp add: plain_nudge_def nudge_event_def py_get_def)

lemma scope_of_nudge [simp]: "py_get (nudge_event sc) ''scope'' = PStr sc"
  by (simp add: nudge_event_def py_get_def)

lemma map_of_in_fst: "map_of ws sc = Some d \<Longrightarrow> sc \<in> fst ` set ws"
  by (force dest: map_of_SomeD)

lemma COALESCE_pos: "0 < COALESCE_SEC"
  by (simp add: COALESCE_SEC_def seconds_def)

lemma answered_more: "answered lag sent a \<Longrightarrow> answered lag (sent @ es) a"
  by (auto simp: answered_def)

lemma set_delete_alist: "distinct (map fst ws) \<Longrightarrow> (k, v) \<in> set (AList.delete sc ws) \<longleftrightarrow> (k \<noteq> sc \<and> (k, v) \<in> set ws)"
  by (auto simp: AList.delete_eq)

lemma set_update_alist:
  assumes "distinct (map fst ws)"
  shows "(k, v) \<in> set (AList.update sc d ws) \<longleftrightarrow> (if k = sc then v = d else (k, v) \<in> set ws)"
proof -
  have "(k, v) \<in> set (AList.update sc d ws) \<longleftrightarrow> map_of (AList.update sc d ws) k = Some v"
    using assms by (simp add: distinct_update)
  also have "\<dots> \<longleftrightarrow> (if k = sc then v = d else map_of ws k = Some v)" by (auto simp: update_conv')
  finally show ?thesis using assms by simp
qed

subsection \<open>The moves keep it\<close>

lemma timely_tick:
  assumes "timely lag now ws rep sent asked" and "now < t" and "\<forall>(sc, d) \<in> set ws. t \<le> d + lag"
  shows "timely lag t ws rep sent asked"
proof -
  have "paced t ws sent" unfolding paced_def
  proof (intro allI impI)
    fix sc assume "sc \<noteq> SHUTDOWN"
    with assms(1) have "sorted_wrt (\<lambda>a b. a + COALESCE_SEC \<le> b) (sent_of sc sent)"
      and "\<forall>u \<in> set (sent_of sc sent). u + COALESCE_SEC \<le> (case map_of ws sc of None \<Rightarrow> now | Some d \<Rightarrow> d)"
      by (auto simp: timely_parts)
    with assms(2) show "sorted_wrt (\<lambda>a b. a + COALESCE_SEC \<le> b) (sent_of sc sent)
      \<and> (\<forall>u \<in> set (sent_of sc sent). u + COALESCE_SEC \<le> (case map_of ws sc of None \<Rightarrow> t | Some d \<Rightarrow> d))"
      by (cases "map_of ws sc") force+
  qed
  moreover have "windows_ok lag t ws rep" using assms by (fastforce simp: timely_parts)
  ultimately show ?thesis using assms(1, 2) by (fastforce simp: timely_def)
qed

text \<open>A nudge of the scope is fanned out and its window opens, or opens again after it was due.\<close>

lemma timely_send:
  assumes ok: "timely lag now ws rep sent asked" and lag: "0 \<le> lag"
    and due: "map_of ws sc = None \<or> (\<exists>d. map_of ws sc = Some d \<and> d \<le> now)"
    and asked': "\<forall>a \<in> set asked'. a \<in> set asked \<or> a = (now, sc)"
  shows "timely lag now (AList.update sc (now + COALESCE_SEC) ws) (rep - {sc}) (sent @ [(now, nudge_event sc)]) asked'"
    (is "timely lag now ?ws ?rep ?sent asked'")
proof -
  have dist: "distinct (map fst ws)" using ok by (simp add: timely_parts)
  have "windows_ok lag now ?ws ?rep"
    using ok lag COALESCE_pos unfolding windows_ok_def
    by (auto simp: timely_parts distinct_update dist dom_update set_update_alist split: if_splits)
  moreover have "paced now ?ws ?sent" unfolding paced_def
  proof (intro allI impI)
    fix k assume "k \<noteq> SHUTDOWN"
    with ok have old: "sorted_wrt (\<lambda>a b. a + COALESCE_SEC \<le> b) (sent_of k sent)"
      and bound: "\<forall>u \<in> set (sent_of k sent). u + COALESCE_SEC \<le> (case map_of ws k of None \<Rightarrow> now | Some d \<Rightarrow> d)"
      by (auto simp: timely_parts)
    have "\<forall>u \<in> set (sent_of sc sent). u + COALESCE_SEC \<le> now" if "k = sc" using bound due that by auto
    with old bound COALESCE_pos show "sorted_wrt (\<lambda>a b. a + COALESCE_SEC \<le> b) (sent_of k ?sent)
      \<and> (\<forall>u \<in> set (sent_of k ?sent). u + COALESCE_SEC \<le> (case map_of ?ws k of None \<Rightarrow> now | Some d \<Rightarrow> d))"
      by (cases "k = sc") (auto simp: sorted_wrt_append update_conv' dest!: bspec)
  qed
  moreover have "fst a \<le> now \<and> (answered lag ?sent a \<or> pending_nudge ?ws ?rep a)" if "a \<in> set asked'" for a
  proof (cases "a = (now, sc)")
    case True
    with lag COALESCE_pos show ?thesis by (auto simp: answered_def)
  next
    case False
    with asked' that ok have "a \<in> set asked" "fst a \<le> now" and or: "answered lag sent a \<or> pending_nudge ws rep a"
      by (auto simp: timely_def)
    from or show ?thesis
    proof
      assume pend: "pending_nudge ws rep a"
      show ?thesis
      proof (cases "snd a = sc")
        case True
        with pend obtain d where d: "map_of ws sc = Some d" "d \<le> fst a + COALESCE_SEC" by (auto simp: pending_nudge_def)
        then have "now \<le> d + lag" using ok by (auto simp: timely_parts dest!: map_of_SomeD)
        with d True \<open>fst a \<le> now\<close> have "answered lag ?sent a" by (auto simp: answered_def)
        with \<open>fst a \<le> now\<close> show ?thesis by blast
      next
        case False
        with pend \<open>fst a \<le> now\<close> show ?thesis by (auto simp: pending_nudge_def update_conv')
      qed
    qed (use \<open>fst a \<le> now\<close> in \<open>blast intro: answered_more\<close>)
  qed
  ultimately show ?thesis by (simp add: timely_def)
qed

lemma timely_coalesce:
  assumes "timely lag now ws rep sent asked" and "map_of ws sc = Some d"
  shows "timely lag now ws (insert sc rep) sent (asked @ [(now, sc)])"
proof -
  have "pending_nudge ws (insert sc rep) a" if "pending_nudge ws rep a" for a using that by (auto simp: pending_nudge_def)
  moreover have "pending_nudge ws (insert sc rep) (now, sc)"
    using assms by (auto simp: pending_nudge_def timely_parts dest!: map_of_SomeD)
  moreover have "windows_ok lag now ws (insert sc rep)" using assms map_of_in_fst [OF assms(2)] by (auto simp: timely_parts)
  ultimately show ?thesis using assms(1) by (auto simp: timely_def)
qed

lemma timely_close:
  assumes ok: "timely lag now ws rep sent asked" and due: "map_of ws sc = Some d" "d \<le> now" and idle: "sc \<notin> rep"
  shows "timely lag now (AList.delete sc ws) rep sent asked"
proof -
  have dist: "distinct (map fst ws)" using ok by (simp add: timely_parts)
  have "rep \<subseteq> fst ` set ws - {sc}" using ok idle by (auto simp: timely_parts)
  moreover have "fst ` set (AList.delete sc ws) = fst ` set ws - {sc}" by (auto simp: AList.delete_eq)
  ultimately have "rep \<subseteq> fst ` set (AList.delete sc ws)" by simp
  then have "windows_ok lag now (AList.delete sc ws) rep"
    using ok dist by (auto simp: timely_parts distinct_delete set_delete_alist)
  moreover have "paced now (AList.delete sc ws) sent" unfolding paced_def
  proof (intro allI impI)
    fix k assume "k \<noteq> SHUTDOWN"
    with ok due show "sorted_wrt (\<lambda>a b. a + COALESCE_SEC \<le> b) (sent_of k sent)
      \<and> (\<forall>u \<in> set (sent_of k sent). u + COALESCE_SEC \<le> (case map_of (AList.delete sc ws) k of None \<Rightarrow> now | Some d \<Rightarrow> d))"
      by (cases "k = sc") (force simp: timely_parts delete_conv')+
  qed
  moreover have "pending_nudge (AList.delete sc ws) rep a" if "pending_nudge ws rep a" for a
    using that idle by (auto simp: pending_nudge_def delete_conv')
  ultimately show ?thesis using ok by (auto simp: timely_def)
qed

lemma timely_quiet:
  assumes "timely lag now ws rep sent asked" and "\<not> plain_nudge e"
  shows "timely lag now ws rep (sent @ [(now, e)]) asked"
proof -
  have "sent_of sc (sent @ [(now, e)]) = sent_of sc sent" if "sc \<noteq> SHUTDOWN" for sc
    using assms(2) that by auto
  then show ?thesis using assms(1) by (auto simp: timely_parts intro: answered_more)
qed

subsection \<open>Every step keeps it\<close>

lemma fan_out_fields [simp]:
  "bu_windows (fan_out now e b) = bu_windows b" "bu_repeat (fan_out now e b) = bu_repeat b" "bu_loop (fan_out now e b) = bu_loop b"
  "bu_sent (fan_out now e b) = bu_sent b @ [(now, e)]" "bu_shutdown (fan_out now e b) = bu_shutdown b"
  by (simp_all add: fan_out_def)

lemma unsubscribe_fields [simp]:
  "bu_windows (unsubscribe k b) = bu_windows b" "bu_repeat (unsubscribe k b) = bu_repeat b" "bu_loop (unsubscribe k b) = bu_loop b"
  "bu_sent (unsubscribe k b) = bu_sent b"
  by (simp_all add: unsubscribe_def)

lemma stream_fields [simp]:
  "bu_windows (snd (stream_turn k b)) = bu_windows b" "bu_repeat (snd (stream_turn k b)) = bu_repeat b"
  "bu_loop (snd (stream_turn k b)) = bu_loop b" "bu_sent (snd (stream_turn k b)) = bu_sent b"
  "bu_windows (snd (open_stream k b)) = bu_windows b" "bu_repeat (snd (open_stream k b)) = bu_repeat b"
  "bu_loop (snd (open_stream k b)) = bu_loop b" "bu_sent (snd (open_stream k b)) = bu_sent b"
  by (auto simp: stream_turn_def open_stream_def subscribe_def split: option.splits list.splits)

lemma shutdown_publishes:
  "request_shutdown pg dumps now running b = fan_out now (nudge_event SHUTDOWN) (b\<lparr>bu_shutdown := True\<rparr>)"
  by (simp add: request_shutdown_def publish_def local_publish_def)

lemma nudge_coalesces: "sc \<noteq> SHUTDOWN \<Longrightarrow> local_publish now running (nudge_event sc) b = coalesce_nudge now running sc b"
  by (simp add: local_publish_def)

lemma run_ok_timer:
  assumes "run_ok l lag r" and "0 \<le> lag" and "timer_step lag r r'"
  shows "run_ok l lag r'"
  using assms(3)
proof (cases rule: timer_step.cases)
  case (ts_tick t)
  with assms show ?thesis by (auto simp: run_ok_def intro: timely_tick)
next
  case (ts_fire sc d)
  let ?b = "rn_bus r"
  from ts_fire assms(1) have loop: "bu_loop ?b = Some l" by (auto simp: run_ok_def loop_ok_def)
  show ?thesis
  proof (cases "sc \<in> bu_repeat ?b")
    case True
    with ts_fire assms loop timely_send [of lag "rn_now r" "bu_windows ?b" "bu_repeat ?b" "bu_sent ?b" "rn_asked r" sc "rn_asked r"]
    show ?thesis by (auto simp: run_ok_def close_window_def Let_def loop_ok_def)
  next
    case False
    with ts_fire assms loop show ?thesis by (auto simp: run_ok_def close_window_def loop_ok_def intro: timely_close)
  qed
qed

lemma run_ok_nudge:
  assumes "run_ok l lag r" and "0 \<le> lag"
  shows "run_ok l lag (r\<lparr>rn_bus := coalesce_nudge (rn_now r) (Some l) sc (rn_bus r), rn_asked := rn_asked r @ [(rn_now r, sc)]\<rparr>)"
proof -
  let ?b = "rn_bus r"
  define b1 where "b1 = (if bu_loop ?b = Some l then ?b else ?b\<lparr>bu_loop := Some l, bu_windows := [], bu_repeat := {}\<rparr>)"
  have same: "bu_windows b1 = bu_windows ?b" "bu_repeat b1 = bu_repeat ?b" "bu_sent b1 = bu_sent ?b" "bu_loop b1 = Some l"
    using assms(1) by (auto simp: b1_def run_ok_def loop_ok_def)
  have run: "coalesce_nudge (rn_now r) (Some l) sc ?b = (if map_of (bu_windows b1) sc \<noteq> None then b1\<lparr>bu_repeat := insert sc (bu_repeat b1)\<rparr>
       else (fan_out (rn_now r) (nudge_event sc) b1)\<lparr>bu_windows := AList.update sc (rn_now r + COALESCE_SEC) (bu_windows b1)\<rparr>)"
    by (simp add: coalesce_nudge_def b1_def Let_def)
  from assms(1) have ok: "timely lag (rn_now r) (bu_windows b1) (bu_repeat b1) (bu_sent b1) (rn_asked r)" by (simp add: run_ok_def same)
  show ?thesis
  proof (cases "map_of (bu_windows b1) sc")
    case None
    then have "sc \<notin> bu_repeat b1" using ok by (auto simp: timely_parts map_of_eq_None_iff)
    with timely_send [OF ok assms(2), of sc "rn_asked r @ [(rn_now r, sc)]"] None same(4)
    show ?thesis by (simp add: run_ok_def run loop_ok_def)
  next
    case (Some d)
    with timely_coalesce [OF ok Some] same(4) show ?thesis by (simp add: run_ok_def run loop_ok_def)
  qed
qed

lemma run_ok_step:
  assumes "run_ok l lag r" and "0 \<le> lag" and "bus_step l lag r r'"
  shows "run_ok l lag r'"
  using assms(3)
proof (cases rule: bus_step.cases)
  case bs_timer
  with assms show ?thesis by (blast intro: run_ok_timer)
next
  case (bs_nudge sc)
  with run_ok_nudge [OF assms(1, 2), of sc] show ?thesis by (simp add: nudge_coalesces)
next
  case (bs_event e)
  with assms(1) show ?thesis by (auto simp: run_ok_def loop_ok_def local_publish_def intro: timely_quiet)
next
  case (bs_shutdown pg dumps)
  with assms(1) timely_quiet [of lag "rn_now r" _ _ _ _ "nudge_event SHUTDOWN"]
  show ?thesis by (auto simp: run_ok_def loop_ok_def shutdown_publishes)
qed (use assms(1) in \<open>auto simp: run_ok_def loop_ok_def\<close>)

lemma run_ok_fresh: "fresh_bus r \<Longrightarrow> run_ok l lag r"
  by (simp add: fresh_bus_def run_ok_def loop_ok_def new_bus_def timely_parts)

lemma run_ok_lag: "bus_step l (of_nat n) r r' \<Longrightarrow> run_ok l (of_nat n) r \<Longrightarrow> run_ok l (of_nat n) r'"
  by (rule run_ok_step) simp_all

interpretation bus: invariant_system fresh_bus "bus_step l (of_nat lag)" "run_ok l (of_nat lag)" for l lag
  by unfold_locales (auto intro: run_ok_fresh run_ok_lag)

section \<open>Nudges arrive\<close>

text \<open>The windows that are due before a moment: firing the earliest of them leaves fewer.\<close>

definition due_before :: "time \<Rightarrow> (string \<times> time) list \<Rightarrow> (string \<times> time) set" where
  "due_before t ws = {(sc, d) \<in> set ws. d < t}"

lemma due_before_fire:
  assumes "distinct (map fst ws)" and "(s, e) \<in> set ws" and "e < t" and "t \<le> t'"
  shows "card (due_before t (AList.update s t' ws)) < card (due_before t ws)"
    and "card (due_before t (AList.delete s ws)) < card (due_before t ws)"
proof -
  have fin: "finite (due_before t ws)" by (rule finite_subset [of _ "set ws"]) (auto simp: due_before_def)
  have mem: "(s, e) \<in> due_before t ws" using assms(2, 3) by (simp add: due_before_def)
  have "due_before t (AList.update s t' ws) \<subseteq> due_before t ws - {(s, e)}" "due_before t (AList.delete s ws) \<subseteq> due_before t ws - {(s, e)}"
    unfolding due_before_def using assms(4) by (auto simp only: mem_Collect_eq set_update_alist [OF assms(1)] set_delete_alist [OF assms(1)] split: if_splits prod.splits)
  then have "due_before t (AList.update s t' ws) \<subset> due_before t ws" "due_before t (AList.delete s ws) \<subset> due_before t ws"
    using mem by blast+
  with fin show "card (due_before t (AList.update s t' ws)) < card (due_before t ws)"
    and "card (due_before t (AList.delete s ws)) < card (due_before t ws)" by (simp_all add: psubset_card_mono)
qed

text \<open>Time can always pass until the earliest timer is due.\<close>

lemma wait_until:
  assumes "\<forall>(sc, d) \<in> set (bu_windows (rn_bus r)). t \<le> d" and "0 \<le> lag"
  shows "(timer_step lag)\<^sup>*\<^sup>* r (r\<lparr>rn_now := max (rn_now r) t\<rparr>)"
proof (cases "rn_now r < t")
  case True
  with assms have "timer_step lag r (r\<lparr>rn_now := t\<rparr>)" by (intro ts_tick) auto
  with True show ?thesis by (auto simp: max_def)
qed (simp add: max_def)

lemma run_ok_timers:
  assumes "(timer_step lag)\<^sup>*\<^sup>* r r'" and "run_ok l lag r" and "0 \<le> lag"
  shows "run_ok l lag r'"
  using assms by (induction rule: rtranclp_induct) (auto intro: run_ok_timer)

lemma pending_will_be_sent:
  assumes "run_ok l lag r" and "0 \<le> lag" and "sc \<in> bu_repeat (rn_bus r)" and "map_of (bu_windows (rn_bus r)) sc = Some d"
  shows "\<exists>r'. (timer_step lag)\<^sup>*\<^sup>* r r' \<and> sc \<notin> bu_repeat (rn_bus r') \<and> rn_asked r' = rn_asked r"
  using assms
proof (induction "card (due_before d (bu_windows (rn_bus r)))" arbitrary: r rule: less_induct)
  case less
  let ?ws = "bu_windows (rn_bus r)"
  note ok = less.prems(1) and lag = less.prems(2) and rep = less.prems(3) and due = less.prems(4)
  from ok due have dist: "distinct (map fst ?ws)" and loop: "bu_loop (rn_bus r) = Some l"
    by (auto simp: run_ok_def timely_parts loop_ok_def)
  obtain s e where first: "(s, e) \<in> set ?ws" "\<forall>(s', e') \<in> set ?ws. e \<le> e'"
  proof -
    have "?ws \<noteq> []" using due by auto
    then have "\<exists>x \<in> set ?ws. \<forall>y \<in> set ?ws. snd x \<le> snd y"
      by (intro bexI [of _ "arg_min_list snd ?ws"] ballI) (auto simp: f_arg_min_list_f intro: arg_min_list_in)
    then show thesis using that by fastforce
  qed
  define now1 where "now1 = max (rn_now r) e"
  define r1 where "r1 = r\<lparr>rn_now := now1\<rparr>"
  define r2 where "r2 = r1\<lparr>rn_bus := close_window now1 s (rn_bus r1)\<rparr>"
  have wait: "(timer_step lag)\<^sup>*\<^sup>* r r1" unfolding r1_def now1_def using first(2) lag by (intro wait_until) auto
  have s_due: "map_of ?ws s = Some e" using first(1) dist by simp
  have "timer_step lag r1 r2" using s_due ts_fire [of r1 s e lag] by (simp add: r2_def r1_def now1_def)
  with wait have reach: "(timer_step lag)\<^sup>*\<^sup>* r r2" by simp
  have ok1: "run_ok l lag r1" and ok2: "run_ok l lag r2" using run_ok_timers [OF wait ok lag] run_ok_timers [OF reach ok lag] by simp_all
  show ?case
  proof (cases "s = sc")
    case True
    with rep loop have "sc \<notin> bu_repeat (rn_bus r2)" by (simp add: r2_def r1_def close_window_def Let_def)
    with reach show ?thesis by (intro exI [of _ r2]) (simp add: r2_def r1_def)
  next
    case False
    have "d \<le> now1 + COALESCE_SEC" using ok1 due by (auto simp: run_ok_def timely_parts r1_def dest!: map_of_SomeD)
    have pend: "sc \<in> bu_repeat (rn_bus r2)" "map_of (bu_windows (rn_bus r2)) sc = Some d"
      using False rep due loop by (simp_all add: r2_def r1_def close_window_def Let_def update_conv' delete_conv')
    have "e \<le> d" using first(2) due by (auto dest!: map_of_SomeD)
    show ?thesis
    proof (cases "e < d")
      case True
      have "card (due_before d (bu_windows (rn_bus r2))) < card (due_before d ?ws)"
        using due_before_fire [OF dist first(1) True \<open>d \<le> now1 + COALESCE_SEC\<close>] loop by (simp add: r2_def r1_def close_window_def Let_def)
      from less.hyps [OF this ok2 lag pend] obtain r' where r': "(timer_step lag)\<^sup>*\<^sup>* r2 r'" "sc \<notin> bu_repeat (rn_bus r')"
          "rn_asked r' = rn_asked r2" by blast
      moreover have "rn_asked r2 = rn_asked r" by (simp add: r2_def r1_def)
      moreover have "(timer_step lag)\<^sup>*\<^sup>* r r'" using reach r'(1) by (rule rtranclp_trans)
      ultimately show ?thesis by auto
    next
      case False
      with first(2) \<open>e \<le> d\<close> have all: "\<forall>(s', e') \<in> set ?ws. d \<le> e'" by auto
      define r3 where "r3 = r\<lparr>rn_now := max (rn_now r) d\<rparr>"
      define r4 where "r4 = r3\<lparr>rn_bus := close_window (rn_now r3) sc (rn_bus r3)\<rparr>"
      have "(timer_step lag)\<^sup>*\<^sup>* r r3" unfolding r3_def using all lag by (intro wait_until) auto
      moreover have "timer_step lag r3 r4" unfolding r4_def using due by (intro ts_fire [where d = d]) (simp_all add: r3_def)
      ultimately have "(timer_step lag)\<^sup>*\<^sup>* r r4" by simp
      with rep loop show ?thesis by (intro exI [of _ r4]) (simp add: r4_def r3_def close_window_def Let_def)
    qed
  qed
qed

text \<open>
  C27: Every nudge reaches the subscribers in time. A nudge of a scope asked for at a time \<open>t\<close> is answered by a fan-out of the scope
  not before \<open>t\<close> and at most a second and the latency of the loop after it, whatever else happens meanwhile:
  no state in which that time has passed without the fan-out is reachable, and none is reachable from which the timers alone do
  not bring it about.
\<close>

theorem nudges_are_delivered:
  assumes "reach fresh_bus (bus_step l (int lag)) r" and "(t, sc) \<in> set (rn_asked r)"
  shows "(t + seconds 1 + int lag < rn_now r \<longrightarrow>
       (\<exists>t'. (t', nudge_event sc) \<in> set (bu_sent (rn_bus r)) \<and> t \<le> t' \<and> t' \<le> t + seconds 1 + int lag))
    \<and> (\<exists>r' t'. (timer_step (int lag))\<^sup>*\<^sup>* r r' \<and> (t', nudge_event sc) \<in> set (bu_sent (rn_bus r')) \<and> t \<le> t' \<and> t' \<le> t + seconds 1 + int lag)"
proof -
  let ?lag = "int lag"
  have answered: "answered ?lag sent (t, sc) \<longleftrightarrow> (\<exists>t'. (t', nudge_event sc) \<in> set sent \<and> t \<le> t' \<and> t' \<le> t + seconds 1 + ?lag)" for sent
    by (simp add: answered_def COALESCE_SEC_def)
  have ok: "run_ok l ?lag r" using assms(1) by (rule bus.reachable_inv)
  with assms(2) have or: "answered ?lag (bu_sent (rn_bus r)) (t, sc) \<or> pending_nudge (bu_windows (rn_bus r)) (bu_repeat (rn_bus r)) (t, sc)"
    by (auto simp: run_ok_def timely_def)
  have early: "rn_now r \<le> t + seconds 1 + ?lag" if "pending_nudge (bu_windows (rn_bus r)) (bu_repeat (rn_bus r)) (t, sc)"
    using that ok by (fastforce simp: pending_nudge_def run_ok_def timely_parts COALESCE_SEC_def dest!: map_of_SomeD)
  have "\<exists>r'. (timer_step ?lag)\<^sup>*\<^sup>* r r' \<and> answered ?lag (bu_sent (rn_bus r')) (t, sc)"
    using or
  proof
    assume "pending_nudge (bu_windows (rn_bus r)) (bu_repeat (rn_bus r)) (t, sc)"
    then obtain d where "sc \<in> bu_repeat (rn_bus r)" "map_of (bu_windows (rn_bus r)) sc = Some d" by (auto simp: pending_nudge_def)
    from pending_will_be_sent [OF ok _ this] obtain r' where r': "(timer_step ?lag)\<^sup>*\<^sup>* r r'" "sc \<notin> bu_repeat (rn_bus r')" "rn_asked r' = rn_asked r"
      by auto
    from run_ok_timers [OF r'(1) ok] r'(2, 3) assms(2) have "answered ?lag (bu_sent (rn_bus r')) (t, sc)"
      by (auto simp: run_ok_def timely_def pending_nudge_def)
    with r'(1) show ?thesis by blast
  qed blast
  with or early show ?thesis unfolding answered by fastforce
qed

text \<open>
  Sustained load costs one fan-out per scope and second: two fan-outs of a nudge of the same scope are at least a second
  apart.
\<close>

theorem nudges_are_paced:
  assumes "reach fresh_bus (bus_step l (int lag)) r" and "sc \<noteq> ''__shutdown__''"
    and "i < j" and "j < length (sent_of sc (bu_sent (rn_bus r)))"
  shows "sent_of sc (bu_sent (rn_bus r)) ! i + seconds 1 \<le> sent_of sc (bu_sent (rn_bus r)) ! j"
proof -
  have "run_ok l (int lag) r" using assms(1) by (rule bus.reachable_inv)
  with assms(2) have "sorted_wrt (\<lambda>a b. a + COALESCE_SEC \<le> b) (sent_of sc (bu_sent (rn_bus r)))"
    by (simp add: run_ok_def timely_parts SHUTDOWN_def)
  from sorted_wrt_nth_less [OF this assms(3, 4)] show ?thesis by (simp add: COALESCE_SEC_def)
qed

section \<open>A run\<close>

text \<open>Two nudges of the batches at once, the second of which waits for the timer.\<close>

definition idle_run :: bus_run where
  "idle_run = \<lparr>rn_now = 0, rn_bus = new_bus, rn_asked = []\<rparr>"

definition nudged_run :: bus_run where
  "nudged_run = \<lparr>rn_now = 0,
     rn_bus = new_bus\<lparr>bu_loop := Some 0, bu_windows := [(''batches'', seconds 1)], bu_repeat := {''batches''}, bu_sent := [(0, nudge_event ''batches'')]\<rparr>,
     rn_asked = [(0, ''batches''), (0, ''batches'')]\<rparr>"

definition flushed_run :: bus_run where
  "flushed_run = \<lparr>rn_now = seconds 1,
     rn_bus = new_bus\<lparr>bu_loop := Some 0, bu_windows := [(''batches'', seconds 2)], bu_repeat := {},
       bu_sent := [(0, nudge_event ''batches''), (seconds 1, nudge_event ''batches'')]\<rparr>,
     rn_asked = [(0, ''batches''), (0, ''batches'')]\<rparr>"

lemma nudged_reachable: "reach fresh_bus (bus_step 0 (int lag)) nudged_run"
proof -
  have no: "''batches'' \<noteq> SHUTDOWN" by (simp add: SHUTDOWN_def)
  define r1 where "r1 = idle_run\<lparr>rn_bus := local_publish 0 (Some 0) (nudge_event ''batches'') new_bus, rn_asked := [(0, ''batches'')]\<rparr>"
  have "reach fresh_bus (bus_step 0 (int lag)) idle_run" by (rule reach_init) (simp add: fresh_bus_def idle_run_def)
  moreover have "bus_step 0 (int lag) idle_run r1"
    using bs_nudge [OF no, of 0 "int lag" idle_run] by (simp add: r1_def idle_run_def)
  ultimately have "reach fresh_bus (bus_step 0 (int lag)) r1" by (rule reach_step)
  moreover have "bus_step 0 (int lag) r1 nudged_run"
    using bs_nudge [OF no, of 0 "int lag" r1] no
    by (simp add: r1_def idle_run_def nudged_run_def new_bus_def nudge_coalesces coalesce_nudge_def fan_out_def COALESCE_SEC_def Let_def)
  ultimately show ?thesis by (rule reach_step)
qed

lemma flushed_reachable: "reach fresh_bus (bus_step 0 (int lag)) flushed_run"
proof -
  define r1 where "r1 = nudged_run\<lparr>rn_now := seconds 1\<rparr>"
  have "timer_step (int lag) nudged_run r1"
    unfolding r1_def by (rule ts_tick) (simp_all add: nudged_run_def time_units)
  moreover have "timer_step (int lag) r1 flushed_run"
    using ts_fire [of r1 "''batches''" "seconds 1" "int lag"]
    by (simp add: r1_def nudged_run_def flushed_run_def new_bus_def close_window_def fan_out_def COALESCE_SEC_def seconds_def)
  ultimately show ?thesis by (meson reach_step nudged_reachable bs_timer)
qed

theorem nudges_are_delivered_witness:
  "\<exists>r' t'. (timer_step 5)\<^sup>*\<^sup>* nudged_run r' \<and> (t', nudge_event ''batches'') \<in> set (bu_sent (rn_bus r')) \<and> 0 \<le> t' \<and> t' \<le> 1000005"
proof -
  have "(0, ''batches'') \<in> set (rn_asked nudged_run)" by (simp add: nudged_run_def)
  from nudges_are_delivered [OF nudged_reachable [of 5] this] show ?thesis by (simp add: seconds_def)
qed

theorem nudges_are_paced_witness:
  "sent_of ''batches'' (bu_sent (rn_bus flushed_run)) ! 0 + seconds 1 \<le> sent_of ''batches'' (bu_sent (rn_bus flushed_run)) ! 1"
proof -
  have "1 < length (sent_of ''batches'' (bu_sent (rn_bus flushed_run)))" by (simp add: flushed_run_def sent_of_def)
  from nudges_are_paced [OF flushed_reachable [of 0] _ _ this, of 0] show ?thesis by simp
qed

section \<open>Streams\<close>

text \<open>No queue outgrows its bound, and once a shutdown is requested there is something in every queue.\<close>

definition streams_ok :: "bus \<Rightarrow> bool" where
  "streams_ok b \<longleftrightarrow> distinct (map fst (bu_subscribers b))
     \<and> (\<forall>(k, q) \<in> set (bu_subscribers b). length q \<le> QUEUE_MAX \<and> (bu_shutdown b \<longrightarrow> q \<noteq> []))"

lemma fan_out_streams:
  assumes "streams_ok b"
  shows "streams_ok (fan_out now e b)" and "streams_ok (fan_out now e (b\<lparr>bu_shutdown := True\<rparr>))"
proof -
  have keys: "map fst (bu_subscribers (fan_out now e b')) = map fst (bu_subscribers b')" for b' by (simp add: fan_out_def split_def)
  have "q \<noteq> []" if "(k, q) \<in> set (bu_subscribers (fan_out now e b'))" for k q b'
    using that by (auto simp: fan_out_def put_nowait_def QUEUE_MAX_def split: if_splits)
  moreover have "length q \<le> QUEUE_MAX"
    if "(k, q) \<in> set (bu_subscribers (fan_out now e b'))" "bu_subscribers b' = bu_subscribers b" for k q b'
    using that assms by (fastforce simp: fan_out_def put_nowait_def streams_ok_def)
  ultimately show "streams_ok (fan_out now e b)" "streams_ok (fan_out now e (b\<lparr>bu_shutdown := True\<rparr>))"
    using assms keys [of b] keys [of "b\<lparr>bu_shutdown := True\<rparr>"] unfolding streams_ok_def by (fastforce simp: case_prod_beta)+
qed

lemma streams_ok_frame: "bu_subscribers b = bu_subscribers b' \<Longrightarrow> bu_shutdown b = bu_shutdown b' \<Longrightarrow> streams_ok b = streams_ok b'"
  by (simp add: streams_ok_def)

lemma coalesce_streams: "streams_ok b \<Longrightarrow> streams_ok (coalesce_nudge now running sc b)"
  using fan_out_streams [of b] fan_out_streams(1) [of "b\<lparr>bu_loop := l, bu_windows := [], bu_repeat := {}\<rparr>" for l]
  by (auto simp: coalesce_nudge_def Let_def streams_ok_def split: option.splits)

lemma close_streams: "streams_ok b \<Longrightarrow> streams_ok (close_window now sc b)"
  using fan_out_streams(1) [of "b\<lparr>bu_repeat := bu_repeat b - {sc}\<rparr>"] by (auto simp: close_window_def Let_def streams_ok_def)

lemma turn_streams: "streams_ok b \<Longrightarrow> streams_ok (snd (stream_turn k b))" "streams_ok b \<Longrightarrow> streams_ok (unsubscribe k b)"
proof -
  show gone: "streams_ok (unsubscribe k b)" if "streams_ok b"
    using that by (auto simp: unsubscribe_def streams_ok_def distinct_map_filter)
  assume ok: "streams_ok b"
  then have dist: "distinct (map fst (bu_subscribers b))" by (simp add: streams_ok_def)
  show "streams_ok (snd (stream_turn k b))"
  proof (cases "map_of (bu_subscribers b) k")
    case (Some q)
    with ok have "length q \<le> QUEUE_MAX" by (auto simp: streams_ok_def dest!: map_of_SomeD)
    with Some ok gone show ?thesis
      by (cases q) (auto simp: stream_turn_def streams_ok_def distinct_update set_update_alist [OF dist] split: if_splits)
  qed (simp add: stream_turn_def ok)
qed

lemma streams_ok_step:
  assumes "streams_ok (rn_bus r)" and "bus_step l lag r r'"
  shows "streams_ok (rn_bus r')"
  using assms(2)
proof (cases rule: bus_step.cases)
  case bs_timer
  then show ?thesis by (cases rule: timer_step.cases) (use assms(1) in \<open>auto intro: close_streams\<close>)
next
  case (bs_open k)
  with assms(1) show ?thesis by (auto simp: open_stream_def subscribe_def streams_ok_def)
qed (use assms(1) in \<open>simp_all add: nudge_coalesces coalesce_streams local_publish_def fan_out_streams shutdown_publishes turn_streams\<close>)

interpretation streams: invariant_system fresh_bus "bus_step l lag" "\<lambda>r. streams_ok (rn_bus r)" for l lag
proof unfold_locales
  show "streams_ok (rn_bus r)" if "fresh_bus r" for r using that by (simp add: fresh_bus_def new_bus_def streams_ok_def)
qed (rule streams_ok_step)

text \<open>
  No open stream holds up a shutdown: once it is requested, every open stream has an event to wake it, and its next
  turn sends the farewell and unsubscribes; a stream opened later says farewell at once. Before that, no subscriber, however slow,
  holds more than 512 events.
\<close>

theorem streams_end_on_shutdown:
  assumes "reach fresh_bus (bus_step l lag) r" and "map_of (bu_subscribers (rn_bus r)) k = Some q"
  shows "length q \<le> 512 \<and> (bu_shutdown (rn_bus r) \<longrightarrow> q \<noteq> [] \<and> stream_turn k (rn_bus r) = ([ShutdownFrame], unsubscribe k (rn_bus r))
    \<and> (\<forall>k'. open_stream k' (rn_bus r) = ([Ready, ShutdownFrame], rn_bus r)))"
proof -
  have ok: "streams_ok (rn_bus r)" using assms(1) by (rule streams.reachable_inv)
  with assms(2) have "length q \<le> QUEUE_MAX" "bu_shutdown (rn_bus r) \<longrightarrow> q \<noteq> []"
    by (auto simp: streams_ok_def dest!: map_of_SomeD)
  with assms(2) show ?thesis by (cases q) (auto simp: QUEUE_MAX_def stream_turn_def open_stream_def)
qed

text \<open>A stream with nothing to read when the shutdown comes.\<close>

theorem streams_end_on_shutdown_witness:
  "stream_turn 7 (request_shutdown False (\<lambda>_. []) 0 (Some 0) (subscribe 7 new_bus))
     = ([ShutdownFrame], unsubscribe 7 (request_shutdown False (\<lambda>_. []) 0 (Some 0) (subscribe 7 new_bus)))"
proof -
  define r1 where "r1 = idle_run\<lparr>rn_bus := subscribe 7 new_bus\<rparr>"
  define r2 where "r2 = r1\<lparr>rn_bus := request_shutdown False (\<lambda>_. []) 0 (Some 0) (subscribe 7 new_bus)\<rparr>"
  have "reach fresh_bus (bus_step 0 0) idle_run" by (rule reach_init) (simp add: fresh_bus_def idle_run_def)
  moreover have "bus_step 0 0 idle_run r1"
    using bs_open [of 7 idle_run 0 0] by (simp add: r1_def idle_run_def open_stream_def new_bus_def)
  moreover have "bus_step 0 0 r1 r2"
    using bs_shutdown [of 0 0 r1 False "\<lambda>_. []"] by (simp add: r2_def r1_def idle_run_def)
  ultimately have "reach fresh_bus (bus_step 0 0) r2" by (blast intro: reach_step)
  moreover have "map_of (bu_subscribers (rn_bus r2)) 7 = Some [nudge_event SHUTDOWN]"
    by (simp add: r2_def shutdown_publishes fan_out_def subscribe_def new_bus_def put_nowait_def QUEUE_MAX_def)
  moreover have "bu_shutdown (rn_bus r2)" by (simp add: r2_def shutdown_publishes)
  ultimately show ?thesis using streams_end_on_shutdown [of 0 0 r2 7] by (simp add: r2_def)
qed

section \<open>The sender\<close>

text \<open>
  The sender with its history: the payloads put into its queue, those executed with the number of payloads that were put before,
  and those that a full queue did not take back. An execution whose answer is lost counts as executed and is repeated.
\<close>

record sender_run =
  sr_bus :: bus
  sr_batch :: "string list"
  sr_put :: "string list"
  sr_done :: "(nat \<times> string) list"
  sr_lost :: "string list"

definition executed :: "sender_run \<Rightarrow> (nat \<times> string) list" where
  "executed r = sr_done r @ map (Pair (length (sr_put r))) (sr_batch r)"

inductive sender_step :: "(bus_event \<Rightarrow> string) \<Rightarrow> sender_run \<Rightarrow> sender_run \<Rightarrow> bool" for dumps :: "bus_event \<Rightarrow> string" where
  ss_publish: "sender_step dumps r (r\<lparr>sr_bus := publish True dumps now running e (sr_bus r),
     sr_put := sr_put r @ (if bu_notify (publish True dumps now running e (sr_bus r)) = bu_notify (sr_bus r) then [] else [dumps e])\<rparr>)"
| ss_take: "\<lbrakk>sr_batch r = []; take_batch (sr_bus r) = (payloads, b)\<rbrakk> \<Longrightarrow> sender_step dumps r (r\<lparr>sr_bus := b, sr_batch := payloads\<rparr>)"
| ss_done: "sender_step dumps r (r\<lparr>sr_batch := [], sr_done := executed r\<rparr>)"
| ss_failed: "b = (sr_bus r)\<lparr>bu_notify := put_back (sr_batch r) (bu_notify (sr_bus r))\<rparr> \<Longrightarrow>
     sender_step dumps r (r\<lparr>sr_bus := b, sr_batch := [], sr_done := (if applied then executed r else sr_done r),
       sr_lost := sr_lost r @ drop (NOTIFY_MAX - length (bu_notify (sr_bus r))) (sr_batch r)\<rparr>)"

definition fresh_sender :: "sender_run \<Rightarrow> bool" where
  "fresh_sender r \<longleftrightarrow> r = \<lparr>sr_bus = new_bus, sr_batch = [], sr_put = [], sr_done = [], sr_lost = []\<rparr>"

definition accounted :: "sender_run \<Rightarrow> bool" where
  "accounted r \<longleftrightarrow> length (bu_notify (sr_bus r)) \<le> NOTIFY_MAX
     \<and> (\<forall>i < length (sr_put r). sr_put r ! i \<in> set (bu_notify (sr_bus r)) \<union> set (sr_batch r) \<union> set (sr_lost r)
          \<or> (\<exists>n. (n, sr_put r ! i) \<in> set (sr_done r) \<and> i < n))"

lemma put_back_take: "put_back ps q = q @ take (NOTIFY_MAX - length q) ps"
  by (induction ps q rule: put_back.induct) (auto simp: take_Cons' not_less Suc_diff_Suc)

lemma notify_fan_out [simp]: "bu_notify (fan_out now e b) = bu_notify b"
  by (simp add: fan_out_def)

lemma notify_local [simp]: "bu_notify (local_publish now running e b) = bu_notify b"
  by (auto simp: local_publish_def coalesce_nudge_def Let_def split: option.splits)

lemma notify_publish:
  "bu_notify (publish True dumps now running e b) = bu_notify b \<and> (py_get e ''scope'' = PStr SHUTDOWN \<or> NOTIFY_MAX \<le> length (bu_notify b))
   \<or> bu_notify (publish True dumps now running e b) = bu_notify b @ [dumps e] \<and> length (bu_notify b) < NOTIFY_MAX"
  by (auto simp: publish_def)

lemma accounted_mono:
  assumes "accounted r" and "length (bu_notify (sr_bus r')) \<le> NOTIFY_MAX" and "sr_put r' = sr_put r"
    and "set (sr_done r) \<subseteq> set (sr_done r')" and "set (sr_lost r) \<subseteq> set (sr_lost r')"
    and "\<And>p. p \<in> set (bu_notify (sr_bus r)) \<union> set (sr_batch r) \<Longrightarrow>
        p \<in> set (bu_notify (sr_bus r')) \<union> set (sr_batch r') \<union> set (sr_lost r') \<or> (length (sr_put r), p) \<in> set (sr_done r')"
  shows "accounted r'"
proof -
  have "sr_put r ! i \<in> set (bu_notify (sr_bus r')) \<union> set (sr_batch r') \<union> set (sr_lost r')
      \<or> (\<exists>n. (n, sr_put r ! i) \<in> set (sr_done r') \<and> i < n)" if i: "i < length (sr_put r)" for i
  proof -
    from assms(1) i consider (wait) "sr_put r ! i \<in> set (bu_notify (sr_bus r)) \<union> set (sr_batch r)" | (lost) "sr_put r ! i \<in> set (sr_lost r)"
      | (over) n where "(n, sr_put r ! i) \<in> set (sr_done r)" "i < n" by (auto simp: accounted_def)
    then show ?thesis
    proof cases
      case wait
      from assms(6) [OF this] i show ?thesis by blast
    qed (use assms(4, 5) in blast)+
  qed
  with assms(2, 3) show ?thesis by (simp add: accounted_def)
qed

lemma in_take_drop: "p \<in> set q \<Longrightarrow> p \<in> set (take n q) \<or> p \<in> set (drop n q)"
  by (metis append_take_drop_id Un_iff set_append)

lemma accounted_step:
  assumes "accounted r" and "sender_step dumps r r'"
  shows "accounted r'"
  using assms(2)
proof (cases rule: sender_step.cases)
  case (ss_publish now running e)
  show ?thesis
  proof (cases "bu_notify (publish True dumps now running e (sr_bus r)) = bu_notify (sr_bus r)")
    case True
    with ss_publish assms(1) show ?thesis by (simp add: accounted_def)
  next
    case False
    then have "bu_notify (publish True dumps now running e (sr_bus r)) = bu_notify (sr_bus r) @ [dumps e]" "length (bu_notify (sr_bus r)) < NOTIFY_MAX"
      using notify_publish [of dumps now running e "sr_bus r"] by auto
    with ss_publish False assms(1) show ?thesis by (auto simp: accounted_def nth_append less_Suc_eq)
  qed
next
  case (ss_take payloads b)
  with assms(1) show ?thesis
    by (intro accounted_mono [OF assms(1)]) (auto simp: take_batch_def accounted_def dest: in_take_drop)
next
  case ss_done
  with assms(1) show ?thesis by (intro accounted_mono [OF assms(1)]) (auto simp: executed_def accounted_def)
next
  case (ss_failed b applied)
  with assms(1) show ?thesis
    by (intro accounted_mono [OF assms(1)]) (auto simp: put_back_take executed_def accounted_def dest: in_take_drop)
qed

interpretation sender: invariant_system fresh_sender "sender_step dumps" accounted for dumps
proof unfold_locales
  show "accounted r" if "fresh_sender r" for r using that by (simp add: fresh_sender_def accounted_def new_bus_def)
qed (rule accounted_step)

text \<open>
  The sender forgets nothing by itself. Whatever was put into its queue is waiting, in the batch in hand, executed after it was
  put (the collapse of equal payloads included), or among those that a failed execution could not put back because the
  queue had filled up meanwhile.
\<close>

theorem sender_keeps_payloads:
  assumes "reach fresh_sender (sender_step dumps) r" and "i < length (sr_put r)"
  shows "sr_put r ! i \<in> set (bu_notify (sr_bus r)) \<union> set (sr_batch r) \<union> set (sr_lost r)
    \<or> (\<exists>n. (n, sr_put r ! i) \<in> set (sr_done r) \<and> i < n)"
  using sender.reachable_inv [OF assms(1)] assms(2) by (auto simp: accounted_def)

text \<open>A payload that a failed execution has put back.\<close>

definition put_back_run :: sender_run where
  "put_back_run = \<lparr>sr_bus = new_bus\<lparr>bu_notify := [''b'']\<rparr>, sr_batch = [], sr_put = [''b''], sr_done = [], sr_lost = []\<rparr>"

theorem sender_keeps_payloads_witness:
  "reach fresh_sender (sender_step (\<lambda>_. ''b'')) put_back_run \<and> sr_put put_back_run ! 0 \<in> set (bu_notify (sr_bus put_back_run))"
proof -
  define r0 where "r0 = \<lparr>sr_bus = new_bus, sr_batch = [], sr_put = [], sr_done = [], sr_lost = []\<rparr>"
  define r2 where "r2 = put_back_run\<lparr>sr_bus := new_bus, sr_batch := [''b'']\<rparr>"
  have "reach fresh_sender (sender_step (\<lambda>_. ''b'')) r0" by (rule reach_init) (simp add: fresh_sender_def r0_def)
  moreover have "sender_step (\<lambda>_. ''b'') r0 put_back_run"
    using ss_publish [of "\<lambda>_. ''b''" r0 0 None "nudge_event ''batches''"]
    by (simp add: publish_def r0_def put_back_run_def new_bus_def NOTIFY_MAX_def SHUTDOWN_def)
  moreover have "sender_step (\<lambda>_. ''b'') put_back_run r2"
    using ss_take [of put_back_run "[''b'']" new_bus "\<lambda>_. ''b''"]
    by (simp add: take_batch_def r2_def put_back_run_def new_bus_def NOTIFY_BATCH_MAX_def)
  moreover have "sender_step (\<lambda>_. ''b'') r2 put_back_run"
    using ss_failed [of "new_bus\<lparr>bu_notify := [''b'']\<rparr>" r2 "\<lambda>_. ''b''" False]
    by (simp add: r2_def put_back_run_def new_bus_def NOTIFY_MAX_def)
  ultimately have run: "reach fresh_sender (sender_step (\<lambda>_. ''b'')) put_back_run" by (blast intro: reach_step)
  from sender_keeps_payloads [OF run, of 0] run show ?thesis by (simp add: put_back_run_def)
qed

text \<open>A failure loses nothing when the queue has room for the batch, and a batch is bounded and free of repetitions.\<close>

lemma failure_with_room:
  "length (bu_notify b) + length batch \<le> NOTIFY_MAX \<Longrightarrow> drop (NOTIFY_MAX - length (bu_notify b)) batch = []"
  by simp

lemma batch_bounded: "take_batch b = (payloads, b') \<Longrightarrow> length payloads \<le> 256 \<and> distinct payloads"
proof -
  assume "take_batch b = (payloads, b')"
  then have p: "payloads = dedup (take NOTIFY_BATCH_MAX (bu_notify b))" by (simp add: take_batch_def)
  then have "length payloads = card (set (take NOTIFY_BATCH_MAX (bu_notify b)))" by (metis distinct_card distinct_dedup set_dedup)
  also have "\<dots> \<le> length (take NOTIFY_BATCH_MAX (bu_notify b))" by (rule card_length)
  finally show ?thesis by (simp add: p NOTIFY_BATCH_MAX_def)
qed

text \<open>A listener that has connected again has refreshed every scope: each is fanned out or waits for its timer.\<close>

lemma listener_refreshes:
  assumes "loop_ok l b"
  shows "\<forall>sc. (now, nudge_event (scope_value sc)) \<in> set (bu_sent (listener_connected now (Some l) b))
    \<or> scope_value sc \<in> bu_repeat (listener_connected now (Some l) b)"
proof -
  let ?f = "\<lambda>b sc. local_publish now (Some l) (nudge_event (scope_value sc)) b"
  let ?hit = "\<lambda>b sc. (now, nudge_event (scope_value sc)) \<in> set (bu_sent b) \<or> scope_value sc \<in> bu_repeat b"
  have no: "scope_value sc \<noteq> SHUTDOWN" for sc by (cases sc) (simp_all add: SHUTDOWN_def)
  have one: "loop_ok l (?f b sc) \<and> ?hit (?f b sc) sc \<and> (\<forall>k. ?hit b k \<longrightarrow> ?hit (?f b sc) k)" if "loop_ok l b" for b sc
    using that by (auto simp: nudge_coalesces no coalesce_nudge_def loop_ok_def Let_def)
  have refreshed: "loop_ok l b \<Longrightarrow> (\<forall>k \<in> K. ?hit b k) \<Longrightarrow> \<forall>k \<in> K \<union> set scs. ?hit (foldl ?f b scs) k" for scs K b
  proof (induction scs arbitrary: b K)
    case (Cons sc scs)
    from one [OF Cons.prems(1), of sc] Cons.prems(2) have "loop_ok l (?f b sc)" "\<forall>k \<in> insert sc K. ?hit (?f b sc) k" by blast+
    from Cons.IH [OF this] show ?case by simp
  qed simp
  have "\<forall>k \<in> {} \<union> set all_scopes. ?hit (listener_connected now (Some l) b) k"
    unfolding listener_connected_def by (rule refreshed [OF assms]) simp
  moreover have "sc \<in> set all_scopes" for sc by (cases sc) (simp_all add: all_scopes_def)
  ultimately show ?thesis by blast
qed

end
