(* ===== verification/EventFeed.thy ===== *)
theory EventFeed
  imports Background "HOL-Library.Multiset" "HOL-Library.Sublist"
begin

text \<open>
  The event log of \<^verbatim>\<open>src/sathop/orchestrator/event_store.py\<close>, which the feed of the web UI reads (\<^verbatim>\<open>api/events.py\<close>): in memory
  under SQLite, a capped deque scanned from its newest end, and a table under Postgres, queried with a filter, an order and a
  limit. Its operations, and that the two answer alike.
\<close>

section \<open>The deque\<close>

record event_filter =
  ef_limit :: int
  ef_since_id :: int
  ef_before_id :: "int option"
  ef_batch :: "ident option"
  ef_granule :: "ident option"
  ef_source :: "ident option"
  ef_level :: "string option"

text \<open>\<open>admits f e\<close>: none of the \<^verbatim>\<open>continue\<close> branches is taken.\<close>

definition wanted :: "'a option \<Rightarrow> 'a \<Rightarrow> bool" where
  "wanted w v \<longleftrightarrow> (case w of None \<Rightarrow> True | Some x \<Rightarrow> v = x)"

definition admits :: "event_filter \<Rightarrow> mem_event \<Rightarrow> bool" where
  "admits f e \<longleftrightarrow> \<not> (case ef_before_id f of None \<Rightarrow> False | Some b \<Rightarrow> me_id e \<ge> b)
     \<and> (case ef_batch f of None \<Rightarrow> True | Some b \<Rightarrow> ed_batch (me_draft e) = Some b)
     \<and> (case ef_granule f of None \<Rightarrow> True | Some g \<Rightarrow> ed_granule (me_draft e) = Some g)
     \<and> wanted (ef_source f) (ed_source (me_draft e)) \<and> wanted (ef_level f) (ed_level (me_draft e))"

fun scan_events :: "event_filter \<Rightarrow> mem_event list \<Rightarrow> mem_event list \<Rightarrow> mem_event list" where
  "scan_events f [] results = results"
| "scan_events f (e # es) results =
     (if me_id e \<le> ef_since_id f then results
      else if \<not> admits f e then scan_events f es results
      else let results = results @ [e]
           in if int (length results) \<ge> ef_limit f then results else scan_events f es results)"

definition query_events :: "event_filter \<Rightarrow> mem_event list \<Rightarrow> mem_event list" where
  "query_events f store = scan_events f (rev store) []"

fun last_loop :: "int \<Rightarrow> mem_event list \<Rightarrow> mem_event list \<Rightarrow> mem_event list" where
  "last_loop n [] out = out"
| "last_loop n (e # es) out = (let out = out @ [e] in if int (length out) \<ge> n then out else last_loop n es out)"

definition last_events :: "int \<Rightarrow> mem_event list \<Rightarrow> mem_event list" where
  "last_events n store = last_loop n (rev store) []"

fun count_loop :: "time \<Rightarrow> mem_event list \<Rightarrow> (string \<times> nat) list \<Rightarrow> (string \<times> nat) list" where
  "count_loop since [] counts = counts"
| "count_loop since (e # es) counts =
     (if me_ts e < since then counts
      else let lv = ed_level (me_draft e); n = (case map_of counts lv of None \<Rightarrow> 0 | Some n \<Rightarrow> n)
           in count_loop since es (AList.update lv (n + 1) counts))"

definition count_by_level_since :: "time \<Rightarrow> mem_event list \<Rightarrow> (string \<times> nat) list" where
  "count_by_level_since since store = count_loop since (rev store) []"

text \<open>\<^verbatim>\<open>append\<close> stamps the next identifier; \<^verbatim>\<open>prune_before\<close> pops from the left.\<close>

record event_log =
  el_store :: "mem_event list"
  el_next_id :: int

definition append_event :: "time \<Rightarrow> event_draft \<Rightarrow> event_log \<Rightarrow> int \<times> event_log" where
  "append_event now e l =
     (el_next_id l, \<lparr>el_store = push_events (el_store l) [\<lparr>me_id = el_next_id l, me_ts = now, me_draft = e\<rparr>], el_next_id = el_next_id l + 1\<rparr>)"

fun pop_before :: "time \<Rightarrow> nat \<Rightarrow> mem_event list \<Rightarrow> nat \<times> mem_event list" where
  "pop_before cutoff n [] = (n, [])"
| "pop_before cutoff n (e # es) = (if me_ts e < cutoff then pop_before cutoff (n + 1) es else (n, e # es))"

definition prune_before :: "time \<Rightarrow> event_log \<Rightarrow> nat \<times> event_log" where
  "prune_before cutoff l = (let (n, es) = pop_before cutoff 0 (el_store l) in (n, l\<lparr>el_store := es\<rparr>))"

definition of_granules :: "ident list \<Rightarrow> mem_event \<Rightarrow> bool" where
  "of_granules gids e \<longleftrightarrow> (case ed_granule (me_draft e) of None \<Rightarrow> False | Some k \<Rightarrow> k \<in> set gids)"

definition evict_by_granule_ids :: "ident list \<Rightarrow> event_log \<Rightarrow> nat \<times> event_log" where
  "evict_by_granule_ids gids l =
     (let keep = filter (\<lambda>e. \<not> of_granules gids e) (el_store l)
      in (length (el_store l) - length keep, l\<lparr>el_store := keep\<rparr>))"

section \<open>The table\<close>

definition query_rows :: "event_filter \<Rightarrow> mem_event list \<Rightarrow> mem_event list" where
  "query_rows f rows =
     take (nat (ef_limit f))
       (rev (sort_key me_id (filter (\<lambda>e. (ef_since_id f \<noteq> 0 \<longrightarrow> ef_since_id f < me_id e) \<and> admits f e) rows)))"

definition no_filter :: "int \<Rightarrow> event_filter" where
  "no_filter n = \<lparr>ef_limit = n, ef_since_id = 0, ef_before_id = None, ef_batch = None, ef_granule = None, ef_source = None, ef_level = None\<rparr>"

definition last_rows :: "int \<Rightarrow> mem_event list \<Rightarrow> mem_event list" where
  "last_rows n rows = query_rows (no_filter n) rows"

definition count_rows :: "time \<Rightarrow> mem_event list \<Rightarrow> string \<Rightarrow> nat option" where
  "count_rows since rows lv =
     (let n = row_count (\<lambda>e. since \<le> me_ts e \<and> ed_level (me_draft e) = lv) rows in if n = 0 then None else Some n)"

definition EVICT_CHUNK :: nat where
  "EVICT_CHUNK = 20000"

text \<open>\<open>gids\<close> are the identifiers in the order in which the set yields them; each chunk is one deletion.\<close>

function evict_rows :: "ident list \<Rightarrow> mem_event list \<Rightarrow> nat \<times> mem_event list" where
  "evict_rows gids rows =
     (if gids = [] then (0, rows)
      else let p = of_granules (take EVICT_CHUNK gids);
               (n, rows') = evict_rows (drop EVICT_CHUNK gids) (del_where p rows)
           in (row_count p rows + n, rows'))"
  by pat_completeness auto
termination by (relation "measure (length \<circ> fst)") (auto simp: EVICT_CHUNK_def)

declare evict_rows.simps [simp del]

definition prune_rows_before :: "time \<Rightarrow> mem_event list \<Rightarrow> nat \<times> mem_event list" where
  "prune_rows_before cutoff rows = (row_count (\<lambda>e. me_ts e < cutoff) rows, del_where (\<lambda>e. me_ts e < cutoff) rows)"

section \<open>What the log keeps\<close>

text \<open>The log together with its clock, which does not go back.\<close>

record log_run =
  lr_now :: time
  lr_log :: event_log

inductive log_step :: "log_run \<Rightarrow> log_run \<Rightarrow> bool" where
  ls_tick: "lr_now r \<le> t \<Longrightarrow> log_step r (r\<lparr>lr_now := t\<rparr>)"
| ls_append: "log_step r (r\<lparr>lr_log := snd (append_event (lr_now r) e (lr_log r))\<rparr>)"
| ls_prune: "log_step r (r\<lparr>lr_log := snd (prune_before cutoff (lr_log r))\<rparr>)"
| ls_evict: "log_step r (r\<lparr>lr_log := snd (evict_by_granule_ids gids (lr_log r))\<rparr>)"

definition fresh_log :: "log_run \<Rightarrow> bool" where
  "fresh_log r \<longleftrightarrow> lr_log r = \<lparr>el_store = [], el_next_id = 1\<rparr>"

definition log_ok :: "log_run \<Rightarrow> bool" where
  "log_ok r \<longleftrightarrow> sorted_wrt (<) (map me_id (el_store (lr_log r))) \<and> sorted (map me_ts (el_store (lr_log r)))
     \<and> length (el_store (lr_log r)) \<le> MAX_EVENTS \<and> 1 \<le> el_next_id (lr_log r)
     \<and> (\<forall>e \<in> set (el_store (lr_log r)). 1 \<le> me_id e \<and> me_id e < el_next_id (lr_log r) \<and> me_ts e \<le> lr_now r)"

lemma sorted_wrt_subseq: "subseq xs ys \<Longrightarrow> sorted_wrt P ys \<Longrightarrow> sorted_wrt P xs"
proof (induction rule: list_emb.induct)
  case (list_emb_Cons2 x y xs ys)
  then have "set xs \<subseteq> set ys" by (auto dest: list_emb_set)
  with list_emb_Cons2 show ?case by auto
qed simp_all

lemma log_ok_subseq:
  assumes "log_ok r" and "subseq es (el_store (lr_log r))"
  shows "log_ok (r\<lparr>lr_log := (lr_log r)\<lparr>el_store := es\<rparr>\<rparr>)"
proof -
  have "subseq (map me_id es) (map me_id (el_store (lr_log r)))" using assms(2) by (rule subseq_map)
  then have "sorted_wrt (<) (map me_id es)" using assms(1) unfolding log_ok_def by (blast intro: sorted_wrt_subseq)
  moreover have "subseq (map me_ts es) (map me_ts (el_store (lr_log r)))" using assms(2) by (rule subseq_map)
  then have "sorted (map me_ts es)" using assms(1) unfolding log_ok_def by (blast intro: sorted_wrt_subseq)
  moreover have "length es \<le> length (el_store (lr_log r))" and "set es \<subseteq> set (el_store (lr_log r))"
    using assms(2) by (auto dest: list_emb_length list_emb_set)
  ultimately show ?thesis using assms(1) by (fastforce simp: log_ok_def)
qed

lemma log_ok_append:
  assumes "log_ok r"
  shows "log_ok (r\<lparr>lr_log := snd (append_event (lr_now r) e (lr_log r))\<rparr>)"
proof -
  let ?l = "lr_log r" and ?e = "\<lparr>me_id = el_next_id (lr_log r), me_ts = lr_now r, me_draft = e\<rparr>"
  define r' where "r' = r\<lparr>lr_log := \<lparr>el_store = el_store ?l @ [?e], el_next_id = el_next_id ?l + 1\<rparr>\<rparr>"
  have ok: "sorted_wrt (<) (map me_id (el_store (lr_log r')))" "sorted (map me_ts (el_store (lr_log r')))" "1 \<le> el_next_id (lr_log r')"
    "\<forall>x \<in> set (el_store (lr_log r')). 1 \<le> me_id x \<and> me_id x < el_next_id (lr_log r') \<and> me_ts x \<le> lr_now r'"
    using assms by (auto simp: log_ok_def r'_def sorted_wrt_append sorted_append)
  let ?es = "drop (length (el_store (lr_log r')) - MAX_EVENTS) (el_store (lr_log r'))"
  have "set ?es \<subseteq> set (el_store (lr_log r'))" by (rule set_drop_subset)
  with ok have "log_ok (r'\<lparr>lr_log := (lr_log r')\<lparr>el_store := ?es\<rparr>\<rparr>)"
    by (auto simp: log_ok_def drop_map [symmetric] sorted_wrt_drop)
  then show ?thesis by (simp add: r'_def append_event_def push_events_def)
qed

lemma pop_before_drop: "pop_before cutoff n es = (n + length (takeWhile (\<lambda>e. me_ts e < cutoff) es), dropWhile (\<lambda>e. me_ts e < cutoff) es)"
  by (induction cutoff n es rule: pop_before.induct) auto

lemma log_ok_step:
  assumes "log_ok r" and "log_step r r'"
  shows "log_ok r'"
  using assms(2)
proof (cases rule: log_step.cases)
  case ls_tick
  with assms(1) show ?thesis by (fastforce simp: log_ok_def)
next
  case (ls_prune cutoff)
  have "subseq (dropWhile (\<lambda>e. me_ts e < cutoff) es) es" for es :: "mem_event list"
    by (metis suffix_dropWhile suffix_imp_subseq)
  with ls_prune assms(1) show ?thesis by (simp add: prune_before_def pop_before_drop log_ok_subseq)
next
  case (ls_evict gids)
  with assms(1) show ?thesis by (simp add: evict_by_granule_ids_def Let_def log_ok_subseq)
qed (use assms(1) in \<open>simp add: log_ok_append\<close>)

interpretation log: invariant_system fresh_log log_step log_ok
proof unfold_locales
  show "log_ok r" if "fresh_log r" for r using that by (simp add: fresh_log_def log_ok_def)
qed (rule log_ok_step)

section \<open>Deque and table agree\<close>

text \<open>Newest first, the scan stops at the first event that the reader has seen, and skips the others of no interest.\<close>

lemma scan_filter:
  assumes "sorted_wrt (>) (map me_id es)" and "int (length results) < ef_limit f"
  shows "scan_events f es results
    = results @ take (nat (ef_limit f) - length results) (filter (\<lambda>e. ef_since_id f < me_id e \<and> admits f e) es)"
  using assms
proof (induction f es results rule: scan_events.induct)
  case (2 f e es results)
  show ?case
  proof (cases "me_id e \<le> ef_since_id f")
    case True
    with 2(3) have none: "filter (\<lambda>e. ef_since_id f < me_id e \<and> admits f e) (e # es) = []" by (auto simp: filter_empty_conv)
    show ?thesis unfolding none using True by simp
  next
    case False
    have "nat (ef_limit f) - length results = Suc (nat (ef_limit f) - Suc (length results))" using 2(4) by linarith
    then show ?thesis using 2 False by (auto simp: Let_def)
  qed
qed simp

lemma last_take: "int (length out) < n \<Longrightarrow> last_loop n es out = out @ take (nat n - length out) es"
proof (induction n es out rule: last_loop.induct)
  case (2 n e es out)
  then have "nat n - length out = Suc (nat n - Suc (length out))" by linarith
  with 2 show ?case by (auto simp: Let_def)
qed simp

text \<open>An ordered query of rows with distinct identifiers sees them as the sorted store does.\<close>

lemma distinct_singleton:
  assumes "set xs = {k}" and "distinct xs"
  shows "xs = [k]"
proof (cases xs)
  case (Cons y ys)
  with assms have "y = k" "set ys \<subseteq> {k}" "k \<notin> set ys" by auto
  then have "ys = []" by (cases ys) auto
  with Cons \<open>y = k\<close> show ?thesis by simp
qed (use assms in simp)

lemma query_order:
  assumes "mset rows = mset store" and "sorted_wrt (<) (map me_id store)"
  shows "sort_key me_id (filter P rows) = filter P store"
proof (rule properties_for_sort_key)
  show "mset (filter P store) = mset (filter P rows)" using assms(1) by (simp add: mset_filter)
  have "distinct (map me_id store)" using assms(2) by (simp add: strict_sorted_iff)
  then have inj: "inj_on me_id (set store)" by (simp add: distinct_map)
  have "distinct store" using \<open>distinct (map me_id store)\<close> by (simp add: distinct_map)
  then have "distinct rows" using assms(1) by (metis mset_eq_imp_distinct_iff)
  have same: "set rows = set store" using assms(1) by (rule mset_eq_setD)
  show "filter (\<lambda>x. me_id k = me_id x) (filter P store) = filter (\<lambda>x. me_id k = me_id x) (filter P rows)"
    if "k \<in> set (filter P store)" for k
  proof -
    have "filter (\<lambda>x. me_id k = me_id x) (filter P xs) = [k]" if "distinct xs" "set xs = set store" for xs
    proof -
      have "set (filter (\<lambda>x. me_id k = me_id x) (filter P xs)) = {k}"
        using that(2) \<open>k \<in> set (filter P store)\<close> inj by (auto simp: inj_on_def)
      moreover have "distinct (filter (\<lambda>x. me_id k = me_id x) (filter P xs))" using that(1) by simp
      ultimately show ?thesis by (rule distinct_singleton)
    qed
    with \<open>distinct rows\<close> \<open>distinct store\<close> same show ?thesis by simp
  qed
  show "sorted (map me_id (filter P store))"
    using assms(2) by (metis sorted_wrt_map sorted_wrt_filter strict_sorted_imp_sorted)
qed

lemma count_loop_counts:
  assumes "sorted_wrt (\<ge>) (map me_ts es)"
  shows "map_of (count_loop since es counts) lv =
    (let n = row_count (\<lambda>e. since \<le> me_ts e \<and> ed_level (me_draft e) = lv) es
     in case map_of counts lv of None \<Rightarrow> if n = 0 then None else Some n | Some m \<Rightarrow> Some (m + n))"
  using assms
proof (induction since es counts rule: count_loop.induct)
  case (2 since e es counts)
  show ?case
  proof (cases "me_ts e < since")
    case True
    with 2(2) have "\<forall>x \<in> set (e # es). me_ts x < since" by auto
    then have "row_count (\<lambda>x. since \<le> me_ts x \<and> ed_level (me_draft x) = lv) (e # es) = 0" by (simp add: row_count_0 not_le)
    with True show ?thesis by (simp only: count_loop.simps if_True Let_def) (simp split: option.split)
  next
    case False
    with 2 show ?thesis by (simp add: Let_def update_conv' row_count_Cons split: option.split)
  qed
qed (simp add: row_count_def split: option.split)

lemma evict_rows_exact:
  "snd (evict_rows gids rows) = filter (\<lambda>e. \<not> of_granules gids e) rows
   \<and> fst (evict_rows gids rows) + length (snd (evict_rows gids rows)) = length rows"
proof (induction gids rows rule: evict_rows.induct)
  case (1 gids rows)
  show ?case
  proof (cases "gids = []")
    case True
    then show ?thesis by (simp add: evict_rows.simps [of "[]"] of_granules_def split: option.split)
  next
    case False
    let ?p = "of_granules (take EVICT_CHUNK gids)" and ?rest = "drop EVICT_CHUNK gids"
    obtain n rows' where run: "evict_rows ?rest (del_where ?p rows) = (n, rows')" by fastforce
    from 1 [OF False refl] run have ih: "rows' = filter (\<lambda>e. \<not> of_granules ?rest e) (del_where ?p rows)"
        "n + length rows' = length (del_where ?p rows)" by auto
    have "set (take EVICT_CHUNK gids) \<union> set ?rest = set gids" by (metis append_take_drop_id set_append)
    then have "of_granules gids e \<longleftrightarrow> ?p e \<or> of_granules ?rest e" for e
      by (auto simp: of_granules_def split: option.split)
    moreover have "row_count ?p rows + length (del_where ?p rows) = length rows"
      unfolding row_count_def del_where_def by (rule sum_length_filter_compl)
    moreover have "evict_rows gids rows = (row_count ?p rows + n, rows')"
      by (subst evict_rows.simps) (simp add: False run Let_def)
    ultimately show ?thesis using ih by (simp add: del_where_def)
  qed
qed

lemma takeWhile_sorted: "sorted (map me_ts es) \<Longrightarrow>
    takeWhile (\<lambda>e. me_ts e < c) es = filter (\<lambda>e. me_ts e < c) es \<and> dropWhile (\<lambda>e. me_ts e < c) es = filter (\<lambda>e. \<not> me_ts e < c) es"
proof (induction es)
  case (Cons e es)
  show ?case
  proof (cases "me_ts e < c")
    case False
    with Cons.prems have "\<forall>x \<in> set es. \<not> me_ts x < c" by auto
    with False show ?thesis by (auto simp: filter_empty_conv filter_id_conv)
  qed (use Cons in auto)
qed simp

text \<open>
  C29: The two event logs answer alike. Whenever the table holds the rows of the deque, in whatever order, a query with a limit of
  at least one gives the same events in the same order, the newest events are the same, the counts by level are the same,
  and the eviction of granules and the pruning by age leave the same rows and report the same numbers. The deque never
  holds more than 20000 events, with ascending identifiers.
\<close>

theorem event_logs_agree:
  assumes "reach fresh_log log_step r" and "el_store (lr_log r) = store" and "mset rows = mset store" and "1 \<le> ef_limit f" and "1 \<le> n"
  shows "query_events f store = query_rows f rows \<and> last_events n store = last_rows n rows
    \<and> map_of (count_by_level_since since store) = count_rows since rows
    \<and> fst (evict_by_granule_ids gids (lr_log r)) = fst (evict_rows gids rows)
    \<and> mset (el_store (snd (evict_by_granule_ids gids (lr_log r)))) = mset (snd (evict_rows gids rows))
    \<and> fst (prune_before cutoff (lr_log r)) = fst (prune_rows_before cutoff rows)
    \<and> mset (el_store (snd (prune_before cutoff (lr_log r)))) = mset (snd (prune_rows_before cutoff rows))
    \<and> length store \<le> 20000 \<and> sorted_wrt (<) (map me_id store)"
proof -
  have ok: "log_ok r" using assms(1) by (rule log.reachable_inv)
  with assms(2) have ids: "sorted_wrt (<) (map me_id store)" and ts: "sorted (map me_ts store)" and len: "length store \<le> MAX_EVENTS"
    and low: "\<forall>e \<in> set store. 1 \<le> me_id e" by (auto simp: log_ok_def)
  have newest: "sorted_wrt (>) (map me_id (rev store))" "sorted_wrt (\<ge>) (map me_ts (rev store))"
    using ids ts by (simp_all add: rev_map [symmetric] sorted_wrt_rev)
  have count: "row_count P rows = row_count P store" for P
    using assms(3) unfolding row_count_def by (metis mset_filter size_mset)
  have size_eq: "length rows = length store" using assms(3) by (rule mset_eq_length)
  have query: "query_events f store = query_rows f rows" if "1 \<le> ef_limit f" for f
  proof -
    have "query_events f store = take (nat (ef_limit f)) (rev (filter (\<lambda>e. ef_since_id f < me_id e \<and> admits f e) store))"
      using scan_filter [OF newest(1), of "[]" f] that by (simp add: query_events_def rev_filter)
    also have "filter (\<lambda>e. ef_since_id f < me_id e \<and> admits f e) store
        = filter (\<lambda>e. (ef_since_id f \<noteq> 0 \<longrightarrow> ef_since_id f < me_id e) \<and> admits f e) store"
      using low by (intro filter_cong) auto
    finally show ?thesis by (simp add: query_rows_def query_order [OF assms(3) ids])
  qed
  have last: "last_events n store = last_rows n rows"
  proof -
    have "last_events n store = take (nat n) (rev store)" using last_take [of "[]" n "rev store"] assms(5) by (simp add: last_events_def)
    moreover have "last_rows n rows = take (nat n) (rev store)"
      using query_order [OF assms(3) ids, of "\<lambda>_. True"] by (simp add: last_rows_def query_rows_def no_filter_def admits_def wanted_def)
    ultimately show ?thesis by simp
  qed
  have "row_count P (rev store) = row_count P store" for P by (simp add: row_count_def rev_filter [symmetric])
  then have counts: "map_of (count_by_level_since since store) = count_rows since rows"
    by (intro ext) (simp add: count_by_level_since_def count_loop_counts [OF newest(2)] count_rows_def count)
  have keep: "mset (filter P rows) = mset (filter P store)" for P using assms(3) by (simp add: mset_filter)
  have evict: "el_store (snd (evict_by_granule_ids gids (lr_log r))) = filter (\<lambda>e. \<not> of_granules gids e) store"
    "fst (evict_by_granule_ids gids (lr_log r)) = length store - length (filter (\<lambda>e. \<not> of_granules gids e) store)"
    by (simp_all add: evict_by_granule_ids_def assms(2) Let_def)
  have "length (filter (\<lambda>e. \<not> of_granules gids e) rows) = length (filter (\<lambda>e. \<not> of_granules gids e) store)"
    using keep by (rule mset_eq_length)
  moreover have "fst (evict_rows gids rows) + length (filter (\<lambda>e. \<not> of_granules gids e) rows) = length rows"
    using evict_rows_exact [of gids rows] by metis
  ultimately have "fst (evict_by_granule_ids gids (lr_log r)) = fst (evict_rows gids rows)" using evict(2) size_eq by linarith
  moreover have "mset (el_store (snd (evict_by_granule_ids gids (lr_log r)))) = mset (snd (evict_rows gids rows))"
    using evict_rows_exact [of gids rows] evict keep by simp
  moreover have "fst (prune_before cutoff (lr_log r)) = fst (prune_rows_before cutoff rows)"
    using takeWhile_sorted [OF ts, of cutoff] count
    by (simp add: prune_before_def pop_before_drop prune_rows_before_def assms(2) row_count_def)
  moreover have "mset (el_store (snd (prune_before cutoff (lr_log r)))) = mset (snd (prune_rows_before cutoff rows))"
    using takeWhile_sorted [OF ts, of cutoff] keep
    by (simp add: prune_before_def pop_before_drop prune_rows_before_def assms(2) del_where_def)
  ultimately show ?thesis using query [OF assms(4)] last counts len ids by (simp add: MAX_EVENTS_def)
qed

text \<open>Two events, of which the table gives the newer first.\<close>

definition demo_draft :: "string \<Rightarrow> event_draft" where
  "demo_draft lv = \<lparr>ed_level = lv, ed_source = ''w'', ed_granule = Some ''g'', ed_batch = None, ed_message = (''m'', [])\<rparr>"

theorem event_logs_agree_witness:
  "query_events (no_filter 1) [\<lparr>me_id = 1, me_ts = 5, me_draft = demo_draft ''info''\<rparr>, \<lparr>me_id = 2, me_ts = 5, me_draft = demo_draft ''warn''\<rparr>]
    = query_rows (no_filter 1) [\<lparr>me_id = 2, me_ts = 5, me_draft = demo_draft ''warn''\<rparr>, \<lparr>me_id = 1, me_ts = 5, me_draft = demo_draft ''info''\<rparr>]"
proof -
  let ?a = "\<lparr>me_id = 1, me_ts = 5, me_draft = demo_draft ''info''\<rparr>" and ?b = "\<lparr>me_id = 2, me_ts = 5, me_draft = demo_draft ''warn''\<rparr>"
  define r0 where "r0 = \<lparr>lr_now = 5, lr_log = \<lparr>el_store = [], el_next_id = 1\<rparr>\<rparr>"
  define r1 where "r1 = \<lparr>lr_now = 5, lr_log = \<lparr>el_store = [?a], el_next_id = 2\<rparr>\<rparr>"
  define r2 where "r2 = \<lparr>lr_now = 5, lr_log = \<lparr>el_store = [?a, ?b], el_next_id = 3\<rparr>\<rparr>"
  have "reach fresh_log log_step r0" by (rule reach_init) (simp add: r0_def fresh_log_def)
  moreover have "log_step r0 r1"
    using ls_append [of r0 "demo_draft ''info''"] by (simp add: r0_def r1_def append_event_def push_events_def MAX_EVENTS_def)
  moreover have "log_step r1 r2"
    using ls_append [of r1 "demo_draft ''warn''"] by (simp add: r1_def r2_def append_event_def push_events_def MAX_EVENTS_def)
  ultimately have "reach fresh_log log_step r2" by (blast intro: reach_step)
  moreover have "mset [?b, ?a] = mset [?a, ?b]" by simp
  ultimately show ?thesis
    using event_logs_agree [of r2 "[?a, ?b]" "[?b, ?a]" "no_filter 1" 1] by (simp add: r2_def no_filter_def)
qed

end
