(* ===== verification/Progress.thy ===== *)
theory Progress
  imports Database
begin

text \<open>
  Progress of running granules, from the bundle to the UI: the local endpoint of a worker with its tokens
  (\<^verbatim>\<open>src/sathop/worker/progress.py\<close>), the buffer in between (\<^verbatim>\<open>worker/progress_buffer.py\<close>, a flush buffer that may lose what it
  carries), and the timelines in the memory of the orchestrator (\<^verbatim>\<open>orchestrator/api/progress.py\<close>), which are evicted when the
  granule is done (\<open>evict_granule_store\<close> in \<open>Database\<close>).
\<close>

section \<open>The orchestrator\<close>

record progress_event =
  pg_step :: string
  pg_pct :: "rat option"
  pg_detail :: "string option"
  pg_ts :: "time option"
  pg_batch_id :: "ident option"

definition MAX_ENTRIES_PER_GRANULE :: nat where
  "MAX_ENTRIES_PER_GRANULE = 200"

definition make_entry :: "time \<Rightarrow> ident \<Rightarrow> ident \<Rightarrow> progress_event \<Rightarrow> progress_entry" where
  "make_entry now granule_id batch_id event =
     \<lparr>pe_granule = granule_id, pe_batch = batch_id, pe_ts = coalesce (pg_ts event) now, pe_step = pg_step event, pe_pct = pg_pct event,
      pe_detail = pg_detail event\<rparr>"

definition ingest :: "time \<Rightarrow> ident \<Rightarrow> progress_event \<Rightarrow> progress_store \<Rightarrow> progress_store" where
  "ingest now granule_id event p =
     (let batch_id = coalesce (pg_batch_id event) [];
          entry = make_entry now granule_id batch_id event;
          timeline = coalesce (map_of (by_granule p) granule_id) [];
          timeline = (if length timeline < MAX_ENTRIES_PER_GRANULE then timeline @ [entry] else butlast timeline @ [entry]);
          p = p\<lparr>by_granule := AList.update granule_id timeline (by_granule p)\<rparr>
      in if batch_id = [] then p
         else p\<lparr>latest_by_batch := AList.update batch_id
                 (AList.update granule_id entry (coalesce (map_of (latest_by_batch p) batch_id) [])) (latest_by_batch p)\<rparr>)"

text \<open>The batched ingress; the last component is the scopes that it nudges.\<close>

definition ingress_batch :: "time \<Rightarrow> (ident \<times> progress_event) list \<Rightarrow> progress_store \<Rightarrow> nat \<times> progress_store \<times> string list" where
  "ingress_batch now items p =
     (length items, foldl (\<lambda>p (g, e). ingest now g e p) p items, if items = [] then [] else [''progress''])"

definition ingress :: "time \<Rightarrow> ident \<Rightarrow> progress_event \<Rightarrow> progress_store \<Rightarrow> progress_store \<times> string list" where
  "ingress now granule_id event p = (ingest now granule_id event p, [''progress''])"

definition granule_timeline :: "ident \<Rightarrow> progress_store \<Rightarrow> progress_entry list" where
  "granule_timeline g p = coalesce (map_of (by_granule p) g) []"

definition batch_latest :: "ident \<Rightarrow> progress_store \<Rightarrow> (ident \<times> progress_entry) list" where
  "batch_latest b p = coalesce (map_of (latest_by_batch p) b) []"

section \<open>The worker\<close>

text \<open>The sink of the server is the buffer; \<open>ps_sent\<close> is what it has been handed.\<close>

record progress_server =
  ps_enabled :: bool
  ps_tokens :: "(string \<times> (ident \<times> ident)) list"
  ps_sent :: "(ident \<times> progress_event) list"

definition forward :: "ident \<Rightarrow> progress_event \<Rightarrow> progress_server \<Rightarrow> progress_server" where
  "forward granule_id event s = (if ps_enabled s then s\<lparr>ps_sent := ps_sent s @ [(granule_id, event)]\<rparr> else s)"

definition issue :: "string \<Rightarrow> ident \<Rightarrow> ident \<Rightarrow> progress_server \<Rightarrow> progress_server" where
  "issue nonce granule_id batch_id s = s\<lparr>ps_tokens := AList.update nonce (granule_id, batch_id) (ps_tokens s)\<rparr>"

definition revoke :: "string \<Rightarrow> progress_server \<Rightarrow> progress_server" where
  "revoke nonce s = s\<lparr>ps_tokens := AList.delete nonce (ps_tokens s)\<rparr>"

text \<open>The body of a post: not JSON, not an event, or an event.\<close>

datatype posted = NotJson | BadShape | Posted progress_event

definition post_progress :: "string \<Rightarrow> posted \<Rightarrow> progress_server \<Rightarrow> http_error + progress_server" where
  "post_progress nonce body s =
     (case map_of (ps_tokens s) nonce of
        None \<Rightarrow> Inl (HTTPException 404 (''unknown or expired progress token'', []))
      | Some (gid, batch_id) \<Rightarrow>
          (case body of
             NotJson \<Rightarrow> Inl (HTTPException 400 (''invalid json: {}'', []))
           | BadShape \<Rightarrow> Inl (HTTPException 422 (''bad event shape: {}'', []))
           | Posted event \<Rightarrow> Inr (forward gid (event\<lparr>pg_batch_id := Some batch_id\<rparr>) s)))"

section \<open>From the worker to the orchestrator\<close>

text \<open>
  A granule belongs to one batch, \<open>owner\<close>. A token is issued for a granule with its batch, the download callback forwards events of
  the granule with its batch, and what the buffer delivers are batches of events it was handed, in any order, any
  number of times or never. Beside the workers, anyone with the token of the API may post to either route, for any granule an event with
  any batch or none; \<open>pn_direct\<close> remembers these posts.
\<close>

record progress_run =
  pn_server :: progress_server
  pn_store :: progress_store
  pn_direct :: "(ident \<times> progress_event) list"

definition fresh_progress :: "progress_run \<Rightarrow> bool" where
  "fresh_progress r \<longleftrightarrow> ps_tokens (pn_server r) = [] \<and> ps_sent (pn_server r) = [] \<and> pn_store r = \<lparr>by_granule = [], latest_by_batch = []\<rparr>
     \<and> pn_direct r = []"

inductive progress_step :: "(ident \<Rightarrow> ident) \<Rightarrow> progress_run \<Rightarrow> progress_run \<Rightarrow> bool" for owner :: "ident \<Rightarrow> ident" where
  pg_issue: "progress_step owner r (r\<lparr>pn_server := issue nonce g (owner g) (pn_server r)\<rparr>)"
| pg_revoke: "progress_step owner r (r\<lparr>pn_server := revoke nonce (pn_server r)\<rparr>)"
| pg_post: "post_progress nonce body (pn_server r) = Inr s \<Longrightarrow> progress_step owner r (r\<lparr>pn_server := s\<rparr>)"
| pg_download: "pg_batch_id e = Some (owner g) \<Longrightarrow> progress_step owner r (r\<lparr>pn_server := forward g e (pn_server r)\<rparr>)"
| pg_detail: "progress_step owner r (r\<lparr>pn_server := (pn_server r)\<lparr>ps_enabled := on\<rparr>\<rparr>)"
| pg_deliver: "set items \<subseteq> set (ps_sent (pn_server r)) \<Longrightarrow>
     progress_step owner r (r\<lparr>pn_store := fst (snd (ingress_batch now items (pn_store r)))\<rparr>)"
| pg_direct: "progress_step owner r (r\<lparr>pn_store := fst (ingress now g e (pn_store r)), pn_direct := (g, e) # pn_direct r\<rparr>)"
| pg_direct_batch: "progress_step owner r
     (r\<lparr>pn_store := fst (snd (ingress_batch now items (pn_store r))), pn_direct := items @ pn_direct r\<rparr>)"
| pg_evict: "progress_step owner r (r\<lparr>pn_store := evict_granule_store g (pn_store r)\<rparr>)"

definition owned_event :: "(ident \<Rightarrow> ident) \<Rightarrow> ident \<times> progress_event \<Rightarrow> bool" where
  "owned_event owner x \<longleftrightarrow> pg_batch_id (snd x) = Some (owner (fst x))"

text \<open>The direct posts for a granule all named its batch.\<close>

definition posted_with_batch :: "(ident \<Rightarrow> ident) \<Rightarrow> ident \<Rightarrow> (ident \<times> progress_event) list \<Rightarrow> bool" where
  "posted_with_batch owner g xs = list_all (\<lambda>x. fst x = g \<longrightarrow> owned_event owner x) xs"

definition latest :: "ident \<Rightarrow> ident \<Rightarrow> progress_store \<Rightarrow> progress_entry option" where
  "latest b g p = map_of (batch_latest b p) g"

lemmas progress_views = latest_def batch_latest_def granule_timeline_def

text \<open>What holds of every granule, and what of a granule whose events all name its batch \<open>b\<close>.\<close>

definition store_ok :: "progress_store \<Rightarrow> bool" where
  "store_ok p \<longleftrightarrow>
     (\<forall>g es. map_of (by_granule p) g = Some es \<longrightarrow> es \<noteq> [] \<and> length es \<le> MAX_ENTRIES_PER_GRANULE \<and> (\<forall>e \<in> set es. pe_granule e = g))
     \<and> (\<forall>b m. map_of (latest_by_batch p) b = Some m \<longrightarrow> m \<noteq> [])
     \<and> (\<forall>b g e. latest b g p = Some e \<longrightarrow> pe_granule e = g \<and> pe_batch e = b \<and> b \<noteq> [])"

definition granule_clean :: "ident \<Rightarrow> ident \<Rightarrow> progress_store \<Rightarrow> bool" where
  "granule_clean b g p \<longleftrightarrow>
     (\<forall>es. map_of (by_granule p) g = Some es \<longrightarrow> (\<forall>e \<in> set es. pe_batch e = b))
     \<and> (\<forall>b'. latest b' g p
          = (if b' \<noteq> [] \<and> b' = b \<and> map_of (by_granule p) g \<noteq> None then Some (last (granule_timeline g p)) else None))"

definition progress_ok :: "(ident \<Rightarrow> ident) \<Rightarrow> progress_run \<Rightarrow> bool" where
  "progress_ok owner r \<longleftrightarrow> store_ok (pn_store r)
     \<and> (\<forall>g. posted_with_batch owner g (pn_direct r) \<longrightarrow> granule_clean (owner g) g (pn_store r))
     \<and> list_all (owned_event owner) (ps_sent (pn_server r))
     \<and> (\<forall>nonce g b. map_of (ps_tokens (pn_server r)) nonce = Some (g, b) \<longrightarrow> b = owner g)"

text \<open>One event ingested.\<close>

definition grown :: "progress_entry list \<Rightarrow> progress_entry \<Rightarrow> progress_entry list" where
  "grown es x = (if length es < MAX_ENTRIES_PER_GRANULE then es @ [x] else butlast es @ [x])"

lemma grown_simps [simp]: "grown es x \<noteq> []" "last (grown es x) = x"
  by (simp_all add: grown_def)

lemma grown_bounded: "length es \<le> MAX_ENTRIES_PER_GRANULE \<Longrightarrow> length (grown es x) \<le> MAX_ENTRIES_PER_GRANULE"
  by (cases es) (auto simp: grown_def MAX_ENTRIES_PER_GRANULE_def)

lemma grown_set: "e \<in> set (grown es x) \<Longrightarrow> e = x \<or> e \<in> set es"
  by (auto simp: grown_def dest: in_set_butlastD split: if_splits)

lemma ingest_timelines:
  "map_of (by_granule (ingest now g e p)) k
     = (if k = g then Some (grown (granule_timeline g p) (make_entry now g (coalesce (pg_batch_id e) []) e)) else map_of (by_granule p) k)"
  by (auto simp: ingest_def Let_def progress_views update_conv' grown_def)

lemma ingest_latest:
  "latest b k (ingest now g e p) = (let bid = coalesce (pg_batch_id e) [] in
     if bid \<noteq> [] \<and> b = bid \<and> k = g then Some (make_entry now g bid e) else latest b k p)"
  by (auto simp: ingest_def Let_def progress_views update_conv')

lemma ingest_store:
  assumes "store_ok p"
  shows "store_ok (ingest now g e p)"
proof -
  have "m \<noteq> []" if "map_of (latest_by_batch (ingest now g e p)) b = Some m" for b m
  proof -
    have "AList.update g x xs \<noteq> []" for x and xs :: "(ident \<times> progress_entry) list" by (cases xs) auto
    with that assms show ?thesis by (auto simp: ingest_def Let_def update_conv' store_ok_def split: if_splits)
  qed
  moreover have "length (granule_timeline g p) \<le> MAX_ENTRIES_PER_GRANULE" "\<forall>x \<in> set (granule_timeline g p). pe_granule x = g"
    using assms by (cases "map_of (by_granule p) g"; auto simp: store_ok_def granule_timeline_def)+
  ultimately show ?thesis
    using assms unfolding store_ok_def ingest_timelines ingest_latest
    by (auto simp: Let_def make_entry_def grown_bounded dest: grown_set split: if_splits)
qed

lemma ingest_clean:
  assumes "granule_clean b k p" and "k = g \<Longrightarrow> pg_batch_id e = Some b"
  shows "granule_clean b k (ingest now g e p)"
proof (cases "k = g")
  case True
  have "\<forall>x \<in> set (granule_timeline g p). pe_batch x = b"
    using assms(1) True by (cases "map_of (by_granule p) g") (auto simp: granule_clean_def granule_timeline_def)
  with True assms show ?thesis
    unfolding granule_clean_def ingest_timelines ingest_latest
    by (auto simp: Let_def make_entry_def granule_timeline_def [of g "ingest now g e p"] ingest_timelines dest: grown_set)
next
  case False
  with assms(1) show ?thesis
    unfolding granule_clean_def ingest_timelines ingest_latest by (auto simp: Let_def granule_timeline_def ingest_timelines)
qed

text \<open>One granule evicted: what the first entry of its timeline names is the index that is cleaned.\<close>

lemma evict_timeline: "map_of (by_granule (evict_granule_store g p)) = (map_of (by_granule p))(g := None)"
  by (auto simp: evict_granule_store_def Let_def delete_conv' split: option.splits list.splits)

lemma evict_latest:
  "latest b k (evict_granule_store g p)
     = (if k = g \<and> (\<exists>e es. map_of (by_granule p) g = Some (e # es) \<and> pe_batch e = b) then None else latest b k p)"
proof -
  have gone: "latest b k p = None" if "map_of (latest_by_batch p) b = None" for b k using that by (simp add: progress_views)
  consider (none) "map_of (by_granule p) g = None" | (empty) "map_of (by_granule p) g = Some []"
    | (unlisted) e es where "map_of (by_granule p) g = Some (e # es)" "map_of (latest_by_batch p) (pe_batch e) = None"
    | (listed) e es m where "map_of (by_granule p) g = Some (e # es)" "map_of (latest_by_batch p) (pe_batch e) = Some m"
    by (metis list.exhaust option.exhaust)
  then show ?thesis
  proof cases
    case unlisted
    with gone show ?thesis by (auto simp: evict_granule_store_def latest_def batch_latest_def)
  next
    case (listed e es m)
    have single: "map_of m k = None" if "AList.delete g m = []" "k \<noteq> g" using that by (metis map_of.simps(1) map_of_delete)
    have "latest b k (evict_granule_store g p) = (if b = pe_batch e then map_of (AList.delete g m) k else latest b k p)"
      using listed single by (cases "AList.delete g m = []") (auto simp: evict_granule_store_def Let_def latest_def batch_latest_def delete_conv' update_conv')
    also have "map_of (AList.delete g m) k = (if k = g then None else map_of m k)" by (simp add: delete_conv')
    finally show ?thesis using listed by (simp add: latest_def batch_latest_def)
  qed (simp_all add: evict_granule_store_def latest_def batch_latest_def)
qed

lemma evict_store:
  assumes "store_ok p"
  shows "store_ok (evict_granule_store g p)"
proof -
  have ne: "\<forall>b m. map_of (latest_by_batch p) b = Some m \<longrightarrow> m \<noteq> []" using assms unfolding store_ok_def by blast
  have "m \<noteq> []" if "map_of (latest_by_batch (evict_granule_store g p)) b = Some m" for b m
    using that ne by (auto simp: evict_granule_store_def Let_def update_conv' delete_conv' split: option.splits list.splits if_splits)
  moreover have "map_of (by_granule (evict_granule_store g p)) k = Some es \<Longrightarrow> map_of (by_granule p) k = Some es" for k es
    by (simp add: evict_timeline split: if_splits)
  moreover have "latest b k (evict_granule_store g p) = Some e \<Longrightarrow> latest b k p = Some e" for b k e
    unfolding evict_latest by (simp split: if_splits)
  ultimately show ?thesis using assms unfolding store_ok_def by blast
qed

lemma evict_clean:
  assumes "store_ok p" and "granule_clean b k p"
  shows "granule_clean b k (evict_granule_store g p)" and "k = g \<Longrightarrow> latest b' g (evict_granule_store g p) = None"
proof -
  have gone: "latest b' g (evict_granule_store g p) = None" if "k = g" for b'
  proof (cases "map_of (by_granule p) g")
    case None
    with that assms(2) show ?thesis unfolding evict_latest by (simp add: granule_clean_def)
  next
    case (Some es)
    with assms(1) obtain e es' where es: "es = e # es'" by (cases es) (auto simp: store_ok_def)
    with that Some assms(2) show ?thesis unfolding evict_latest by (auto simp: granule_clean_def)
  qed
  then show "k = g \<Longrightarrow> latest b' g (evict_granule_store g p) = None" by blast
  show "granule_clean b k (evict_granule_store g p)"
  proof (cases "k = g")
    case True
    with gone show ?thesis by (simp add: granule_clean_def evict_timeline)
  next
    case False
    with assms(2) show ?thesis unfolding granule_clean_def evict_timeline evict_latest by (simp add: granule_timeline_def evict_timeline)
  qed
qed

lemma ingress_store: "store_ok p \<Longrightarrow> store_ok (fst (snd (ingress_batch now items p)))"
  by (induction items arbitrary: p) (auto simp: ingress_batch_def ingest_store)

lemma ingress_clean:
  "granule_clean (owner k) k p \<Longrightarrow> posted_with_batch owner k items \<Longrightarrow> granule_clean (owner k) k (fst (snd (ingress_batch now items p)))"
proof (induction items arbitrary: p)
  case (Cons x items)
  then have "granule_clean (owner k) k (ingest now (fst x) (snd x) p)"
    by (intro ingest_clean) (auto simp: posted_with_batch_def owned_event_def)
  with Cons.IH Cons.prems(2) show ?case by (simp add: ingress_batch_def posted_with_batch_def split_beta)
qed (simp add: ingress_batch_def)

lemma forward_owned:
  "list_all (owned_event owner) (ps_sent s) \<Longrightarrow> pg_batch_id e = Some (owner g) \<Longrightarrow> list_all (owned_event owner) (ps_sent (forward g e s))"
  by (simp add: forward_def owned_event_def)

lemma forward_tokens [simp]: "ps_tokens (forward g e s) = ps_tokens s"
  by (simp add: forward_def)

lemma progress_ok_step:
  assumes "progress_ok owner r" and "progress_step owner r r'"
  shows "progress_ok owner r'"
  using assms(2)
proof (cases rule: progress_step.cases)
  case (pg_post nonce body s)
  then obtain g b e where "map_of (ps_tokens (pn_server r)) nonce = Some (g, b)" and s: "s = forward g (e\<lparr>pg_batch_id := Some b\<rparr>) (pn_server r)"
    by (auto simp: post_progress_def split: option.splits posted.splits)
  with assms(1) have "b = owner g" by (auto simp: progress_ok_def)
  with pg_post s assms(1) show ?thesis by (auto simp: progress_ok_def intro: forward_owned)
next
  case (pg_deliver items now)
  then have "posted_with_batch owner g items" for g using assms(1) by (auto simp: progress_ok_def posted_with_batch_def list_all_iff)
  with pg_deliver assms(1) show ?thesis by (auto simp: progress_ok_def intro: ingress_store ingress_clean)
next
  case (pg_direct now g e)
  with assms(1) show ?thesis
    by (auto simp: progress_ok_def ingress_def posted_with_batch_def owned_event_def intro: ingest_store ingest_clean)
next
  case (pg_direct_batch items now)
  then have "posted_with_batch owner g (pn_direct r') \<longleftrightarrow> posted_with_batch owner g items \<and> posted_with_batch owner g (pn_direct r)" for g
    by (simp add: posted_with_batch_def)
  with pg_direct_batch assms(1) show ?thesis by (auto simp: progress_ok_def intro: ingress_store ingress_clean)
qed (use assms(1) in \<open>auto simp: progress_ok_def issue_def revoke_def update_conv' delete_conv' intro: evict_store evict_clean
       forward_owned split: if_splits\<close>)

interpretation progress: invariant_system fresh_progress "progress_step owner" "progress_ok owner" for owner
proof unfold_locales
  show "progress_ok owner r" if "fresh_progress r" for r
    using that by (simp add: fresh_progress_def progress_ok_def store_ok_def granule_clean_def progress_views)
qed (rule progress_ok_step)

text \<open>
  C39: The progress in memory is bounded, and consistent and evicted without a trace for every granule whose events name its batch.
  Whatever the bundles post, whatever is posted directly, with any batch or none, and whatever the buffers lose, repeat or reorder: no
  timeline holds more than 200 entries, all of its granule; an index lists a granule with an entry of that granule and batch; the eviction
  of a granule removes its timeline, touches no other granule, and leaves no empty index behind. If moreover the
  direct posts for a granule all named its batch, then every entry of its timeline is of that batch, the index of the batch shows
  exactly its last entry, no other index shows the granule, and after the eviction none does.
\<close>

theorem progress_evicted_without_trace:
  assumes "reach fresh_progress (progress_step owner) r"
  shows "length (granule_timeline k (pn_store r)) \<le> 200 \<and> (\<forall>e \<in> set (granule_timeline k (pn_store r)). pe_granule e = k)
    \<and> (\<forall>b e. map_of (batch_latest b (pn_store r)) k = Some e \<longrightarrow> pe_granule e = k \<and> pe_batch e = b \<and> b \<noteq> [])
    \<and> granule_timeline g (evict_granule_store g (pn_store r)) = []
    \<and> (\<forall>b. map_of (latest_by_batch (evict_granule_store g (pn_store r))) b \<noteq> Some [])
    \<and> (k \<noteq> g \<longrightarrow> granule_timeline k (evict_granule_store g (pn_store r)) = granule_timeline k (pn_store r)
         \<and> (\<forall>b. map_of (batch_latest b (evict_granule_store g (pn_store r))) k = map_of (batch_latest b (pn_store r)) k))
    \<and> (posted_with_batch owner g (pn_direct r) \<longrightarrow>
         (\<forall>e \<in> set (granule_timeline g (pn_store r)). pe_batch e = owner g)
         \<and> (\<forall>b. map_of (batch_latest b (pn_store r)) g
              = (if b \<noteq> [] \<and> b = owner g \<and> granule_timeline g (pn_store r) \<noteq> [] then Some (last (granule_timeline g (pn_store r))) else None))
         \<and> (\<forall>b. map_of (batch_latest b (evict_granule_store g (pn_store r))) g = None))"
proof -
  let ?p = "pn_store r"
  have ok: "store_ok ?p" and clean: "posted_with_batch owner g (pn_direct r) \<Longrightarrow> granule_clean (owner g) g ?p"
    using progress.reachable_inv [OF assms] by (simp_all add: progress_ok_def)
  have lines: "length (granule_timeline k ?p) \<le> 200 \<and> (\<forall>e \<in> set (granule_timeline k ?p). pe_granule e = k)"
    using ok by (cases "map_of (by_granule ?p) k") (auto simp: store_ok_def granule_timeline_def MAX_ENTRIES_PER_GRANULE_def)
  have ne: "map_of (by_granule ?p) g \<noteq> None \<longleftrightarrow> granule_timeline g ?p \<noteq> []"
    using ok by (cases "map_of (by_granule ?p) g") (auto simp: store_ok_def granule_timeline_def)
  have mine: "(\<forall>e \<in> set (granule_timeline g ?p). pe_batch e = owner g)
      \<and> (\<forall>b. latest b g ?p = (if b \<noteq> [] \<and> b = owner g \<and> granule_timeline g ?p \<noteq> [] then Some (last (granule_timeline g ?p)) else None))
      \<and> (\<forall>b. latest b g (evict_granule_store g ?p) = None)" if "posted_with_batch owner g (pn_direct r)"
  proof -
    note c = clean [OF that]
    have "\<forall>e \<in> set (granule_timeline g ?p). pe_batch e = owner g"
      using c by (cases "map_of (by_granule ?p) g") (auto simp: granule_clean_def granule_timeline_def)
    moreover have "\<forall>b. latest b g (evict_granule_store g ?p) = None" using evict_clean(2) [OF ok c refl] by blast
    ultimately show ?thesis using c unfolding granule_clean_def ne by blast
  qed
  have "\<forall>b. map_of (latest_by_batch (evict_granule_store g ?p)) b \<noteq> Some []" using evict_store [OF ok] by (auto simp: store_ok_def)
  moreover have "\<forall>b e. latest b k ?p = Some e \<longrightarrow> pe_granule e = k \<and> pe_batch e = b \<and> b \<noteq> []" using ok by (auto simp: store_ok_def)
  moreover have "granule_timeline g (evict_granule_store g ?p) = []" by (simp add: granule_timeline_def evict_timeline)
  moreover have "k \<noteq> g \<longrightarrow> granule_timeline k (evict_granule_store g ?p) = granule_timeline k ?p \<and> (\<forall>b. latest b k (evict_granule_store g ?p) = latest b k ?p)"
    by (simp add: granule_timeline_def evict_timeline evict_latest)
  ultimately show ?thesis using lines mine unfolding latest_def by blast
qed

text \<open>A checkpoint of the granule \<open>b:g\<close>, posted and delivered, then one posted directly for another granule, without a batch.\<close>

definition demo_event :: "ident option \<Rightarrow> progress_event" where
  "demo_event b = \<lparr>pg_step = ''read'', pg_pct = None, pg_detail = None, pg_ts = None, pg_batch_id = b\<rparr>"

theorem progress_evicted_without_trace_witness:
  "\<exists>r. reach fresh_progress (progress_step (\<lambda>_. ''b'')) r \<and> map_of (batch_latest ''b'' (pn_store r)) ''g'' \<noteq> None
     \<and> granule_timeline ''h'' (pn_store r) \<noteq> [] \<and> (\<forall>b. map_of (batch_latest b (evict_granule_store ''g'' (pn_store r))) ''g'' = None)
     \<and> granule_timeline ''h'' (evict_granule_store ''g'' (pn_store r)) = granule_timeline ''h'' (pn_store r)"
proof -
  let ?owner = "\<lambda>_ :: ident. ''b''" and ?e = "demo_event (Some ''b'')"
  define r0 where "r0 = \<lparr>pn_server = \<lparr>ps_enabled = True, ps_tokens = [], ps_sent = []\<rparr>, pn_store = \<lparr>by_granule = [], latest_by_batch = []\<rparr>, pn_direct = []\<rparr>"
  define r1 where "r1 = r0\<lparr>pn_server := issue ''n'' ''g'' ''b'' (pn_server r0)\<rparr>"
  define r2 where "r2 = r1\<lparr>pn_server := forward ''g'' ?e (pn_server r1)\<rparr>"
  define r3 where "r3 = r2\<lparr>pn_store := fst (snd (ingress_batch 0 [(''g'', ?e)] (pn_store r2)))\<rparr>"
  define r4 where "r4 = r3\<lparr>pn_store := fst (ingress 0 ''h'' (demo_event None) (pn_store r3)), pn_direct := (''h'', demo_event None) # pn_direct r3\<rparr>"
  note r_defs = r4_def r3_def r2_def r1_def r0_def
  have "reach fresh_progress (progress_step ?owner) r0" by (rule reach_init) (simp add: fresh_progress_def r0_def)
  moreover have "progress_step ?owner r0 r1" unfolding r1_def by (rule pg_issue)
  moreover have "progress_step ?owner r1 r2" unfolding r2_def
    by (rule pg_post [where nonce = "''n''" and body = "Posted ?e"]) (simp add: post_progress_def r1_def r0_def issue_def demo_event_def)
  moreover have "progress_step ?owner r2 r3" unfolding r3_def
    by (rule pg_deliver) (simp add: r2_def r1_def r0_def issue_def forward_def)
  moreover have "progress_step ?owner r3 r4" unfolding r4_def by (rule pg_direct)
  ultimately have reach: "reach fresh_progress (progress_step ?owner) r4" by (blast intro: reach_step)
  have "posted_with_batch ?owner ''g'' (pn_direct r4)" by (simp add: r_defs posted_with_batch_def)
  with progress_evicted_without_trace [OF reach, of "''h''" "''g''"]
  have "(\<forall>b. map_of (batch_latest b (evict_granule_store ''g'' (pn_store r4))) ''g'' = None)
      \<and> granule_timeline ''h'' (evict_granule_store ''g'' (pn_store r4)) = granule_timeline ''h'' (pn_store r4)" by simp
  moreover have "map_of (batch_latest ''b'' (pn_store r4)) ''g'' \<noteq> None" "granule_timeline ''h'' (pn_store r4) \<noteq> []"
    by (simp_all add: r_defs issue_def forward_def ingress_batch_def ingress_def ingest_def batch_latest_def granule_timeline_def demo_event_def
        MAX_ENTRIES_PER_GRANULE_def Let_def)
  ultimately show ?thesis using reach by blast
qed

text \<open>
  The hypothesis on the direct posts is needed. A first entry without a batch makes the eviction look in no index, so that the entry
  of a later event with its batch stays in the index; a second eviction finds no timeline and does nothing.
\<close>

lemma mixed_posts_leave_a_trace:
  assumes "b \<noteq> []" and "p = fst (ingress now g (demo_event (Some b)) (fst (ingress now g (demo_event None) \<lparr>by_granule = [], latest_by_batch = []\<rparr>)))"
  shows "granule_timeline g (evict_granule_store g p) = [] \<and> map_of (batch_latest b (evict_granule_store g p)) g \<noteq> None
    \<and> evict_granule_store g (evict_granule_store g p) = evict_granule_store g p"
  using assms(1) unfolding assms(2)
  by (simp add: ingress_def ingest_def make_entry_def demo_event_def MAX_ENTRIES_PER_GRANULE_def evict_granule_store_def granule_timeline_def
      batch_latest_def Let_def)

end
