(* ===== verification/ReadModels.thy ===== *)
theory ReadModels
  imports System Float64 "HOL-Library.Multiset"
begin

text \<open>
  What the web UI shows of batches: the summaries of \<^verbatim>\<open>src/sathop/orchestrator/api/batch_readmodels.py\<close>, the dashboard
  (\<^verbatim>\<open>api/admin_readmodels.py\<close>), the stage statistics (\<^verbatim>\<open>api/timing.py\<close>) and the delivery report (\<^verbatim>\<open>api/batch_reports.py\<close>).
  They are queries: functions of the tables. Grouped counts are maps from the group to its count.
\<close>

section \<open>Summaries\<close>

definition WINDOW_SEC :: int where
  "WINDOW_SEC = 60"

type_synonym counts = "granule_state \<Rightarrow> int option"

definition count_of :: "counts \<Rightarrow> granule_state \<Rightarrow> int" where
  "count_of c st = coalesce (c st) 0"

text \<open>The aggregate of \<^verbatim>\<open>state_counts\<close> for one of the requested identifiers: a group exists when it has a row.\<close>

definition grouped :: "('a \<Rightarrow> bool) \<Rightarrow> 'a list \<Rightarrow> int option" where
  "grouped p rows = (let n = row_count p rows in if n = 0 then None else Some (int n))"

definition state_counts :: "orch \<Rightarrow> ident list \<Rightarrow> ident \<Rightarrow> counts option" where
  "state_counts d ids bid =
     (if bid \<notin> set ids then None
      else Some (\<lambda>st. if st = DELETED then map_option (\<lambda>b. coalesce (bt_delivered_count b) 0) (get_batch bid d)
                      else grouped (\<lambda>g. gr_batch g = bid \<and> gr_state g = st) (granules d)))"

definition remaining_to_deliver :: "counts \<Rightarrow> int" where
  "remaining_to_deliver c = sum_list (map (count_of c) IN_FLIGHT_STATES) + count_of c UPLOADED"

text \<open>The quotient of two Python integers is a double.\<close>

definition eta_from_recent :: "counts \<Rightarrow> int \<Rightarrow> int option" where
  "eta_from_recent c recent_delivered =
     (if recent_delivered \<le> 0 then None
      else let remaining = remaining_to_deliver c
           in if remaining \<le> 0 then None else Some \<lfloor>f64 (of_int (remaining * WINDOW_SEC) / of_int recent_delivered)\<rfloor>)"

definition throughput_per_min :: "int \<Rightarrow> rat" where
  "throughput_per_min recent_delivered = f64 (f64 (f64 (of_int recent_delivered) * 60) / of_int WINDOW_SEC)"

definition recent_delivery :: "time \<Rightarrow> stage_timing \<Rightarrow> bool" where
  "recent_delivery now t \<longleftrightarrow> st_stage t = ''deliver'' \<and> now - seconds WINDOW_SEC \<le> stage_timing.st_finished_at t"

definition recent_delivered :: "orch \<Rightarrow> time \<Rightarrow> ident list \<Rightarrow> ident \<Rightarrow> int option" where
  "recent_delivered d now ids bid =
     (if bid \<in> set ids then grouped (\<lambda>t. st_batch t = bid \<and> recent_delivery now t) (timings d) else None)"

text \<open>The inner join of objects and granules: an object counts for the batch of its granule.\<close>

definition object_in_batch :: "orch \<Rightarrow> ident \<Rightarrow> gobject \<Rightarrow> bool" where
  "object_in_batch d bid x \<longleftrightarrow> (case get_granule (ob_granule x) d of None \<Rightarrow> False | Some g \<Rightarrow> gr_batch g = bid)"

definition exhausted_by_batch :: "settings \<Rightarrow> orch \<Rightarrow> ident list \<Rightarrow> ident \<Rightarrow> int option" where
  "exhausted_by_batch cfg d ids bid =
     (if bid \<in> set ids then grouped (\<lambda>x. object_in_batch d bid x \<and> object_is_exhausted cfg x) (objects d) else None)"

definition exhausted_by_granule :: "settings \<Rightarrow> orch \<Rightarrow> ident list \<Rightarrow> ident \<Rightarrow> int option" where
  "exhausted_by_granule cfg d gids gid =
     (if gid \<in> set gids then grouped (\<lambda>x. ob_granule x = gid \<and> object_is_exhausted cfg x) (objects d) else None)"

record batch_summary =
  su_batch :: batch
  su_counts :: counts
  su_objects_exhausted :: int
  su_eta_realtime :: "int option"
  su_throughput_per_min :: "rat option"

definition summaries :: "settings \<Rightarrow> time \<Rightarrow> orch \<Rightarrow> batch list \<Rightarrow> batch_summary list" where
  "summaries cfg now d bs =
     (let ids = map bt_id bs;
          counts_map = (\<lambda>b. coalesce (state_counts d ids b) (\<lambda>_. None));
          recent_map = (\<lambda>b. coalesce (recent_delivered d now ids b) 0)
      in map (\<lambda>b. \<lparr>su_batch = b, su_counts = counts_map (bt_id b), su_objects_exhausted = coalesce (exhausted_by_batch cfg d ids (bt_id b)) 0,
                   su_eta_realtime = eta_from_recent (counts_map (bt_id b)) (recent_map (bt_id b)),
                   su_throughput_per_min = Some (throughput_per_min (recent_map (bt_id b)))\<rparr>) bs)"

definition summary :: "settings \<Rightarrow> time \<Rightarrow> orch \<Rightarrow> batch \<Rightarrow> batch_summary" where
  "summary cfg now d b = summaries cfg now d [b] ! 0"

definition summary_just_created :: "batch \<Rightarrow> counts \<Rightarrow> batch_summary" where
  "summary_just_created b c = \<lparr>su_batch = b, su_counts = c, su_objects_exhausted = 0, su_eta_realtime = None, su_throughput_per_min = None\<rparr>"

definition granule_rows :: "settings \<Rightarrow> orch \<Rightarrow> granule list \<Rightarrow> (granule \<times> int) list" where
  "granule_rows cfg d gs = map (\<lambda>g. (g, coalesce (exhausted_by_granule cfg d (map gr_id gs) (gr_id g)) 0)) gs"

section \<open>The dashboard\<close>

definition overview_counts :: "orch \<Rightarrow> counts" where
  "overview_counts d =
     (\<lambda>st. if st = DELETED then Some (sum_list (map (\<lambda>b. coalesce (bt_delivered_count b) 0) (batches d)))
           else grouped (\<lambda>g. gr_state g = st) (granules d))"

definition system_delivery_rate :: "orch \<Rightarrow> time \<Rightarrow> counts \<Rightarrow> rat \<times> int option" where
  "system_delivery_rate d now c =
     (let recent = int (row_count (recent_delivery now) (timings d)) in (throughput_per_min recent, eta_from_recent c recent))"

definition stuck :: "orch \<Rightarrow> time \<Rightarrow> granule \<Rightarrow> bool" where
  "stuck d threshold g \<longleftrightarrow> gr_updated_at g < threshold \<and> not_in_paused_batch d g"

definition stuck_by_state :: "orch \<Rightarrow> time \<Rightarrow> counts" where
  "stuck_by_state d threshold =
     (\<lambda>st. if st \<in> set NON_TERMINAL_STATES then grouped (\<lambda>g. gr_state g = st \<and> stuck d threshold g) (granules d) else None)"

definition clamp_limit :: "int \<Rightarrow> int \<Rightarrow> int \<Rightarrow> int" where
  "clamp_limit limit min_value max_value = max min_value (min max_value limit)"

text \<open>The order among rows of the same time is that of the table here; SQL leaves it open.\<close>

definition stuck_granule_rows :: "orch \<Rightarrow> time \<Rightarrow> granule_state option \<Rightarrow> nat \<Rightarrow> granule list" where
  "stuck_granule_rows d threshold state limit =
     take limit (sort_key gr_updated_at (filter (\<lambda>g. stuck d threshold g
       \<and> (case state of None \<Rightarrow> gr_state g \<in> set NON_TERMINAL_STATES | Some st \<Rightarrow> gr_state g = st)) (granules d)))"

definition in_flight_granule_rows :: "orch \<Rightarrow> nat \<Rightarrow> granule list" where
  "in_flight_granule_rows d limit =
     take limit (rev (sort_key gr_updated_at (filter (\<lambda>g. gr_state g \<in> set ACTIVE_STATES) (granules d))))"

lemma count_grouped: "coalesce (grouped p rows) 0 = int (row_count p rows)"
  by (simp add: grouped_def Let_def)

text \<open>Counting by key adds up.\<close>

lemma sum_list_indicator: "distinct ks \<Longrightarrow> sum_list (map (\<lambda>x. if k = x then 1 else 0) ks) = (if k \<in> set ks then 1 else (0::nat))"
  by (induction ks) auto

lemma row_count_sum:
  assumes "distinct ks" and "\<And>r. r \<in> set rows \<Longrightarrow> p r \<Longrightarrow> k r \<in> set ks"
  shows "row_count p rows = sum_list (map (\<lambda>key. row_count (\<lambda>r. k r = key \<and> p r) rows) ks)"
  using assms(2)
proof (induction rows)
  case (Cons r rows)
  have "sum_list (map (\<lambda>key. if k r = key \<and> p r then 1 else 0) ks) = (if p r then 1 else (0::nat))"
    using sum_list_indicator [OF assms(1), of "k r"] Cons.prems [of r] by (cases "p r") simp_all
  moreover have "row_count (\<lambda>r. k r = key \<and> p r) (r # rows)
      = (if k r = key \<and> p r then 1 else 0) + row_count (\<lambda>r. k r = key \<and> p r) rows" for key
    by (simp add: row_count_def)
  moreover have "row_count p (r # rows) = (if p r then 1 else 0) + row_count p rows" by (simp add: row_count_def)
  ultimately show ?case using Cons by (simp add: sum_list_addf)
qed (simp add: row_count_def)

lemma sum_counts_int: "sum_list (map (\<lambda>x. int (f x)) xs) = int (sum_list (map f xs))"
  by (induction xs) auto

definition all_states :: "granule_state list" where
  "all_states = [PENDING, QUEUED, DOWNLOADING, DOWNLOADED, PROCESSING, PROCESSED, UPLOADING, UPLOADED, ACKED, DELETED, FAILED, BLACKLISTED]"

lemma all_states_complete: "set all_states = UNIV" "distinct all_states"
proof -
  have "st \<in> set all_states" for st by (cases st) (simp_all add: all_states_def)
  then show "set all_states = UNIV" by blast
qed (simp add: all_states_def)

definition batch_counts :: "orch \<Rightarrow> batch \<Rightarrow> counts" where
  "batch_counts d b = su_counts (summary_just_created b (coalesce (state_counts d [bt_id b] (bt_id b)) (\<lambda>_. None)))"

lemma get_batch_row: "distinct (map bt_id (batches d)) \<Longrightarrow> b \<in> set (batches d) \<Longrightarrow> get_batch (bt_id b) d = Some b"
  unfolding get_batch_def by (rule get_row_unique)

lemma count_batch:
  assumes "distinct (map bt_id (batches d))" and "b \<in> set (batches d)"
  shows "count_of (batch_counts d b) st = (if st = DELETED then coalesce (bt_delivered_count b) 0
     else int (row_count (\<lambda>g. gr_batch g = bt_id b \<and> gr_state g = st) (granules d)))"
  using get_batch_row [OF assms] by (simp add: batch_counts_def summary_just_created_def state_counts_def count_of_def count_grouped)

lemma overview_sum:
  assumes "keys_ok d" and "refs_ok d"
  shows "count_of (overview_counts d) st = sum_list (map (\<lambda>b. count_of (batch_counts d b) st) (batches d))"
proof -
  have dist: "distinct (map bt_id (batches d))" using assms(1) by (simp add: keys_ok_def)
  have refs: "\<forall>g \<in> set (granules d). gr_batch g \<in> bt_id ` set (batches d)" using assms(2) by (simp add: refs_ok_def)
  show ?thesis
  proof (cases "st = DELETED")
    case True
    have "map (\<lambda>b. count_of (batch_counts d b) DELETED) (batches d) = map (\<lambda>b. coalesce (bt_delivered_count b) 0) (batches d)"
      by (rule map_cong) (simp_all add: count_batch [OF dist])
    moreover have "count_of (overview_counts d) DELETED = sum_list (map (\<lambda>b. coalesce (bt_delivered_count b) 0) (batches d))"
      by (simp add: overview_counts_def count_of_def)
    ultimately show ?thesis using True by (simp only:)
  next
    case False
    have "row_count (\<lambda>g. gr_state g = st) (granules d)
        = sum_list (map (\<lambda>key. row_count (\<lambda>g. gr_batch g = key \<and> gr_state g = st) (granules d)) (map bt_id (batches d)))"
      by (rule row_count_sum) (use dist refs in auto)
    moreover have "map (\<lambda>b. count_of (batch_counts d b) st) (batches d)
        = map (\<lambda>b. int (row_count (\<lambda>g. gr_batch g = bt_id b \<and> gr_state g = st) (granules d))) (batches d)"
      by (rule map_cong) (simp_all add: count_batch [OF dist] False)
    moreover have "count_of (overview_counts d) st = int (row_count (\<lambda>g. gr_state g = st) (granules d))"
      using False by (simp add: overview_counts_def count_of_def count_grouped)
    ultimately show ?thesis by (simp only: sum_counts_int map_map comp_def)
  qed
qed

lemma shown_bounds:
  assumes "db_inv dg d" and b: "b \<in> set (batches d)"
  shows "int (row_count (\<lambda>g. gr_batch g = bt_id b) (granules d)) \<le> sum_list (map (count_of (batch_counts d b)) all_states)
      \<and> sum_list (map (count_of (batch_counts d b)) all_states) \<le> int (row_count (\<lambda>g. gr_batch g = bt_id b) (granules d)) + coalesce (bt_delivered_count b) 0"
proof -
  let ?n = "\<lambda>st. row_count (\<lambda>g. gr_batch g = bt_id b \<and> gr_state g = st) (granules d)"
  have dist: "distinct (map bt_id (batches d))"
    and counters: "\<forall>b \<in> set (batches d). int (row_count (deleted_in (bt_id b)) (granules d)) \<le> coalesce (bt_delivered_count b) 0"
    using assms(1) by (simp_all add: db_inv_def keys_ok_def counters_ok_def)
  have "row_count (\<lambda>g. gr_batch g = bt_id b) (granules d) = sum_list (map (\<lambda>key. row_count (\<lambda>g. gr_state g = key \<and> gr_batch g = bt_id b) (granules d)) all_states)"
    by (rule row_count_sum) (simp_all add: all_states_complete)
  then have rows: "row_count (\<lambda>g. gr_batch g = bt_id b) (granules d) = sum_list (map ?n all_states)" by (simp add: conj_commute)
  have "?n DELETED = row_count (deleted_in (bt_id b)) (granules d)" by (simp add: deleted_in_def [abs_def])
  with counters b have "int (?n DELETED) \<le> coalesce (bt_delivered_count b) 0" by simp
  with rows show ?thesis by (simp add: all_states_def count_batch [OF dist b])
qed

text \<open>What the figures are, written directly over the tables.\<close>

definition delivered_in_window :: "orch \<Rightarrow> time \<Rightarrow> ident \<Rightarrow> int" where
  "delivered_in_window d now bid = int (row_count (\<lambda>t. st_batch t = bid \<and> recent_delivery now t) (timings d))"

definition eta_of :: "int \<Rightarrow> int \<Rightarrow> int option" where
  "eta_of remaining recent =
     (if recent \<le> 0 \<or> remaining \<le> 0 then None else Some \<lfloor>f64 (of_int (remaining * 60) / of_int recent)\<rfloor>)"

lemma eta_from_recent_of: "eta_from_recent c recent = eta_of (remaining_to_deliver c) recent"
  by (simp add: eta_from_recent_def eta_of_def WINDOW_SEC_def Let_def)

definition granules_of :: "orch \<Rightarrow> ident \<Rightarrow> granule list" where
  "granules_of d bid = filter (\<lambda>g. gr_batch g = bid) (granules d)"

lemma exhausted_sum:
  assumes "distinct (map gr_id (granules d))"
  shows "coalesce (exhausted_by_batch cfg d [bid] bid) 0 = sum_list (map snd (granule_rows cfg d (granules_of d bid)))"
proof -
  let ?gs = "granules_of d bid"
  have in_batch: "object_in_batch d bid x \<longleftrightarrow> ob_granule x \<in> set (map gr_id ?gs)" for x
  proof
    show "ob_granule x \<in> set (map gr_id ?gs) \<Longrightarrow> object_in_batch d bid x"
      using get_row_unique [OF assms] by (auto simp: object_in_batch_def granules_of_def get_granule_def)
    show "object_in_batch d bid x \<Longrightarrow> ob_granule x \<in> set (map gr_id ?gs)"
      by (force simp: object_in_batch_def granules_of_def get_granule_def split: option.splits dest!: get_row_Some)
  qed
  have "row_count (\<lambda>x. object_in_batch d bid x \<and> object_is_exhausted cfg x) (objects d)
      = sum_list (map (\<lambda>key. row_count (\<lambda>x. ob_granule x = key \<and> object_in_batch d bid x \<and> object_is_exhausted cfg x) (objects d)) (map gr_id ?gs))"
    by (rule row_count_sum) (use assms in \<open>auto simp: in_batch granules_of_def distinct_map_filter\<close>)
  also have "\<dots> = sum_list (map (\<lambda>key. row_count (\<lambda>x. ob_granule x = key \<and> object_is_exhausted cfg x) (objects d)) (map gr_id ?gs))"
    by (intro arg_cong [of _ _ sum_list] map_cong refl row_count_cong) (auto simp: in_batch)
  finally have "row_count (\<lambda>x. object_in_batch d bid x \<and> object_is_exhausted cfg x) (objects d)
      = sum_list (map (\<lambda>key. row_count (\<lambda>x. ob_granule x = key \<and> object_is_exhausted cfg x) (objects d)) (map gr_id ?gs))" .
  moreover have "map snd (granule_rows cfg d ?gs)
      = map (\<lambda>key. int (row_count (\<lambda>x. ob_granule x = key \<and> object_is_exhausted cfg x) (objects d))) (map gr_id ?gs)"
    by (simp add: granule_rows_def exhausted_by_granule_def count_grouped)
  ultimately show ?thesis by (simp add: exhausted_by_batch_def count_grouped sum_counts_int del: map_map)
qed

lemma remaining_sum:
  assumes "\<And>st. count_of c st = sum_list (map (\<lambda>b. count_of (cs b) st) bs)"
  shows "remaining_to_deliver c = sum_list (map (\<lambda>b. remaining_to_deliver (cs b)) bs)"
proof -
  have "sum_list (map (\<lambda>st. sum_list (map (\<lambda>b. count_of (cs b) st) bs)) sts) = sum_list (map (\<lambda>b. sum_list (map (count_of (cs b)) sts)) bs)" for sts
    by (induction sts) (simp_all add: sum_list_addf)
  moreover have "map (count_of c) IN_FLIGHT_STATES = map (\<lambda>st. sum_list (map (\<lambda>b. count_of (cs b) st) bs)) IN_FLIGHT_STATES"
    by (intro map_cong refl assms)
  ultimately show ?thesis unfolding remaining_to_deliver_def assms [of UPLOADED] by (simp only: sum_list_addf)
qed

lemma deliveries_sum:
  assumes "keys_ok d" and "refs_ok d"
  shows "int (row_count (recent_delivery now) (timings d)) = sum_list (map (\<lambda>b. delivered_in_window d now (bt_id b)) (batches d))"
proof -
  have "\<And>t. t \<in> set (timings d) \<Longrightarrow> st_batch t \<in> set (map bt_id (batches d))"
    using assms(2) by (fastforce simp: refs_ok_def)
  then have "row_count (recent_delivery now) (timings d)
      = sum_list (map (\<lambda>key. row_count (\<lambda>t. st_batch t = key \<and> recent_delivery now t) (timings d)) (map bt_id (batches d)))"
    by (intro row_count_sum) (use assms(1) in \<open>auto simp: keys_ok_def\<close>)
  then show ?thesis by (simp add: delivered_in_window_def sum_counts_int comp_def)
qed

text \<open>
  C36: The figures agree with the tables and with each other, wherever they are shown. In every reachable state, for all the batches a
  page shows: the list shows for each batch what its own page shows; its counts are the numbers of its granules in each state, and for
  the deleted ones the number delivered; the exhausted objects it shows are the sum over the rows of its granules; its throughput and its
  remaining time are those of its own deliveries of the last minute. The totals of the dashboard are, state by state, the sums over the
  batches, and the throughput and the remaining time of the dashboard are those of the deliveries and the remaining granules of all
  batches together. A batch never shows fewer granules than it has, nor more than those it has and those it counts as delivered.
\<close>

theorem read_models_agree:
  assumes "reach (booted dg) (orch_step dg) d" and "set bs \<subseteq> set (batches d)"
  shows "summaries cfg now d bs = map (summary cfg now d) bs
    \<and> (\<forall>b \<in> set bs.
         (\<forall>st. count_of (su_counts (summary cfg now d b)) st = (if st = DELETED then coalesce (bt_delivered_count b) 0
            else int (row_count (\<lambda>g. gr_batch g = bt_id b \<and> gr_state g = st) (granules d))))
       \<and> su_objects_exhausted (summary cfg now d b) = sum_list (map snd (granule_rows cfg d (granules_of d (bt_id b))))
       \<and> su_throughput_per_min (summary cfg now d b) = Some (throughput_per_min (delivered_in_window d now (bt_id b)))
       \<and> su_eta_realtime (summary cfg now d b)
           = eta_of (remaining_to_deliver (su_counts (summary cfg now d b))) (delivered_in_window d now (bt_id b)))
    \<and> (\<forall>st. count_of (overview_counts d) st = sum_list (map (\<lambda>b. count_of (su_counts (summary cfg now d b)) st) (batches d)))
    \<and> system_delivery_rate d now (overview_counts d)
        = (throughput_per_min (sum_list (map (\<lambda>b. delivered_in_window d now (bt_id b)) (batches d))),
           eta_of (sum_list (map (\<lambda>b. remaining_to_deliver (su_counts (summary cfg now d b))) (batches d)))
             (sum_list (map (\<lambda>b. delivered_in_window d now (bt_id b)) (batches d))))
    \<and> (\<forall>b \<in> set bs. int (row_count (\<lambda>g. gr_batch g = bt_id b) (granules d))
           \<le> sum_list (map (count_of (su_counts (summary cfg now d b))) all_states)
         \<and> sum_list (map (count_of (su_counts (summary cfg now d b))) all_states)
           \<le> int (row_count (\<lambda>g. gr_batch g = bt_id b) (granules d)) + coalesce (bt_delivered_count b) 0)"
proof -
  have "db_inv dg d" using orchestrator.reachable_inv [OF assms(1)] by (simp add: orch_inv_def)
  then have ok: "keys_ok d" "refs_ok d" and dist: "distinct (map bt_id (batches d))" "distinct (map gr_id (granules d))"
    by (simp_all add: db_inv_def keys_ok_def)
  have counts: "su_counts (summary cfg now d b) = batch_counts d b" for b
    by (simp add: summary_def summaries_def batch_counts_def summary_just_created_def Let_def)
  have bulk: "summaries cfg now d bs = map (summary cfg now d) bs"
    by (auto simp: summaries_def summary_def Let_def state_counts_def recent_delivered_def exhausted_by_batch_def)
  have own: "su_objects_exhausted (summary cfg now d b) = sum_list (map snd (granule_rows cfg d (granules_of d (bt_id b))))"
      "su_throughput_per_min (summary cfg now d b) = Some (throughput_per_min (delivered_in_window d now (bt_id b)))"
      "su_eta_realtime (summary cfg now d b) = eta_of (remaining_to_deliver (batch_counts d b)) (delivered_in_window d now (bt_id b))" for b
    unfolding exhausted_sum [OF dist(2), symmetric] counts [symmetric]
    by (simp_all add: summary_def summaries_def Let_def eta_from_recent_of recent_delivered_def count_grouped delivered_in_window_def)
  note total = overview_sum [OF ok]
  have rate: "system_delivery_rate d now (overview_counts d)
      = (throughput_per_min (sum_list (map (\<lambda>b. delivered_in_window d now (bt_id b)) (batches d))),
         eta_of (sum_list (map (\<lambda>b. remaining_to_deliver (batch_counts d b)) (batches d)))
           (sum_list (map (\<lambda>b. delivered_in_window d now (bt_id b)) (batches d))))"
    using remaining_sum [of "overview_counts d" "batch_counts d" "batches d", OF total]
    by (simp add: system_delivery_rate_def deliveries_sum [OF ok] eta_from_recent_of Let_def)
  have mine: "b \<in> set bs \<Longrightarrow> b \<in> set (batches d)" for b using assms(2) by blast
  show ?thesis
    unfolding counts using bulk own rate total count_batch [OF dist(1) mine] shown_bounds [OF \<open>db_inv dg d\<close> mine] by (intro conjI ballI) blast+
qed

text \<open>The library with its first batch: one granule, pending; nothing has been delivered.\<close>

theorem read_models_agree_witness:
  "\<exists>d b. reach (booted sample_digest) (orch_step sample_digest) d \<and> b \<in> set (batches d) \<and> map gr_id (granules d) = [''b:g'']
     \<and> count_of (su_counts (summary sample_settings 5 d b)) PENDING = 1 \<and> count_of (overview_counts d) PENDING = 1
     \<and> system_delivery_rate d 5 (overview_counts d) = (0, None)"
proof -
  have "reach (booted sample_digest) (orch_step sample_digest) empty_orch"
    by (rule reach_init) (simp add: booted_def sample_digest_inj)
  then have 1: "reach (booted sample_digest) (orch_step sample_digest) sample_library"
    unfolding sample_library_def by (rule reach_step) (rule orch_registry)
  obtain r d where created: "create_batch sample_compiler (\<lambda>v. []) (\<lambda>n. []) 5 sample_creation sample_library = Inr (r, d)"
      and ids: "map gr_id (granules d) = [''b:g'']"
    using sample_batch_created by (elim exE conjE)
  then have reach: "reach (booted sample_digest) (orch_step sample_digest) d"
    by (intro reach_step [OF 1] orch_create)
  have tables: "batches d = [r]" "bt_id r = ''b''" "timings d = []" "map (\<lambda>g. (gr_batch g, gr_state g)) (granules d) = [(''b'', PENDING)]"
    using created by (auto simp: create_batch_def insert_granules_def Let_def sample_creation_def sample_submission_def new_batch_def
        new_granule_def choose_batch_id_def sample_library_def empty_orch_def split: if_splits)
  obtain g where g: "granules d = [g]" "gr_batch g = ''b''" "gr_state g = PENDING" using tables(4) by auto
  have "set [r] \<subseteq> set (batches d)" using tables by simp
  note figures = read_models_agree [OF reach this, of sample_settings 5]
  have one: "count_of (su_counts (summary sample_settings 5 d r)) PENDING = 1"
    using figures by (simp add: g tables row_count_def)
  then have total: "count_of (overview_counts d) PENDING = 1" using figures by (simp add: tables)
  have idle: "delivered_in_window d 5 (bt_id r) = 0" by (simp add: delivered_in_window_def tables row_count_def)
  have "system_delivery_rate d 5 (overview_counts d) = (throughput_per_min 0, eta_of (remaining_to_deliver (su_counts (summary sample_settings 5 d r))) 0)"
    using figures by (simp add: tables(1) idle)
  also have "\<dots> = (0, None)"
  proof -
    have "f64 0 = 0" by (simp add: f64_def Let_def round_half_even_def)
    then show ?thesis by (simp add: eta_of_def throughput_per_min_def)
  qed
  finally have "system_delivery_rate d 5 (overview_counts d) = (0, None)" .
  with reach tables(1) ids one total show ?thesis by auto
qed

section \<open>Stage statistics\<close>

record stage_stats =
  sg_count :: nat
  sg_avg_ms :: int
  sg_p50_ms :: int
  sg_p95_ms :: int
  sg_max_ms :: int

definition stage_stats :: "int list \<Rightarrow> stage_stats" where
  "stage_stats durations =
     (let n = length durations
      in if n = 0 then \<lparr>sg_count = 0, sg_avg_ms = 0, sg_p50_ms = 0, sg_p95_ms = 0, sg_max_ms = 0\<rparr>
         else let xs = sort durations
              in \<lparr>sg_count = n, sg_avg_ms = sum_list xs div int n, sg_p50_ms = xs ! min (n - 1) (n * 50 div 100),
                  sg_p95_ms = xs ! min (n - 1) (n * 95 div 100), sg_max_ms = last xs\<rparr>)"

definition STAGES :: "string list" where
  "STAGES = [''download_wait'', ''download'', ''process_wait'', ''process'', ''upload_wait'', ''upload'', ''deliver'']"

text \<open>The wall time is a product of doubles, truncated.\<close>

definition wall_ms :: "time \<Rightarrow> time \<Rightarrow> int" where
  "wall_ms first_started last_finished =
     (let ms = (if first_started \<le> last_finished then 1 else - 1) * f64 (f64 (of_int \<bar>last_finished - first_started\<bar> / 1000000) * 1000)
      in if ms < 0 then \<lceil>ms\<rceil> else \<lfloor>ms\<rfloor>)"

definition batch_timing :: "ident \<Rightarrow> orch \<Rightarrow> http_error + ((string \<times> stage_stats) list \<times> int \<times> (time \<times> time) option)" where
  "batch_timing bid d =
     and_then (get_or_404 (get_batch bid d) ''batch not found'') (\<lambda>b.
       let rows = filter (\<lambda>t. st_batch t = bid) (timings d)
       in Inr (map (\<lambda>st. (st, stage_stats (map st_duration_ms (filter (\<lambda>t. st_stage t = st) rows)))) STAGES,
               if rows = [] then 0
               else wall_ms (Min (set (map stage_timing.st_started_at rows))) (Max (set (map stage_timing.st_finished_at rows))),
               if rows = [] then None
               else Some (Min (set (map stage_timing.st_started_at rows)), Max (set (map stage_timing.st_finished_at rows)))))"

lemma sum_list_bounds: "\<forall>x \<in> set xs. lo \<le> x \<and> x \<le> hi \<Longrightarrow> int (length xs) * lo \<le> sum_list xs \<and> sum_list xs \<le> int (length xs) * hi"
  by (induction xs) (auto simp: algebra_simps)

text \<open>The statistics of a stage are ordered, each percentile is a measured duration, and the average lies in between.\<close>

lemma stage_stats_ordered:
  assumes "ds \<noteq> []"
  shows "sg_p50_ms (stage_stats ds) \<in> set ds \<and> sg_p95_ms (stage_stats ds) \<in> set ds \<and> sg_max_ms (stage_stats ds) = Max (set ds)
    \<and> Min (set ds) \<le> sg_p50_ms (stage_stats ds) \<and> sg_p50_ms (stage_stats ds) \<le> sg_p95_ms (stage_stats ds)
    \<and> sg_p95_ms (stage_stats ds) \<le> sg_max_ms (stage_stats ds)
    \<and> Min (set ds) \<le> sg_avg_ms (stage_stats ds) \<and> sg_avg_ms (stage_stats ds) \<le> sg_max_ms (stage_stats ds)"
proof -
  let ?xs = "sort ds" and ?n = "length ds"
  let ?i = "min (?n - 1) (?n * 50 div 100)" and ?j = "min (?n - 1) (?n * 95 div 100)"
  have ne: "0 < ?n" using assms by simp
  then have "0 < length ?xs" by (simp only: length_sort)
  then have xs: "?xs \<noteq> []" by (rule length_greater_0_conv [THEN iffD1])
  have "?i \<le> ?j" by (intro min.mono div_le_mono) simp_all
  moreover have "?j < length ?xs" by (rule le_less_trans [OF min.cobounded1]) (use ne in simp)
  ultimately have ij: "?i \<le> ?j" "?j < length ?xs" by blast+
  have stats: "sg_p50_ms (stage_stats ds) = ?xs ! ?i" "sg_p95_ms (stage_stats ds) = ?xs ! ?j"
      "sg_max_ms (stage_stats ds) = last ?xs" "sg_avg_ms (stage_stats ds) = sum_list ?xs div int ?n"
    using assms by (simp_all add: stage_stats_def Let_def)
  have last: "last ?xs = ?xs ! (?n - 1)" using xs by (simp add: last_conv_nth)
  have le_last: "x \<le> last ?xs" if "x \<in> set ds" for x
  proof -
    have "x \<in> set ?xs" using that by simp
    then obtain k where k: "k < length ?xs" "?xs ! k = x" by (auto simp only: in_set_conv_nth)
    have "?xs ! k \<le> ?xs ! (?n - 1)" by (rule sorted_nth_mono) (use k(1) in simp_all)
    then show ?thesis unfolding last k(2) .
  qed
  have "last ?xs \<in> set ds" using last_in_set [OF xs] by simp
  with le_last have "Max (set ds) = last ?xs" by (intro Max_eqI) auto
  moreover have "?xs ! ?j \<in> set ?xs" using ij(2) by (rule nth_mem)
  moreover have "?xs ! ?i \<in> set ?xs" by (rule nth_mem) (rule le_less_trans [OF ij])
  moreover have "?xs ! ?i \<le> ?xs ! ?j" by (rule sorted_nth_mono) (use ij in simp_all)
  moreover have "?xs ! ?j \<le> last ?xs" unfolding last by (rule sorted_nth_mono) (use ne in simp_all)
  moreover have "Min (set ds) \<le> sum_list ?xs div int ?n \<and> sum_list ?xs div int ?n \<le> last ?xs"
  proof -
    have "\<forall>x \<in> set ?xs. Min (set ds) \<le> x \<and> x \<le> last ?xs" using le_last by auto
    from sum_list_bounds [OF this] have "int ?n * Min (set ds) \<le> sum_list ?xs" "sum_list ?xs \<le> int ?n * last ?xs" by simp_all
    then show ?thesis using ne zdiv_mono1 [of "int ?n * Min (set ds)" "sum_list ?xs" "int ?n"] zdiv_mono1 [of "sum_list ?xs" "int ?n * last ?xs" "int ?n"]
      by simp
  qed
  ultimately show ?thesis unfolding stats by simp
qed

section \<open>The delivery report\<close>

text \<open>
  A keyset-paged read up to a bound: \<open>reads k\<close> are the rows that the \<open>k\<close>-th query selects from, a session of its own.
\<close>

function keyset_pages :: "('a \<Rightarrow> int) \<Rightarrow> nat \<Rightarrow> int \<Rightarrow> int \<Rightarrow> (nat \<Rightarrow> 'a list) \<Rightarrow> 'a list list" where
  "keyset_pages key n upper after reads =
     (if after < upper then
        let page = take n (sort_key key (filter (\<lambda>x. after < key x \<and> key x \<le> upper) (reads 0)))
        in if page = [] then [] else page # keyset_pages key n upper (key (last page)) (\<lambda>k. reads (Suc k))
      else [])"
  by pat_completeness auto
termination
proof (relation "measure (\<lambda>(key, n, upper, after, reads). nat (upper - after))")
  fix key :: "'a \<Rightarrow> int" and n upper after and reads :: "nat \<Rightarrow> 'a list" and page
  assume "after < upper" and page: "page = take n (sort_key key (filter (\<lambda>x. after < key x \<and> key x \<le> upper) (reads 0)))" and "page \<noteq> []"
  then have "last page \<in> set page" by simp
  then have "after < key (last page)" unfolding page by (auto dest: in_set_takeD)
  with \<open>after < upper\<close> show "((key, n, upper, key (last page), \<lambda>k. reads (Suc k)), key, n, upper, after, reads)
      \<in> measure (\<lambda>(key, n, upper, after, reads). nat (upper - after))" by simp
qed simp

declare keyset_pages.simps [simp del]

text \<open>Rows may change between two queries; as long as their keys do not, every key up to the bound is read once, in order.\<close>

lemma map_sort_key: "map key (sort_key key xs) = sort (map key xs)" for key :: "'a \<Rightarrow> int"
  by (rule sym, rule properties_for_sort) simp_all

lemma keyset_pages_keys:
  assumes "0 < n" and "distinct ids" and "\<And>k. filter (\<lambda>i. i \<le> upper) (map key (reads k)) = ids"
  shows "map key (concat (keyset_pages key n upper after reads)) = sort (filter (\<lambda>i. after < i) ids)"
  using assms
proof (induction key n upper after reads rule: keyset_pages.induct)
  case (1 key n upper after reads)
  let ?page = "take n (sort_key key (filter (\<lambda>x. after < key x \<and> key x \<le> upper) (reads 0)))"
  let ?ids = "filter (\<lambda>i. after < i) ids"
  have "map key (filter (\<lambda>x. after < key x \<and> key x \<le> upper) (reads 0)) = ?ids"
    by (simp add: filter_map comp_def conj_commute flip: "1.prems"(3) [of 0])
  then have page: "map key ?page = take n (sort ?ids)" by (simp only: take_map [symmetric] map_sort_key)
  have dist: "distinct ?ids" using "1.prems"(2) by simp
  show ?case
  proof (cases "after < upper \<and> ?page \<noteq> []")
    case True
    let ?l = "key (last ?page)"
    have ne: "?page \<noteq> []" using True by blast
    from last_map [OF this, of key] have "?l = last (map key ?page)" by (rule sym)
    then have l: "?l = last (take n (sort ?ids))" by (simp only: page)
    have "last ?page \<in> set ?page" using True by simp
    then have "after < ?l" by (auto dest!: in_set_takeD)
    then have later: "filter (\<lambda>i. ?l < i) ids = filter (\<lambda>i. ?l < i) ?ids" by (auto intro: filter_cong)
    have "map key ?page \<noteq> []" using ne unfolding list.map_disc_iff .
    then have "take n (sort ?ids) \<noteq> []" unfolding page .
    then have "sort ?ids \<noteq> []" by (rule contrapos_nn) simp
    from sort_key_filter_split [of "\<lambda>i. i" ?ids "sort ?ids" n, OF _ refl "1.prems"(1) this] dist
    have "sort ?ids = take n (sort ?ids) @ sort (filter (\<lambda>i. ?l < i) ?ids)" by (simp add: l)
    moreover have "map key (concat (keyset_pages key n upper ?l (\<lambda>k. reads (Suc k)))) = sort (filter (\<lambda>i. ?l < i) ids)"
      using "1.IH" [of ?page] True "1.prems" by simp
    ultimately show ?thesis using True page by (simp add: keyset_pages.simps [of key n upper after reads] Let_def later)
  next
    case False
    have "?ids = []"
    proof (cases "after < upper")
      case True
      with False have "?page = []" by blast
      then have "map key ?page = []" unfolding list.map_disc_iff .
      then have "take n (sort ?ids) = []" unfolding page .
      with "1.prems"(1) have "sort ?ids = []" by (simp only: take_eq_Nil) auto
      then have "set (sort ?ids) = {}" by (simp only: list.set)
      then show ?thesis by simp
    next
      case ge: False
      have "\<forall>i \<in> set ids. i \<le> upper" by (simp flip: "1.prems"(3) [of 0])
      with ge show ?thesis by (auto simp: filter_empty_conv)
    qed
    then have "sort ?ids = []" by simp
    with False show ?thesis by (auto simp: keyset_pages.simps [of key n upper after reads] Let_def)
  qed
qed

definition max_key :: "('a \<Rightarrow> int) \<Rightarrow> 'a list \<Rightarrow> int" where
  "max_key key rows = (if rows = [] then 0 else Max (set (map key rows)))"

definition recorded_upto :: "int \<Rightarrow> orch \<Rightarrow> gobject \<Rightarrow> bool" where
  "recorded_upto upper d x \<longleftrightarrow> list_ex (\<lambda>r. matches x r \<and> dr_id r \<le> upper) (deliveries d)"

definition retained_delivery_count :: "orch \<Rightarrow> ident \<Rightarrow> nat" where
  "retained_delivery_count d bid = row_count (\<lambda>g. gr_batch g = bid \<and> gr_state g = DELETED) (granules d)"

definition report_object :: "ident \<Rightarrow> int \<Rightarrow> orch \<Rightarrow> gobject \<Rightarrow> bool" where
  "report_object bid ledger_upper d x \<longleftrightarrow> object_in_batch d bid x \<and> \<not> recorded_upto ledger_upper d x"

text \<open>The figures of its head, the rows of the objects without a receipt, and the receipts.\<close>

definition delivery_report ::
  "settings \<Rightarrow> time \<Rightarrow> orch \<Rightarrow> batch \<Rightarrow> (nat \<Rightarrow> orch) \<Rightarrow> (nat \<Rightarrow> orch)
   \<Rightarrow> (batch_summary \<times> int) \<times> gobject list \<times> delivery_record list" where
  "delivery_report cfg now d b reads receipt_reads =
     (let bid = bt_id b;
          archived = max 0 (coalesce (bt_delivered_count b) 0 - int (retained_delivery_count d bid));
          upper = max_key ob_id (filter (object_in_batch d bid) (objects d));
          ledger_upper = max_key dr_id (filter (\<lambda>r. dr_batch r = bid) (deliveries d))
      in ((summary cfg now d b, archived),
          concat (keyset_pages ob_id 500 upper 0 (\<lambda>k. filter (report_object bid ledger_upper (reads k)) (objects (reads k)))),
          concat (iter_receipt_chunks (\<lambda>r. dr_batch r = bid) ledger_upper 500 0 (\<lambda>k. deliveries (receipt_reads k)))))"

lemma max_key_ge: "x \<in> set rows \<Longrightarrow> key x \<le> max_key key rows"
  by (auto simp: max_key_def)

text \<open>
  The delivery report is complete and free of repetitions. If, while it is read, the objects of the batch without a receipt stay and
  no receipt vanishes, then every object the batch had when the report began is in exactly one part: the receipts, each
  once, in order, or, if it has none yet, the object rows, each once, in order.
\<close>

theorem delivery_report_exact:
  assumes "keys_ok d" and "distinct (map dr_id (deliveries d))" and "\<forall>r \<in> set (deliveries d). 0 < dr_id r"
    and "\<forall>x \<in> set (objects d). \<forall>r \<in> set (deliveries d). object_in_batch d (bt_id b) x \<and> matches x r \<longrightarrow> dr_batch r = bt_id b"
    and "\<And>k. \<exists>later. map ob_id (filter (report_object (bt_id b) (max_key dr_id (filter (\<lambda>r. dr_batch r = bt_id b) (deliveries d))) (reads k)) (objects (reads k)))
           = map ob_id (filter (report_object (bt_id b) (max_key dr_id (filter (\<lambda>r. dr_batch r = bt_id b) (deliveries d))) d) (objects d)) @ later
         \<and> (\<forall>i \<in> set later. max_key ob_id (filter (object_in_batch d (bt_id b)) (objects d)) < i)"
    and "\<And>k. \<exists>later. deliveries (receipt_reads k) = deliveries d @ later
         \<and> (\<forall>r \<in> set later. max_key dr_id (filter (\<lambda>r. dr_batch r = bt_id b) (deliveries d)) < dr_id r)"
    and "delivery_report cfg now d b reads receipt_reads = (figures, rows, receipts)"
  shows "receipts = sort_key dr_id (filter (\<lambda>r. dr_batch r = bt_id b) (deliveries d))
    \<and> map ob_id rows = sort (map ob_id (filter (\<lambda>x. object_in_batch d (bt_id b) x \<and> \<not> has_delivery_record d x) (objects d)))
    \<and> (\<forall>x \<in> set (objects d). object_in_batch d (bt_id b) x \<longrightarrow>
         (ob_id x \<in> ob_id ` set rows) \<noteq> (\<exists>r \<in> set receipts. matches x r))"
proof -
  let ?mine = "\<lambda>r. dr_batch r = bt_id b"
  let ?upper = "max_key ob_id (filter (object_in_batch d (bt_id b)) (objects d))" and ?lupper = "max_key dr_id (filter ?mine (deliveries d))"
  have keys: "distinct (map ob_id (objects d))" "\<forall>x \<in> set (objects d). 0 < ob_id x"
    using assms(1) by (simp_all add: keys_ok_def)
  have recorded: "recorded_upto ?lupper d x \<longleftrightarrow> has_delivery_record d x" if "x \<in> set (objects d)" "object_in_batch d (bt_id b) x" for x
    using that assms(4) max_key_ge [of _ "filter ?mine (deliveries d)" dr_id] by (auto simp: recorded_upto_def has_record_iff list_ex_iff)
  then have sel: "filter (report_object (bt_id b) ?lupper d) (objects d) = filter (\<lambda>x. object_in_batch d (bt_id b) x \<and> \<not> has_delivery_record d x) (objects d)"
    (is "?selected = ?free") by (intro filter_cong) (auto simp: report_object_def)
  have free_le: "\<forall>i \<in> set (map ob_id ?free). 0 < i \<and> i \<le> ?upper" using keys(2) max_key_ge [of _ "filter (object_in_batch d (bt_id b)) (objects d)" ob_id] by auto
  have "filter (\<lambda>i. i \<le> ?upper) (map ob_id (filter (report_object (bt_id b) ?lupper (reads k)) (objects (reads k)))) = map ob_id ?free" for k
  proof -
    obtain later where "map ob_id (filter (report_object (bt_id b) ?lupper (reads k)) (objects (reads k))) = map ob_id ?free @ later"
        "\<forall>i \<in> set later. ?upper < i" using assms(5) [of k] unfolding sel by blast
    moreover from this(2) have "filter (\<lambda>i. i \<le> ?upper) later = []" by (auto simp: filter_empty_conv)
    moreover have "filter (\<lambda>i. i \<le> ?upper) (map ob_id ?free) = map ob_id ?free" using free_le by (simp only: filter_id_conv) blast
    ultimately show ?thesis by (simp only: filter_append append_Nil2)
  qed
  moreover have "distinct (map ob_id ?free)" using keys(1) by (rule distinct_map_filter)
  ultimately have "map ob_id (concat (keyset_pages ob_id 500 ?upper 0 (\<lambda>k. filter (report_object (bt_id b) ?lupper (reads k)) (objects (reads k)))))
      = sort (filter (\<lambda>i. 0 < i) (map ob_id ?free))" by (intro keyset_pages_keys) simp_all
  moreover have "filter (\<lambda>i. 0 < i) (map ob_id ?free) = map ob_id ?free" using free_le by (simp only: filter_id_conv) blast
  ultimately have rows: "map ob_id rows = sort (map ob_id ?free)" using assms(7) by (auto simp: delivery_report_def Let_def)
  have "receipts = concat (iter_receipt_chunks ?mine ?lupper 500 0 (\<lambda>k. deliveries (receipt_reads k)))"
    using assms(7) by (auto simp: delivery_report_def Let_def)
  also have "\<dots> = sort_key dr_id (selected ?mine ?lupper 0 (deliveries d))"
  proof (rule iter_receipt_pages)
    show "selected ?mine ?lupper 0 (deliveries (receipt_reads k)) = selected ?mine ?lupper 0 (deliveries d)" for k
    proof -
      obtain later where "deliveries (receipt_reads k) = deliveries d @ later" "\<forall>r \<in> set later. ?lupper < dr_id r" using assms(6) by blast
      then show ?thesis by (auto simp: selected_def filter_empty_conv)
    qed
  qed (simp_all add: assms(2))
  also have "selected ?mine ?lupper 0 (deliveries d) = filter ?mine (deliveries d)"
    unfolding selected_def using assms(3) max_key_ge [of _ "filter ?mine (deliveries d)" dr_id] by (intro filter_cong) auto
  finally have receipts: "receipts = sort_key dr_id (filter ?mine (deliveries d))" .
  have in_rows: "ob_id x \<in> ob_id ` set rows \<longleftrightarrow> \<not> has_delivery_record d x" if "x \<in> set (objects d)" "object_in_batch d (bt_id b) x" for x
  proof -
    have "ob_id ` set rows = set (map ob_id rows)" by simp
    also have "\<dots> = ob_id ` set ?free" unfolding rows by simp
    finally show ?thesis using that keys(1) by (auto dest: distinct_key_eq)
  qed
  have "(\<exists>r \<in> set receipts. matches x r) \<longleftrightarrow> has_delivery_record d x" if "x \<in> set (objects d)" "object_in_batch d (bt_id b) x" for x
    using that assms(4) unfolding receipts by (auto simp: has_record_iff)
  with in_rows rows receipts show ?thesis by simp
qed

text \<open>A batch with a delivered object, its receipt, and an object that waits.\<close>

definition sample_report :: orch where
  "sample_report = sample_orch UPLOADED None\<lparr>objects := [(sample_object None)\<lparr>ob_id := 2\<rparr>, sample_object (Some 9)],
     deliveries := [(sample_record 1)\<lparr>dr_uploaded_at := 7\<rparr>]\<rparr>"

theorem delivery_report_exact_witness:
  "\<exists>figures rows receipts. delivery_report sample_settings 50 sample_report sample_batch (\<lambda>k. sample_report) (\<lambda>k. sample_report)
     = (figures, rows, receipts) \<and> map ob_id rows = [2] \<and> map dr_id receipts = [1]"
proof -
  note defs = sample_report_def sample_record_def sample_defs keys_ok_def matches_def get_defs get_row_def
  obtain figures rows receipts where rep: "delivery_report sample_settings 50 sample_report sample_batch (\<lambda>k. sample_report) (\<lambda>k. sample_report)
      = (figures, rows, receipts)" by (cases "delivery_report sample_settings 50 sample_report sample_batch (\<lambda>k. sample_report) (\<lambda>k. sample_report)") auto
  have "receipts = sort_key dr_id (filter (\<lambda>r. dr_batch r = bt_id sample_batch) (deliveries sample_report))
    \<and> map ob_id rows = sort (map ob_id (filter (\<lambda>x. object_in_batch sample_report (bt_id sample_batch) x
         \<and> \<not> has_delivery_record sample_report x) (objects sample_report)))
    \<and> (\<forall>x \<in> set (objects sample_report). object_in_batch sample_report (bt_id sample_batch) x \<longrightarrow>
         (ob_id x \<in> ob_id ` set rows) \<noteq> (\<exists>r \<in> set receipts. matches x r))"
    by (rule delivery_report_exact [OF _ _ _ _ _ _ rep]) (simp_all add: defs)
  then have "map ob_id rows = [2]" and "map dr_id receipts = [1]"
    by (simp_all add: object_in_batch_def has_delivery_record_def defs)
  then show ?thesis by (intro exI conjI) (rule rep)
qed

end
