(* ===== verification/BundleValidate.thy ===== *)
theory BundleValidate
  imports Manifest
begin

text \<open>
  The pre-flight check of a bundle directory, \<^verbatim>\<open>src/sathop/shared/bundle_validate.py\<close>, behind the command
  \<^verbatim>\<open>sathop-validate-bundle\<close>: the section parsers of the manifest collected into one report, and the script of the entry point
  looked up in the directory. \<open>split_shell\<close> is \<^verbatim>\<open>shlex.split\<close>, which may raise; \<open>look p\<close> is what the path \<open>p\<close> leads to in the file system
  (paths the system refuses to look up, for their length or its permissions, are left out).
  The optional trial installation (\<^verbatim>\<open>--build-venv\<close>), a run of \<^verbatim>\<open>uv\<close>, is not modelled.
\<close>

section \<open>The report\<close>

record report =
  rp_errors :: "fmt list"
  rp_warnings :: "fmt list"
  rp_passed :: "fmt list"

definition new_report :: report where
  "new_report = \<lparr>rp_errors = [], rp_warnings = [], rp_passed = []\<rparr>"

definition add_error :: "fmt \<Rightarrow> report \<Rightarrow> report" where
  "add_error e r = r\<lparr>rp_errors := rp_errors r @ [e]\<rparr>"

definition add_warning :: "fmt \<Rightarrow> report \<Rightarrow> report" where
  "add_warning w r = r\<lparr>rp_warnings := rp_warnings r @ [w]\<rparr>"

definition add_passed :: "fmt \<Rightarrow> report \<Rightarrow> report" where
  "add_passed p r = r\<lparr>rp_passed := rp_passed r @ [p]\<rparr>"

definition report_ok :: "report \<Rightarrow> bool" where
  "report_ok r \<longleftrightarrow> rp_errors r = []"

text \<open>What is not a \<^verbatim>\<open>ValueError\<close> of a section, or is raised outside its \<^verbatim>\<open>try\<close>, ends the check with a traceback.\<close>

datatype crash = AttributeError | SplitError string | NotRelative string

datatype path_kind = Missing | Directory | RegularFile

text \<open>
  \<^verbatim>\<open>Path\<close> of a POSIX system: the root, empty for a relative path, and the segments. Empty segments and single dots vanish;
  \<^verbatim>\<open>..\<close> stays, as nothing is looked up. Joining to an absolute path drops the first one. \<^verbatim>\<open>relative_to\<close> compares segments only,
  so that it fails for an absolute path that does not start as the directory does, and never for a joined relative one.
\<close>

record pure_path =
  pp_root :: string
  pp_parts :: "string list"

definition path_root :: "string \<Rightarrow> string" where
  "path_root s = (let n = length (takeWhile (\<lambda>c. c = CHR ''/'') s) in if n = 0 then [] else if n = 2 then ''//'' else ''/'')"

definition parse_path :: "string \<Rightarrow> pure_path" where
  "parse_path s = \<lparr>pp_root = path_root s, pp_parts = filter (\<lambda>p. p \<noteq> [] \<and> p \<noteq> ''.'') (split_on (CHR ''/'') s)\<rparr>"

definition join_path :: "pure_path \<Rightarrow> string \<Rightarrow> pure_path" where
  "join_path dir s =
     (let p = parse_path s in if pp_root p = [] then dir\<lparr>pp_parts := pp_parts dir @ pp_parts p\<rparr> else p)"

definition relative_to :: "pure_path \<Rightarrow> pure_path \<Rightarrow> string list option" where
  "relative_to dir p =
     (if pp_root p = pp_root dir \<and> take (length (pp_parts dir)) (pp_parts p) = pp_parts dir
      then Some (drop (length (pp_parts dir)) (pp_parts p)) else None)"

definition path_text :: "string list \<Rightarrow> string" where
  "path_text parts = (case parts of [] \<Rightarrow> ''.'' | p # ps \<Rightarrow> p @ concat (map (\<lambda>q. ''/'' @ q) ps))"

definition path_string :: "pure_path \<Rightarrow> string" where
  "path_string p =
     (if pp_parts p = [] \<and> pp_root p \<noteq> [] then pp_root p
      else pp_root p @ path_text (pp_parts p))"

definition message :: "value_error \<Rightarrow> fmt" where
  "message e = (case e of ValueError m \<Rightarrow> m)"

text \<open>One \<^verbatim>\<open>try\<close>: the error under \<open>pre\<close>, or the lines for the value.\<close>

definition section_check :: "(fmt \<Rightarrow> fmt) \<Rightarrow> value_error + 'a \<Rightarrow> ('a \<Rightarrow> fmt list) \<Rightarrow> report \<Rightarrow> report" where
  "section_check pre parsed lines r =
     (case parsed of Inl e \<Rightarrow> add_error (pre (message e)) r
      | Inr v \<Rightarrow> foldl (\<lambda>r p. add_passed p r) r (lines v))"

definition check_manifest_shape :: "pydict \<Rightarrow> report \<Rightarrow> report" where
  "check_manifest_shape manifest r =
     (let r1 = section_check id (parse_meta manifest) (\<lambda>(name, version, _). [(''name = {!r}, version = {!r}'', [AStr name, AStr version])]) r;
          r2 = section_check id (parse_execution (py_get manifest ''execution''))
                 (\<lambda>exe. [(''execution.entrypoint = {!r}, timeout_sec = {}'', [AStr (ex_entrypoint exe), AInt (ex_timeout_sec exe)])]) r1
      in section_check id (parse_outputs (py_get_default manifest ''outputs'' (PDict [])))
           (\<lambda>outs. [(''outputs.watch_dir = {!r}, extensions = {}'', AStr (ou_watch_dir outs) # map AStr (ou_extensions outs))]) r2)"

definition check_inputs_and_shared :: "compiler \<Rightarrow> pydict \<Rightarrow> report \<Rightarrow> report" where
  "check_inputs_and_shared compile manifest r =
     (let r1 = section_check (\<lambda>(m, a). (''manifest.inputs invalid: '' @ m, a)) (parse_inputs compile manifest)
                 (\<lambda>s. (''inputs.slots: {}'', map (AStr \<circ> sl_name) (is_slots s))
                      # (if is_meta s = [] then [] else [(''inputs.meta: {}'', map (AStr \<circ> mf_name) (is_meta s))])) r
      in section_check (\<lambda>(m, a). (''manifest.shared_files invalid: '' @ m, a)) (parse_shared_files manifest)
           (\<lambda>names. if names = [] then [] else [(''shared_files: {}'', map AStr names)]) r1)"

definition removeprefix :: "string \<Rightarrow> string \<Rightarrow> string" where
  "removeprefix p s = (if starts_with p s then drop (length p) s else s)"

definition interpreter :: "string \<Rightarrow> bool" where
  "interpreter s \<longleftrightarrow> s \<in> {''bash'', ''sh'', ''zsh''} \<or> starts_with ''python'' s"

text \<open>The script among the words of the command, if the words name one.\<close>

definition script_word :: "string list \<Rightarrow> string option" where
  "script_word parts =
     (case parts of [] \<Rightarrow> None
      | w # ws \<Rightarrow> if interpreter w then (case ws of [] \<Rightarrow> None | s # _ \<Rightarrow> Some s) else Some w)"

definition check_script :: "(pure_path \<Rightarrow> path_kind) \<Rightarrow> pure_path \<Rightarrow> string \<Rightarrow> string \<Rightarrow> report \<Rightarrow> crash + report" where
  "check_script look bundle_dir cmd script r =
     (if starts_with ''-'' script then
        Inr (add_passed (''entrypoint {!r} runs inline ({!r}); no script path to verify'', [AStr cmd, AStr script]) r)
      else
        let script = removeprefix ''./'' script; target = join_path bundle_dir script
        in case look target of
             Missing \<Rightarrow> Inr (add_error (''entrypoint references {!r} but {} does not exist in bundle'', [AStr script, AStr (path_string target)]) r)
           | Directory \<Rightarrow> Inr (add_error (''entrypoint references {!r} but {} is not a file'', [AStr script, AStr (path_string target)]) r)
           | RegularFile \<Rightarrow>
               (case relative_to bundle_dir target of
                  None \<Rightarrow> Inl (NotRelative script)
                | Some rel \<Rightarrow> Inr (add_passed (''entrypoint script {!r} resolves to {}'', [AStr script, AStr (path_text rel)]) r)))"

text \<open>\<^verbatim>\<open>manifest.get("execution") or {}\<close>, of which an entry is taken: only a mapping has \<^verbatim>\<open>get\<close>.\<close>

definition execution_dict :: "pydict \<Rightarrow> pydict option" where
  "execution_dict manifest =
     (case py_get manifest ''execution'' of PDict d \<Rightarrow> Some d | v \<Rightarrow> if truthy v then None else Some [])"

definition check_entrypoint ::
  "(string \<Rightarrow> string list option) \<Rightarrow> (pure_path \<Rightarrow> path_kind) \<Rightarrow> pure_path \<Rightarrow> pydict \<Rightarrow> report \<Rightarrow> crash + report" where
  "check_entrypoint split_shell look bundle_dir manifest r =
     (case execution_dict manifest of
        None \<Rightarrow> Inl AttributeError
      | Some exe \<Rightarrow>
          (case py_get exe ''entrypoint'' of
             PStr cmd \<Rightarrow>
               (case split_shell cmd of
                  None \<Rightarrow> Inl (SplitError cmd)
                | Some [] \<Rightarrow> Inr r
                | Some parts \<Rightarrow>
                    (case script_word parts of
                       None \<Rightarrow> Inr (add_warning (''entrypoint {!r} has interpreter but no script; nothing to verify'', [AStr cmd]) r)
                     | Some script \<Rightarrow> check_script look bundle_dir cmd script r))
           | _ \<Rightarrow> Inr r))"

definition check_requirements :: "string list option \<Rightarrow> pydict \<Rightarrow> report \<Rightarrow> report" where
  "check_requirements req_lines manifest r =
     (case parse_requirements (py_get manifest ''requirements'') of
        Inl e \<Rightarrow> add_error (message e) r
      | Inr req \<Rightarrow>
          let r1 = add_passed (''requirements: python={!r}, pip={}, apt={}, credentials={}'',
                [AOpt (rq_python req), AInt (int (length (rq_pip req))), AInt (int (length (rq_apt req))), AInt (int (length (rq_credentials req)))]) r
          in case python_deps_source (rq_pip req) req_lines of
               None \<Rightarrow> add_passed (''no Python requirements declared (bundle uses worker Python)'', []) r1
             | Some (RequirementsTxt _) \<Rightarrow>
                 let r2 = add_passed (''requirements.txt found - worker will install from it'', []) r1
                 in if rq_pip req = [] then r2
                    else add_warning (''both requirements.txt and manifest.requirements.pip declared - worker uses requirements.txt and ignores manifest.pip'', []) r2
             | Some (ManifestPip _) \<Rightarrow> r1)"

text \<open>The directory: its path as it was given, whether it is one, and what reading its manifest gives, where \<open>None\<close> inside stands for a YAML error.\<close>

record bundle_directory =
  bd_path :: pure_path
  bd_is_dir :: bool
  bd_manifest :: "pyval option option"
  bd_at :: "pure_path \<Rightarrow> path_kind"
  bd_requirements :: "string list option"

definition validate_bundle :: "compiler \<Rightarrow> (string \<Rightarrow> string list option) \<Rightarrow> bundle_directory \<Rightarrow> crash + report" where
  "validate_bundle compile split_shell dir =
     (if \<not> bd_is_dir dir then Inr (add_error (''{} is not a directory'', []) new_report)
      else case bd_manifest dir of
             None \<Rightarrow> Inr (add_error (''{} not found'', []) new_report)
           | Some None \<Rightarrow> Inr (add_error (''manifest.yaml is not valid YAML: {}'', []) new_report)
           | Some (Some (PDict manifest)) \<Rightarrow>
               let r1 = check_manifest_shape manifest new_report;
                   r2 = check_inputs_and_shared compile manifest r1
               in and_then (check_entrypoint split_shell (bd_at dir) (bd_path dir) manifest r2) (\<lambda>r3.
                    Inr (check_requirements (bd_requirements dir) manifest r3))
           | Some (Some _) \<Rightarrow> Inr (add_error (''manifest.yaml top level must be a mapping'', []) new_report))"

section \<open>The check and the parser agree\<close>

lemma errors_add [simp]:
  "rp_errors (add_error e r) = rp_errors r @ [e]" "rp_errors (add_warning e r) = rp_errors r" "rp_errors (add_passed e r) = rp_errors r"
  by (simp_all add: add_error_def add_warning_def add_passed_def)

lemma errors_section: "rp_errors (section_check pre parsed lines r) = [] \<longleftrightarrow> rp_errors r = [] \<and> (\<exists>v. parsed = Inr v)"
proof -
  have "rp_errors (foldl (\<lambda>r p. add_passed p r) r ps) = rp_errors r" for ps by (induction ps arbitrary: r) simp_all
  then show ?thesis by (cases parsed) (simp_all add: section_check_def)
qed

lemma errors_requirements:
  "rp_errors (check_requirements req_lines manifest r) = []
     \<longleftrightarrow> rp_errors r = [] \<and> (\<exists>q. parse_requirements (py_get manifest ''requirements'') = Inr q)"
  by (auto simp: check_requirements_def Let_def split: sum.splits option.splits python_deps_source.splits)

lemma parser_sections:
  "(\<exists>m. parse_manifest compile (PDict d) = Inr m) \<longleftrightarrow>
     (\<exists>v. parse_meta d = Inr v) \<and> (\<exists>v. parse_execution (py_get d ''execution'') = Inr v)
     \<and> (\<exists>v. parse_outputs (py_get_default d ''outputs'' (PDict [])) = Inr v) \<and> (\<exists>v. parse_inputs compile d = Inr v)
     \<and> (\<exists>v. parse_shared_files d = Inr v) \<and> (\<exists>v. parse_requirements (py_get d ''requirements'') = Inr v)"
  by (auto split: prod.splits)

text \<open>
  A script that may be run: a regular file where the path leads, and the path is relative or, taken literally, begins with the path
  of the bundle's directory. A command resolves if the words do not name a script, or name such a one.
\<close>

definition under :: "pure_path \<Rightarrow> string \<Rightarrow> bool" where
  "under dir s \<longleftrightarrow> path_root s = pp_root dir \<and> (\<exists>rest. pp_parts (parse_path s) = pp_parts dir @ rest)"

definition script_resolves :: "(pure_path \<Rightarrow> path_kind) \<Rightarrow> pure_path \<Rightarrow> string \<Rightarrow> bool" where
  "script_resolves look dir s \<longleftrightarrow> look (join_path dir s) = RegularFile \<and> (starts_with ''/'' s \<longrightarrow> under dir s)"

definition entrypoint_resolves :: "(string \<Rightarrow> string list option) \<Rightarrow> (pure_path \<Rightarrow> path_kind) \<Rightarrow> pure_path \<Rightarrow> string \<Rightarrow> bool" where
  "entrypoint_resolves split_shell look dir cmd \<longleftrightarrow>
     (\<exists>parts. split_shell cmd = Some parts
        \<and> (\<forall>s. script_word parts = Some s \<longrightarrow> starts_with ''-'' s \<or> script_resolves look dir (removeprefix ''./'' s)))"

lemma path_root_relative: "path_root s = [] \<longleftrightarrow> \<not> starts_with ''/'' s"
  by (cases s) (auto simp: path_root_def starts_with_def Let_def)

lemma join_path_relative: "\<not> starts_with ''/'' s \<Longrightarrow> relative_to dir (join_path dir s) = Some (pp_parts (parse_path s))"
  by (simp add: join_path_def relative_to_def parse_path_def path_root_relative Let_def)

lemma join_path_absolute: "starts_with ''/'' s \<Longrightarrow> relative_to dir (join_path dir s) \<noteq> None \<longleftrightarrow> under dir s"
proof -
  assume abs: "starts_with ''/'' s"
  then have "join_path dir s = parse_path s" using path_root_relative [of s] by (simp add: join_path_def Let_def parse_path_def)
  moreover have "take (length xs) ys = xs \<longleftrightarrow> (\<exists>rest. ys = xs @ rest)" for xs ys :: "string list"
    by (metis append_eq_conv_conj append_take_drop_id)
  ultimately show ?thesis by (auto simp: relative_to_def under_def parse_path_def)
qed

lemma script_resolves_iff:
  "script_resolves look dir s \<longleftrightarrow> look (join_path dir s) = RegularFile \<and> relative_to dir (join_path dir s) \<noteq> None"
  using join_path_relative [of s dir] join_path_absolute [of s dir] by (cases "starts_with ''/'' s") (auto simp: script_resolves_def)

lemma parsed_entrypoint:
  assumes "parse_execution (py_get d ''execution'') = Inr exe"
  shows "\<exists>raw. execution_dict d = Some raw \<and> py_get raw ''entrypoint'' = PStr (ex_entrypoint exe)"
proof -
  obtain raw where raw: "py_get d ''execution'' = PDict raw" using assms by (cases "py_get d ''execution''") auto
  with assms have "non_empty_str (py_get raw ''entrypoint'')" "ex_entrypoint exe = str_of (py_get raw ''entrypoint'')"
    by (auto simp: Let_def split: if_splits option.splits pyval.splits)
  with raw show ?thesis by (auto simp: execution_dict_def non_empty_str_iff)
qed

lemma check_script_ok:
  "(\<exists>r'. check_script look dir cmd s r = Inr r' \<and> rp_errors r' = [])
     \<longleftrightarrow> rp_errors r = [] \<and> (starts_with ''-'' s \<or> script_resolves look dir (removeprefix ''./'' s))"
  by (auto simp: check_script_def script_resolves_iff Let_def split: path_kind.splits option.splits)

lemma check_entrypoint_ok:
  assumes "parse_execution (py_get d ''execution'') = Inr exe"
  shows "(\<exists>r'. check_entrypoint split_shell look dir d r = Inr r' \<and> rp_errors r' = [])
    \<longleftrightarrow> rp_errors r = [] \<and> entrypoint_resolves split_shell look dir (ex_entrypoint exe)"
proof -
  obtain raw where raw: "execution_dict d = Some raw" "py_get raw ''entrypoint'' = PStr (ex_entrypoint exe)"
    using parsed_entrypoint [OF assms] by blast
  show ?thesis
  proof (cases "split_shell (ex_entrypoint exe)")
    case None
    with raw show ?thesis by (simp add: check_entrypoint_def entrypoint_resolves_def)
  next
    case (Some parts)
    with raw check_script_ok [of look dir "ex_entrypoint exe" _ r] show ?thesis
      by (cases "script_word parts") (auto simp: check_entrypoint_def entrypoint_resolves_def script_word_def split: list.splits)
  qed
qed

text \<open>
  C37: The check tells the truth before the upload: it reports a bundle as valid if and only if the parser that the orchestrator and
  the workers use accepts the manifest and the command of the entry point either names no script or names a path that leads to a regular file and is relative, or absolute
  and beginning with the path of the bundle's directory. A relative path may leave the directory by \<^verbatim>\<open>..\<close>: the check does not look.
\<close>

theorem validate_agrees:
  assumes "bd_is_dir dir" and "bd_manifest dir = Some (Some v)"
  shows "(\<exists>r. validate_bundle compile split_shell dir = Inr r \<and> report_ok r)
    \<longleftrightarrow> (\<exists>m. parse_manifest compile v = Inr m \<and> entrypoint_resolves split_shell (bd_at dir) (bd_path dir) (ex_entrypoint (bm_execution m)))"
proof (cases "\<exists>d. v = PDict d")
  case True
  then obtain d where v: "v = PDict d" by blast
  let ?r2 = "check_inputs_and_shared compile d (check_manifest_shape d new_report)"
  have early: "rp_errors ?r2 = [] \<longleftrightarrow> (\<exists>v. parse_meta d = Inr v) \<and> (\<exists>v. parse_execution (py_get d ''execution'') = Inr v)
      \<and> (\<exists>v. parse_outputs (py_get_default d ''outputs'' (PDict [])) = Inr v) \<and> (\<exists>v. parse_inputs compile d = Inr v)
      \<and> (\<exists>v. parse_shared_files d = Inr v)"
    by (auto simp: check_inputs_and_shared_def check_manifest_shape_def Let_def errors_section new_report_def)
  have keeps: "rp_errors r' = [] \<Longrightarrow> rp_errors r = []" if "check_entrypoint split_shell look bdir d r = Inr r'" for look bdir r r'
    using that by (auto simp: check_entrypoint_def check_script_def Let_def split: option.splits pyval.splits list.splits path_kind.splits if_splits)
  have run: "(\<exists>r. validate_bundle compile split_shell dir = Inr r \<and> report_ok r) \<longleftrightarrow>
      (\<exists>r3. check_entrypoint split_shell (bd_at dir) (bd_path dir) d ?r2 = Inr r3 \<and> rp_errors r3 = []) \<and> (\<exists>q. parse_requirements (py_get d ''requirements'') = Inr q)"
    using assms v errors_requirements [of "bd_requirements dir" d]
    by (cases "check_entrypoint split_shell (bd_at dir) (bd_path dir) d ?r2") (auto simp: validate_bundle_def Let_def report_ok_def)
  show ?thesis
  proof (cases "\<exists>exe. parse_execution (py_get d ''execution'') = Inr exe")
    case True
    then obtain exe where exe: "parse_execution (py_get d ''execution'') = Inr exe" by blast
    have "bm_execution m = exe" if "parse_manifest compile v = Inr m" for m using that exe v by auto
    then have "(\<exists>m. parse_manifest compile v = Inr m \<and> entrypoint_resolves split_shell (bd_at dir) (bd_path dir) (ex_entrypoint (bm_execution m)))
        \<longleftrightarrow> (\<exists>m. parse_manifest compile v = Inr m) \<and> entrypoint_resolves split_shell (bd_at dir) (bd_path dir) (ex_entrypoint exe)" by metis
    moreover have "(\<exists>m. parse_manifest compile v = Inr m) \<longleftrightarrow> rp_errors ?r2 = [] \<and> (\<exists>q. parse_requirements (py_get d ''requirements'') = Inr q)"
      unfolding v parser_sections early by blast
    moreover note check_entrypoint_ok [OF exe, of split_shell "bd_at dir" "bd_path dir" ?r2]
    ultimately show ?thesis unfolding run by blast
  next
    case False
    then have "\<nexists>m. parse_manifest compile v = Inr m" using parser_sections [of compile d] v by blast
    moreover have "rp_errors ?r2 \<noteq> []" using early False by blast
    ultimately show ?thesis using run keeps by blast
  qed
next
  case False
  then show ?thesis using assms by (cases v) (simp_all add: validate_bundle_def report_ok_def new_report_def)
qed

text \<open>
  Not every invalid bundle gets its report. The check ends with a traceback exactly if \<^verbatim>\<open>execution\<close> is neither a mapping nor empty,
  or the command of the entry point cannot be split, or it names an existing file by an absolute path that does not begin with the path
  of the bundle's directory; an ill-formed
  manifest of the first kind would have been reported by its section.
\<close>

theorem validate_crashes:
  assumes "bd_is_dir dir" and "bd_manifest dir = Some (Some (PDict d))"
  shows "(\<exists>c. validate_bundle compile split_shell dir = Inl c) \<longleftrightarrow>
    (case execution_dict d of
       None \<Rightarrow> True
     | Some exe \<Rightarrow> \<exists>cmd. py_get exe ''entrypoint'' = PStr cmd
         \<and> (case split_shell cmd of
              None \<Rightarrow> True
            | Some parts \<Rightarrow> \<exists>s. script_word parts = Some s \<and> \<not> starts_with ''-'' s \<and> starts_with ''/'' (removeprefix ''./'' s)
                \<and> bd_at dir (join_path (bd_path dir) (removeprefix ''./'' s)) = RegularFile \<and> \<not> under (bd_path dir) (removeprefix ''./'' s)))"
proof -
  let ?r2 = "check_inputs_and_shared compile d (check_manifest_shape d new_report)"
  have script: "(\<exists>c. check_script look p cmd s r = Inl c) \<longleftrightarrow> \<not> starts_with ''-'' s \<and> starts_with ''/'' (removeprefix ''./'' s)
      \<and> look (join_path p (removeprefix ''./'' s)) = RegularFile \<and> \<not> under p (removeprefix ''./'' s)" for look p cmd s r
    using join_path_relative [of "removeprefix ''./'' s" p] join_path_absolute [of "removeprefix ''./'' s" p]
    by (cases "starts_with ''/'' (removeprefix ''./'' s)") (auto simp: check_script_def Let_def split: path_kind.splits option.splits)
  have "(\<exists>c. validate_bundle compile split_shell dir = Inl c) \<longleftrightarrow> (\<exists>c. check_entrypoint split_shell (bd_at dir) (bd_path dir) d ?r2 = Inl c)"
    using assms by (cases "check_entrypoint split_shell (bd_at dir) (bd_path dir) d ?r2") (simp_all add: validate_bundle_def Let_def)
  also have "\<dots> \<longleftrightarrow> (case execution_dict d of None \<Rightarrow> True
     | Some exe \<Rightarrow> \<exists>cmd. py_get exe ''entrypoint'' = PStr cmd
         \<and> (case split_shell cmd of None \<Rightarrow> True
            | Some parts \<Rightarrow> \<exists>s. script_word parts = Some s \<and> \<not> starts_with ''-'' s \<and> starts_with ''/'' (removeprefix ''./'' s)
                \<and> bd_at dir (join_path (bd_path dir) (removeprefix ''./'' s)) = RegularFile \<and> \<not> under (bd_path dir) (removeprefix ''./'' s)))"
  proof (cases "execution_dict d")
    case (Some exe)
    show ?thesis
    proof (cases "\<exists>cmd parts. py_get exe ''entrypoint'' = PStr cmd \<and> split_shell cmd = Some parts")
      case True
      then obtain cmd parts where "py_get exe ''entrypoint'' = PStr cmd" "split_shell cmd = Some parts" by blast
      with Some script [of "bd_at dir" "bd_path dir" cmd _ ?r2] show ?thesis
        by (cases "script_word parts") (auto simp: check_entrypoint_def script_word_def split: list.splits)
    next
      case False
      then show ?thesis by (auto simp: Some check_entrypoint_def split: pyval.splits option.splits)
    qed
  qed (simp add: check_entrypoint_def)
  finally show ?thesis .
qed

text \<open>
  The sample manifest, with its script in the bundle; and one whose \<^verbatim>\<open>execution\<close> is a string. A script beside the
  directory is accepted under its relative path and ends the check under its absolute one.
\<close>

definition words :: "string \<Rightarrow> string list option" where
  "words s = Some (filter (\<lambda>w. w \<noteq> []) (split_on (CHR '' '') s))"

definition demo_directory :: "pyval \<Rightarrow> bundle_directory" where
  "demo_directory v = \<lparr>bd_path = parse_path ''/srv/b'', bd_is_dir = True, bd_manifest = Some (Some v),
     bd_at = (\<lambda>p. if path_string p \<in> {''/srv/b/run.sh'', ''/srv/b/../out.sh'', ''/srv/out.sh''} then RegularFile else Missing),
     bd_requirements = None\<rparr>"

lemma script_beside_bundle:
  "check_script (bd_at (demo_directory v)) (parse_path ''/srv/b'') ''../out.sh'' ''../out.sh'' new_report
     = Inr (add_passed (''entrypoint script {!r} resolves to {}'', [AStr ''../out.sh'', AStr ''../out.sh'']) new_report)"
  "check_script (bd_at (demo_directory v)) (parse_path ''/srv/b'') ''/srv/out.sh'' ''/srv/out.sh'' new_report
     = Inl (NotRelative ''/srv/out.sh'')"
  by code_simp+

theorem validate_agrees_witness: "\<exists>r. validate_bundle sample_compiler words (demo_directory sample_manifest) = Inr r \<and> report_ok r"
proof -
  have "parse_manifest sample_compiler sample_manifest = Inr sample_parsed" by code_simp
  moreover have "words ''run.sh'' = Some [''run.sh'']" "script_word [''run.sh''] = Some ''run.sh''" "removeprefix ''./'' ''run.sh'' = ''run.sh''"
      "path_string (join_path (parse_path ''/srv/b'') ''run.sh'') = ''/srv/b/run.sh''" "\<not> starts_with ''/'' ''run.sh''"
    by code_simp+
  then have "entrypoint_resolves words (bd_at (demo_directory sample_manifest)) (bd_path (demo_directory sample_manifest)) (ex_entrypoint (bm_execution sample_parsed))"
    by (simp add: entrypoint_resolves_def script_resolves_def demo_directory_def sample_parsed_def)
  ultimately show ?thesis
    using validate_agrees [of "demo_directory sample_manifest" sample_manifest sample_compiler words] by (auto simp: demo_directory_def)
qed

theorem validate_crashes_witness:
  "\<exists>c. validate_bundle sample_compiler words (demo_directory (PDict [(PStr ''execution'', PStr ''run.sh'')])) = Inl c"
proof -
  have "execution_dict [(PStr ''execution'', PStr ''run.sh'')] = None" by code_simp
  then show ?thesis
    using validate_crashes [of "demo_directory (PDict [(PStr ''execution'', PStr ''run.sh'')])" "[(PStr ''execution'', PStr ''run.sh'')]" sample_compiler words]
    by (simp add: demo_directory_def)
qed

end
