(* ===== verification/ObjectStorage.thy ===== *)
theory ObjectStorage
  imports StateMachine Wire "HOL-Library.Sublist" "HOL-Library.AList" "HOL-Library.Word"
begin

text \<open>
  The local object storage of a worker, \<^verbatim>\<open>LocalStorage\<close> of \<^verbatim>\<open>src/sathop/worker/storage.py\<close>: the files under the storage root
  that receivers download. Putting an object moves a file to the path of its key, creating directories; deleting it removes
  the directories that it leaves empty. The MinIO backend is a client of a service and is not modelled.
\<close>

section \<open>The directory\<close>

type_synonym file_bytes = "8 word list"

text \<open>Files and directories below the root, by their path from it. The root itself, the empty path, exists.\<close>

record object_dir =
  od_files :: "(string list \<times> file_bytes) list"
  od_dirs :: "string list set"

definition empty_dir :: object_dir where
  "empty_dir = \<lparr>od_files = [], od_dirs = {}\<rparr>"

datatype storage_error = UnsafeKey value_error | NotADirectory | IsADirectory

definition key_path :: "string list \<Rightarrow> string \<Rightarrow> storage_error + string list" where
  "key_path root_dir key =
     (case safe_join root_dir key of
        Inl e \<Rightarrow> Inl (UnsafeKey e)
      | Inr p \<Rightarrow> Inr (drop (length (resolve_parts [] root_dir)) p))"

definition above :: "string list \<Rightarrow> string list set" where
  "above p = {q \<in> set (prefixes p). q \<noteq> [] \<and> q \<noteq> p}"

definition is_file :: "object_dir \<Rightarrow> string list \<Rightarrow> bool" where
  "is_file st p \<longleftrightarrow> p \<in> fst ` set (od_files st)"

text \<open>
  \<^verbatim>\<open>put\<close>: a destination that is a directory takes the file into itself, under the name of the source (so does \<^verbatim>\<open>shutil.move\<close>),
  and the digest of the destination then fails.
\<close>

definition put_object ::
  "(file_bytes \<Rightarrow> string) \<Rightarrow> string \<Rightarrow> string list \<Rightarrow> string \<Rightarrow> file_bytes \<Rightarrow> string \<Rightarrow> object_dir
   \<Rightarrow> (storage_error + uploaded_object) \<times> object_dir" where
  "put_object sha256 public_base_url root_dir src_name src key st =
     (case key_path root_dir key of
        Inl e \<Rightarrow> (Inl e, st)
      | Inr p \<Rightarrow>
          if \<exists>q \<in> above p. is_file st q then (Inl NotADirectory, st)
          else
            let st1 = st\<lparr>od_dirs := od_dirs st \<union> above p\<rparr>
            in if p = [] \<or> p \<in> od_dirs st1 then
                 let inner = p @ [src_name]
                 in (Inl IsADirectory,
                     if is_file st1 inner \<or> inner \<in> od_dirs st1 then st1
                     else st1\<lparr>od_files := AList.update inner src (od_files st1)\<rparr>)
               else (Inr \<lparr>uo_key = key, uo_url = public_base_url @ ''/'' @ key, uo_sha256 = sha256 src, uo_size = int (length src)\<rparr>,
                     st1\<lparr>od_files := AList.update p src (od_files st1)\<rparr>))"

text \<open>\<^verbatim>\<open>rmdir\<close> fails on a directory that is not empty.\<close>

definition occupied :: "object_dir \<Rightarrow> string list \<Rightarrow> bool" where
  "occupied st q \<longleftrightarrow> (\<exists>f \<in> fst ` set (od_files st). strict_prefix q f) \<or> (\<exists>d \<in> od_dirs st. strict_prefix q d)"

function remove_empty :: "string list \<Rightarrow> object_dir \<Rightarrow> object_dir" where
  "remove_empty q st =
     (if q = [] \<or> q \<notin> od_dirs st \<or> occupied st q then st
      else remove_empty (butlast q) (st\<lparr>od_dirs := od_dirs st - {q}\<rparr>))"
  by pat_completeness auto
termination by (relation "measure (\<lambda>(q, st). length q)") auto

declare remove_empty.simps [simp del]

definition delete_object :: "string list \<Rightarrow> string \<Rightarrow> object_dir \<Rightarrow> (storage_error + unit) \<times> object_dir" where
  "delete_object root_dir key st =
     (case key_path root_dir key of
        Inl e \<Rightarrow> (Inl e, st)
      | Inr p \<Rightarrow>
          if p = [] \<or> p \<in> od_dirs st then (Inl IsADirectory, st)
          else if \<exists>q \<in> above p. is_file st q then (Inl NotADirectory, st)
          else (Inr (), remove_empty (butlast p) (st\<lparr>od_files := AList.delete p (od_files st)\<rparr>)))"

section \<open>The directory is tidy\<close>

text \<open>The directories are those above a file, none is a file, and no name is empty.\<close>

definition parents_of :: "string list set \<Rightarrow> string list set" where
  "parents_of F = {q. q \<noteq> [] \<and> (\<exists>f \<in> F. strict_prefix q f)}"

definition tidy :: "object_dir \<Rightarrow> bool" where
  "tidy st \<longleftrightarrow> od_dirs st = parents_of (fst ` set (od_files st)) \<and> fst ` set (od_files st) \<inter> od_dirs st = {} \<and> [] \<notin> fst ` set (od_files st)"

lemma above_iff: "q \<in> above p \<longleftrightarrow> q \<noteq> [] \<and> strict_prefix q p"
  by (auto simp: above_def strict_prefix_def)

lemma parents_insert: "p \<noteq> [] \<Longrightarrow> parents_of (insert p F) = parents_of F \<union> above p"
  by (auto simp: parents_of_def above_iff)

lemma parents_closed: "q \<in> parents_of F \<Longrightarrow> r \<noteq> [] \<Longrightarrow> prefix r q \<Longrightarrow> r \<in> parents_of F"
  by (auto simp: parents_of_def intro: prefix_order.le_less_trans)

lemma keys_update: "fst ` set (AList.update p c xs) = insert p (fst ` set xs)"
  by (simp add: dom_update)

lemma keys_delete: "fst ` set (AList.delete p xs) = fst ` set xs - {p}"
  by (auto simp: AList.delete_eq)

lemma prefix_butlast: "q \<noteq> [] \<Longrightarrow> prefix r q \<longleftrightarrow> r = q \<or> prefix r (butlast q)"
  by (metis append_butlast_last_id prefix_snoc)

lemma not_prefix_butlast: "q \<noteq> [] \<Longrightarrow> \<not> prefix q (butlast q)"
  by (cases q rule: rev_cases) (auto dest: prefix_length_le)

text \<open>Climbing from a directory removes exactly what has become superfluous above it.\<close>

lemma remove_empty_dirs:
  assumes "od_dirs st = parents_of (fst ` set (od_files st)) \<union> {r. r \<noteq> [] \<and> prefix r q}"
  shows "remove_empty q st = st\<lparr>od_dirs := parents_of (fst ` set (od_files st))\<rparr>"
  using assms
proof (induction q st rule: remove_empty.induct)
  case (1 q st)
  let ?P = "parents_of (fst ` set (od_files st))"
  show ?case
  proof (cases "q = []")
    case True
    with 1(2) show ?thesis by (subst remove_empty.simps) simp
  next
    case False
    then have q: "q \<in> od_dirs st" using 1(2) by simp
    have occ: "occupied st q \<longleftrightarrow> q \<in> ?P"
    proof
      assume "occupied st q"
      then consider f where "f \<in> fst ` set (od_files st)" "strict_prefix q f" | d where "d \<in> od_dirs st" "strict_prefix q d"
        by (auto simp: occupied_def)
      then show "q \<in> ?P"
      proof cases
        case 2
        then have "\<not> prefix d q" by (auto simp: strict_prefix_def dest: prefix_order.antisym)
        then have "d \<in> ?P" using 2(1) 1(2) by auto
        with 2(2) False show ?thesis by (auto intro: parents_closed prefix_order.less_imp_le)
      qed (use False in \<open>auto simp: parents_of_def\<close>)
    qed (auto simp: occupied_def parents_of_def)
    show ?thesis
    proof (cases "q \<in> ?P")
      case True
      then have "{r. r \<noteq> [] \<and> prefix r q} \<subseteq> ?P" by (auto intro: parents_closed)
      with 1(2) have "od_dirs st = ?P" by blast
      with True occ show ?thesis by (subst remove_empty.simps) simp
    next
      case no: False
      have less: "od_dirs st - {q} = ?P \<union> {r. r \<noteq> [] \<and> prefix r (butlast q)}"
        using 1(2) no prefix_butlast [OF False] not_prefix_butlast [OF False] by auto
      have cond: "\<not> (q = [] \<or> q \<notin> od_dirs st \<or> occupied st q)" using False q no occ by blast
      then have "remove_empty q st = remove_empty (butlast q) (st\<lparr>od_dirs := od_dirs st - {q}\<rparr>)" by (simp add: remove_empty.simps [of q st])
      also have "\<dots> = st\<lparr>od_dirs := ?P\<rparr>" using 1(1) [OF cond] less by simp
      finally show ?thesis .
    qed
  qed
qed

lemma remove_empty_tidy: "od_dirs st = parents_of (fst ` set (od_files st)) \<Longrightarrow> remove_empty q st = st"
proof (subst remove_empty.simps)
  assume "od_dirs st = parents_of (fst ` set (od_files st))"
  then have "q \<in> od_dirs st \<Longrightarrow> occupied st q" by (auto simp: occupied_def parents_of_def)
  then show "(if q = [] \<or> q \<notin> od_dirs st \<or> occupied st q then st else remove_empty (butlast q) (st\<lparr>od_dirs := od_dirs st - {q}\<rparr>)) = st"
    by auto
qed

lemma above_butlast: "p \<noteq> [] \<Longrightarrow> above p = {r. r \<noteq> [] \<and> prefix r (butlast p)}"
  using prefix_butlast [of p] not_prefix_butlast [of p] by (auto simp: above_iff strict_prefix_def)

text \<open>What a deletion does to a tidy directory.\<close>

lemma delete_tidy:
  assumes "tidy st" and "p \<noteq> []" and "p \<notin> od_dirs st"
  shows "remove_empty (butlast p) (st\<lparr>od_files := AList.delete p (od_files st)\<rparr>)
    = \<lparr>od_files = AList.delete p (od_files st), od_dirs = parents_of (fst ` set (od_files st) - {p})\<rparr>"
proof (cases "is_file st p")
  case True
  let ?st = "st\<lparr>od_files := AList.delete p (od_files st)\<rparr>"
  have "insert p (fst ` set (od_files st) - {p}) = fst ` set (od_files st)" using True by (auto simp: is_file_def)
  then have "od_dirs ?st = parents_of (fst ` set (od_files ?st)) \<union> {r. r \<noteq> [] \<and> prefix r (butlast p)}"
    using assms(1) parents_insert [OF assms(2), of "fst ` set (od_files st) - {p}"] above_butlast [OF assms(2)]
    by (simp add: tidy_def keys_delete)
  from remove_empty_dirs [OF this] show ?thesis by (simp add: keys_delete)
next
  case False
  then have "fst ` set (od_files st) - {p} = fst ` set (od_files st)" by (auto simp: is_file_def)
  with assms(1) remove_empty_tidy [of "st\<lparr>od_files := AList.delete p (od_files st)\<rparr>" "butlast p"] show ?thesis
    by (simp add: tidy_def keys_delete)
qed

lemma tidy_less: "tidy st \<Longrightarrow> tidy \<lparr>od_files = AList.delete p (od_files st), od_dirs = parents_of (fst ` set (od_files st) - {p})\<rparr>"
proof -
  have "parents_of (F - {p}) \<subseteq> parents_of F" for F by (auto simp: parents_of_def)
  from this [of "fst ` set (od_files st)"] show "tidy st \<Longrightarrow> ?thesis" unfolding tidy_def keys_delete object_dir.simps by blast
qed

lemma tidy_delete:
  assumes "tidy st"
  shows "tidy (snd (delete_object root_dir key st))"
proof (cases "key_path root_dir key")
  case (Inr p)
  show ?thesis
  proof (cases "p = [] \<or> p \<in> od_dirs st \<or> (\<exists>q \<in> above p. is_file st q)")
    case False
    with Inr delete_tidy [OF assms, of p] tidy_less [OF assms, of p] show ?thesis by (simp add: delete_object_def)
  qed (use Inr assms in \<open>auto simp: delete_object_def\<close>)
qed (simp add: delete_object_def assms)

lemma tidy_put_file:
  assumes "tidy st" and "p \<noteq> []" and "\<forall>q \<in> above p. \<not> is_file st q" and "p \<notin> od_dirs st"
  shows "tidy \<lparr>od_files = AList.update p c (od_files st), od_dirs = od_dirs st \<union> above p\<rparr>"
  using assms parents_insert [OF assms(2), of "fst ` set (od_files st)"]
  by (auto simp: tidy_def keys_update is_file_def above_iff)

lemma object_dir_eq: "st\<lparr>od_dirs := D, od_files := F\<rparr> = \<lparr>od_files = F, od_dirs = D\<rparr>" "st\<lparr>od_files := F\<rparr> = \<lparr>od_files = F, od_dirs = od_dirs st\<rparr>"
  for st :: object_dir by (cases st, simp)+

lemma not_own_ancestor: "p \<notin> above p"
  by (simp add: above_iff)

lemma tidy_put:
  assumes "tidy st" and "src_name \<noteq> []"
  shows "tidy (snd (put_object sha base root_dir src_name c key st))"
proof (cases "key_path root_dir key")
  case (Inr p)
  show ?thesis
  proof (cases "\<exists>q \<in> above p. is_file st q")
    case no_file: False
    show ?thesis
    proof (cases "p = [] \<or> p \<in> od_dirs st")
      case False
      with Inr no_file tidy_put_file [OF assms(1), of p c] not_own_ancestor [of p] show ?thesis by (auto simp: put_object_def Let_def object_dir_eq)
    next
      case True
      let ?inner = "p @ [src_name]"
      have up: "above ?inner = above p \<union> (if p = [] then {} else {p})"
        by (auto simp: above_iff strict_prefix_def prefix_Cons)
      have "above p \<subseteq> od_dirs st" 
        using True assms(1) parents_closed [of p "fst ` set (od_files st)"] by (auto simp: tidy_def above_iff strict_prefix_def)
      then have same: "od_dirs st \<union> above p = od_dirs st" by blast
      have "\<forall>q \<in> above ?inner. \<not> is_file st q" using True no_file up assms(1) by (auto simp: is_file_def tidy_def split: if_splits)
      from tidy_put_file [OF assms(1) _ this, of c] have "?inner \<notin> od_dirs st \<Longrightarrow> tidy \<lparr>od_files = AList.update ?inner c (od_files st), od_dirs = od_dirs st \<union> above ?inner\<rparr>"
        by simp
      moreover have "od_dirs st \<union> above ?inner = od_dirs st" using up True same by auto
      ultimately show ?thesis using Inr no_file True assms(1) same by (auto simp: put_object_def Let_def object_dir_eq)
    qed
  qed (use Inr assms in \<open>simp add: put_object_def\<close>)
qed (simp add: put_object_def assms)

section \<open>What is stored\<close>

text \<open>The operations that a worker performs on its storage.\<close>

inductive storage_step :: "(file_bytes \<Rightarrow> string) \<Rightarrow> string \<Rightarrow> string list \<Rightarrow> object_dir \<Rightarrow> object_dir \<Rightarrow> bool" for sha256 base root_dir where
  st_put: "src_name \<noteq> [] \<Longrightarrow> storage_step sha256 base root_dir st (snd (put_object sha256 base root_dir src_name src key st))"
| st_delete: "storage_step sha256 base root_dir st (snd (delete_object root_dir key st))"

interpretation storage: invariant_system "\<lambda>st. st = empty_dir" "storage_step sha256 base root_dir" tidy for sha256 base root_dir
proof unfold_locales
  show "tidy st" if "st = empty_dir" for st using that by (simp add: tidy_def empty_dir_def parents_of_def)
  show "tidy t" if "tidy s" "storage_step sha256 base root_dir s t" for s t
    using that(2, 1) by (cases rule: storage_step.cases) (auto intro: tidy_put tidy_delete)
qed

text \<open>
  C38: What is put can be fetched until it is deleted, and nothing else is touched. In every reachable state of the storage, a
  successful upload returns the digest and the size of the bytes, which are then the file of its key, and no
  other file has changed; if the key was free, deleting it restores the storage, directories included. A deletion removes the file
  of its key and no other, and a directory stands exactly where a file is below it.
\<close>

theorem storage_put_delete:
  assumes "reach (\<lambda>st. st = empty_dir) (storage_step sha256 base root_dir) st" and "key_path root_dir key = Inr p"
    and "put_object sha256 base root_dir src_name src key st = (Inr up, st1)"
  shows "uo_sha256 up = sha256 src \<and> uo_size up = int (length src) \<and> uo_key up = key
    \<and> map_of (od_files st1) = (map_of (od_files st))(p \<mapsto> src)
    \<and> od_dirs st1 = {q. q \<noteq> [] \<and> (\<exists>f \<in> fst ` set (od_files st1). strict_prefix q f)}
    \<and> (\<exists>st2. delete_object root_dir key st1 = (Inr (), st2)
         \<and> map_of (od_files st2) = (map_of (od_files st))(p := None)
         \<and> (is_file st p \<or> od_dirs st2 = od_dirs st))"
proof -
  have ok: "tidy st" using assms(1) by (rule storage.reachable_inv)
  from assms(2, 3) have p: "p \<noteq> []" "p \<notin> od_dirs st" "\<forall>q \<in> above p. \<not> is_file st q"
    and st1: "st1 = \<lparr>od_files = AList.update p src (od_files st), od_dirs = od_dirs st \<union> above p\<rparr>"
    and up: "up = \<lparr>uo_key = key, uo_url = base @ ''/'' @ key, uo_sha256 = sha256 src, uo_size = int (length src)\<rparr>"
    by (auto simp: put_object_def Let_def split: if_splits)
  have ok1: "tidy st1" unfolding st1 using ok p by (intro tidy_put_file) auto
  have free: "p \<notin> od_dirs st1" using p(2) not_own_ancestor by (simp add: st1)
  have "\<forall>q \<in> above p. \<not> is_file st1 q" using p(3) not_own_ancestor [of p] by (auto simp: st1 is_file_def keys_update)
  with delete_tidy [OF ok1 p(1) free] assms(2) p(1) free have del: "delete_object root_dir key st1
      = (Inr (), \<lparr>od_files = AList.delete p (od_files st1), od_dirs = parents_of (fst ` set (od_files st1) - {p})\<rparr>)"
    by (auto simp: delete_object_def)
  have "od_dirs st = parents_of (fst ` set (od_files st1) - {p})" if "\<not> is_file st p"
  proof -
    have "fst ` set (od_files st1) - {p} = fst ` set (od_files st)" using that by (auto simp: st1 keys_update is_file_def)
    with ok show ?thesis by (simp add: tidy_def)
  qed
  moreover have "map_of (AList.delete p (od_files st1)) = (map_of (od_files st))(p := None)"
    by (simp add: st1 delete_conv' update_conv')
  ultimately show ?thesis using ok1 del up by (auto simp: st1 tidy_def parents_of_def update_conv')
qed

theorem storage_put_delete_witness:
  "\<exists>st1 st2. put_object (\<lambda>_. ''h'') ''u'' [''srv''] ''o'' [1, 2] ''b/o.tif'' empty_dir = (Inr \<lparr>uo_key = ''b/o.tif'', uo_url = ''u/b/o.tif'', uo_sha256 = ''h'', uo_size = 2\<rparr>, st1)
     \<and> delete_object [''srv''] ''b/o.tif'' st1 = (Inr (), st2) \<and> od_dirs st2 = {}"
proof -
  have reach: "reach (\<lambda>st. st = empty_dir) (storage_step (\<lambda>_. ''h'') ''u'' [''srv'']) empty_dir" by (rule reach_init) simp
  have key: "key_path [''srv''] ''b/o.tif'' = Inr [''b'', ''o.tif'']" by code_simp
  have "above [''b'', ''o.tif''] = {[''b'']}" by (auto simp: above_def)
  then have "put_object (\<lambda>_. ''h'') ''u'' [''srv''] ''o'' [1, 2] ''b/o.tif'' empty_dir
      = (Inr \<lparr>uo_key = ''b/o.tif'', uo_url = ''u/b/o.tif'', uo_sha256 = ''h'', uo_size = 2\<rparr>, \<lparr>od_files = [([''b'', ''o.tif''], [1, 2])], od_dirs = {[''b'']}\<rparr>)"
    by (simp add: put_object_def key empty_dir_def is_file_def)
  from storage_put_delete [OF reach key this] this show ?thesis by (auto simp: empty_dir_def is_file_def)
qed

text \<open>
  The move of an upload runs in a thread: a deletion of the only other object of its directory between the creation of the
  directory and the move takes the directory away.
\<close>

lemma delete_races_put:
  "delete_object [''srv''] ''b/old'' \<lparr>od_files = [([''b'', ''old''], [1])], od_dirs = {[''b'']}\<rparr> = (Inr (), empty_dir)"
proof -
  have key: "key_path [''srv''] ''b/old'' = Inr [''b'', ''old'']" by code_simp
  have up: "above [''b'', ''old''] = {[''b'']}" by (auto simp: above_def)
  have "tidy \<lparr>od_files = [([''b'', ''old''], [1])], od_dirs = {[''b'']}\<rparr>"
    by (auto simp: tidy_def parents_of_def strict_prefix_def prefix_Cons)
  from delete_tidy [OF this, of "[''b'', ''old'']"] show ?thesis
    by (simp add: delete_object_def key up is_file_def parents_of_def empty_dir_def)
qed

end
