(* ===== verification/Reports.thy ===== *)
theory Reports
  imports ReadModels ReceiverAgent
begin

text \<open>
  The ledger of deliveries as the operator sees it: the filtered list and the export of \<^verbatim>\<open>src/sathop/orchestrator/api/deliveries.py\<close>
  and the CSV files of \<^verbatim>\<open>api/csv_export.py\<close>, with \<^verbatim>\<open>csv.writer\<close> and \<^verbatim>\<open>datetime.isoformat\<close> of Python's library. A reader of
  comma-separated values is defined as the reference that the files are read with.
\<close>

section \<open>Writing\<close>

datatype cell = CNone | CStr string | CInt int

definition cell_str :: "cell \<Rightarrow> string" where
  "cell_str c = (case c of CNone \<Rightarrow> [] | CStr s \<Rightarrow> s | CInt i \<Rightarrow> show_int i)"

definition formula_like :: "string \<Rightarrow> bool" where
  "formula_like text \<longleftrightarrow>
     (case lstrip_where is_space text of [] \<Rightarrow> False | c # _ \<Rightarrow> c \<in> set ''=+-@'')
     \<or> (case text of [] \<Rightarrow> False | c # _ \<Rightarrow> c \<in> {CHR 0x09, CHR 0x0D, CHR 0x0A})"

definition guarded :: "string \<Rightarrow> string" where
  "guarded text = (if formula_like text then CHR 0x27 # text else text)"

text \<open>\<^verbatim>\<open>csv.writer\<close> with its default dialect: quotes where they are needed, and around a lone empty field.\<close>

definition csv_special :: "char \<Rightarrow> bool" where
  "csv_special c \<longleftrightarrow> c \<in> {CHR '','', CHR 0x22, CHR 0x0D, CHR 0x0A}"

definition doubled :: "string \<Rightarrow> string" where
  "doubled s = concat (map (\<lambda>c. if c = CHR 0x22 then [c, c] else [c]) s)"

definition csv_field :: "string \<Rightarrow> string" where
  "csv_field s = (if list_ex csv_special s then CHR 0x22 # doubled s @ [CHR 0x22] else s)"

fun comma_separated :: "string list \<Rightarrow> string" where
  "comma_separated [] = []"
| "comma_separated [s] = csv_field s"
| "comma_separated (s # ss) = csv_field s @ CHR '','' # comma_separated ss"

definition csv_row :: "string list \<Rightarrow> string" where
  "csv_row row = (if row = [[]] then [CHR 0x22, CHR 0x22] else comma_separated row) @ [CHR 0x0D, CHR 0x0A]"

definition encode_csv :: "cell list list \<Rightarrow> string" where
  "encode_csv rows = concat (map (\<lambda>row. csv_row (map (guarded \<circ> cell_str) row)) rows)"

text \<open>The response: the byte order mark, here its three bytes, and the chunks.\<close>

definition csv_response :: "cell list list list \<Rightarrow> string" where
  "csv_response chunks = [CHR 0xEF, CHR 0xBB, CHR 0xBF] @ concat (map encode_csv chunks)"

section \<open>Reading\<close>

datatype csv_mode = RecordStart | FieldStart | Plain | Quoted | QuoteInQuoted | AfterReturn

record csv_reader =
  cs_mode :: csv_mode
  cs_field :: string
  cs_row :: "string list"
  cs_rows :: "string list list"

definition end_record :: "string list \<Rightarrow> char \<Rightarrow> csv_reader \<Rightarrow> csv_reader" where
  "end_record row c st = st\<lparr>cs_mode := (if c = CHR 0x0D then AfterReturn else RecordStart), cs_field := [], cs_row := [], cs_rows := cs_rows st @ [row]\<rparr>"

definition separate :: "char \<Rightarrow> csv_reader \<Rightarrow> csv_reader" where
  "separate c st =
     (if c = CHR '','' then st\<lparr>cs_mode := FieldStart, cs_field := [], cs_row := cs_row st @ [cs_field st]\<rparr>
      else if c \<in> {CHR 0x0D, CHR 0x0A} then end_record (cs_row st @ [cs_field st]) c st
      else st\<lparr>cs_mode := Plain, cs_field := cs_field st @ [c]\<rparr>)"

definition field_start :: "char \<Rightarrow> csv_reader \<Rightarrow> csv_reader" where
  "field_start c st = (if c = CHR 0x22 then st\<lparr>cs_mode := Quoted\<rparr> else separate c st)"

definition record_start :: "char \<Rightarrow> csv_reader \<Rightarrow> csv_reader" where
  "record_start c st = (if c \<in> {CHR 0x0D, CHR 0x0A} then end_record [] c st else field_start c st)"

definition csv_step :: "csv_reader \<Rightarrow> char \<Rightarrow> csv_reader" where
  "csv_step st c =
     (case cs_mode st of
        RecordStart \<Rightarrow> record_start c st
      | FieldStart \<Rightarrow> field_start c st
      | Plain \<Rightarrow> separate c st
      | Quoted \<Rightarrow> if c = CHR 0x22 then st\<lparr>cs_mode := QuoteInQuoted\<rparr> else st\<lparr>cs_field := cs_field st @ [c]\<rparr>
      | QuoteInQuoted \<Rightarrow> if c = CHR 0x22 then st\<lparr>cs_mode := Quoted, cs_field := cs_field st @ [c]\<rparr> else separate c st
      | AfterReturn \<Rightarrow> if c = CHR 0x0A then st\<lparr>cs_mode := RecordStart\<rparr> else record_start c st)"

definition csv_read :: "string \<Rightarrow> string list list" where
  "csv_read s =
     (let st = foldl csv_step \<lparr>cs_mode = RecordStart, cs_field = [], cs_row = [], cs_rows = []\<rparr> s
      in if cs_mode st \<in> {RecordStart, AfterReturn} then cs_rows st else cs_rows st @ [cs_row st @ [cs_field st]])"

section \<open>What is written is read\<close>

lemmas csv_steps = csv_step_def record_start_def field_start_def separate_def end_record_def

lemma read_plain:
  assumes "\<not> list_ex csv_special s" and "cs_mode st = Plain"
  shows "foldl csv_step st s = st\<lparr>cs_field := cs_field st @ s\<rparr>"
  using assms
proof (induction s arbitrary: st)
  case (Cons c s)
  then have "csv_step st c = st\<lparr>cs_field := cs_field st @ [c]\<rparr>" by (cases st) (auto simp: csv_steps csv_special_def)
  with Cons show ?case by simp
qed simp

lemma read_doubled:
  assumes "cs_mode st = Quoted"
  shows "foldl csv_step st (doubled s) = st\<lparr>cs_field := cs_field st @ s\<rparr>"
  using assms
proof (induction s arbitrary: st)
  case Nil
  then show ?case by (simp add: doubled_def)
next
  case (Cons c s)
  have "foldl csv_step st (doubled [c]) = st\<lparr>cs_field := cs_field st @ [c]\<rparr>"
    using Cons.prems by (cases st) (simp add: doubled_def csv_steps)
  moreover have "doubled (c # s) = doubled [c] @ doubled s" by (simp add: doubled_def)
  ultimately show ?case using Cons by simp
qed

text \<open>After a field the reader holds it, in a mode in which the next separator ends it.\<close>

definition field_read :: "string \<Rightarrow> csv_reader \<Rightarrow> csv_reader \<Rightarrow> bool" where
  "field_read s st st' \<longleftrightarrow> cs_field st' = s \<and> cs_row st' = cs_row st \<and> cs_rows st' = cs_rows st
     \<and> (cs_mode st' \<in> {Plain, QuoteInQuoted} \<or> cs_mode st' = FieldStart \<and> s = [])"

lemma read_field:
  assumes "cs_field st = []" and "cs_mode st = FieldStart \<or> cs_mode st = RecordStart \<and> csv_field s \<noteq> []"
  shows "field_read s st (foldl csv_step st (csv_field s))"
proof (cases "list_ex csv_special s")
  case True
  have "csv_step st (CHR 0x22) = st\<lparr>cs_mode := Quoted\<rparr>" using assms(2) by (auto simp: csv_steps)
  then show ?thesis using True assms(1)
    by (simp add: csv_field_def field_read_def read_doubled) (simp add: csv_steps)
next
  case False
  then have field: "csv_field s = s" by (simp add: csv_field_def)
  show ?thesis
  proof (cases s)
    case Nil
    then show ?thesis using assms field by (auto simp: field_read_def)
  next
    case (Cons c s')
    have "csv_step st c = st\<lparr>cs_mode := Plain, cs_field := [c]\<rparr>"
      using assms False Cons by (cases st) (auto simp: csv_steps csv_special_def)
    then show ?thesis using False Cons field by (simp add: field_read_def read_plain)
  qed
qed

text \<open>What ends a field: a comma or the end of the record.\<close>

lemma field_ended:
  assumes "field_read s st st'"
  shows "csv_step st' (CHR '','') = st\<lparr>cs_mode := FieldStart, cs_field := [], cs_row := cs_row st @ [s]\<rparr>"
    and "csv_step (csv_step st' (CHR 0x0D)) (CHR 0x0A)
      = st\<lparr>cs_mode := RecordStart, cs_field := [], cs_row := [], cs_rows := cs_rows st @ [cs_row st @ [s]]\<rparr>"
  using assms by (cases st; cases st'; auto simp: field_read_def csv_steps)+

lemma read_row:
  assumes "cs_field st = []" and "cs_mode st = FieldStart \<or> cs_mode st = RecordStart \<and> row \<noteq> [[]]" and "row \<noteq> []"
  shows "foldl csv_step st (comma_separated row @ [CHR 0x0D, CHR 0x0A])
    = st\<lparr>cs_mode := RecordStart, cs_field := [], cs_row := [], cs_rows := cs_rows st @ [cs_row st @ row]\<rparr>"
  using assms
proof (induction row arbitrary: st rule: comma_separated.induct)
  case (2 s)
  have "cs_mode st = FieldStart \<or> cs_mode st = RecordStart \<and> csv_field s \<noteq> []" using "2.prems" by (auto simp: csv_field_def)
  from read_field [OF "2.prems"(1) this] show ?case by (simp add: field_ended)
next
  case (3 s s' ss)
  let ?st = "st\<lparr>cs_mode := FieldStart, cs_field := [], cs_row := cs_row st @ [s]\<rparr>"
  have "csv_step (foldl csv_step st (csv_field s)) (CHR '','') = ?st"
  proof (cases "cs_mode st = RecordStart \<and> csv_field s = []")
    case True
    then have "s = []" by (auto simp: csv_field_def split: if_splits)
    then have "csv_step st (CHR '','') = ?st" using True "3.prems"(1) by (cases st) (simp add: csv_steps)
    with True show ?thesis by simp
  next
    case False
    then have "cs_mode st = FieldStart \<or> cs_mode st = RecordStart \<and> csv_field s \<noteq> []" using "3.prems"(2) by blast
    from read_field [OF "3.prems"(1) this] show ?thesis by (rule field_ended)
  qed
  moreover have "foldl csv_step ?st (comma_separated (s' # ss) @ [CHR 0x0D, CHR 0x0A])
      = ?st\<lparr>cs_mode := RecordStart, cs_field := [], cs_row := [], cs_rows := cs_rows ?st @ [cs_row ?st @ s' # ss]\<rparr>"
    by (rule "3.IH") simp_all
  ultimately show ?case by simp
qed simp

lemma read_csv_row:
  assumes "cs_field st = []" and "cs_row st = []" and "cs_mode st = RecordStart"
  shows "foldl csv_step st (csv_row row) = st\<lparr>cs_rows := cs_rows st @ [row]\<rparr>"
proof -
  have lone: "csv_step (csv_step (csv_step (csv_step st (CHR 0x22)) (CHR 0x22)) (CHR 0x0D)) (CHR 0x0A) = st\<lparr>cs_rows := cs_rows st @ [[[]]]\<rparr>"
    and blank: "csv_step (csv_step st (CHR 0x0D)) (CHR 0x0A) = st\<lparr>cs_rows := cs_rows st @ [[]]\<rparr>"
    using assms by (cases st; simp add: csv_steps)+
  consider "row = [[]]" | "row = []" | "row \<noteq> [[]]" "row \<noteq> []" by blast
  then show ?thesis
  proof cases
    case 3
    with read_row [OF assms(1), of row] assms show ?thesis by (cases st) (simp add: csv_row_def)
  qed (simp_all add: csv_row_def lone blank)
qed

lemma read_csv_rows:
  assumes "cs_field st = []" and "cs_row st = []" and "cs_mode st = RecordStart"
  shows "foldl csv_step st (concat (map csv_row rows)) = st\<lparr>cs_rows := cs_rows st @ rows\<rparr>"
  using assms by (induction rows arbitrary: st) (simp_all add: read_csv_row)

lemma csv_roundtrip: "csv_read (concat (map csv_row rows)) = rows"
  by (simp add: csv_read_def read_csv_rows)

text \<open>Reading a whole response gives the guarded texts of all its chunks.\<close>

lemma concat_map_concat: "concat (map (\<lambda>xs. concat (map f xs)) xss) = concat (map f (concat xss))"
  by (induction xss) simp_all

lemma csv_response_read: "csv_read (drop 3 (csv_response chunks)) = map (map (guarded \<circ> cell_str)) (concat chunks)"
proof -
  let ?texts = "map (guarded \<circ> cell_str)"
  have "drop 3 (csv_response chunks) = concat (map csv_row (map ?texts (concat chunks)))"
    unfolding csv_response_def encode_csv_def concat_map_concat by (simp add: comp_def)
  then show ?thesis by (simp only: csv_roundtrip)
qed

lemma guarded_harmless: "\<not> formula_like (guarded text)"
  by (simp add: guarded_def) (simp add: formula_like_def lstrip_where_def is_space_def)

section \<open>The ledger, listed and exported\<close>

text \<open>Case folding is that of SQLite, on ASCII; a missing receiver matches no text.\<close>

definition icontains :: "string \<Rightarrow> string option \<Rightarrow> bool" where
  "icontains q column = (case column of None \<Rightarrow> False | Some s \<Rightarrow> contains (map lower q) (map lower s))"

definition delivery_filters ::
  "string \<Rightarrow> ident option \<Rightarrow> time option \<Rightarrow> time option \<Rightarrow> http_error + (delivery_record \<Rightarrow> bool)" where
  "delivery_filters q batch_id since until =
     guard_err (\<not> (since \<noteq> None \<and> until \<noteq> None \<and> the until \<le> the since))
       (HTTPException 422 (''the start must be before the end'', []))
       (Inr (\<lambda>r. (strip q \<noteq> [] \<longrightarrow> list_ex (icontains (strip q))
                    [Some (dr_batch r), Some (dr_batch_name r), Some (dr_granule r), Some (dr_object_key r), dr_receiver r])
                \<and> (batch_id \<noteq> None \<and> batch_id \<noteq> Some [] \<longrightarrow> dr_batch r = the batch_id)
                \<and> (since \<noteq> None \<longrightarrow> the since \<le> dr_delivered_at r)
                \<and> (until \<noteq> None \<longrightarrow> dr_delivered_at r < the until)))"

record delivery_page =
  dp_items :: "(delivery_record \<times> bool) list"
  dp_total :: nat
  dp_total_bytes :: int
  dp_granules :: nat
  dp_batches :: nat

definition newest_first :: "delivery_record list \<Rightarrow> delivery_record list" where
  "newest_first rs = rev (sort_key dr_delivered_at (sort_key dr_id rs))"

definition list_deliveries :: "(delivery_record \<Rightarrow> bool) \<Rightarrow> nat \<Rightarrow> nat \<Rightarrow> orch \<Rightarrow> delivery_page" where
  "list_deliveries c limit offset d =
     (let rs = filter c (deliveries d)
      in \<lparr>dp_items = map (\<lambda>r. (r, get_batch (dr_batch r) d \<noteq> None)) (take limit (drop offset (newest_first rs))),
          dp_total = length rs, dp_total_bytes = sum_list (map dr_size rs),
          dp_granules = length (remdups (map dr_granule rs)), dp_batches = length (remdups (map dr_batch rs))\<rparr>)"

text \<open>\<^verbatim>\<open>isoformat\<close> of a time in UTC: the civil date of a day since 1970, and microseconds unless they are zero.\<close>

definition civil_date :: "int \<Rightarrow> int \<times> int \<times> int" where
  "civil_date day =
     (let z = day + 719468; era = z div 146097; doe = z mod 146097;
          yoe = (doe - doe div 1460 + doe div 36524 - doe div 146096) div 365;
          doy = doe - (365 * yoe + yoe div 4 - yoe div 100);
          mp = (5 * doy + 2) div 153;
          m = (if mp < 10 then mp + 3 else mp - 9)
      in (yoe + era * 400 + (if m \<le> 2 then 1 else 0), m, doy - (153 * mp + 2) div 5 + 1))"

definition padded :: "nat \<Rightarrow> int \<Rightarrow> string" where
  "padded w i = (let s = show_nat (nat i) in replicate (w - length s) (CHR ''0'') @ s)"

definition isoformat :: "time \<Rightarrow> string" where
  "isoformat t =
     (let us = t mod 1000000; s = t div 1000000; (y, m, d) = civil_date (s div 86400); r = s mod 86400
      in padded 4 y @ ''-'' @ padded 2 m @ ''-'' @ padded 2 d @ ''T''
         @ padded 2 (r div 3600) @ '':'' @ padded 2 (r div 60 mod 60) @ '':'' @ padded 2 (r mod 60)
         @ (if us = 0 then [] else ''.'' @ padded 6 us) @ ''+00:00'')"

definition receipt_row :: "delivery_record \<Rightarrow> cell list" where
  "receipt_row r = [CStr (dr_batch r), CStr (dr_batch_name r), CStr (dr_bundle_ref r), CStr (dr_granule r), CStr (dr_object_key r),
     CInt (dr_size r), CStr (dr_sha256 r), (case dr_receiver r of None \<Rightarrow> CNone | Some rid \<Rightarrow> CStr rid), CStr (isoformat (dr_delivered_at r))]"

text \<open>The three title rows, in Chinese, are the argument \<open>titles\<close>.\<close>

definition export_deliveries :: "(time \<Rightarrow> cell list list) \<Rightarrow> time \<Rightarrow> (delivery_record \<Rightarrow> bool) \<Rightarrow> orch \<Rightarrow> (nat \<Rightarrow> orch) \<Rightarrow> string" where
  "export_deliveries titles now c d reads =
     (let upper = max_key dr_id (filter c (deliveries d))
      in csv_response (titles now # map (map receipt_row) (iter_receipt_chunks c upper 500 0 (\<lambda>k. deliveries (reads k)))))"

lemma civil_date_samples: "civil_date 0 = (1970, 1, 1)" "civil_date 11016 = (2000, 2, 29)" "civil_date 47541 = (2100, 3, 1)"
  by code_simp+

lemma newest_first_set [simp]: "set (newest_first rs) = set rs" and newest_first_length [simp]: "length (newest_first rs) = length rs"
  by (simp_all add: newest_first_def)

lemma pages_concat: "concat (map (\<lambda>k. take l (drop (k * l) xs)) [0..<n]) = take (n * l) xs"
proof (induction n)
  case (Suc n)
  have "take (Suc n * l) xs = take (n * l) xs @ take l (drop (n * l) xs)" by (simp add: add.commute [of l] flip: take_add)
  with Suc show ?case by simp
qed simp

text \<open>
  C35: The list and the export of the ledger agree. For any filter, the pages of the list together are the matching receipts, newest
  first, each once, with their number and their bytes as the totals; and the exported file, whatever is delivered while it
  is written, read as comma-separated values, is the title rows and one row for each of the same receipts in the order of
  their identifiers, cell by cell, except that no cell can be taken for a formula.
\<close>

theorem deliveries_listed_and_exported:
  assumes "distinct (map dr_id (deliveries d))" and "\<forall>r \<in> set (deliveries d). 0 < dr_id r" and "0 < limit"
    and "\<And>k. \<exists>later. deliveries (reads k) = deliveries d @ later \<and> (\<forall>r \<in> set later. max_key dr_id (filter c (deliveries d)) < dr_id r)"
    and "dp_total (list_deliveries c limit 0 d) \<le> n * limit"
  shows "map fst (concat (map (\<lambda>k. dp_items (list_deliveries c limit (k * limit) d)) [0..<n])) = newest_first (filter c (deliveries d))
    \<and> dp_total_bytes (list_deliveries c limit 0 d) = sum_list (map dr_size (filter c (deliveries d)))
    \<and> csv_read (drop 3 (export_deliveries titles now c d reads))
        = map (map (guarded \<circ> cell_str)) (titles now @ map receipt_row (sort_key dr_id (filter c (deliveries d))))
    \<and> (\<forall>row \<in> set (csv_read (drop 3 (export_deliveries titles now c d reads))). \<forall>text \<in> set row. \<not> formula_like text)"
proof -
  let ?rs = "filter c (deliveries d)"
  have "map fst (concat (map (\<lambda>k. dp_items (list_deliveries c limit (k * limit) d)) [0..<n]))
      = concat (map (\<lambda>k. take limit (drop (k * limit) (newest_first ?rs))) [0..<n])"
    by (simp add: map_concat comp_def list_deliveries_def Let_def)
  also have "\<dots> = newest_first ?rs" using assms(5) by (simp add: pages_concat list_deliveries_def Let_def)
  finally have pages: "map fst (concat (map (\<lambda>k. dp_items (list_deliveries c limit (k * limit) d)) [0..<n])) = newest_first ?rs" .
  let ?upper = "max_key dr_id ?rs"
  have "selected c ?upper 0 (deliveries (reads k)) = selected c ?upper 0 (deliveries d)" for k
  proof -
    obtain later where "deliveries (reads k) = deliveries d @ later" "\<forall>r \<in> set later. ?upper < dr_id r" using assms(4) by blast
    then show ?thesis by (auto simp: selected_def filter_empty_conv)
  qed
  then have "concat (iter_receipt_chunks c ?upper 500 0 (\<lambda>k. deliveries (reads k))) = sort_key dr_id (selected c ?upper 0 (deliveries d))"
    by (intro iter_receipt_pages) (simp_all add: assms(1))
  moreover have "selected c ?upper 0 (deliveries d) = ?rs"
    unfolding selected_def using assms(2) max_key_ge [of _ ?rs dr_id] by (intro filter_cong) auto
  ultimately have exported: "csv_read (drop 3 (export_deliveries titles now c d reads))
      = map (map (guarded \<circ> cell_str)) (titles now @ map receipt_row (sort_key dr_id ?rs))"
    by (simp add: export_deliveries_def Let_def csv_response_read map_concat [symmetric])
  then show ?thesis using pages guarded_harmless by (auto simp: list_deliveries_def Let_def)
qed

text \<open>Two receipts, one of an object whose key looks like a formula; one delivery more before each further page.\<close>

definition sample_ledger :: "nat \<Rightarrow> orch" where
  "sample_ledger k = empty_orch\<lparr>deliveries := [sample_record 1, (sample_record 2)\<lparr>dr_object_key := ''=1+1''\<rparr>]
     @ map (\<lambda>n. sample_record (int n + 3)) [0..<k]\<rparr>"

theorem deliveries_listed_and_exported_witness:
  "map (\<lambda>row. row ! 4) (csv_read (drop 3 (export_deliveries (\<lambda>now. []) 0 (\<lambda>r. True) (sample_ledger 0) sample_ledger))) = [''k'', CHR 0x27 # ''=1+1'']"
proof -
  note defs = sample_ledger_def sample_record_def
  have "csv_read (drop 3 (export_deliveries (\<lambda>now. []) 0 (\<lambda>r. True) (sample_ledger 0) sample_ledger))
      = map (map (guarded \<circ> cell_str)) ([] @ map receipt_row (sort_key dr_id (filter (\<lambda>r. True) (deliveries (sample_ledger 0)))))"
    by (rule deliveries_listed_and_exported [where limit = 1 and n = 2, THEN conjunct2, THEN conjunct2, THEN conjunct1])
       (auto simp: defs max_key_def list_deliveries_def Let_def)
  then show ?thesis
    by (simp add: defs receipt_row_def cell_str_def guarded_def formula_like_def lstrip_where_def is_space_def)
qed

end
