(* ===== verification/ReadCache.thy ===== *)
theory ReadCache
  imports Complex_Main Prelude
begin

text \<open>
  The cache behind the expensive reads of the dashboard, \<^verbatim>\<open>AsyncTTLCache\<close> of \<^verbatim>\<open>src/sathop/orchestrator/read_cache.py\<close>: one load
  at a time under a lock, whose result serves the requests that come within its time to live. Requests interleave at the
  awaits of \<^verbatim>\<open>get\<close>: the lock, and the load itself, which may succeed, raise or be cancelled.
\<close>

section \<open>The cache\<close>

record 'a ttl_cache =
  tc_ttl :: rat
  tc_entry :: "(rat \<times> 'a) option"
  tc_generation :: nat

definition clear_cache :: "'a ttl_cache \<Rightarrow> 'a ttl_cache" where
  "clear_cache c = c\<lparr>tc_entry := None, tc_generation := tc_generation c + 1\<rparr>"

definition fresh_entry :: "rat \<Rightarrow> 'a ttl_cache \<Rightarrow> 'a option" where
  "fresh_entry now c =
     (case tc_entry c of None \<Rightarrow> None | Some (t, v) \<Rightarrow> if 0 < tc_ttl c \<and> now - t < tc_ttl c then Some v else None)"

definition store_loaded :: "rat \<Rightarrow> nat \<Rightarrow> 'a \<Rightarrow> 'a ttl_cache \<Rightarrow> 'a ttl_cache" where
  "store_loaded now generation v c = (if generation = tc_generation c then c\<lparr>tc_entry := Some (now, v)\<rparr> else c)"

section \<open>Requests\<close>

text \<open>
  A loaded value carries when its load began and ended. A request remembers when it called \<open>get\<close> and how often the
  cache had been cleared by then; an answer, what it got and when. The load in progress holds the lock.
\<close>

record 'a loaded =
  ld_value :: 'a
  ld_generation :: nat
  ld_began :: rat
  ld_ended :: rat

record request =
  rq_id :: nat
  rq_called :: rat
  rq_clears :: nat

record 'a load =
  lo_request :: request
  lo_generation :: nat
  lo_began :: rat

record 'a cache_run =
  cr_now :: rat
  cr_cache :: "'a loaded ttl_cache"
  cr_loading :: "'a load option"
  cr_waiting :: "request list"
  cr_answers :: "(request \<times> 'a loaded \<times> rat) list"

definition call :: "nat \<Rightarrow> 'a cache_run \<Rightarrow> request" where
  "call i r = \<lparr>rq_id = i, rq_called = cr_now r, rq_clears = tc_generation (cr_cache r)\<rparr>"

definition give_answer :: "request \<Rightarrow> 'a loaded \<Rightarrow> 'a cache_run \<Rightarrow> 'a cache_run" where
  "give_answer q v r = r\<lparr>cr_answers := cr_answers r @ [(q, v, cr_now r)]\<rparr>"

text \<open>With the lock in hand: look again, else note the generation and load.\<close>

definition locked :: "request \<Rightarrow> 'a cache_run \<Rightarrow> 'a cache_run" where
  "locked q r =
     (case fresh_entry (cr_now r) (cr_cache r) of
        Some v \<Rightarrow> give_answer q v r
      | None \<Rightarrow> r\<lparr>cr_loading := Some \<lparr>lo_request = q, lo_generation = tc_generation (cr_cache r), lo_began = cr_now r\<rparr>\<rparr>)"

definition get_value :: "request \<Rightarrow> 'a cache_run \<Rightarrow> 'a cache_run" where
  "get_value q r =
     (case fresh_entry (cr_now r) (cr_cache r) of
        Some v \<Rightarrow> give_answer q v r
      | None \<Rightarrow> if cr_loading r = None \<and> cr_waiting r = [] then locked q r else r\<lparr>cr_waiting := cr_waiting r @ [q]\<rparr>)"

definition load_ended :: "'a \<Rightarrow> 'a cache_run \<Rightarrow> 'a cache_run" where
  "load_ended x r =
     (case cr_loading r of
        None \<Rightarrow> r
      | Some l \<Rightarrow>
          let v = \<lparr>ld_value = x, ld_generation = lo_generation l, ld_began = lo_began l, ld_ended = cr_now r\<rparr>
          in give_answer (lo_request l) v
               (r\<lparr>cr_cache := store_loaded (cr_now r) (lo_generation l) v (cr_cache r), cr_loading := None\<rparr>))"

inductive cache_step :: "'a cache_run \<Rightarrow> 'a cache_run \<Rightarrow> bool" where
  cache_get: "cache_step r (get_value (call i r) r)"
| cache_woken: "\<lbrakk>cr_loading r = None; cr_waiting r = q # qs\<rbrakk> \<Longrightarrow> cache_step r (locked q (r\<lparr>cr_waiting := qs\<rparr>))"
| cache_given_up: "cr_waiting r = qs1 @ q # qs2 \<Longrightarrow> cache_step r (r\<lparr>cr_waiting := qs1 @ qs2\<rparr>)"
| cache_loaded: "cr_loading r = Some l \<Longrightarrow> cache_step r (load_ended x r)"
| cache_load_failed: "cr_loading r = Some l \<Longrightarrow> cache_step r (r\<lparr>cr_loading := None\<rparr>)"
| cache_clear: "cache_step r (r\<lparr>cr_cache := clear_cache (cr_cache r)\<rparr>)"
| cache_clock: "0 \<le> dt \<Longrightarrow> cache_step r (r\<lparr>cr_now := cr_now r + dt\<rparr>)"

definition fresh_cache :: "rat \<Rightarrow> 'a cache_run \<Rightarrow> bool" where
  "fresh_cache ttl r \<longleftrightarrow> tc_ttl (cr_cache r) = ttl \<and> tc_entry (cr_cache r) = None \<and> cr_loading r = None \<and> cr_waiting r = []
     \<and> cr_answers r = []"

section \<open>No answer is older than the cache promises\<close>

definition answer_ok :: "rat \<Rightarrow> request \<times> 'a loaded \<times> rat \<Rightarrow> bool" where
  "answer_ok ttl a \<longleftrightarrow> (case a of (q, v, t) \<Rightarrow>
     rq_clears q \<le> ld_generation v \<and> ld_began v \<le> ld_ended v \<and> ld_ended v \<le> t
     \<and> (rq_called q \<le> ld_began v \<or> 0 < ttl \<and> t - ld_ended v < ttl))"

definition cache_run_ok :: "rat \<Rightarrow> 'a cache_run \<Rightarrow> bool" where
  "cache_run_ok ttl r \<longleftrightarrow> tc_ttl (cr_cache r) = ttl
     \<and> (\<forall>t v. tc_entry (cr_cache r) = Some (t, v) \<longrightarrow> ld_generation v = tc_generation (cr_cache r) \<and> ld_ended v = t
          \<and> ld_began v \<le> t \<and> t \<le> cr_now r)
     \<and> (\<forall>l. cr_loading r = Some l \<longrightarrow> rq_clears (lo_request l) \<le> lo_generation l \<and> lo_generation l \<le> tc_generation (cr_cache r)
          \<and> rq_called (lo_request l) \<le> lo_began l \<and> lo_began l \<le> cr_now r)
     \<and> (\<forall>q \<in> set (cr_waiting r). rq_clears q \<le> tc_generation (cr_cache r) \<and> rq_called q \<le> cr_now r)
     \<and> (\<forall>a \<in> set (cr_answers r). answer_ok ttl a)"

lemma locked_ok:
  assumes "cache_run_ok ttl r" and "rq_clears q \<le> tc_generation (cr_cache r)" and "rq_called q \<le> cr_now r"
  shows "cache_run_ok ttl (locked q r)"
  using assms by (auto simp: cache_run_ok_def locked_def fresh_entry_def give_answer_def answer_ok_def split: option.splits if_splits)

interpretation read_cache: invariant_system "fresh_cache ttl" cache_step "cache_run_ok ttl"
proof unfold_locales
  fix r :: "'a cache_run"
  show "cache_run_ok ttl r" if "fresh_cache ttl r" using that by (simp add: fresh_cache_def cache_run_ok_def)
  show "cache_run_ok ttl s" if "cache_step r s" "cache_run_ok ttl r" for s
    using that
  proof (cases rule: cache_step.cases)
    case (cache_get i)
    then show ?thesis using that(2) locked_ok [of ttl r "call i r"]
      by (auto simp: get_value_def call_def)
         (auto simp: cache_run_ok_def fresh_entry_def give_answer_def answer_ok_def split: option.splits if_splits)
  next
    case (cache_woken q qs)
    then show ?thesis using that(2) locked_ok [of ttl "r\<lparr>cr_waiting := qs\<rparr>" q] by (auto simp: cache_run_ok_def)
  next
    case (cache_loaded l x)
    then show ?thesis using that(2)
      by (auto simp: cache_run_ok_def load_ended_def Let_def give_answer_def store_loaded_def answer_ok_def)
  qed (use that(2) in \<open>auto simp: cache_run_ok_def clear_cache_def\<close>)
qed

section \<open>No waiting request is lost\<close>

lemma lock_released: "\<exists>s. cache_step\<^sup>*\<^sup>* r s \<and> cr_loading s = None \<and> cr_waiting s = cr_waiting r"
proof (cases "cr_loading r")
  case (Some l)
  have "cr_loading (load_ended x r) = None \<and> cr_waiting (load_ended x r) = cr_waiting r" for x
    using Some by (simp add: load_ended_def give_answer_def Let_def)
  with cache_loaded [OF Some] show ?thesis by blast
qed blast

lemma head_served:
  assumes "cr_waiting r = q # qs"
  shows "\<exists>s v t. cache_step\<^sup>*\<^sup>* r s \<and> cr_waiting s = qs \<and> (q, v, t) \<in> set (cr_answers s)"
proof -
  obtain s where s: "cache_step\<^sup>*\<^sup>* r s" "cr_loading s = None" "cr_waiting s = q # qs" using lock_released assms by metis
  let ?s = "locked q (s\<lparr>cr_waiting := qs\<rparr>)"
  have run: "cache_step\<^sup>*\<^sup>* r ?s" using s(1) cache_woken [OF s(2,3)] by (rule rtranclp.rtrancl_into_rtrancl)
  show ?thesis
  proof (cases "fresh_entry (cr_now s) (cr_cache s)")
    case None
    let ?l = "\<lparr>lo_request = q, lo_generation = tc_generation (cr_cache s), lo_began = cr_now s\<rparr>"
    have loading: "cr_loading ?s = Some ?l" "cr_waiting ?s = qs" using None by (simp_all add: locked_def)
    from run cache_loaded [OF loading(1)] have "cache_step\<^sup>*\<^sup>* r (load_ended undefined ?s)" by (rule rtranclp.rtrancl_into_rtrancl)
    moreover have "cr_waiting (load_ended undefined ?s) = qs \<and> (\<exists>v t. (q, v, t) \<in> set (cr_answers (load_ended undefined ?s)))"
      using loading by (auto simp: load_ended_def give_answer_def Let_def)
    ultimately show ?thesis by blast
  next
    case (Some v)
    then have "cr_waiting ?s = qs \<and> (q, v, cr_now s) \<in> set (cr_answers ?s)" by (simp add: locked_def give_answer_def)
    with run show ?thesis by blast
  qed
qed

lemma waiters_served:
  assumes "cr_waiting r = qs1 @ q # qs2"
  shows "\<exists>s v t. cache_step\<^sup>*\<^sup>* r s \<and> (q, v, t) \<in> set (cr_answers s)"
  using assms
proof (induction qs1 arbitrary: r)
  case Nil
  then show ?case using head_served [of r q qs2] by auto
next
  case (Cons p qs1)
  then obtain s where s: "cache_step\<^sup>*\<^sup>* r s" "cr_waiting s = qs1 @ q # qs2" using head_served [of r p "qs1 @ q # qs2"] by auto
  from Cons.IH [OF s(2)] obtain s' v t where "cache_step\<^sup>*\<^sup>* s s'" "(q, v, t) \<in> set (cr_answers s')" by blast
  with s(1) show ?case by (meson rtranclp_trans)
qed

text \<open>
  C40: The cache never serves what it must not. However requests, loads, failures, cancellations and clearings interleave, every
  answer is the result of a load that the cache had begun after every clearing that preceded the request; the load began after
  the request, or it had ended less than the time to live before the answer; without a time to live nothing is
  reused. And a request that waits for the lock can always still be answered.
\<close>

theorem cache_never_stale:
  assumes "reach (fresh_cache ttl) cache_step r"
  shows "(\<forall>(q, v, t) \<in> set (cr_answers r). rq_clears q \<le> ld_generation v
      \<and> (rq_called q \<le> ld_began v \<or> 0 < ttl \<and> ld_ended v \<le> t \<and> t < ld_ended v + ttl))
    \<and> (\<forall>q \<in> set (cr_waiting r). \<exists>s v t. cache_step\<^sup>*\<^sup>* r s \<and> (q, v, t) \<in> set (cr_answers s))"
proof -
  have "\<forall>a \<in> set (cr_answers r). answer_ok ttl a" using read_cache.reachable_inv [OF assms] by (simp add: cache_run_ok_def)
  then have "\<forall>(q, v, t) \<in> set (cr_answers r). rq_clears q \<le> ld_generation v
      \<and> (rq_called q \<le> ld_began v \<or> 0 < ttl \<and> ld_ended v \<le> t \<and> t < ld_ended v + ttl)"
    by (fastforce simp: answer_ok_def)
  moreover have "\<exists>s v t. cache_step\<^sup>*\<^sup>* r s \<and> (q, v, t) \<in> set (cr_answers s)" if "q \<in> set (cr_waiting r)" for q
    using split_list [OF that] waiters_served by metis
  ultimately show ?thesis by blast
qed

text \<open>A load, and a second request within the time to live.\<close>

definition quiet_cache :: "nat cache_run" where
  "quiet_cache = \<lparr>cr_now = 0, cr_cache = \<lparr>tc_ttl = 5, tc_entry = None, tc_generation = 0\<rparr>, cr_loading = None, cr_waiting = [], cr_answers = []\<rparr>"

definition elapsed :: "rat \<Rightarrow> 'a cache_run \<Rightarrow> 'a cache_run" where
  "elapsed dt r = r\<lparr>cr_now := cr_now r + dt\<rparr>"

definition issued_get :: "nat \<Rightarrow> 'a cache_run \<Rightarrow> 'a cache_run" where
  "issued_get i r = get_value (call i r) r"

definition hit_run :: "nat cache_run" where
  "hit_run = issued_get 2 (elapsed 3 (load_ended 7 (issued_get 1 quiet_cache)))"

theorem cache_never_stale_witness:
  "map (\<lambda>(q, v, t). (rq_id q, ld_value v, t)) (cr_answers hit_run) = [(1, 7, 0), (2, 7, 3)]
   \<and> list_all (\<lambda>(q, v, t). rq_clears q \<le> ld_generation v
        \<and> (rq_called q \<le> ld_began v \<or> ld_ended v \<le> t \<and> t < ld_ended v + 5)) (cr_answers hit_run)"
proof
  note defs = hit_run_def issued_get_def elapsed_def quiet_cache_def get_value_def call_def locked_def fresh_entry_def load_ended_def give_answer_def store_loaded_def Let_def
  have "reach (fresh_cache 5) cache_step quiet_cache" by (rule reach_init) (simp add: fresh_cache_def quiet_cache_def)
  then have "reach (fresh_cache 5) cache_step (issued_get 1 quiet_cache)" unfolding issued_get_def by (rule reach_step) (rule cache_get)
  moreover have "cr_loading (issued_get 1 quiet_cache) = Some \<lparr>lo_request = call 1 quiet_cache, lo_generation = 0, lo_began = 0\<rparr>"
    by (simp add: defs)
  ultimately have "reach (fresh_cache 5) cache_step (load_ended 7 (issued_get 1 quiet_cache))" by (blast intro: reach_step cache_loaded)
  then have "reach (fresh_cache 5) cache_step (elapsed 3 (load_ended 7 (issued_get 1 quiet_cache)))"
    unfolding elapsed_def by (rule reach_step) (simp add: cache_clock)
  then have "reach (fresh_cache 5) cache_step hit_run" unfolding hit_run_def issued_get_def [of 2] by (rule reach_step) (rule cache_get)
  from cache_never_stale [OF this]
  show "list_all (\<lambda>(q, v, t). rq_clears q \<le> ld_generation v
      \<and> (rq_called q \<le> ld_began v \<or> ld_ended v \<le> t \<and> t < ld_ended v + 5)) (cr_answers hit_run)"
    by (auto simp: list_all_iff)
  show "map (\<lambda>(q, v, t). (rq_id q, ld_value v, t)) (cr_answers hit_run) = [(1, 7, 0), (2, 7, 3)]" by (simp add: defs)
qed

end
