(* ===== verification/Templates.thy ===== *)
theory Templates
  imports Database Wire
begin

text \<open>
  The presets of an operator, \<^verbatim>\<open>src/sathop/orchestrator/api/templates.py\<close>: a table of its own, whose rows refer to bundles and receivers
  at the moment they are saved. The state of a handler is the table, beside the tables of the orchestrator, which it only
  reads.
\<close>

section \<open>The input\<close>

record template_input =
  ti_name :: string
  ti_bundle_ref :: string
  ti_target :: "ident option"
  ti_env :: "(string \<times> string) list"

definition trim_labels :: "template_input \<Rightarrow> template_input" where
  "trim_labels t = t\<lparr>ti_name := strip (ti_name t), ti_bundle_ref := strip (ti_bundle_ref t), ti_target := map_option strip (ti_target t)\<rparr>"

text \<open>Validation of a request body, after the trimming; \<open>env_bytes\<close> is the length of the environment as JSON.\<close>

definition bounded_input :: "((string \<times> string) list \<Rightarrow> nat) \<Rightarrow> template_input \<Rightarrow> bool" where
  "bounded_input env_bytes t \<longleftrightarrow> 1 \<le> length (ti_name t) \<and> length (ti_name t) \<le> 100
     \<and> 1 \<le> length (ti_bundle_ref t) \<and> length (ti_bundle_ref t) \<le> 200
     \<and> (case ti_target t of None \<Rightarrow> True | Some r \<Rightarrow> length r \<le> 200)
     \<and> length (ti_env t) \<le> 50 \<and> env_bytes (ti_env t) \<le> 16384"

definition template_body :: "((string \<times> string) list \<Rightarrow> nat) \<Rightarrow> template_input \<Rightarrow> http_error + template_input" where
  "template_body env_bytes raw =
     (let t = trim_labels raw in guard_err (bounded_input env_bytes t) (HTTPException 422 (''validation error'', [])) (Inr t))"

definition validate_references :: "orch \<Rightarrow> template_input \<Rightarrow> http_error + unit" where
  "validate_references d req =
     (case parse_bundle_ref (ti_bundle_ref req) of
        Inl e \<Rightarrow> Inl (HTTPException 422 (''select a registered bundle'', []))
      | Inr (name, version) \<Rightarrow>
          guard_err (get_bundle name version d \<noteq> None) (HTTPException 422 (''the bundle is gone'', []))
            (guard_err (case ti_target req of None \<Rightarrow> True | Some r \<Rightarrow> r = [] \<or> get_receiver r d \<noteq> None)
               (HTTPException 422 (''the receiver is gone'', [])) (Inr ())))"

section \<open>The table\<close>

record template =
  tt_id :: ident
  tt_input :: template_input
  tt_created_at :: time
  tt_updated_at :: time

definition template_name :: "template \<Rightarrow> string" where
  "template_name t = ti_name (tt_input t)"

definition save_template :: "template \<Rightarrow> template list \<Rightarrow> http_error + (template \<times> template list)" where
  "save_template row others =
     (if template_name row \<in> template_name ` set others \<or> tt_id row \<in> tt_id ` set others then Inl (HTTPException 409 (''a template of this name exists'', []))
      else Inr (row, others @ [row]))"

definition create_template ::
  "((string \<times> string) list \<Rightarrow> nat) \<Rightarrow> time \<Rightarrow> ident \<Rightarrow> template_input \<Rightarrow> orch \<Rightarrow> template list \<Rightarrow> http_error + (template \<times> template list)" where
  "create_template env_bytes now tid raw d ts =
     and_then (template_body env_bytes raw) (\<lambda>req.
     and_then (validate_references d req) (\<lambda>_.
       save_template \<lparr>tt_id = tid, tt_input = req, tt_created_at = now, tt_updated_at = now\<rparr> ts))"

text \<open>The row may have any place in the table: the list is ordered when it is read.\<close>

definition update_template ::
  "((string \<times> string) list \<Rightarrow> nat) \<Rightarrow> time \<Rightarrow> ident \<Rightarrow> template_input \<Rightarrow> orch \<Rightarrow> template list \<Rightarrow> http_error + (template \<times> template list)" where
  "update_template env_bytes now tid raw d ts =
     and_then (template_body env_bytes raw) (\<lambda>req.
     and_then (get_or_404 (get_row tt_id tid ts) ''template not found'') (\<lambda>row.
     and_then (validate_references d req) (\<lambda>_.
       save_template (row\<lparr>tt_input := req, tt_updated_at := now\<rparr>) (del_where (\<lambda>t. tt_id t = tid) ts))))"

definition delete_template :: "ident \<Rightarrow> template list \<Rightarrow> http_error + template list" where
  "delete_template tid ts =
     and_then (get_or_404 (get_row tt_id tid ts) ''template not found'') (\<lambda>row. Inr (del_where (\<lambda>t. tt_id t = tid) ts))"

section \<open>The table is well formed\<close>

inductive template_step :: "((string \<times> string) list \<Rightarrow> nat) \<Rightarrow> template list \<Rightarrow> template list \<Rightarrow> bool"
  for env_bytes :: "(string \<times> string) list \<Rightarrow> nat" where
  tpl_create: "create_template env_bytes now tid raw d ts = Inr (row, ts') \<Longrightarrow> template_step env_bytes ts ts'"
| tpl_update: "update_template env_bytes now tid raw d ts = Inr (row, ts') \<Longrightarrow> template_step env_bytes ts ts'"
| tpl_delete: "delete_template tid ts = Inr ts' \<Longrightarrow> template_step env_bytes ts ts'"

definition templates_ok :: "((string \<times> string) list \<Rightarrow> nat) \<Rightarrow> template list \<Rightarrow> bool" where
  "templates_ok env_bytes ts \<longleftrightarrow> distinct (map tt_id ts) \<and> distinct (map template_name ts)
     \<and> (\<forall>t \<in> set ts. bounded_input env_bytes (tt_input t) \<and> strip (template_name t) = template_name t
          \<and> (\<exists>nv. parse_bundle_ref (ti_bundle_ref (tt_input t)) = Inr nv))"

lemma strip_idem: "strip (strip s) = strip s"
proof (cases "strip s = []")
  case True
  have "strip [] = []" by (simp add: strip_def lstrip_where_def rstrip_where_def)
  with True show ?thesis by (simp only: True)
qed (rule strip_id, use strip_ends in blast)

lemma body_ok:
  assumes "template_body env_bytes raw = Inr req" and "validate_references d req = Inr ()"
  shows "bounded_input env_bytes req \<and> strip (ti_name req) = ti_name req \<and> (\<exists>nv. parse_bundle_ref (ti_bundle_ref req) = Inr nv)"
  using assms by (auto simp: template_body_def trim_labels_def Let_def strip_idem validate_references_def split: sum.splits)

lemma save_ok:
  assumes "templates_ok env_bytes ts" and "save_template row ts = Inr (r, ts')"
    and "bounded_input env_bytes (tt_input row) \<and> strip (template_name row) = template_name row
       \<and> (\<exists>nv. parse_bundle_ref (ti_bundle_ref (tt_input row)) = Inr nv)"
  shows "templates_ok env_bytes ts'"
  using assms by (auto simp: templates_ok_def save_template_def split: if_splits)

lemma get_row_snoc: "key r \<noteq> k \<Longrightarrow> get_row key k (rs @ [r]) = get_row key k rs"
  by (induction rs) (simp_all add: get_row_def)

lemma del_template_ok: "templates_ok env_bytes ts \<Longrightarrow> templates_ok env_bytes (del_where p ts)"
  by (auto simp: templates_ok_def intro: distinct_del_where)

interpretation template_table: invariant_system "\<lambda>ts. ts = []" "template_step env_bytes" "templates_ok env_bytes"
proof unfold_locales
  show "templates_ok env_bytes ts" if "ts = []" for ts using that by (simp add: templates_ok_def)
  show "templates_ok env_bytes ts'" if ok: "templates_ok env_bytes ts" and "template_step env_bytes ts ts'" for ts ts'
    using that(2)
  proof (cases rule: template_step.cases)
    case (tpl_create now tid raw d row)
    then show ?thesis using save_ok [OF ok] body_ok by (auto simp: create_template_def template_name_def)
  next
    case (tpl_update now tid raw d row)
    then show ?thesis using save_ok [OF del_template_ok [OF ok]] body_ok by (auto simp: update_template_def template_name_def)
  next
    case (tpl_delete tid)
    then show ?thesis using del_template_ok [OF ok] by (auto simp: delete_template_def)
  qed
qed

text \<open>
  What an operator saves is what is there: an update changes the row of its identifier only and keeps its
  creation time, no two rows of a reachable table share a name, and a refused request changes nothing.
\<close>

theorem template_updated:
  assumes "reach (\<lambda>ts. ts = []) (template_step env_bytes) ts" and "update_template env_bytes now tid raw d ts = Inr (row, ts')"
  shows "get_row tt_id tid ts' = Some row \<and> tt_input row = trim_labels raw \<and> tt_updated_at row = now
    \<and> (\<exists>old. get_row tt_id tid ts = Some old \<and> tt_created_at row = tt_created_at old)
    \<and> (\<forall>k. k \<noteq> tid \<longrightarrow> get_row tt_id k ts' = get_row tt_id k ts)
    \<and> distinct (map template_name ts') \<and> length ts' = length ts"
proof -
  from assms(2) obtain req old where req: "template_body env_bytes raw = Inr req" and old: "get_row tt_id tid ts = Some old"
    and saved: "save_template (old\<lparr>tt_input := req, tt_updated_at := now\<rparr>) (del_where (\<lambda>t. tt_id t = tid) ts) = Inr (row, ts')"
    by (auto simp: update_template_def simp del: get_row_None)
  have row: "row = old\<lparr>tt_input := req, tt_updated_at := now\<rparr>" and ts': "ts' = del_where (\<lambda>t. tt_id t = tid) ts @ [row]"
    using saved by (auto simp: save_template_def split: if_splits)
  have tid: "tt_id row = tid" "old \<in> set ts" "tt_id old = tid" using get_row_Some [OF old] by (simp_all add: row)
  have step: "template_step env_bytes ts ts'" using assms(2) by (rule tpl_update)
  have ok: "templates_ok env_bytes ts" "templates_ok env_bytes ts'"
    using template_table.reachable_inv [OF assms(1)] template_table.reachable_inv [OF reach_step [OF assms(1) step]] by blast+
  have "get_row tt_id (tt_id row) ts' = Some row"
    by (rule get_row_unique) (use ok(2) in \<open>simp_all add: templates_ok_def ts'\<close>)
  then have new: "get_row tt_id tid ts' = Some row" unfolding tid(1) .
  have others: "get_row tt_id k ts' = get_row tt_id k ts" if "k \<noteq> tid" for k
  proof -
    have "get_row tt_id k ts' = get_row tt_id k (del_where (\<lambda>t. tt_id t = tid) ts)"
      unfolding ts' using that tid(1) by (simp add: get_row_snoc)
    also have "\<dots> = get_row tt_id k ts" using that by (intro get_row_del_where) simp
    finally show ?thesis .
  qed
  have "row_count (\<lambda>t. tt_id t = tid) ts = 1" using row_count_key [of tt_id ts old "\<lambda>_. True"] ok(1) tid(2,3) by (simp add: templates_ok_def)
  then have len: "length ts' = length ts" using length_del_where [of "\<lambda>t. tt_id t = tid" ts] by (simp add: ts')
  have "req = trim_labels raw" using req by (auto simp: template_body_def Let_def)
  with new others len ok(2) old row show ?thesis by (auto simp: templates_ok_def)
qed

text \<open>A template is created, then renamed.\<close>

definition demo_input :: "string \<Rightarrow> template_input" where
  "demo_input n = \<lparr>ti_name = n, ti_bundle_ref = ''orch:x@1'', ti_target = None, ti_env = []\<rparr>"

definition demo_shelf :: orch where
  "demo_shelf = empty_orch\<lparr>bundles := [\<lparr>bn_name = ''x'', bn_version = ''1'', bn_sha256 = [], bn_size = 1, bn_manifest = PNone,
     bn_description = None, bn_uploaded_at = 0\<rparr>]\<rparr>"

lemma demo_reference: "validate_references demo_shelf (demo_input n) = Inr ()"
proof -
  have "parse_bundle_ref ''orch:x@1'' = Inr (''x'', ''1'')" by code_simp
  then show ?thesis by (simp add: validate_references_def demo_input_def demo_shelf_def get_bundle_def get_row_def)
qed

lemma demo_body: "template_body (\<lambda>e. 2) (demo_input ''a'') = Inr (demo_input ''a'')" "template_body (\<lambda>e. 2) (demo_input ''b'') = Inr (demo_input ''b'')"
  by code_simp+

theorem template_updated_witness:
  "\<exists>row ts'. update_template (\<lambda>e. 2) 9 ''t'' (demo_input ''b'') demo_shelf [\<lparr>tt_id = ''t'', tt_input = demo_input ''a'', tt_created_at = 5, tt_updated_at = 5\<rparr>]
     = Inr (row, ts') \<and> template_name row = ''b'' \<and> tt_created_at row = 5 \<and> length ts' = 1"
proof -
  let ?ts = "[\<lparr>tt_id = ''t'', tt_input = demo_input ''a'', tt_created_at = 5, tt_updated_at = 5\<rparr>]"
  have "create_template (\<lambda>e. 2) 5 ''t'' (demo_input ''a'') demo_shelf [] = Inr (hd ?ts, ?ts)"
    by (simp add: create_template_def demo_body demo_reference save_template_def)
  then have step: "template_step (\<lambda>e. 2) [] ?ts" by (rule tpl_create)
  have "reach (\<lambda>ts. ts = []) (template_step (\<lambda>e. 2)) []" by (rule reach_init) simp
  then have reach: "reach (\<lambda>ts. ts = []) (template_step (\<lambda>e. 2)) ?ts" using step by (rule reach_step)
  let ?row = "\<lparr>tt_id = ''t'', tt_input = demo_input ''b'', tt_created_at = 5, tt_updated_at = 9\<rparr>"
  have upd: "update_template (\<lambda>e. 2) 9 ''t'' (demo_input ''b'') demo_shelf ?ts = Inr (?row, [?row])"
    by (simp add: update_template_def demo_body demo_reference save_template_def get_row_def del_where_def)
  have "length [?row] = length ?ts" using template_updated [OF reach upd] by blast
  with upd show ?thesis by (simp add: template_name_def demo_input_def)
qed

end
