(* ===== verification/AgentLifecycle.thy ===== *)
theory AgentLifecycle
  imports ReceiverAgent
begin

text \<open>
  How an agent ends: \<^verbatim>\<open>src/sathop/shared/agent_lifecycle.py\<close>. The watchdog of a drain waits until a drain begins and ends the agent when
  nothing is in flight, or at the deadline; \<open>run_agent\<close> turns the end of the tasks into the exit of the process. The watchdog of a
  receiver is composed with its pull loop.
\<close>

section \<open>The watchdog\<close>

definition DRAIN_POLL_INTERVAL_SEC :: rat where
  "DRAIN_POLL_INTERVAL_SEC = 1"

text \<open>What the watchdog sees when it looks for the \<open>k\<close>-th time: the clock, whether the agent drains, and how much is in flight.\<close>

record surroundings =
  sr_clock :: "nat \<Rightarrow> rat"
  sr_draining :: "nat \<Rightarrow> bool"
  sr_active :: "nat \<Rightarrow> nat"

datatype drain_end = Drained | TimedOut nat

text \<open>Both loops sleep between two looks, so each may go on for ever unless the clock or the agent ends it.\<close>

partial_function (option) await_drain :: "surroundings \<Rightarrow> nat \<Rightarrow> nat option" where
  "await_drain s k = (if sr_draining s k then Some k else await_drain s (Suc k))"

partial_function (option) watch_drain :: "surroundings \<Rightarrow> rat \<Rightarrow> nat \<Rightarrow> (nat \<times> drain_end) option" where
  "watch_drain s deadline k =
     (if sr_clock s k < deadline then
        if sr_active s k = 0 then Some (k, Drained) else watch_drain s deadline (Suc k)
      else Some (k, TimedOut (sr_active s k)))"

definition drain_watchdog :: "surroundings \<Rightarrow> rat \<Rightarrow> (nat \<times> drain_end) option" where
  "drain_watchdog s timeout_sec =
     (case await_drain s 0 of
        None \<Rightarrow> None
      | Some k \<Rightarrow> watch_drain s (sr_clock s k + timeout_sec) (Suc k))"

lemma await_found:
  assumes "sr_draining s k" and "\<forall>i < k. \<not> sr_draining s i" and "i \<le> k"
  shows "await_drain s i = Some k"
  using assms(3)
proof (induction "k - i" arbitrary: i)
  case 0
  with assms(1) show ?case by (simp add: await_drain.simps [of s i])
next
  case (Suc n)
  then have "i < k" and "await_drain s (Suc i) = Some k" by simp_all
  with assms(2) show ?case by (simp add: await_drain.simps [of s i])
qed

text \<open>Time passes: the clock never goes back, and two looks of a loop are at least a sleep apart.\<close>

definition ticking :: "nat \<Rightarrow> surroundings \<Rightarrow> bool" where
  "ticking k s \<longleftrightarrow> sr_clock s k \<le> sr_clock s (Suc k) \<and> (\<forall>j > k. sr_clock s j + DRAIN_POLL_INTERVAL_SEC \<le> sr_clock s (Suc j))"

lemma ticking_advance: "ticking k s \<Longrightarrow> sr_clock s (Suc k) + of_nat n \<le> sr_clock s (Suc k + n)"
proof (induction n)
  case (Suc n)
  then have "sr_clock s (Suc k + n) + 1 \<le> sr_clock s (Suc (Suc k + n))" by (simp add: ticking_def DRAIN_POLL_INTERVAL_SEC_def)
  with Suc show ?case by simp
qed simp

definition watch_ended :: "surroundings \<Rightarrow> rat \<Rightarrow> nat \<Rightarrow> nat \<Rightarrow> drain_end \<Rightarrow> bool" where
  "watch_ended s deadline k j e \<longleftrightarrow> k \<le> j \<and> (\<forall>i. k \<le> i \<and> i < j \<longrightarrow> sr_clock s i < deadline \<and> sr_active s i \<noteq> 0)
     \<and> (case e of Drained \<Rightarrow> sr_active s j = 0 \<and> sr_clock s j < deadline | TimedOut n \<Rightarrow> deadline \<le> sr_clock s j \<and> n = sr_active s j)"

lemma watch_ends:
  assumes "deadline \<le> sr_clock s (k + n)"
  shows "\<exists>j e. watch_drain s deadline k = Some (j, e) \<and> watch_ended s deadline k j e \<and> j \<le> k + n"
  using assms
proof (induction n arbitrary: k)
  case 0
  then show ?case by (simp add: watch_drain.simps [of s deadline k] watch_ended_def)
next
  case (Suc n)
  show ?case
  proof (cases "sr_clock s k < deadline \<and> sr_active s k \<noteq> 0")
    case True
    have "deadline \<le> sr_clock s (Suc k + n)" using Suc.prems by simp
    from Suc.IH [OF this] obtain j e
      where je: "watch_drain s deadline (Suc k) = Some (j, e)" "watch_ended s deadline (Suc k) j e" "j \<le> Suc k + n" by blast
    have "sr_clock s i < deadline \<and> sr_active s i \<noteq> 0" if "k \<le> i" "i < j" for i
      using that True je(2) by (cases "i = k") (auto simp: watch_ended_def)
    with je(2) have "watch_ended s deadline k j e" by (simp add: watch_ended_def)
    with True je show ?thesis by (intro exI [of _ j] exI [of _ e]) (simp add: watch_drain.simps [of s deadline k])
  next
    case False
    then show ?thesis by (auto simp: watch_drain.simps [of s deadline k] watch_ended_def)
  qed
qed

section \<open>The process\<close>

text \<open>What the tasks of an agent may raise, and what becomes of the process; several tasks may fail at once.\<close>

datatype task_end = AuthTokenInvalid | VersionTooOld | GracefulAgentExit | TaskError string

datatype process_end = Returned | ExitCode nat | Raised "task_end list"

definition run_agent :: "task_end list \<Rightarrow> process_end" where
  "run_agent raised =
     (let rest = filter (\<lambda>t. t \<notin> {AuthTokenInvalid, VersionTooOld, GracefulAgentExit}) raised
      in if rest \<noteq> [] then Raised rest
         else if AuthTokenInvalid \<in> set raised \<or> VersionTooOld \<in> set raised then ExitCode 1 else Returned)"

text \<open>The process ends without an error exactly if nothing but the end of a drain was raised.\<close>

lemma run_agent_returned: "run_agent raised = Returned \<longleftrightarrow> set raised \<subseteq> {GracefulAgentExit}"
  by (auto simp: run_agent_def Let_def filter_empty_conv)

text \<open>
  C28: A drain ends. As long as the clock ticks, the watchdog returns after a drain has begun: at the first look that finds nothing in flight, before
  the deadline, or else at the first look after the deadline, which is at most a poll and the latency of a sleep later, and it
  looks no more often than there are seconds in its timeout, but for two.
\<close>

theorem drain_ends:
  assumes "sr_draining s k" and "\<forall>i < k. \<not> sr_draining s i" and "ticking k s" and "0 < timeout_sec"
    and "\<forall>j \<ge> k. sr_clock s (Suc j) \<le> sr_clock s j + DRAIN_POLL_INTERVAL_SEC + lag"
  shows "\<exists>j e. drain_watchdog s timeout_sec = Some (j, e) \<and> k < j \<and> j \<le> k + nat \<lceil>timeout_sec\<rceil> + 1
    \<and> sr_clock s j < sr_clock s k + timeout_sec + DRAIN_POLL_INTERVAL_SEC + lag
    \<and> (case e of
         Drained \<Rightarrow> sr_active s j = 0 \<and> sr_clock s j < sr_clock s k + timeout_sec
       | TimedOut n \<Rightarrow> n = sr_active s j \<and> sr_clock s k + timeout_sec \<le> sr_clock s j)
    \<and> (\<forall>i. k < i \<and> i < j \<longrightarrow> sr_active s i \<noteq> 0)"
proof -
  let ?deadline = "sr_clock s k + timeout_sec" and ?n = "nat \<lceil>timeout_sec\<rceil>"
  have "timeout_sec \<le> of_nat ?n" by (rule of_nat_ceiling)
  moreover have "sr_clock s (Suc k) + of_nat ?n \<le> sr_clock s (Suc k + ?n)" using assms(3) by (rule ticking_advance)
  moreover have "sr_clock s k \<le> sr_clock s (Suc k)" using assms(3) by (simp add: ticking_def)
  ultimately have "?deadline \<le> sr_clock s (Suc k + ?n)" by linarith
  from watch_ends [OF this] obtain j e
    where watch: "watch_drain s ?deadline (Suc k) = Some (j, e)" and ended: "watch_ended s ?deadline (Suc k) j e" and j: "j \<le> Suc k + ?n" by blast
  have "await_drain s 0 = Some k" using assms(1,2) by (intro await_found) simp_all
  with watch have run: "drain_watchdog s timeout_sec = Some (j, e)" by (simp add: drain_watchdog_def)
  have "k < j" using ended by (simp add: watch_ended_def)
  then obtain i where i: "j = Suc i" "k \<le> i" by (cases j) auto
  have "sr_clock s i < ?deadline" using ended i assms(4) by (cases "i = k") (auto simp: watch_ended_def)
  then have "sr_clock s j < ?deadline + DRAIN_POLL_INTERVAL_SEC + lag" using assms(5) i by fastforce
  with run ended j \<open>k < j\<close> show ?thesis
    by (intro exI [of _ j] exI [of _ e]) (auto simp: watch_ended_def split: drain_end.splits)
qed

section \<open>The drain of a receiver\<close>

text \<open>
  The receiver between two looks makes any number of steps. Once it drains and no request is under way, nothing more is taken in
  hand, so when the watchdog finds nothing in flight, that is final.
\<close>

lemma drain_takes_nothing:
  assumes "pull_step cfg p p'" and "pl_draining p" and "pl_asked p = None"
  shows "pl_draining p' \<and> pl_asked p' = None \<and> pl_inflight p' \<subseteq> pl_inflight p"
  using assms by (cases rule: pull_step.cases)
    (auto simp: ask_def pull_failed_def take_item_def finish_item_def start_drain_def split: list.splits)

lemma drained_stays:
  assumes "(pull_step cfg)\<^sup>*\<^sup>* p p'" and "pl_draining p" and "pl_asked p = None"
  shows "pl_inflight p' \<subseteq> pl_inflight p"
proof -
  from assms(1) have "pl_draining p' \<and> pl_asked p' = None \<and> pl_inflight p' \<subseteq> pl_inflight p"
    by (induction rule: rtranclp_induct) (use assms(2,3) drain_takes_nothing in blast)+
  then show ?thesis by blast
qed

text \<open>
  With a request under way it is not: the watchdog may find nothing in flight and end the process while the orchestrator has
  claimed objects for the answer, which wait for their claims to expire.
\<close>

lemma drain_orphans_claims:
  assumes "0 < as_concurrent_pulls cfg"
  shows "\<exists>p. reach idle_loop (pull_step cfg) p \<and> pl_draining p \<and> pl_inflight p = {} \<and> pl_asked p = Some (int (queue_maxsize cfg))"
proof -
  let ?p = "\<lparr>pl_queue = [], pl_busy = [], pl_inflight = {}, pl_asked = None, pl_draining = False\<rparr>"
  have "reach idle_loop (pull_step cfg) ?p" by (rule reach_init) (simp add: idle_loop_def)
  then have "reach idle_loop (pull_step cfg) (ask cfg ?p)" by (rule reach_step) (rule pull_ask)
  then have "reach idle_loop (pull_step cfg) (start_drain (ask cfg ?p))" by (rule reach_step) (rule pull_drain)
  moreover have "pl_draining (start_drain (ask cfg ?p)) \<and> pl_inflight (start_drain (ask cfg ?p)) = {}
      \<and> pl_asked (start_drain (ask cfg ?p)) = Some (int (queue_maxsize cfg))"
    using assms by (simp add: ask_def start_drain_def free_slots_def queue_maxsize_def)
  ultimately show ?thesis by blast
qed

text \<open>A drain that begins at the second look; one pull is in flight until the fourth.\<close>

definition demo_surroundings :: surroundings where
  "demo_surroundings = \<lparr>sr_clock = of_nat, sr_draining = (\<lambda>k. 1 \<le> k), sr_active = (\<lambda>k. if k < 3 then 1 else 0)\<rparr>"

theorem drain_ends_witness:
  "\<exists>j e. drain_watchdog demo_surroundings 30 = Some (j, e) \<and> 1 < j \<and> j \<le> 32 \<and> e = Drained"
proof -
  obtain j e where je: "drain_watchdog demo_surroundings 30 = Some (j, e)" "1 < j" "j \<le> 1 + nat \<lceil>30 :: rat\<rceil> + 1"
    and e: "case e of Drained \<Rightarrow> sr_active demo_surroundings j = 0 \<and> sr_clock demo_surroundings j < sr_clock demo_surroundings 1 + 30
        | TimedOut n \<Rightarrow> n = sr_active demo_surroundings j \<and> sr_clock demo_surroundings 1 + 30 \<le> sr_clock demo_surroundings j"
    and busy: "\<forall>i. 1 < i \<and> i < j \<longrightarrow> sr_active demo_surroundings i \<noteq> 0"
    using drain_ends [of demo_surroundings 1 30 0]
    by (auto simp: demo_surroundings_def ticking_def DRAIN_POLL_INTERVAL_SEC_def)
  have "j \<le> 3" using busy [THEN spec, of 3] by (auto simp: demo_surroundings_def)
  with e have "e = Drained" by (cases e) (auto simp: demo_surroundings_def)
  with je show ?thesis by simp
qed

end
