(* ===== verification/Spec2Isabelle.thy ===== *)
theory Spec2Isabelle
  imports System Delivery WorkerRuntime WorkerReport Downloader Processor Registry BundleCache WorkerFiles PubSub EventFeed Progress ReadModels BundleValidate ObjectStorage Reports ReadCache Templates AgentLifecycle
begin

text \<open>
  SatHop is a pipeline for satellite data. An orchestrator (a FastAPI service over SQL tables) owns the state of every
  granule; workers lease granules, download their inputs, run a bundle of user code on them and keep the outputs;
  receivers pull the outputs and acknowledge them; only then may a worker delete them. The three meet only through the
  orchestrator's HTTP endpoints. This development models the Python of \<^verbatim>\<open>src/sathop\<close>: the orchestrator, the
  worker, the receiver and what they share.

  The parts and the theories, from the bottom up (source paths under \<^verbatim>\<open>src/sathop\<close>):

  \<^item> Foundations. \<open>Prelude\<close>: time in microseconds, HTTP errors, sums as raising computations, tables as lists of rows with
    \<open>upd_where\<close>, \<open>del_where\<close>, \<open>row_count\<close>, \<open>get_row\<close>, and the locales \<open>invariant_system\<close> and \<open>stable_system\<close>, which every
    transition system of the development interprets. \<open>Text\<close>, \<open>PyValue\<close>, \<open>Float64\<close>: the Python strings, parsed YAML or JSON
    values and double floats that the code uses.
  \<^item> Shared code. \<open>StateMachine\<close> and \<open>Lifecycle\<close>: the pure state machine of a granule (\<^verbatim>\<open>shared/state_machine.py\<close>;
    \<open>apply_event\<close> is \<^verbatim>\<open>apply\<close>) and what it promises. \<open>Wire\<close>: versions, content ranges, bundle references,
    safe paths, archive wrappers. \<open>Manifest\<close>: \<^verbatim>\<open>bundle_manifest.py\<close> and \<^verbatim>\<open>bundle_schema.py\<close>. \<open>BundleValidate\<close>: the check of a
    bundle directory before its upload (\<^verbatim>\<open>bundle_validate.py\<close>).
    \<open>FlushBuffer\<close>: the coalescing buffer through which the agents report, with lost answers and cancellations.
  \<^item> Orchestrator. \<open>Database\<close>: the tables of \<^verbatim>\<open>orchestrator/db.py\<close> and the memory of one process as the record
    \<open>orch\<close>. \<open>Transition\<close>: \<^verbatim>\<open>api/_transition.py\<close>, which applies a transition to the tables. \<open>Ledger\<close>: the receipts of
    deliveries and the hard delete of granules. \<open>Integrity\<close>: the invariant \<open>db_inv\<close> of the tables and the locales for
    bulk updates. \<open>Leases\<close>, \<open>Agents\<close>, \<open>WorkersApi\<close>, \<open>ReceiversApi\<close>, \<open>BatchesApi\<close>, \<open>AdminApi\<close>: one definition per
    handler, \<open>orch \<Rightarrow> http_error + ('a \<times> orch)\<close>. \<open>Background\<close>, \<open>Rollout\<close>: the periodic tasks and the staged rollout.
    \<open>System\<close>: all of them as one transition system.
    \<open>Registry\<close>: the registry of bundles and shared files with its blob directories (\<^verbatim>\<open>api/bundles.py\<close>, \<^verbatim>\<open>api/shared.py\<close>,
    \<open>gc_bundles\<close>), composed with \<open>System\<close> so that batches may be created and deleted between uploads.
    \<open>PubSub\<close>: the nudges to the UI, coalesced and fanned out (\<^verbatim>\<open>pubsub.py\<close>, \<^verbatim>\<open>api/stream.py\<close>). \<open>EventFeed\<close>: the events in memory and
    in the database (\<^verbatim>\<open>event_store.py\<close>). \<open>Progress\<close>: the progress of running granules, from the bundle to the UI
    (\<^verbatim>\<open>api/progress.py\<close>, \<^verbatim>\<open>worker/progress.py\<close>). \<open>ReadModels\<close>, \<open>Reports\<close>: what the UI shows and exports
    (\<^verbatim>\<open>api/batch_readmodels.py\<close>, \<^verbatim>\<open>api/admin_readmodels.py\<close>, \<^verbatim>\<open>api/timing.py\<close>, \<^verbatim>\<open>api/batch_reports.py\<close>, \<^verbatim>\<open>api/deliveries.py\<close>,
    \<^verbatim>\<open>api/csv_export.py\<close>). \<open>ReadCache\<close>: the cache in front of the dashboard (\<^verbatim>\<open>read_cache.py\<close>). \<open>Templates\<close>: the presets of the
    operator (\<^verbatim>\<open>api/templates.py\<close>).
  \<^item> Receiver. \<open>ReceiverAgent\<close>: downloads in segments, acknowledgements, the bounded queue (\<^verbatim>\<open>receiver/puller.py\<close>,
    \<^verbatim>\<open>receiver/runtime.py\<close>). \<open>Delivery\<close>: the composition of pull, download and acknowledgement.
    \<open>AgentLifecycle\<close>: the drain of an agent and the end of its process (\<^verbatim>\<open>shared/agent_lifecycle.py\<close>).
  \<^item> Worker. \<open>WorkerHandler\<close>: the journey of one granule and the events it reports; \<open>WorkerReport\<close>: their way through the
    batched ingress of the orchestrator. \<open>WorkerRuntime\<close>: the control plane, composed with the heartbeat of the orchestrator. \<open>Downloader\<close>: the
    resumable download of an input. \<open>Processor\<close>: the environment and the run of a bundle. \<open>BundleCache\<close>: fetching, unpacking and
    flattening a bundle, the listing the orchestrator shows of it, and the cache of shared files (\<^verbatim>\<open>worker/bundle.py\<close>,
    \<^verbatim>\<open>worker/shared.py\<close>). \<open>WorkerFiles\<close>: work directories, their cleanup, and the eviction of bundles
    (\<^verbatim>\<open>worker/_paths.py\<close>, \<^verbatim>\<open>worker/cleanup.py\<close>). \<open>ObjectStorage\<close>: the local storage of outputs
    (\<^verbatim>\<open>worker/storage.py\<close>).

  Correspondence. A table is a list of records with the columns as fields; an SQL statement is an operation of the prelude on
  it; a handler is the whole handler, in the order of its statements, with every raise a left result, and the caller
  keeps the old state when it raises (the session rolls back). Wall-clock time, tokens, digests and the order in which SQL
  may pick rows are arguments. Handlers run one after the other: SQLite serialises writers, and where Postgres would
  interleave two statements of one handler and the code relies on a re-check, the statements are separate steps
  (\<open>sweep_update\<close>). The agents are asynchronous programs: what runs between two awaits is one step. Downloads, storage,
  subprocesses and the network are arguments that answer, fail or are cancelled; what they must
  promise is a named predicate in the theorem that needs it, with a witness: \<open>honest\<close> and \<open>truthful\<close> say that the body of a
  partial response carries the bytes its own \<^verbatim>\<open>Content-Range\<close> declares, not that it answers what was asked.

  What the groups of lemmas show: the edges of the life cycle of a granule, and that leases, retries and error texts of a row
  stay well formed; that claims and pulls are exclusive, and a renewed lease survives a concurrent sweep; that a receipt
  is written with the acknowledgement and never lost or rewritten; that batched and single ingress, the three modes
  of reporting, bulk and per-row revocation agree; that a row is blacklisted by the failure that exhausts its budget;
  that a rollout is unique, gated and ends; that a segmented, a
  single and a resumed download are exact; that a buffer loses nothing but what it sheds and what a cancellation cuts during a
  post; that the worker and the orchestrator agree on what is in hand, except for a granule leased again while an earlier
  handler of it still runs (\<open>overtaken\<close>); that a bundle sees no secret of its worker. That the
  registry can serve the bundle of every batch; that a listing shows what a worker unpacks; that a synchronised cache
  notes what the registry holds, and holds it where its notes were true; that cleanup spares what is in hand and eviction is least-recently-used;
  that a stored object is what was put; that every nudge reaches the UI, paced; that the two event logs agree; that progress is bounded and, for
  a granule whose events name its batch, evicted without a trace; that all views of the figures agree and the exported ledger is the listed one; that no answer of the cache is
  staler than it promises; that the check of a bundle before its upload agrees with the parser.

  Termination, bounds and fuel. No model has fuel. The paging loops of the ledger terminate by the number of rows beyond
  the cursor, the drain of a buffer by its length, the retries of a segment by the attempts left
  (\<open>SEGMENT_MAX_RETRIES\<close>); the rollout is shown to end after four ticks that are a timeout apart, and
  the watchdog of a drain, a loop that may run for ever, to return after its deadline if the clock ticks. Python's
  integers are \<open>int\<close> and \<open>nat\<close>; floats are exact rationals rounded by \<open>f64\<close>; bytes are \<open>8 word\<close>. No fixed-width
  arithmetic occurs in the source.

  Not modelled. Engine creation, migrations and the leader lock (SQLAlchemy and Postgres plumbing); the gauges for
  Prometheus and the header rows of the exports, which change no state; the HTTP clients, TLS, entry points and signal handling of the agents;
  the aria2 and the MinIO backends beyond their options and results; command line tools, scripts, benchmarks and
  the TypeScript frontend. The regular-expression engine, YAML, JSON, zip and SHA-256 are parameters.
\<close>

end
